(* ===== verification/Prelude.thy ===== *)
theory Prelude
  imports Main "HOL-Library.Word"
begin

text \<open>
  Shared vocabulary of the development: bytes, the result type that carries Go's error returns and
  panics as values, state-threading operations that may fail, big-endian integers
  (\<^verbatim>\<open>encoding/binary\<close>), and the decimal and hexadecimal printers (\<^verbatim>\<open>fmt\<close>, \<^verbatim>\<open>encoding/hex\<close>) used to
  render constraint sources.
\<close>

type_synonym byte = "8 word"
type_synonym bytes = "byte list"

section \<open>Failures as values\<close>

text \<open>
  A Go function of the program ends in one of three ways: it returns a value, it returns an
  \<^verbatim>\<open>error\<close>, or it panics. \<open>Error\<close> and \<open>Panic\<close> keep the last two apart; the \<open>fault\<close> says why.
\<close>

datatype fault =
    Index_out_of_range
  | Slice_out_of_range
  | Too_many_elements
  | Unexpected_EOF
  | Prefix_exceeds_max
  | Bytes_left_over
  | Wrong_len_prefix
  | Too_long_data
  | Element_too_long
  | Very_bad
  | Wrong_data_length
  | Not_the_constraint
  | Unknown_prefix
  | Repeating_name
  | Repeating_prefix
  | Wrong_prefix_length
  | Wrong_array8_index
  | Repeating_input
  | Input_not_found
  | No_outputs
  | No_inputs
  | Endorsement_limit
  | Repeating_endorsement
  | Duplicated_constraint
  | Constraint_failed
  | Empty_constraint
  | Not_enough_deposit
  | Amount_overflow
  | Unbalanced_amounts
  | Wrong_input_commitment
  | ID_too_long
  | Unsupported_partition
  | Not_indexed
  | Output_not_found
  | Too_few_constraints
  | Too_many_constraints
  | Too_many_outputs
  | Wrong_reference
  | Not_enough_tokens
  | Wrong_arguments
  | Inconsistency
  | Nil_pointer
  | External_fault nat

datatype error = Panic fault | Error fault

type_synonym 'a res = "error + 'a"

fun rbind :: "'a res \<Rightarrow> ('a \<Rightarrow> 'b res) \<Rightarrow> 'b res" where
  "rbind (Inl e) f = Inl e"
| "rbind (Inr x) f = f x"

definition rmap :: "('a \<Rightarrow> 'b) \<Rightarrow> 'a res \<Rightarrow> 'b res" where
  "rmap f r = rbind r (\<lambda>x. Inr (f x))"

definition guard :: "bool \<Rightarrow> error \<Rightarrow> unit res" where
  "guard b e = (if b then Inr () else Inl e)"

definition nth_res :: "'a list \<Rightarrow> nat \<Rightarrow> 'a res" where
  \<comment> \<open>Go's \<open>xs[i]\<close>: panics out of range\<close>
  "nth_res xs i = (if i < length xs then Inr (xs ! i) else Inl (Panic Index_out_of_range))"

fun as_panic :: "'a res \<Rightarrow> 'a res" where
  \<comment> \<open>\<open>if err != nil { panic(err) }\<close>\<close>
  "as_panic (Inl (Error f)) = Inl (Panic f)"
| "as_panic r = r"

fun catch_panic :: "'a res \<Rightarrow> 'a res" where
  \<comment> \<open>\<open>CatchPanicOrError\<close>: a panic of the callee becomes a returned error\<close>
  "catch_panic (Inl (Panic f)) = Inl (Error f)"
| "catch_panic r = r"

fun rfold :: "('a \<Rightarrow> 's \<Rightarrow> 's res) \<Rightarrow> 'a list \<Rightarrow> 's \<Rightarrow> 's res" where
  \<comment> \<open>a loop that stops at the first failure\<close>
  "rfold f [] s = Inr s"
| "rfold f (x # xs) s = rbind (f x s) (rfold f xs)"

fun rmapM :: "('a \<Rightarrow> 'b res) \<Rightarrow> 'a list \<Rightarrow> 'b list res" where
  "rmapM f [] = Inr []"
| "rmapM f (x # xs) = rbind (f x) (\<lambda>y. rbind (rmapM f xs) (\<lambda>ys. Inr (y # ys)))"

definition is_ok :: "'a res \<Rightarrow> bool" where
  "is_ok r = (case r of Inl _ \<Rightarrow> False | Inr _ \<Rightarrow> True)"

lemma rbind_Inr_iff [simp]: "rbind r f = Inr y \<longleftrightarrow> (\<exists>x. r = Inr x \<and> f x = Inr y)"
  by (cases r) auto

lemma rbind_Inr_right [simp]: "rbind r Inr = r"
  by (cases r) auto

lemma rbind_assoc: "rbind (rbind r f) g = rbind r (\<lambda>x. rbind (f x) g)"
  by (cases r) auto

lemma rbind_split_asm:
  "P (rbind r f) = (\<not> ((\<exists>e. r = Inl e \<and> \<not> P (Inl e)) \<or> (\<exists>x. r = Inr x \<and> \<not> P (f x))))"
  by (cases r) auto

lemma rmap_simps [simp]: "rmap f (Inl e) = Inl e" "rmap f (Inr x) = Inr (f x)"
  by (simp_all add: rmap_def)

lemma rmap_Inr_iff [simp]: "rmap f r = Inr y \<longleftrightarrow> (\<exists>x. r = Inr x \<and> y = f x)"
  by (cases r) auto

lemma guard_Inr_iff [simp]: "guard b e = Inr u \<longleftrightarrow> b"
  by (simp add: guard_def)

lemma guard_simps [simp]: "guard True e = Inr ()" "guard False e = Inl e"
  by (simp_all add: guard_def)

lemma nth_res_Inr_iff [simp]: "nth_res xs i = Inr x \<longleftrightarrow> i < length xs \<and> xs ! i = x"
  by (auto simp: nth_res_def)

lemma nth_res_ok [simp]: "i < length xs \<Longrightarrow> nth_res xs i = Inr (xs ! i)"
  by simp

lemma nth_res_Inl_iff [simp]:
  "nth_res xs i = Inl e \<longleftrightarrow> \<not> i < length xs \<and> e = Panic Index_out_of_range"
  by (auto simp: nth_res_def)

lemma as_panic_Inr_iff [simp]: "as_panic r = Inr x \<longleftrightarrow> r = Inr x"
  by (cases r rule: as_panic.cases) auto

lemma as_panic_Inr [simp]: "as_panic (Inr x) = Inr x"
  by simp

lemma as_panic_Inl_iff [simp]: "as_panic r = Inl e \<longleftrightarrow> (\<exists>f. e = Panic f \<and> (r = Inl (Panic f) \<or> r = Inl (Error f)))"
  by (cases r rule: as_panic.cases) auto

lemma as_panic_Inl_neq [simp]: "as_panic (Inl e) \<noteq> Inr x"
  by simp

lemma as_panic_idem [simp]: "as_panic (as_panic r) = as_panic r"
  by (cases r rule: as_panic.cases) auto

lemma catch_panic_Inr_iff [simp]: "catch_panic r = Inr x \<longleftrightarrow> r = Inr x"
  by (cases r rule: catch_panic.cases) auto

lemma catch_panic_no_panic [simp]: "catch_panic r \<noteq> Inl (Panic f)"
  by (cases r rule: catch_panic.cases) auto

lemma is_ok_simps [simp]: "is_ok (Inr x)" "\<not> is_ok (Inl e)"
  by (simp_all add: is_ok_def)

lemma is_ok_iff: "is_ok r \<longleftrightarrow> (\<exists>x. r = Inr x)"
  by (cases r) auto

lemma rmapM_Inr_iff:
  "rmapM f xs = Inr ys \<longleftrightarrow> length ys = length xs \<and> (\<forall>i < length xs. f (xs ! i) = Inr (ys ! i))"
proof (induction xs arbitrary: ys)
  case Nil
  then show ?case by auto
next
  case (Cons x xs)
  show ?case
    by (cases ys) (auto simp: Cons.IH less_Suc_eq_0_disj)
qed

lemma rmapM_length: "rmapM f xs = Inr ys \<Longrightarrow> length ys = length xs"
  by (simp add: rmapM_Inr_iff)

lemma rfold_append: "rfold f (xs @ ys) s = rbind (rfold f xs s) (rfold f ys)"
proof (induction xs arbitrary: s)
  case Nil
  then show ?case by simp
next
  case (Cons x xs)
  then show ?case by (cases "f x s") simp_all
qed

text \<open>An invariant of the loop body is an invariant of a loop that returns.\<close>

lemma rfold_invariant:
  assumes "rfold f xs s = Inr t" and "I s"
    and "\<And>x s t. x \<in> set xs \<Longrightarrow> I s \<Longrightarrow> f x s = Inr t \<Longrightarrow> I t"
  shows "I t"
  using assms
proof (induction xs arbitrary: s)
  case Nil
  then show ?case by simp
next
  case (Cons x xs)
  from Cons.prems(1) obtain u where u: "f x s = Inr u" "rfold f xs u = Inr t" by auto
  have "I u" using Cons.prems(2,3) u(1) by (meson list.set_intros(1))
  then show ?case using Cons.IH [OF u(2)] Cons.prems(3) by (meson list.set_intros(2))
qed

text \<open>A loop that returns has run its body on every element.\<close>

lemma rfold_each:
  assumes "rfold f xs s = Inr t" "x \<in> set xs"
  shows "\<exists>u w. f x u = Inr w"
  using assms by (induction xs arbitrary: s) auto

lemma enumerate_mem: "i < length xs \<Longrightarrow> (i, xs ! i) \<in> set (enumerate 0 xs)"
  by (simp add: in_set_enumerate_eq)

section \<open>Operations on a mutable object\<close>

text \<open>
  A method on a pointer receiver takes the object and gives the result and the object as it is
  left, also when it panics: Go's panics do not undo writes.
\<close>

type_synonym ('a, 's) op = "'s \<Rightarrow> 'a res \<times> 's"

definition ret :: "'a \<Rightarrow> ('a, 's) op" where
  "ret x = (\<lambda>s. (Inr x, s))"

definition sbind :: "('a, 's) op \<Rightarrow> ('a \<Rightarrow> ('b, 's) op) \<Rightarrow> ('b, 's) op" where
  "sbind m f = (\<lambda>s. case m s of (Inl e, s') \<Rightarrow> (Inl e, s') | (Inr x, s') \<Rightarrow> f x s')"

lemma sbind_simps [simp]:
  "m s = (Inl e, s') \<Longrightarrow> sbind m f s = (Inl e, s')"
  "m s = (Inr x, s') \<Longrightarrow> sbind m f s = f x s'"
  by (simp_all add: sbind_def)

lemma sbind_Inr_iff:
  "sbind m f s = (Inr y, t) \<longleftrightarrow> (\<exists>x s'. m s = (Inr x, s') \<and> f x s' = (Inr y, t))"
  by (auto simp: sbind_def split: prod.splits sum.splits)

fun op_all :: "('d \<Rightarrow> ('x, 's) op) \<Rightarrow> 'd list \<Rightarrow> (unit, 's) op" where
  \<comment> \<open>\<open>for _, d := range ds { s.f(d) }\<close>\<close>
  "op_all f [] = ret ()"
| "op_all f (d # ds) = sbind (f d) (\<lambda>_. op_all f ds)"

fun op_seq :: "('q \<Rightarrow> ('x, 's) op) \<Rightarrow> 'q list \<Rightarrow> 's \<Rightarrow> 'x res list \<times> 's" where
  \<comment> \<open>a client that goes on after failed calls: every result is kept\<close>
  "op_seq f [] s = ([], s)"
| "op_seq f (q # qs) s = (case f q s of (r, t) \<Rightarrow> case op_seq f qs t of (rs, u) \<Rightarrow> (r # rs, u))"

section \<open>Big-endian integers\<close>

fun be :: "nat \<Rightarrow> nat \<Rightarrow> bytes" where
  "be 0 n = []"
| "be (Suc k) n = be k (n div 256) @ [of_nat n]"

definition be_val :: "bytes \<Rightarrow> nat" where
  "be_val bs = foldl (\<lambda>a b. a * 256 + unat b) 0 bs"

lemma be_numeral: "be (numeral k) n = be (pred_numeral k) (n div 256) @ [of_nat (n mod 256)]"
proof -
  have "(of_nat n :: byte) = of_nat (n mod 256)"
    by (simp add: word_unat_eq_iff unat_of_nat)
  then show ?thesis by (simp only: numeral_eq_Suc be.simps)
qed

lemma be_val_Nil [simp]: "be_val [] = 0"
  by (simp add: be_val_def)

lemma be_val_snoc [simp]: "be_val (bs @ [b]) = be_val bs * 256 + unat b"
  by (simp add: be_val_def)

lemma length_be [simp]: "length (be k n) = k"
  by (induction k arbitrary: n) auto

lemma unat_byte_of_nat [simp]: "unat (of_nat n :: byte) = n mod 256"
  by (simp add: unat_of_nat)

lemma unat_word_less: "unat (w :: 'a::len word) < 2 ^ LENGTH('a)"
  by (rule unsigned_less)

lemma unat_byte_less [simp]: "unat (b :: byte) < 256"
  using unat_word_less [of b] by simp

lemma unat_mod_width [simp]:
  "unat (v :: byte) mod 256 = unat v"
  "unat (w :: 16 word) mod 65536 = unat w"
  "unat (x :: 32 word) mod 4294967296 = unat x"
  "unat (y :: 64 word) mod 18446744073709551616 = unat y"
  using unat_word_less [of v] unat_word_less [of w] unat_word_less [of x] unat_word_less [of y]
  by simp_all

lemma be_val_be: "be_val (be k n) = n mod 256 ^ k"
proof (induction k arbitrary: n)
  case 0
  then show ?case by simp
next
  case (Suc k)
  then show ?case
    by (simp add: mod_mult2_eq mult.commute)
qed

lemma be_val_less: "be_val bs < 256 ^ length bs"
proof (induction bs rule: rev_induct)
  case Nil
  then show ?case by simp
next
  case (snoc b bs)
  have "unat b < 256" by simp
  with snoc have "be_val bs * 256 + unat b < (be_val bs + 1) * 256" by simp
  also have "\<dots> \<le> 256 ^ length bs * 256" using snoc by (intro mult_right_mono) auto
  finally show ?case by (simp add: mult.commute)
qed

lemma be_be_val: "length bs = k \<Longrightarrow> be k (be_val bs) = bs"
proof (induction bs arbitrary: k rule: rev_induct)
  case Nil
  then show ?case by simp
next
  case (snoc b bs)
  then obtain j where k: "k = Suc j" "length bs = j" by auto
  have "(be_val bs * 256 + unat b) div 256 = be_val bs"
    by (simp add: div_mult_self1 [of 256 "unat b"] add.commute)
  moreover have "(of_nat (be_val bs * 256 + unat b) :: byte) = b"
    by (rule word_unat_eq_iff [THEN iffD2]) (simp add: unat_of_nat del: of_nat_add of_nat_mult)
  ultimately show ?case using snoc.IH [OF k(2)] k by (simp del: of_nat_add of_nat_mult)
qed

lemma be_val_inject: "length xs = length ys \<Longrightarrow> be_val xs = be_val ys \<longleftrightarrow> xs = ys"
  by (metis be_be_val)

lemma be_inject: "m < 256 ^ k \<Longrightarrow> n < 256 ^ k \<Longrightarrow> be k m = be k n \<longleftrightarrow> m = n"
  by (metis be_val_be mod_less)

text \<open>\<^verbatim>\<open>binary.BigEndian.PutUint16/32/64\<close> and \<^verbatim>\<open>Uint16/32/64\<close>.\<close>

definition put_u16 :: "16 word \<Rightarrow> bytes" where "put_u16 w = be 2 (unat w)"
definition put_u32 :: "32 word \<Rightarrow> bytes" where "put_u32 w = be 4 (unat w)"
definition put_u64 :: "64 word \<Rightarrow> bytes" where "put_u64 w = be 8 (unat w)"

definition get_u16 :: "bytes \<Rightarrow> 16 word" where "get_u16 bs = of_nat (be_val bs)"
definition get_u32 :: "bytes \<Rightarrow> 32 word" where "get_u32 bs = of_nat (be_val bs)"
definition get_u64 :: "bytes \<Rightarrow> 64 word" where "get_u64 bs = of_nat (be_val bs)"

lemma length_put_u [simp]:
  "length (put_u16 w) = 2" "length (put_u32 x) = 4" "length (put_u64 y) = 8"
  by (simp_all add: put_u16_def put_u32_def put_u64_def)

lemma get_put_u16 [simp]: "get_u16 (put_u16 w) = w"
  by (simp add: get_u16_def put_u16_def be_val_be)

lemma get_put_u32 [simp]: "get_u32 (put_u32 w) = w"
  by (simp add: get_u32_def put_u32_def be_val_be)

lemma get_put_u64 [simp]: "get_u64 (put_u64 w) = w"
  by (simp add: get_u64_def put_u64_def be_val_be)

lemma unat_get_u16: "length bs = 2 \<Longrightarrow> unat (get_u16 bs) = be_val bs"
  using be_val_less [of bs] by (simp add: get_u16_def unat_of_nat)

lemma unat_get_u32: "length bs = 4 \<Longrightarrow> unat (get_u32 bs) = be_val bs"
  using be_val_less [of bs] by (simp add: get_u32_def unat_of_nat)

lemma unat_get_u64: "length bs = 8 \<Longrightarrow> unat (get_u64 bs) = be_val bs"
  using be_val_less [of bs] by (simp add: get_u64_def unat_of_nat)

lemma be_val_put_u [simp]:
  "be_val (put_u16 w) = unat w" "be_val (put_u32 x) = unat x" "be_val (put_u64 y) = unat y"
  by (simp_all add: put_u16_def put_u32_def put_u64_def be_val_be)

lemma put_get_u16: "length bs = 2 \<Longrightarrow> put_u16 (get_u16 bs) = bs"
  by (simp add: put_u16_def unat_get_u16 be_be_val)

lemma put_get_u32: "length bs = 4 \<Longrightarrow> put_u32 (get_u32 bs) = bs"
  by (simp add: put_u32_def unat_get_u32 be_be_val)

lemma put_get_u64: "length bs = 8 \<Longrightarrow> put_u64 (get_u64 bs) = bs"
  by (simp add: put_u64_def unat_get_u64 be_be_val)

section \<open>Printing numbers and byte strings\<close>

fun dec :: "nat \<Rightarrow> string" where
  \<comment> \<open>\<open>fmt.Sprintf("%d", n)\<close>\<close>
  "dec n = (if n < 10 then [char_of (48 + n)] else dec (n div 10) @ [char_of (48 + n mod 10)])"

declare dec.simps [simp del]

definition hex_digit :: "nat \<Rightarrow> char" where
  "hex_digit n = (if n < 10 then char_of (48 + n) else char_of (87 + n))"

definition hex :: "bytes \<Rightarrow> string" where
  \<comment> \<open>\<open>hex.EncodeToString\<close>\<close>
  "hex bs = concat (map (\<lambda>b. [hex_digit (unat b div 16), hex_digit (unat b mod 16)]) bs)"

section \<open>Loops that only append\<close>

lemma rmap_rbind: "rmap f (rbind r g) = rbind r (\<lambda>x. rmap f (g x))"
  by (cases r) simp_all

lemma rbind_rmap: "rbind (rmap f r) g = rbind r (\<lambda>x. g (f x))"
  by (cases r) simp_all

lemma rmap_rmap: "rmap f (rmap g r) = rmap (\<lambda>x. f (g x)) r"
  by (cases r) simp_all

lemma rmap_append: "rmap ((@) (xs @ ys)) r = rmap ((@) xs) (rmap ((@) ys) r)"
  by (cases r) simp_all

lemma is_ok_rmap [simp]: "is_ok (rmap f r) = is_ok r"
  by (cases r) simp_all

lemma rfold_appends:
  assumes "\<And>x s. f x s = rmap ((@) s) (f x [])"
  shows "rfold f xs s = rmap ((@) s) (rfold f xs [])"
proof (induction xs arbitrary: s)
  case Nil
  then show ?case by simp
next
  case (Cons x xs)
  show ?case
  proof (cases "f x []")
    case (Inl e)
    then show ?thesis using assms [of x s] by simp
  next
    case (Inr y)
    have "rfold f (x # xs) s = rfold f xs (s @ y)" using assms [of x s] Inr by simp
    also have "\<dots> = rmap ((@) s) (rmap ((@) y) (rfold f xs []))"
      unfolding Cons [of "s @ y"] by (rule rmap_append)
    also have "\<dots> = rmap ((@) s) (rfold f (x # xs) [])"
      using Inr Cons [of y] by simp
    finally show ?thesis .
  qed
qed

end
