(* ===== verification/LazyCodec.thy ===== *)
theory LazyCodec
  imports Prelude
begin

text \<open>
  \<^verbatim>\<open>lazyslice/lazyslice.go\<close>, the wire format of arrays of byte strings: the two-byte prefix
  (two bits for the width of the length fields, fourteen for the number of elements),
  \<^verbatim>\<open>encodeArray\<close> and \<^verbatim>\<open>parseArray\<close> with their helpers. The lemmas characterise exactly which byte
  strings parse, and to what.

  Go allows a slice expression up to the capacity of the slice. In \<^verbatim>\<open>decodeElement\<close> the expression
  \<open>buf[n+sz:]\<close>, evaluated before anything is returned, panics beyond the length, so every read
  beyond the length ends in a panic, which is what the model has.
\<close>

unbundle bit_operations_syntax

section \<open>The length prefix\<close>

type_synonym lenPrefixType = "16 word"

definition dataLenBytes0 :: "16 word" where "dataLenBytes0 = push_bit 14 0"
definition dataLenBytes8 :: "16 word" where "dataLenBytes8 = push_bit 14 1"
definition dataLenBytes16 :: "16 word" where "dataLenBytes16 = push_bit 14 2"
definition dataLenBytes32 :: "16 word" where "dataLenBytes32 = push_bit 14 3"
definition dataLenMask :: "16 word" where "dataLenMask = push_bit 14 3"
definition arrayLenMask :: "16 word" where "arrayLenMask = NOT dataLenMask"
definition maxArrayLen :: nat where "maxArrayLen = unat arrayLenMask"
definition emptyArrayPrefix :: lenPrefixType where "emptyArrayPrefix = 0"

lemmas dataLen_defs = dataLenBytes0_def dataLenBytes8_def dataLenBytes16_def dataLenBytes32_def
  dataLenMask_def arrayLenMask_def

definition dataLenBytes :: "lenPrefixType \<Rightarrow> nat res" where
  "dataLenBytes dl =
     (let m = dl AND dataLenMask in
      if m = dataLenBytes0 then Inr 0
      else if m = dataLenBytes8 then Inr 1
      else if m = dataLenBytes16 then Inr 2
      else if m = dataLenBytes32 then Inr 4
      else Inl (Panic Very_bad))"

definition numElements :: "lenPrefixType \<Rightarrow> nat" where
  "numElements dl = unat (dl AND arrayLenMask)"

definition lenPrefix_Bytes :: "lenPrefixType \<Rightarrow> bytes" where
  "lenPrefix_Bytes dl = put_u16 dl"

definition MaxUint8 :: nat where "MaxUint8 = 2 ^ 8 - 1"
definition MaxUint16 :: nat where "MaxUint16 = 2 ^ 16 - 1"
definition MaxUint32 :: nat where "MaxUint32 = 2 ^ 32 - 1"

lemmas MaxUint_defs = MaxUint8_def MaxUint16_def MaxUint32_def

section \<open>Serialisation\<close>

fun calcLenPrefix_loop :: "bytes list \<Rightarrow> 16 word \<Rightarrow> 16 word res" where
  "calcLenPrefix_loop [] dl = Inr dl"
| "calcLenPrefix_loop (d # ds) dl =
     (if length d > MaxUint32 then Inl (Error Element_too_long)
      else let t = (if length d > MaxUint16 then dataLenBytes32
                    else if length d > MaxUint8 then dataLenBytes16
                    else if length d > 0 then dataLenBytes8
                    else dataLenBytes0)
           in calcLenPrefix_loop ds (if dl < t then t else dl))"

definition calcLenPrefix :: "bytes list \<Rightarrow> lenPrefixType res" where
  "calcLenPrefix data =
     (if length data > maxArrayLen then Inl (Error Too_long_data)
      else if length data = 0 then Inr emptyArrayPrefix
      else rbind (calcLenPrefix_loop data 0) (\<lambda>dl. Inr (dl OR of_nat (length data))))"

definition len_field :: "nat \<Rightarrow> bytes \<Rightarrow> bytes" where
  \<comment> \<open>the \<open>switch numDataLenBytes\<close> of \<open>writeData\<close>: the conversions truncate\<close>
  "len_field w d =
     (if w = 1 then [of_nat (length d)]
      else if w = 2 then put_u16 (of_nat (length d))
      else if w = 4 then put_u32 (of_nat (length d))
      else [])"

definition writeData :: "bytes list \<Rightarrow> nat \<Rightarrow> bytes" where
  "writeData data w = (if w = 0 then [] else concat (map (\<lambda>d. len_field w d @ d) data))"

definition encodeArray :: "bytes list \<Rightarrow> bytes res" where
  "encodeArray data =
     rbind (calcLenPrefix data) (\<lambda>prefix.
     rbind (dataLenBytes prefix) (\<lambda>w.
     Inr (lenPrefix_Bytes prefix @ writeData data w)))"

section \<open>Parsing\<close>

definition take_res :: "nat \<Rightarrow> bytes \<Rightarrow> bytes res" where
  \<comment> \<open>\<open>buf[:n]\<close>\<close>
  "take_res n buf = (if n \<le> length buf then Inr (take n buf) else Inl (Panic Slice_out_of_range))"

definition decodeElement :: "bytes \<Rightarrow> nat \<Rightarrow> (bytes \<times> bytes) res" where
  "decodeElement buf w =
     rbind
       (if w = 0 then Inr 0
        else if w = 1 then rbind (nth_res buf 0) (\<lambda>b. Inr (unat b))
        else if w = 2 then rbind (take_res 2 buf) (\<lambda>b. Inr (unat (get_u16 b)))
        else if w = 4 then rbind (take_res 4 buf) (\<lambda>b. Inr (unat (get_u32 b)))
        else Inl (Error Wrong_len_prefix))
       (\<lambda>sz. if w + sz \<le> length buf then Inr (drop (w + sz) buf, take sz (drop w buf))
             else Inl (Panic Slice_out_of_range))"

fun decodeData :: "bytes \<Rightarrow> nat \<Rightarrow> nat \<Rightarrow> bytes list res" where
  "decodeData data w 0 = (if length data \<noteq> 0 then Inl (Error Bytes_left_over) else Inr [])"
| "decodeData data w (Suc n) =
     rbind (decodeElement data w) (\<lambda>(data', d).
     rbind (decodeData data' w n) (\<lambda>ds. Inr (d # ds)))"

definition parseArray :: "bytes \<Rightarrow> nat \<Rightarrow> bytes list res" where
  "parseArray data maxNumElements =
     (if length data < 2 then Inl (Error Unexpected_EOF)
      else let prefix = get_u16 (take 2 data) in
        if numElements prefix > maxNumElements then Inl (Error Prefix_exceeds_max)
        else rbind (dataLenBytes prefix) (\<lambda>w. decodeData (drop 2 data) w (numElements prefix)))"

section \<open>Prefix arithmetic\<close>

definition widths :: "nat set" where "widths = {0, 1, 2, 4}"

definition width_code :: "nat \<Rightarrow> 16 word" where
  "width_code w =
     (if w = 0 then dataLenBytes0 else if w = 1 then dataLenBytes8
      else if w = 2 then dataLenBytes16 else dataLenBytes32)"

definition mk_prefix :: "nat \<Rightarrow> nat \<Rightarrow> 16 word" where
  "mk_prefix w n = width_code w OR of_nat n"

lemma maxArrayLen_eq: "maxArrayLen = 16383"
  by (simp add: maxArrayLen_def arrayLenMask_def dataLenMask_def)

lemma arrayLenMask_mask: "arrayLenMask = mask 14"
  by (simp add: arrayLenMask_def dataLenMask_def mask_eq_exp_minus_1)

lemma dataLenMask_mask: "dataLenMask = NOT (mask 14)"
  by (simp add: dataLenMask_def mask_eq_exp_minus_1)

lemma low14: "n < 2 ^ 14 \<Longrightarrow> take_bit 14 (of_nat n :: 16 word) = of_nat n"
  by (simp add: take_bit_of_nat take_bit_nat_eq_self)

lemma high_part: "take_bit 14 x = x \<Longrightarrow> x AND dataLenMask = (0 :: 16 word)"
proof -
  assume x: "take_bit 14 x = x"
  have "take_bit 14 x AND NOT (mask 14) = 0"
    by (rule bit_word_eqI) (auto simp: bit_simps)
  then show ?thesis by (simp only: x dataLenMask_mask)
qed

lemma width_code_mask: "width_code w AND dataLenMask = width_code w"
  by (simp add: width_code_def dataLen_defs)

lemma width_code_low: "width_code w AND arrayLenMask = 0"
  by (simp add: width_code_def dataLen_defs)

lemma mk_prefix_width: "n < 2 ^ 14 \<Longrightarrow> mk_prefix w n AND dataLenMask = width_code w"
  by (simp add: mk_prefix_def bit.conj_disj_distrib2 high_part [OF low14] width_code_mask)

lemma mk_prefix_low: "n < 2 ^ 14 \<Longrightarrow> mk_prefix w n AND arrayLenMask = of_nat n"
  using low14 [of n]
  by (simp add: mk_prefix_def bit.conj_disj_distrib2 width_code_low)
    (simp add: arrayLenMask_mask take_bit_eq_mask)

lemma numElements_mk_prefix [simp]: "n < 2 ^ 14 \<Longrightarrow> numElements (mk_prefix w n) = n"
  by (simp add: numElements_def mk_prefix_low unat_of_nat)

lemma dataLenBytes_mk_prefix [simp]:
  "w \<in> widths \<Longrightarrow> n < 2 ^ 14 \<Longrightarrow> dataLenBytes (mk_prefix w n) = Inr w"
  unfolding dataLenBytes_def mk_prefix_width
  by (auto simp: Let_def width_code_def widths_def dataLenBytes0_def dataLenBytes8_def
      dataLenBytes16_def dataLenBytes32_def)

lemma numElements_less: "numElements p < 2 ^ 14"
proof -
  have "numElements p = take_bit 14 (unat p)"
    by (simp add: numElements_def arrayLenMask_mask flip: take_bit_eq_mask unsigned_take_bit_eq)
  then show ?thesis by (simp only: take_bit_nat_less_exp)
qed

text \<open>The prefix splits into the two fields: the \<^verbatim>\<open>panic("very bad")\<close> of the code is unreachable.\<close>

lemma prefix_cases:
  obtains w where "w \<in> widths" "dataLenBytes p = Inr w" "p = mk_prefix w (numElements p)"
proof -
  have split: "p = (p AND dataLenMask) OR of_nat (numElements p)"
    by (simp add: numElements_def arrayLenMask_def flip: bit.conj_disj_distrib)
  have "p AND dataLenMask = push_bit 14 (drop_bit 14 p)"
    by (rule bit_word_eqI) (auto simp: dataLenMask_mask bit_simps)
  moreover have "unat (drop_bit 14 p) < 4"
    using unat_word_less [of p] by (simp add: unat_div drop_bit_eq_div)
  then have "drop_bit 14 p \<in> {0, 1, 2, 3}"
    by (auto simp: word_unat_eq_iff)
  ultimately have "p AND dataLenMask \<in> {dataLenBytes0, dataLenBytes8, dataLenBytes16, dataLenBytes32}"
    by (auto simp: dataLen_defs)
  also have "\<dots> = width_code ` widths"
    by (simp add: widths_def width_code_def insert_commute)
  finally obtain w where w: "w \<in> widths" "p AND dataLenMask = width_code w"
    by (rule imageE) (rule that)
  have p: "p = mk_prefix w (numElements p)"
    unfolding mk_prefix_def w(2) [symmetric] by (rule split)
  have "dataLenBytes (mk_prefix w (numElements p)) = Inr w"
    using w(1) numElements_less by (rule dataLenBytes_mk_prefix)
  then have "dataLenBytes p = Inr w" by (simp only: p [symmetric])
  with w(1) show ?thesis using p by (rule that)
qed

section \<open>One element\<close>

definition fits :: "nat \<Rightarrow> bytes \<Rightarrow> bool" where
  "fits w d \<longleftrightarrow> length d < 256 ^ w"

definition payload :: "nat \<Rightarrow> bytes list \<Rightarrow> bytes" where
  "payload w ds = concat (map (\<lambda>d. len_field w d @ d) ds)"

lemma payload_simps [simp]:
  "payload w [] = []" "payload w (d # ds) = len_field w d @ d @ payload w ds"
  by (simp_all add: payload_def)

lemma len_field_be:
  assumes "w \<in> widths" and "fits w d"
  shows "len_field w d = be w (length d)"
proof -
  have "length d < 2 ^ 32" using assms by (auto simp: widths_def fits_def)
  with assms show ?thesis
    by (auto simp: widths_def fits_def len_field_def put_u16_def put_u32_def unat_of_nat)
qed

lemma length_len_field [simp]: "w \<in> widths \<Longrightarrow> length (len_field w d) = w"
  by (auto simp: widths_def len_field_def)

text \<open>The length that \<open>decodeElement\<close> reads is the value of the first \<open>w\<close> bytes.\<close>

lemma decodeElement_eq:
  assumes "w \<in> widths" and "w \<le> length buf" and "n = be_val (take w buf)"
  shows "decodeElement buf w =
    (if w + n \<le> length buf then Inr (drop (w + n) buf, take n (drop w buf))
     else Inl (Panic Slice_out_of_range))"
proof -
  consider "w = 0" | "w = 1" | "w = 2" | "w = 4" using assms(1) by (auto simp: widths_def)
  then show ?thesis
  proof cases
    case 1
    then show ?thesis using assms(3) by (simp add: decodeElement_def)
  next
    case 2
    then obtain b bs where "buf = b # bs" using assms(2) by (cases buf) auto
    then show ?thesis using 2 assms(3) by (simp add: decodeElement_def nth_res_def be_val_def)
  next
    case 3
    then show ?thesis using assms(2,3) by (simp add: decodeElement_def take_res_def unat_get_u16)
  next
    case 4
    then show ?thesis using assms(2,3) by (simp add: decodeElement_def take_res_def unat_get_u32)
  qed
qed

lemma decodeElement_short:
  "w \<in> widths \<Longrightarrow> length buf < w \<Longrightarrow> \<exists>f. decodeElement buf w = Inl (Panic f)"
  by (auto simp: widths_def decodeElement_def take_res_def nth_res_def)

lemma decodeElement_encode [simp]:
  assumes "w \<in> widths" and "fits w d"
  shows "decodeElement (len_field w d @ d @ rest) w = Inr (rest, d)"
proof -
  have "be_val (len_field w d) = length d"
    using assms by (simp add: len_field_be be_val_be fits_def)
  then have "length d = be_val (take w (len_field w d @ d @ rest))"
    using assms(1) by simp
  from decodeElement_eq [OF assms(1) _ this] show ?thesis
    using assms(1) by simp
qed

lemma decodeElement_size:
  assumes "w \<in> widths" and "decodeElement buf w = Inr (rest, d)" and "n = be_val (take w buf)"
  shows "w + n \<le> length buf" and "rest = drop n (drop w buf)" and "d = take n (drop w buf)"
proof -
  have "w \<le> length buf"
    using assms(1,2) decodeElement_short [of w buf] by fastforce
  from assms(2) show "w + n \<le> length buf" "rest = drop n (drop w buf)" "d = take n (drop w buf)"
    unfolding decodeElement_eq [OF assms(1) \<open>w \<le> length buf\<close> assms(3)]
    by (auto simp: add.commute split: if_splits)
qed

lemma decodeElement_Inr:
  assumes "w \<in> widths" and "decodeElement buf w = Inr (rest, d)"
  shows "buf = len_field w d @ d @ rest \<and> fits w d"
proof -
  let ?n = "be_val (take w buf)"
  note size = decodeElement_size [OF assms refl]
  have len: "length d = ?n" and w: "w \<le> length buf"
    using size(1,3) by auto
  have fits: "fits w d"
    using be_val_less [of "take w buf"] w by (simp add: fits_def len)
  have "be w (length d) = take w buf"
    using w by (simp add: len be_be_val)
  then have field: "len_field w d = take w buf"
    by (simp add: len_field_be [OF assms(1) fits])
  have "d @ rest = drop w buf"
    unfolding size(2,3) by (rule append_take_drop_id)
  then show ?thesis using fits field by simp
qed

section \<open>The whole array\<close>

lemma decodeData_payload:
  "w \<in> widths \<Longrightarrow> \<forall>d \<in> set ds. fits w d \<Longrightarrow> decodeData (payload w ds) w (length ds) = Inr ds"
  by (induction ds) auto

lemma decodeData_Inr:
  "w \<in> widths \<Longrightarrow> decodeData buf w n = Inr ds
     \<Longrightarrow> buf = payload w ds \<and> length ds = n \<and> (\<forall>d \<in> set ds. fits w d)"
proof (induction n arbitrary: buf ds)
  case 0
  then show ?case by (simp split: if_splits)
next
  case (Suc n)
  then obtain rest d ds' where 1: "decodeElement buf w = Inr (rest, d)"
    and 2: "decodeData rest w n = Inr ds'" and ds: "ds = d # ds'"
    by auto
  show ?case
    using decodeElement_Inr [OF Suc.prems(1) 1] Suc.IH [OF Suc.prems(1) 2] ds by auto
qed

text \<open>
  \<open>wire w ds\<close> is the serialised form of \<open>ds\<close> with length fields of \<open>w\<close> bytes. A byte string parses
  to \<open>ds\<close> exactly when it is one of these forms, for a width that is wide enough.
\<close>

definition wire :: "nat \<Rightarrow> bytes list \<Rightarrow> bytes" where
  "wire w ds = put_u16 (mk_prefix w (length ds)) @ payload w ds"

definition wire_ok :: "nat \<Rightarrow> bytes list \<Rightarrow> bool" where
  "wire_ok w ds \<longleftrightarrow> w \<in> widths \<and> length ds \<le> maxArrayLen \<and> (\<forall>d \<in> set ds. fits w d)"

lemma parseArray_wire:
  assumes "wire_ok w ds" and "length ds \<le> mx"
  shows "parseArray (wire w ds) mx = Inr ds"
  using assms
  by (simp add: wire_def wire_ok_def parseArray_def maxArrayLen_eq Let_def decodeData_payload)

lemma parseArray_Inr:
  assumes "parseArray bs mx = Inr ds"
  obtains w where "wire_ok w ds" "length ds \<le> mx" "bs = wire w ds"
proof -
  define p where "p = get_u16 (take 2 bs)"
  have len: "2 \<le> length bs" and num: "numElements p \<le> mx"
    using assms by (auto simp: parseArray_def Let_def p_def split: if_splits)
  obtain w where w: "w \<in> widths" "dataLenBytes p = Inr w" "p = mk_prefix w (numElements p)"
    by (rule prefix_cases)
  have "decodeData (drop 2 bs) w (numElements p) = Inr ds"
    using assms len num w(2) by (simp add: parseArray_def Let_def flip: p_def)
  note dec = decodeData_Inr [OF w(1) this]
  have "put_u16 p = take 2 bs"
    using len by (simp add: p_def put_get_u16)
  then have "bs = put_u16 p @ payload w ds"
    using dec by (metis append_take_drop_id)
  then have "bs = wire w ds"
    using dec w(3) by (simp add: wire_def)
  moreover have "wire_ok w ds"
    using dec w(1) numElements_less [of p] by (simp add: wire_ok_def maxArrayLen_eq)
  moreover have "length ds \<le> mx" using dec num by simp
  ultimately show ?thesis by (intro that)
qed

lemma parseArray_max_mono: "parseArray bs mx = Inr ds \<Longrightarrow> mx \<le> my \<Longrightarrow> parseArray bs my = Inr ds"
  by (erule parseArray_Inr) (simp add: parseArray_wire)

lemma parseArray_lower_max:
  "parseArray bs mx = Inr ds \<Longrightarrow> length ds \<le> my \<Longrightarrow> parseArray bs my = Inr ds"
  by (erule parseArray_Inr) (simp add: parseArray_wire)

lemma parseArray_length: "parseArray bs mx = Inr ds \<Longrightarrow> length ds \<le> mx \<and> length ds \<le> maxArrayLen"
  by (erule parseArray_Inr) (simp add: wire_ok_def)

lemma parseArray_sizes: "parseArray bs mx = Inr ds \<Longrightarrow> \<forall>d \<in> set ds. length d < 2 ^ 32"
  by (erule parseArray_Inr) (fastforce simp: wire_ok_def fits_def widths_def)

lemma length_wire:
  "w \<in> widths \<Longrightarrow> length (wire w ds) = 2 + (\<Sum>d\<leftarrow>ds. w + length d)"
  by (induction ds) (auto simp: wire_def)

section \<open>The encoder picks the narrowest form\<close>

definition width_of_len :: "nat \<Rightarrow> nat" where
  "width_of_len n = (if n > MaxUint16 then 4 else if n > MaxUint8 then 2 else if n > 0 then 1 else 0)"

definition narrowest :: "bytes list \<Rightarrow> nat" where
  "narrowest ds = fold (\<lambda>d. max (width_of_len (length d))) ds 0"

lemma width_of_len_widths [simp]: "width_of_len n \<in> widths"
  by (simp add: width_of_len_def widths_def)

lemma max_widths: "v \<in> widths \<Longrightarrow> w \<in> widths \<Longrightarrow> max v w \<in> widths"
  by (simp add: max_def)

lemma fold_max_widths:
  "w \<in> widths \<Longrightarrow> fold (\<lambda>d. max (width_of_len (length d))) ds w \<in> widths"
  by (induction ds arbitrary: w) (simp_all add: max_widths)

lemma narrowest_widths [simp]: "narrowest ds \<in> widths"
  unfolding narrowest_def by (rule fold_max_widths) (simp add: widths_def)

lemma width_code_less_iff:
  "v \<in> widths \<Longrightarrow> w \<in> widths \<Longrightarrow> width_code v < width_code w \<longleftrightarrow> v < w"
  by (auto simp: widths_def width_code_def dataLen_defs)

lemma calcLenPrefix_loop_ok:
  "w \<in> widths \<Longrightarrow> \<forall>d \<in> set ds. length d \<le> MaxUint32
     \<Longrightarrow> calcLenPrefix_loop ds (width_code w)
          = Inr (width_code (fold (\<lambda>d. max (width_of_len (length d))) ds w))"
proof (induction ds arbitrary: w)
  case Nil
  then show ?case by simp
next
  case (Cons d ds)
  let ?v = "width_of_len (length d)"
  have code: "(if length d > MaxUint16 then dataLenBytes32
      else if length d > MaxUint8 then dataLenBytes16
      else if length d > 0 then dataLenBytes8 else dataLenBytes0) = width_code ?v"
    by (simp add: width_of_len_def width_code_def)
  have "(if width_code w < width_code ?v then width_code ?v else width_code w) = width_code (max ?v w)"
    using Cons.prems(1) by (simp add: width_code_less_iff max_def)
  moreover have "max ?v w \<in> widths" using Cons.prems(1) by (simp add: max_widths)
  ultimately show ?case
    using Cons.IH [of "max ?v w"] Cons.prems(2) by (simp add: code Let_def del: length_greater_0_conv)
qed

lemma calcLenPrefix_loop_err:
  "d \<in> set ds \<Longrightarrow> length d > MaxUint32 \<Longrightarrow> calcLenPrefix_loop ds dl = Inl (Error Element_too_long)"
  by (induction ds arbitrary: dl) (auto simp: Let_def)

definition encodable :: "bytes list \<Rightarrow> bool" where
  "encodable ds \<longleftrightarrow> length ds \<le> maxArrayLen \<and> (\<forall>d \<in> set ds. length d \<le> MaxUint32)"

lemma fold_max_ge:
  "w \<le> fold (\<lambda>d. max (width_of_len (length d))) ds w
   \<and> (\<forall>d \<in> set ds. width_of_len (length d) \<le> fold (\<lambda>d. max (width_of_len (length d))) ds w)"
proof (induction ds arbitrary: w)
  case Nil
  then show ?case by simp
next
  case (Cons d ds)
  from Cons.IH [of "max (width_of_len (length d)) w"] show ?case by auto
qed

lemma fold_max_least:
  "w \<le> v \<Longrightarrow> \<forall>d \<in> set ds. width_of_len (length d) \<le> v
     \<Longrightarrow> fold (\<lambda>d. max (width_of_len (length d))) ds w \<le> v"
  by (induction ds arbitrary: w) auto

lemma fits_iff: "w \<in> widths \<Longrightarrow> fits w d \<longleftrightarrow> length d \<le> MaxUint32 \<and> width_of_len (length d) \<le> w"
  by (auto simp: widths_def fits_def width_of_len_def MaxUint_defs)

lemma narrowest_le: "w \<in> widths \<Longrightarrow> \<forall>d \<in> set ds. fits w d \<Longrightarrow> narrowest ds \<le> w"
  unfolding narrowest_def by (rule fold_max_least) (auto simp: fits_iff)

lemma wire_ok_narrowest: "encodable ds \<Longrightarrow> wire_ok (narrowest ds) ds"
  using fold_max_ge [of 0 ds]
  by (simp add: wire_ok_def encodable_def fits_iff [OF narrowest_widths] flip: narrowest_def)

lemma writeData_payload:
  "\<forall>d \<in> set ds. fits w d \<Longrightarrow> writeData ds w = payload w ds"
proof (cases "w = 0")
  case True
  moreover assume "\<forall>d \<in> set ds. fits w d"
  ultimately have "\<forall>d \<in> set ds. d = []" by (simp add: fits_def)
  then show ?thesis using True by (induction ds) (auto simp: writeData_def len_field_def)
next
  case False
  then show ?thesis by (simp add: writeData_def payload_def)
qed

lemma calcLenPrefix_ok: "encodable ds \<Longrightarrow> calcLenPrefix ds = Inr (mk_prefix (narrowest ds) (length ds))"
proof (cases "ds = []")
  case True
  then show ?thesis
    by (simp add: calcLenPrefix_def emptyArrayPrefix_def mk_prefix_def narrowest_def width_code_def
        dataLenBytes0_def)
next
  case False
  assume enc: "encodable ds"
  have "width_code 0 = 0" by (simp add: width_code_def dataLenBytes0_def)
  then have "calcLenPrefix_loop ds 0 = Inr (width_code (narrowest ds))"
    using calcLenPrefix_loop_ok [of 0 ds] enc by (simp add: encodable_def narrowest_def widths_def)
  then show ?thesis
    using False enc by (simp add: calcLenPrefix_def mk_prefix_def encodable_def)
qed

lemma encodeArray_ok: "encodable ds \<Longrightarrow> encodeArray ds = Inr (wire (narrowest ds) ds)"
proof -
  assume enc: "encodable ds"
  then have n: "length ds < 2 ^ 14" by (simp add: encodable_def maxArrayLen_eq)
  have "\<forall>d \<in> set ds. fits (narrowest ds) d"
    using wire_ok_narrowest [OF enc] by (simp add: wire_ok_def)
  then show ?thesis
    using n by (simp add: encodeArray_def calcLenPrefix_ok [OF enc] writeData_payload wire_def
        lenPrefix_Bytes_def)
qed

lemma encodeArray_err: "\<not> encodable ds \<Longrightarrow> \<exists>f. encodeArray ds = Inl (Error f)"
proof -
  assume not: "\<not> encodable ds"
  show ?thesis
  proof (cases "length ds > maxArrayLen")
    case True
    then show ?thesis by (simp add: encodeArray_def calcLenPrefix_def)
  next
    case False
    with not obtain d where d: "d \<in> set ds" "length d > MaxUint32"
      by (auto simp: encodable_def)
    then have "length ds \<noteq> 0" by auto
    then show ?thesis
      using False by (simp add: encodeArray_def calcLenPrefix_def calcLenPrefix_loop_err [OF d])
  qed
qed

lemma encodeArray_Inr_iff: "encodeArray ds = Inr bs \<longleftrightarrow> encodable ds \<and> bs = wire (narrowest ds) ds"
  using encodeArray_ok encodeArray_err by (cases "encodable ds") fastforce+

lemma parse_encode:
  "encodeArray ds = Inr bs \<Longrightarrow> length ds \<le> mx \<Longrightarrow> parseArray bs mx = Inr ds"
  by (auto simp: encodeArray_Inr_iff parseArray_wire wire_ok_narrowest)

lemma parseArray_encodable: "parseArray bs mx = Inr ds \<Longrightarrow> encodable ds"
  by (erule parseArray_Inr) (auto simp: wire_ok_def encodable_def fits_iff)

text \<open>Evaluation of concrete wire forms by \<^theory_text>\<open>simp\<close>.\<close>

lemmas wire_eval = wire_def mk_prefix_def width_code_def dataLen_defs put_u16_def put_u32_def
  len_field_def be_numeral

lemmas wire_ok_eval = wire_ok_def widths_def fits_def maxArrayLen_eq

end
