(* ===== verification/LazyArray.thy ===== *)
theory LazyArray
  imports LazyCodec
begin

text \<open>
  \<^verbatim>\<open>lazyslice/lazyslice.go\<close>, the \<^verbatim>\<open>Array\<close> object, which keeps the serialised and the parsed form of
  one list of byte strings and computes either one when it is asked for.

  A nil slice is the empty list wherever the code only reads its length and elements; the field
  \<^verbatim>\<open>bytes\<close>, whose nil value means ``not serialised yet'', and the field \<^verbatim>\<open>parsed\<close>, whose nil value
  means ``not parsed yet'', are options.
\<close>

section \<open>The array object\<close>

record array =
  arr_bytes :: "bytes option"
  arr_parsed :: "bytes list option"
  arr_max :: nat

definition nil_len :: "'a list option \<Rightarrow> nat" where
  "nil_len x = (case x of None \<Rightarrow> 0 | Some xs \<Rightarrow> length xs)"

definition ArrayFromBytesMax :: "bytes \<Rightarrow> nat \<Rightarrow> array" where
  "ArrayFromBytesMax data mx = \<lparr>arr_bytes = Some data, arr_parsed = None, arr_max = mx\<rparr>"

definition ArrayFromBytes :: "bytes \<Rightarrow> array" where
  "ArrayFromBytes data = ArrayFromBytesMax data maxArrayLen"

definition EmptyArrayMax :: "nat \<Rightarrow> array" where
  "EmptyArrayMax mx = ArrayFromBytesMax (lenPrefix_Bytes emptyArrayPrefix) mx"

definition EmptyArray :: array where
  "EmptyArray = EmptyArrayMax maxArrayLen"

definition SetData :: "bytes \<Rightarrow> (unit, array) op" where
  "SetData data a = (Inr (), a\<lparr>arr_bytes := Some data, arr_parsed := None\<rparr>)"

definition SetEmptyArray :: "(unit, array) op" where
  "SetEmptyArray = SetData [0, 0]"

definition ensureParsed :: "(bytes list, array) op" where
  \<comment> \<open>gives the slice \<open>a.parsed\<close> is left with\<close>
  "ensureParsed a =
     (case arr_parsed a of
        Some xs \<Rightarrow> (Inr xs, a)
      | None \<Rightarrow>
          (case parseArray (case arr_bytes a of None \<Rightarrow> [] | Some b \<Rightarrow> b) (arr_max a) of
             Inl e \<Rightarrow> (as_panic (Inl e), a)
           | Inr xs \<Rightarrow> (Inr xs, a\<lparr>arr_parsed := Some xs\<rparr>)))"

definition Push :: "bytes \<Rightarrow> (nat, array) op" where
  "Push data a =
     (if nil_len (arr_parsed a) \<ge> arr_max a then (Inl (Panic Too_many_elements), a)
      else sbind ensureParsed
        (\<lambda>xs a. (Inr (length xs), a\<lparr>arr_parsed := Some (xs @ [data]), arr_bytes := None\<rparr>)) a)"

definition PutAtIdx :: "nat \<Rightarrow> bytes \<Rightarrow> (unit, array) op" where
  "PutAtIdx idx data a =
     (case arr_parsed a of
        None \<Rightarrow> (Inl (Panic Index_out_of_range), a)
      | Some xs \<Rightarrow>
          if idx < length xs
          then (Inr (), a\<lparr>arr_parsed := Some (xs[idx := data]), arr_bytes := None\<rparr>)
          else (Inl (Panic Index_out_of_range), a))"

definition NumElements :: "(nat, array) op" where
  "NumElements = sbind ensureParsed (\<lambda>xs. ret (length xs))"

definition At :: "nat \<Rightarrow> (bytes, array) op" where
  "At idx = sbind ensureParsed (\<lambda>xs a. (nth_res xs idx, a))"

definition Parsed :: "(bytes list, array) op" where
  "Parsed = ensureParsed"

text \<open>
  \<open>arr_view\<close> is the list an array stands for: what a call of \<^verbatim>\<open>ensureParsed\<close> leaves in
  \<^verbatim>\<open>a.parsed\<close>, or the panic it ends in.
\<close>

definition arr_view :: "array \<Rightarrow> bytes list res" where
  "arr_view a =
     (case arr_parsed a of
        Some xs \<Rightarrow> Inr xs
      | None \<Rightarrow> as_panic (parseArray (case arr_bytes a of None \<Rightarrow> [] | Some b \<Rightarrow> b) (arr_max a)))"

definition arr_loaded :: "array \<Rightarrow> array" where
  "arr_loaded a = (case arr_view a of Inl _ \<Rightarrow> a | Inr xs \<Rightarrow> a\<lparr>arr_parsed := Some xs\<rparr>)"

lemma ensureParsed_eq: "ensureParsed a = (arr_view a, arr_loaded a)"
  by (cases a) (auto simp: ensureParsed_def arr_view_def arr_loaded_def
      split: option.splits sum.splits)

lemma NumElements_eq: "NumElements a = (rmap length (arr_view a), arr_loaded a)"
  by (cases "arr_view a") (simp_all add: NumElements_def ensureParsed_eq sbind_def ret_def)

lemma At_eq: "At i a = (rbind (arr_view a) (\<lambda>xs. nth_res xs i), arr_loaded a)"
  by (cases "arr_view a") (simp_all add: At_def ensureParsed_eq sbind_def)

lemma arr_loaded_simps [simp]:
  "arr_view (arr_loaded a) = arr_view a" "arr_loaded (arr_loaded a) = arr_loaded a"
  "arr_bytes (arr_loaded a) = arr_bytes a" "arr_max (arr_loaded a) = arr_max a"
  "arr_view a = Inr xs \<Longrightarrow> arr_parsed (arr_loaded a) = Some xs"
  by (auto simp: arr_loaded_def arr_view_def split: sum.splits option.splits)

function PutAtIdxGrow_loop :: "nat \<Rightarrow> (unit, array) op" where
  \<comment> \<open>\<open>for int(idx) >= a.NumElements() { a.Push(nil) }\<close>\<close>
  "PutAtIdxGrow_loop idx a =
     (case NumElements a of
        (Inl e, a') \<Rightarrow> (Inl e, a')
      | (Inr n, a') \<Rightarrow>
          if idx \<ge> n
          then (case Push [] a' of
                  (Inl e, a'') \<Rightarrow> (Inl e, a'')
                | (Inr _, a'') \<Rightarrow> PutAtIdxGrow_loop idx a'')
          else (Inr (), a'))"
  by pat_completeness auto
termination
proof (relation "measure (\<lambda>(idx, a). case arr_view a of Inl _ \<Rightarrow> 0 | Inr xs \<Rightarrow> Suc idx - length xs)")
qed (auto simp: NumElements_eq Push_def sbind_def ensureParsed_eq arr_view_def
      split: sum.splits option.splits if_splits)

declare PutAtIdxGrow_loop.simps [simp del]

definition PutAtIdxGrow :: "nat \<Rightarrow> bytes \<Rightarrow> (unit, array) op" where
  "PutAtIdxGrow idx data = sbind (PutAtIdxGrow_loop idx) (\<lambda>_. PutAtIdx idx data)"

definition ensureBytes :: "(unit, array) op" where
  "ensureBytes a =
     (case arr_bytes a of
        Some _ \<Rightarrow> (Inr (), a)
      | None \<Rightarrow>
          if nil_len (arr_parsed a) = 0 then (Inr (), a)
          else (case encodeArray (the (arr_parsed a)) of
                  Inl e \<Rightarrow> (as_panic (Inl e), a)
                | Inr b \<Rightarrow> (Inr (), a\<lparr>arr_bytes := Some b\<rparr>)))"

definition Bytes :: "(bytes, array) op" where
  "Bytes = sbind ensureBytes (\<lambda>_ a. (Inr (case arr_bytes a of None \<Rightarrow> [] | Some b \<Rightarrow> b), a))"

definition validBytes :: "array \<Rightarrow> bool" where
  "validBytes a \<longleftrightarrow> (if nil_len (arr_bytes a) > 0 then True else nil_len (arr_parsed a) = 0)"

definition MakeArrayFromData :: "bytes list \<Rightarrow> unit res \<times> array" where
  "MakeArrayFromData elements = op_all Push elements (EmptyArrayMax (length elements))"

section \<open>The object invariant\<close>

text \<open>
  Once both forms are present they agree; the parsed form is present, and not empty, whenever the
  serialised one has been dropped. The agreement is stated for the format's own limit
  \<^verbatim>\<open>maxArrayLen\<close>: the limit of the array itself is not always respected by \<^verbatim>\<open>Push\<close> (see
  \<open>push_past_limit\<close> below).
\<close>

definition arr_inv :: "array \<Rightarrow> bool" where
  "arr_inv a \<longleftrightarrow>
     (case arr_bytes a of
        None \<Rightarrow> (\<exists>xs. arr_parsed a = Some xs \<and> xs \<noteq> [])
      | Some b \<Rightarrow> (\<forall>xs. arr_parsed a = Some xs \<longrightarrow> parseArray b maxArrayLen = Inr xs))"

lemma arr_inv_ArrayFromBytesMax [simp]: "arr_inv (ArrayFromBytesMax data mx)"
  by (simp add: arr_inv_def ArrayFromBytesMax_def)

lemma arr_inv_EmptyArrayMax [simp]: "arr_inv (EmptyArrayMax mx)"
  by (simp add: EmptyArrayMax_def)

lemma arr_view_ArrayFromBytesMax [simp]:
  "arr_view (ArrayFromBytesMax data mx) = as_panic (parseArray data mx)"
  by (simp add: arr_view_def ArrayFromBytesMax_def)

lemma arr_max_from [simp]:
  "arr_max (ArrayFromBytesMax data mx) = mx" "arr_max (EmptyArrayMax mx) = mx"
  by (simp_all add: ArrayFromBytesMax_def EmptyArrayMax_def)

lemma lenPrefix_Bytes_empty: "lenPrefix_Bytes emptyArrayPrefix = [0, 0]"
  by (simp add: lenPrefix_Bytes_def emptyArrayPrefix_def put_u16_def be_numeral)

lemma wire_empty: "wire 0 [] = [0, 0]"
  by (simp add: wire_def mk_prefix_def width_code_def dataLenBytes0_def put_u16_def be_numeral)

lemma parseArray_empty [simp]: "parseArray [0, 0] mx = Inr []"
  using parseArray_wire [of 0 "[]" mx] by (simp add: wire_empty wire_ok_def widths_def)

lemma arr_view_EmptyArrayMax [simp]: "arr_view (EmptyArrayMax mx) = Inr []"
  by (simp add: EmptyArrayMax_def lenPrefix_Bytes_empty)

lemma arr_inv_loaded [simp]: "arr_inv a \<Longrightarrow> arr_inv (arr_loaded a)"
  by (auto simp: arr_inv_def arr_loaded_def arr_view_def split: sum.splits option.splits
      dest: parseArray_max_mono parseArray_length intro: parseArray_lower_max)

lemma nil_len_view: "arr_view a = Inr xs \<Longrightarrow> nil_len (arr_parsed a) \<le> length xs"
  by (auto simp: nil_len_def arr_view_def split: option.splits)

lemma Push_ok:
  assumes "arr_view a = Inr xs" and "nil_len (arr_parsed a) < arr_max a"
  shows "Push d a =
    (Inr (length xs), (arr_loaded a)\<lparr>arr_parsed := Some (xs @ [d]), arr_bytes := None\<rparr>)"
  using assms by (simp add: Push_def ensureParsed_eq)

lemma arr_view_written [simp]:
  "arr_view (a\<lparr>arr_parsed := Some xs, arr_bytes := b\<rparr>) = Inr xs"
  by (simp add: arr_view_def)

lemma PutAtIdxGrow_loop_ok:
  assumes "arr_inv a" and "arr_view a = Inr xs" and "i < arr_max a"
  shows "\<exists>a'. PutAtIdxGrow_loop i a = (Inr (), a') \<and> arr_inv a' \<and> arr_max a' = arr_max a
    \<and> arr_parsed a' = Some (xs @ replicate (Suc i - length xs) [])"
  using assms
proof (induction i a arbitrary: xs rule: PutAtIdxGrow_loop.induct)
  case (1 idx a)
  note view = \<open>arr_view a = Inr xs\<close>
  have num: "NumElements a = (Inr (length xs), arr_loaded a)"
    by (simp add: NumElements_eq view)
  show ?case
  proof (cases "idx \<ge> length xs")
    case False
    then show ?thesis
      using 1(2) num view by (simp add: PutAtIdxGrow_loop.simps [of idx a])
  next
    case True
    let ?b = "(arr_loaded a)\<lparr>arr_parsed := Some (xs @ [[]]), arr_bytes := None\<rparr>"
    have push: "Push [] (arr_loaded a) = (Inr (length xs), ?b)"
      using True 1(4) view by (subst Push_ok) (auto simp: nil_len_def)
    have step: "PutAtIdxGrow_loop idx a = PutAtIdxGrow_loop idx ?b"
      using True num push by (simp add: PutAtIdxGrow_loop.simps [of idx a])
    have "Suc idx - length xs = Suc (Suc idx - length (xs @ [[]]))" using True by simp
    then have "xs @ replicate (Suc idx - length xs) [] =
        (xs @ [[]]) @ replicate (Suc idx - length (xs @ [[]])) []" by simp
    moreover have "arr_inv ?b" by (simp add: arr_inv_def)
    moreover have "\<exists>a'. PutAtIdxGrow_loop idx ?b = (Inr (), a') \<and> arr_inv a' \<and> arr_max a' = arr_max ?b
        \<and> arr_parsed a' = Some ((xs @ [[]]) @ replicate (Suc idx - length (xs @ [[]])) [])"
      by (rule "1.IH" [OF num [symmetric] refl True push [symmetric] refl])
        (use 1(4) in \<open>simp_all add: arr_inv_def\<close>)
    ultimately show ?thesis by (simp add: step)
  qed
qed

text \<open>The list that \<^verbatim>\<open>PutAtIdxGrow\<close> makes of \<open>xs\<close>.\<close>

definition put_grow :: "nat \<Rightarrow> bytes \<Rightarrow> bytes list \<Rightarrow> bytes list" where
  "put_grow i d xs = (xs @ replicate (Suc i - length xs) [])[i := d]"

lemma length_put_grow [simp]: "length (put_grow i d xs) = max (length xs) (Suc i)"
  by (simp add: put_grow_def)

lemma put_grow_nth_same [simp]: "put_grow i d xs ! i = d"
  by (simp add: put_grow_def)

lemma put_grow_nth_other [simp]: "j \<noteq> i \<Longrightarrow> j < length xs \<Longrightarrow> put_grow i d xs ! j = xs ! j"
  by (simp add: put_grow_def nth_append)

lemma put_grow_inside [simp]: "i < length xs \<Longrightarrow> put_grow i d xs = xs[i := d]"
  by (simp add: put_grow_def)

lemma put_grow_snoc [simp]: "put_grow (length xs) d xs = xs @ [d]"
  by (simp add: put_grow_def)

lemma PutAtIdxGrow_ok:
  assumes "arr_inv a" and "arr_view a = Inr xs" and "i < arr_max a"
  shows "fst (PutAtIdxGrow i d a) = Inr () \<and> arr_inv (snd (PutAtIdxGrow i d a))
    \<and> arr_max (snd (PutAtIdxGrow i d a)) = arr_max a
    \<and> arr_view (snd (PutAtIdxGrow i d a)) = Inr (put_grow i d xs)"
proof -
  obtain a' where loop: "PutAtIdxGrow_loop i a = (Inr (), a')" "arr_max a' = arr_max a"
    "arr_parsed a' = Some (xs @ replicate (Suc i - length xs) [])"
    using PutAtIdxGrow_loop_ok [OF assms] by blast
  then have "PutAtIdxGrow i d a = (Inr (), a'\<lparr>arr_parsed := Some (put_grow i d xs), arr_bytes := None\<rparr>)"
    by (simp add: PutAtIdxGrow_def PutAtIdx_def put_grow_def)
  moreover have "put_grow i d xs \<noteq> []"
    using length_put_grow [of i d xs] by (cases "put_grow i d xs") simp_all
  ultimately show ?thesis using loop by (simp add: arr_inv_def)
qed

lemma Bytes_ok:
  assumes "arr_inv a" and "Bytes a = (Inr b, a')"
  shows "arr_inv a' \<and> arr_view a' = arr_view a \<and> arr_max a' = arr_max a
    \<and> (\<forall>xs. arr_view a = Inr xs \<longrightarrow> parseArray b maxArrayLen = Inr xs)"
proof (cases "arr_bytes a")
  case (Some c)
  then have "b = c" "a' = a" using assms(2) by (simp_all add: Bytes_def ensureBytes_def sbind_def)
  then show ?thesis using assms(1) Some
    by (auto simp: arr_inv_def arr_view_def split: option.splits dest: parseArray_length
        intro: parseArray_lower_max)
next
  case None
  then obtain xs where xs: "arr_parsed a = Some xs" "xs \<noteq> []"
    using assms(1) by (auto simp: arr_inv_def)
  then obtain c where c: "encodeArray xs = Inr c" "b = c" "a' = a\<lparr>arr_bytes := Some c\<rparr>"
    using None assms(2)
    by (cases "encodeArray xs") (auto simp: Bytes_def ensureBytes_def sbind_def nil_len_def
        split: sum.splits)
  have "length xs \<le> maxArrayLen" using c(1) by (simp add: encodeArray_Inr_iff encodable_def)
  with c(1) have "parseArray c maxArrayLen = Inr xs" by (rule parse_encode)
  then show ?thesis using xs c by (simp add: arr_inv_def arr_view_def)
qed

lemma Bytes_result:
  assumes "arr_inv a" and "arr_view a = Inr xs"
  shows "is_ok (fst (Bytes a)) \<longleftrightarrow> encodable xs"
proof (cases "arr_bytes a")
  case (Some c)
  have "parseArray c maxArrayLen = Inr xs \<or> parseArray c (arr_max a) = Inr xs"
    using assms Some by (auto simp: arr_inv_def arr_view_def split: option.splits)
  then have "encodable xs" by (auto dest: parseArray_encodable)
  then show ?thesis using Some by (simp add: Bytes_def ensureBytes_def sbind_def)
next
  case None
  then have xs: "arr_parsed a = Some xs" "xs \<noteq> []"
    using assms by (auto simp: arr_inv_def arr_view_def)
  show ?thesis
  proof (cases "encodable xs")
    case True
    then show ?thesis
      using xs None by (simp add: Bytes_def ensureBytes_def nil_len_def encodeArray_ok sbind_def)
  next
    case False
    then obtain f where "encodeArray xs = Inl (Error f)" using encodeArray_err by blast
    then show ?thesis
      using xs None False by (simp add: Bytes_def ensureBytes_def nil_len_def sbind_def)
  qed
qed

section \<open>The interface of a growable list\<close>

text \<open>
  What the clients of an array (outputs, transactions, unlock blocks) rely on. \<open>cap\<close> is the limit
  given at construction; the laws say what each operation returns and what list it leaves.
\<close>

locale growable_list =
  fixes view :: "'a \<Rightarrow> bytes list res"
    and inv :: "'a \<Rightarrow> bool"
    and cap :: "'a \<Rightarrow> nat"
    and push :: "bytes \<Rightarrow> (nat, 'a) op"
    and put :: "nat \<Rightarrow> bytes \<Rightarrow> (unit, 'a) op"
    and get :: "nat \<Rightarrow> (bytes, 'a) op"
    and num :: "(nat, 'a) op"
  assumes push_law: "inv a \<Longrightarrow> view a = Inr xs \<Longrightarrow> length xs < cap a \<Longrightarrow>
      \<exists>a'. push d a = (Inr (length xs), a') \<and> inv a' \<and> view a' = Inr (xs @ [d]) \<and> cap a' = cap a"
    and put_law: "inv a \<Longrightarrow> view a = Inr xs \<Longrightarrow> i < cap a \<Longrightarrow>
      \<exists>a'. put i d a = (Inr (), a') \<and> inv a' \<and> view a' = Inr (put_grow i d xs) \<and> cap a' = cap a"
    and get_law: "inv a \<Longrightarrow> view a = Inr xs \<Longrightarrow>
      \<exists>a'. get i a = (nth_res xs i, a') \<and> inv a' \<and> view a' = Inr xs \<and> cap a' = cap a"
    and num_law: "inv a \<Longrightarrow> view a = Inr xs \<Longrightarrow>
      \<exists>a'. num a = (Inr (length xs), a') \<and> inv a' \<and> view a' = Inr xs \<and> cap a' = cap a"
begin

lemma push_all:
  assumes "inv a" and "view a = Inr xs" and "length xs + length ds \<le> cap a"
  shows "\<exists>a'. op_all push ds a = (Inr (), a') \<and> inv a' \<and> view a' = Inr (xs @ ds) \<and> cap a' = cap a"
  using assms
proof (induction ds arbitrary: a xs)
  case Nil
  then show ?case by (simp add: ret_def)
next
  case (Cons d ds)
  then obtain b where b: "push d a = (Inr (length xs), b)" "inv b" "view b = Inr (xs @ [d])"
    "cap b = cap a"
    using push_law [of a xs d] by auto
  then show ?case using Cons.IH [of b "xs @ [d]"] Cons.prems(3) by simp
qed

lemma put_then_get:
  assumes "inv a" and "view a = Inr xs" and "i < cap a"
  shows "\<exists>a'. put i d a = (Inr (), a') \<and> fst (get i a') = Inr d
    \<and> (\<forall>j < length xs. j \<noteq> i \<longrightarrow> fst (get j a') = Inr (xs ! j))"
proof -
  obtain a' where a': "put i d a = (Inr (), a')" "inv a'" "view a' = Inr (put_grow i d xs)"
    using put_law [OF assms] by blast
  have "fst (get j a') = nth_res (put_grow i d xs) j" for j
    using get_law [OF a'(2,3), of j] by force
  then show ?thesis using a'(1) by (auto simp: nth_res_def less_max_iff_disj)
qed

end

interpretation arr: growable_list arr_view arr_inv arr_max Push PutAtIdxGrow At NumElements
proof unfold_locales
  fix a xs d assume a: "arr_inv a" "arr_view a = Inr xs"
  show "\<exists>a'. Push d a = (Inr (length xs), a') \<and> arr_inv a' \<and> arr_view a' = Inr (xs @ [d])
      \<and> arr_max a' = arr_max a" if "length xs < arr_max a"
    using Push_ok [OF a(2), of d] nil_len_view [OF a(2)] that by (simp add: arr_inv_def)
  show "\<exists>a'. PutAtIdxGrow i d a = (Inr (), a') \<and> arr_inv a' \<and> arr_view a' = Inr (put_grow i d xs)
      \<and> arr_max a' = arr_max a" if "i < arr_max a" for i
    using PutAtIdxGrow_ok [OF a that, of d] by (metis prod.collapse)
  show "\<exists>a'. At i a = (nth_res xs i, a') \<and> arr_inv a' \<and> arr_view a' = Inr xs \<and> arr_max a' = arr_max a"
    for i using a by (simp add: At_eq)
  show "\<exists>a'. NumElements a = (Inr (length xs), a') \<and> arr_inv a' \<and> arr_view a' = Inr xs
      \<and> arr_max a' = arr_max a"
    using a by (simp add: NumElements_eq)
qed

lemma MakeArrayFromData_ok:
  "\<exists>a. MakeArrayFromData ds = (Inr (), a) \<and> arr_inv a \<and> arr_view a = Inr ds \<and> arr_max a = length ds"
  using arr.push_all [of "EmptyArrayMax (length ds)" "[]" ds] by (simp add: MakeArrayFromData_def)

section \<open>Runs of operations\<close>

text \<open>
  The client's view of a sequence of calls, on the lazy array and on a plain list with a capacity.
  A run ends with the first panic.
\<close>

datatype arr_op = Op_Push bytes | Op_Put nat bytes | Op_At nat | Op_Num | Op_Bytes

datatype arr_out = Out_unit | Out_nat nat | Out_bytes bytes

definition op_map :: "('a \<Rightarrow> 'b) \<Rightarrow> ('a, 's) op \<Rightarrow> ('b, 's) op" where
  "op_map f m = sbind m (\<lambda>x. ret (f x))"

fun arr_exec :: "arr_op \<Rightarrow> (arr_out, array) op" where
  "arr_exec (Op_Push d) = op_map Out_nat (Push d)"
| "arr_exec (Op_Put i d) = op_map (\<lambda>_. Out_unit) (PutAtIdxGrow i d)"
| "arr_exec (Op_At i) = op_map Out_bytes (At i)"
| "arr_exec Op_Num = op_map Out_nat NumElements"
| "arr_exec Op_Bytes = op_map (\<lambda>_. Out_unit) Bytes"

fun list_exec :: "nat \<Rightarrow> arr_op \<Rightarrow> bytes list \<Rightarrow> (arr_out \<times> bytes list) option" where
  "list_exec cap (Op_Push d) xs =
     (if length xs < cap then Some (Out_nat (length xs), xs @ [d]) else None)"
| "list_exec cap (Op_Put i d) xs = (if i < cap then Some (Out_unit, put_grow i d xs) else None)"
| "list_exec cap (Op_At i) xs = (if i < length xs then Some (Out_bytes (xs ! i), xs) else None)"
| "list_exec cap Op_Num xs = Some (Out_nat (length xs), xs)"
| "list_exec cap Op_Bytes xs = (if encodable xs then Some (Out_unit, xs) else None)"

fun arr_run :: "arr_op list \<Rightarrow> (arr_out list, array) op" where
  "arr_run [] = ret []"
| "arr_run (c # cs) = sbind (arr_exec c) (\<lambda>y. op_map (\<lambda>ys. y # ys) (arr_run cs))"

fun list_run :: "nat \<Rightarrow> arr_op list \<Rightarrow> bytes list \<Rightarrow> (arr_out list \<times> bytes list) option" where
  "list_run cap [] xs = Some ([], xs)"
| "list_run cap (c # cs) xs =
     (case list_exec cap c xs of
        None \<Rightarrow> None
      | Some (y, ys) \<Rightarrow> map_option (\<lambda>(zs, t). (y # zs, t)) (list_run cap cs ys))"

text \<open>The abstraction relation: besides the invariant, the limit has not been passed.\<close>

definition arr_rel :: "array \<Rightarrow> bytes list \<Rightarrow> bool" where
  "arr_rel a xs \<longleftrightarrow> arr_inv a \<and> arr_view a = Inr xs \<and> length xs \<le> arr_max a
     \<and> (length xs < arr_max a \<or> arr_parsed a = Some xs)"

lemma arr_rel_loaded: "arr_rel a xs \<Longrightarrow> arr_rel (arr_loaded a) xs"
  by (simp add: arr_rel_def)

lemma Push_full:
  "arr_rel a xs \<Longrightarrow> \<not> length xs < arr_max a \<Longrightarrow> Push d a = (Inl (Panic Too_many_elements), a)"
  by (auto simp: arr_rel_def Push_def nil_len_def)

lemma Push_rel:
  "arr_rel a xs \<Longrightarrow> length xs < arr_max a
     \<Longrightarrow> \<exists>a'. Push d a = (Inr (length xs), a') \<and> arr_rel a' (xs @ [d]) \<and> arr_max a' = arr_max a"
  using Push_ok [of a xs d] nil_len_view [of a xs] by (auto simp: arr_rel_def arr_inv_def)

lemma PutAtIdxGrow_loop_full:
  assumes "arr_rel a xs" and "arr_max a \<le> i"
  shows "\<not> is_ok (fst (PutAtIdxGrow_loop i a))"
  using assms
proof (induction i a arbitrary: xs rule: PutAtIdxGrow_loop.induct)
  case (1 idx a)
  have num: "NumElements a = (Inr (length xs), arr_loaded a)" and le: "length xs \<le> idx"
    using 1(2,3) by (simp_all add: NumElements_eq arr_rel_def)
  have rel: "arr_rel (arr_loaded a) xs" using 1(2) by (rule arr_rel_loaded)
  show ?case
  proof (cases "length xs < arr_max a")
    case True
    then obtain b where b: "Push [] (arr_loaded a) = (Inr (length xs), b)" "arr_rel b (xs @ [[]])"
      "arr_max b = arr_max a"
      using Push_rel [OF rel] by auto
    have "\<not> is_ok (fst (PutAtIdxGrow_loop idx b))"
      using "1.IH" [OF num [symmetric] refl le b(1) [symmetric] refl b(2)] b(3) 1(3) by simp
    then show ?thesis using num le b(1) by (simp add: PutAtIdxGrow_loop.simps [of idx a])
  next
    case False
    then show ?thesis
      using num le Push_full [OF rel] by (simp add: PutAtIdxGrow_loop.simps [of idx a])
  qed
qed

lemma PutAtIdxGrow_full:
  "arr_rel a xs \<Longrightarrow> arr_max a \<le> i \<Longrightarrow> \<not> is_ok (fst (PutAtIdxGrow i d a))"
  using PutAtIdxGrow_loop_full [of a xs i]
  by (auto simp: PutAtIdxGrow_def sbind_def is_ok_def split: prod.splits sum.splits)

lemma PutAtIdxGrow_rel:
  assumes "arr_rel a xs" and "i < arr_max a"
  shows "\<exists>a'. PutAtIdxGrow i d a = (Inr (), a') \<and> arr_rel a' (put_grow i d xs) \<and> arr_max a' = arr_max a"
proof -
  have a: "arr_inv a" "arr_view a = Inr xs" "length xs \<le> arr_max a"
    using assms(1) by (simp_all add: arr_rel_def)
  obtain a' where loop: "PutAtIdxGrow_loop i a = (Inr (), a')" "arr_max a' = arr_max a"
    "arr_parsed a' = Some (xs @ replicate (Suc i - length xs) [])"
    using PutAtIdxGrow_loop_ok [OF a(1,2) assms(2)] by blast
  then show ?thesis
    using PutAtIdxGrow_ok [OF a(1,2) assms(2), of d] a(3) assms(2)
    by (auto simp: PutAtIdxGrow_def PutAtIdx_def put_grow_def arr_rel_def)
qed

lemma Bytes_rel:
  assumes "arr_rel a xs" and "encodable xs"
  shows "\<exists>b a'. Bytes a = (Inr b, a') \<and> arr_rel a' xs \<and> arr_max a' = arr_max a"
proof -
  have a: "arr_inv a" "arr_view a = Inr xs" using assms(1) by (simp_all add: arr_rel_def)
  obtain b a' where b: "Bytes a = (Inr b, a')"
    using Bytes_result [OF a] assms(2) by (cases "Bytes a") (auto simp: is_ok_iff)
  have "arr_parsed a' = arr_parsed a"
    using b by (auto simp: Bytes_def ensureBytes_def sbind_def split: option.splits sum.splits
        if_splits prod.splits)
  then show ?thesis
    using Bytes_ok [OF a(1) b] b assms(1) by (auto simp: arr_rel_def)
qed

lemma arr_exec_refines:
  assumes "arr_rel a xs"
  shows "case list_exec (arr_max a) c xs of
      None \<Rightarrow> \<not> is_ok (fst (arr_exec c a))
    | Some (y, ys) \<Rightarrow> \<exists>a'. arr_exec c a = (Inr y, a') \<and> arr_rel a' ys \<and> arr_max a' = arr_max a"
proof -
  have view: "arr_view a = Inr xs" and loaded: "arr_rel (arr_loaded a) xs"
    using assms arr_rel_loaded by (auto simp: arr_rel_def)
  show ?thesis
  proof (cases c)
    case (Op_Push d)
    then show ?thesis
      using Push_rel [OF assms, of d] Push_full [OF assms, of d]
      by (auto simp: op_map_def sbind_def ret_def)
  next
    case (Op_Put i d)
    then show ?thesis
      using PutAtIdxGrow_rel [OF assms, of i d] PutAtIdxGrow_full [OF assms, of i d]
      by (cases "i < arr_max a")
        (auto simp: op_map_def sbind_def ret_def is_ok_def split: sum.splits prod.splits)
  next
    case (Op_At i)
    then show ?thesis
      using loaded by (simp add: At_eq view op_map_def sbind_def ret_def nth_res_def)
  next
    case Op_Num
    then show ?thesis
      using loaded by (simp add: NumElements_eq view op_map_def sbind_def ret_def)
  next
    case Op_Bytes
    then show ?thesis
      using Bytes_rel [OF assms] Bytes_result [of a xs] assms
      by (cases "Bytes a")
        (auto simp: op_map_def sbind_def ret_def arr_rel_def is_ok_def split: sum.splits)
  qed
qed

section \<open>Properties\<close>

text \<open>
  C23 (array_codec_roundtrip): every list of at most 16383 byte strings, each shorter than 4 GiB,
  is serialised, and parsing the result (with any limit the list keeps) gives the list back.
\<close>

theorem array_codec_roundtrip:
  assumes "length ds \<le> 16383" and "\<forall>d \<in> set ds. length d < 2 ^ 32" and "length ds \<le> mx"
  shows "\<exists>bs. encodeArray ds = Inr bs \<and> parseArray bs mx = Inr ds"
proof -
  have "encodable ds" using assms by (auto simp: encodable_def maxArrayLen_eq MaxUint_defs)
  then show ?thesis using encodeArray_ok parse_encode assms(3) by blast
qed

theorem array_codec_roundtrip_witness:
  "\<exists>bs. encodeArray [[7], [], [1, 2, 3]] = Inr bs \<and> parseArray bs 3 = Inr [[7], [], [1, 2, 3]]"
  by (rule array_codec_roundtrip) auto

text \<open>
  C26 (array_encoding_shortest): the width of the length fields is chosen so that no byte string
  that parses to the same list is shorter than the one \<^verbatim>\<open>encodeArray\<close> writes.
\<close>

theorem array_encoding_shortest:
  assumes "parseArray bs mx = Inr ds"
  shows "\<exists>cs. encodeArray ds = Inr cs \<and> length cs \<le> length bs \<and> parseArray cs mx = Inr ds"
proof -
  obtain w where w: "wire_ok w ds" "length ds \<le> mx" "bs = wire w ds"
    using assms by (rule parseArray_Inr)
  then have le: "narrowest ds \<le> w" by (auto simp: wire_ok_def intro: narrowest_le)
  have "(\<Sum>d\<leftarrow>ds. narrowest ds + length d) \<le> (\<Sum>d\<leftarrow>ds. w + length d)"
    using le by (intro sum_list_mono) simp
  moreover have "w \<in> widths" using w(1) by (simp add: wire_ok_def)
  moreover have "encodeArray ds = Inr (wire (narrowest ds) ds)"
    using encodeArray_ok parseArray_encodable [OF assms] by blast
  ultimately show ?thesis
    using parse_encode w(2,3) by (auto simp: length_wire)
qed

theorem array_encoding_shortest_witness:
  "parseArray [128, 1, 0, 1, 9] 5 = Inr [[9]]
   \<and> (\<exists>cs. encodeArray [[9]] = Inr cs \<and> length cs \<le> length [128, 1, 0, 1, 9 :: byte]
        \<and> parseArray cs 5 = Inr [[9]])"
proof -
  have h: "parseArray [128, 1, 0, 1, 9] 5 = Inr [[9]]"
    using parseArray_wire [of 2 "[[9]]" 5] by (simp add: wire_eval wire_ok_eval)
  show ?thesis using h array_encoding_shortest [OF h] by blast
qed

text \<open>
  C24 (array_run_refines): any sequence of \<^verbatim>\<open>Push\<close>, \<^verbatim>\<open>PutAtIdxGrow\<close>, \<^verbatim>\<open>At\<close>, \<^verbatim>\<open>NumElements\<close> and \<^verbatim>\<open>Bytes\<close>
  calls on a fresh array behaves as on a plain list bounded by the array's limit: the same
  results, the same list in the end, and a panic exactly where the list operation is out of range.
\<close>

theorem array_run_refines:
  assumes "arr_rel a xs"
  shows "case list_run (arr_max a) cs xs of
      None \<Rightarrow> \<not> is_ok (fst (arr_run cs a))
    | Some (ys, t) \<Rightarrow> \<exists>a'. arr_run cs a = (Inr ys, a') \<and> arr_view a' = Inr t"
  using assms
proof (induction cs arbitrary: a xs)
  case Nil
  then show ?case by (simp add: ret_def arr_rel_def)
next
  case (Cons c cs)
  show ?case
  proof (cases "list_exec (arr_max a) c xs")
    case None
    then show ?thesis
      using arr_exec_refines [OF Cons.prems, of c]
      by (auto simp: sbind_def is_ok_def split: prod.splits sum.splits)
  next
    case (Some p)
    then obtain y ys where p: "p = (y, ys)" by (cases p)
    obtain a' where a': "arr_exec c a = (Inr y, a')" "arr_rel a' ys" "arr_max a' = arr_max a"
      using arr_exec_refines [OF Cons.prems, of c] Some p by auto
    have step: "arr_run (c # cs) a = op_map (\<lambda>ys. y # ys) (arr_run cs) a'"
      using a'(1) by simp
    show ?thesis
    proof (cases "list_run (arr_max a) cs ys")
      case None
      then have "\<not> is_ok (fst (arr_run cs a'))" using Cons.IH [OF a'(2)] a'(3) by simp
      then show ?thesis
        using Some p None unfolding step
        by (cases "arr_run cs a'") (auto simp: op_map_def sbind_def is_ok_def split: sum.splits)
    next
      case inner: (Some q)
      then obtain a'' where "arr_run cs a' = (Inr (fst q), a'')" "arr_view a'' = Inr (snd q)"
        using Cons.IH [OF a'(2)] a'(3) by (auto split: prod.splits)
      then show ?thesis
        using Some p inner unfolding step by (simp add: op_map_def ret_def split: prod.splits)
    qed
  qed
qed

theorem array_run_refines_witness:
  "arr_rel (EmptyArrayMax 2) []
   \<and> \<not> is_ok (fst (arr_run [Op_Push [1], Op_Num, Op_Put 2 [5]] (EmptyArrayMax 2)))"
proof -
  have h: "arr_rel (EmptyArrayMax 2) []" by (simp add: arr_rel_def)
  show ?thesis using h array_run_refines [OF h, of "[Op_Push [1], Op_Num, Op_Put 2 [5]]"] by simp
qed

text \<open>
  \<^verbatim>\<open>Push\<close> compares the limit with the length of the parsed form before it
  parses. On an array made from bytes that hold exactly the maximum number of elements and not
  read yet, the push succeeds and leaves one element more than the maximum.
\<close>

theorem push_past_limit:
  assumes "parseArray bs mx = Inr xs" and "length xs = mx" and "0 < mx"
  shows "\<exists>a'. Push d (ArrayFromBytesMax bs mx) = (Inr mx, a') \<and> arr_view a' = Inr (xs @ [d])
    \<and> fst (NumElements a') = Inr (Suc (arr_max a'))"
proof -
  have "nil_len (arr_parsed (ArrayFromBytesMax bs mx)) = 0"
    by (simp add: ArrayFromBytesMax_def nil_len_def)
  then show ?thesis
    using assms Push_ok [of "ArrayFromBytesMax bs mx" xs d] by (simp add: NumElements_eq)
qed

theorem push_past_limit_witness:
  "\<exists>a'. Push [2] (ArrayFromBytesMax [64, 1, 1, 9] 1) = (Inr 1, a') \<and> arr_view a' = Inr [[9], [2]]
    \<and> fst (NumElements a') = Inr (Suc (arr_max a'))"
proof -
  have h: "parseArray [64, 1, 1, 9] 1 = Inr [[9]]"
    using parseArray_wire [of 1 "[[9]]" 1] by (simp add: wire_eval wire_ok_eval)
  show ?thesis using push_past_limit [OF h, of "[2]"] by simp
qed

end
