(* ===== verification/LazyTree.thy ===== *)
theory LazyTree
  imports LazyArray
begin

text \<open>
  \<^verbatim>\<open>lazyslice/lazyslice.go\<close>, the \<^verbatim>\<open>Tree\<close>: an array whose elements are read as serialised arrays
  again. A tree caches the subtrees it has visited; reading therefore writes the tree. The map of
  subtrees is an association list, in the order in which \<^verbatim>\<open>range\<close> would visit it.

  The reference \<open>tree_at\<close> reads a path without any cache; the theorems show that the caching reads
  return exactly what it says, and leave a tree of which the same holds.
\<close>

type_synonym path = bytes

definition MaxElementsLazyTree :: nat where "MaxElementsLazyTree = 256"

datatype tree = Tree (tree_sa: array) (tree_subtrees: "(byte \<times> tree) list")

definition TreeFromBytes :: "bytes \<Rightarrow> tree" where
  "TreeFromBytes data = Tree (ArrayFromBytesMax data MaxElementsLazyTree) []"

definition TreeEmpty :: tree where
  "TreeEmpty = TreeFromBytes (lenPrefix_Bytes emptyArrayPrefix)"

definition AsTree :: "array \<Rightarrow> tree" where
  "AsTree a = Tree a []"

definition put_subtree :: "byte \<Rightarrow> tree \<Rightarrow> (byte \<times> tree) list \<Rightarrow> (byte \<times> tree) list" where
  \<comment> \<open>\<open>st.subtrees[i] = t\<close>\<close>
  "put_subtree i t subs = (i, t) # filter (\<lambda>p. fst p \<noteq> i) subs"

fun tree_Bytes :: "(bytes, tree) op"
  and tree_flush :: "(byte \<times> tree) list \<Rightarrow> array \<Rightarrow> unit res \<times> array \<times> (byte \<times> tree) list" where
  "tree_Bytes (Tree sa subs) =
     (if validBytes sa then (case Bytes sa of (r, sa') \<Rightarrow> (r, Tree sa' subs))
      else (case tree_flush subs sa of
              (Inl e, sa', subs') \<Rightarrow> (Inl e, Tree sa' subs')
            | (Inr _, sa', subs') \<Rightarrow> (case Bytes sa' of (r, sa'') \<Rightarrow> (r, Tree sa'' subs'))))"
| "tree_flush [] sa = (Inr (), sa, [])"
| "tree_flush ((i, t) # subs) sa =
     (if validBytes (tree_sa t)
      then (case tree_flush subs sa of (r, sa', subs') \<Rightarrow> (r, sa', (i, t) # subs'))
      else (case tree_Bytes t of
              (Inl e, t') \<Rightarrow> (Inl e, sa, (i, t') # subs)
            | (Inr b, t') \<Rightarrow>
                (case PutAtIdx (unat i) b sa of
                   (Inl e, sa') \<Rightarrow> (Inl e, sa', (i, t') # subs)
                 | (Inr _, sa') \<Rightarrow>
                     (case tree_flush subs sa' of
                        (r, sa'', subs') \<Rightarrow> (r, sa'', (i, t') # subs')))))"

definition getSubtree :: "byte \<Rightarrow> (tree, tree) op" where
  "getSubtree idx st =
     (case map_of (tree_subtrees st) idx of
        Some t \<Rightarrow> (Inr t, st)
      | None \<Rightarrow>
          (case At (unat idx) (tree_sa st) of
             (Inl e, sa') \<Rightarrow> (Inl e, Tree sa' (tree_subtrees st))
           | (Inr d, sa') \<Rightarrow> (Inr (TreeFromBytes d), Tree sa' (tree_subtrees st))))"

text \<open>
  A method applied to the object at the end of a path: \<^verbatim>\<open>BytesAtPath\<close> and \<^verbatim>\<open>Subtree\<close> walk down the
  same way. Go's \<^verbatim>\<open>Subtree\<close> returns a pointer through which the caller reads; here the caller's read
  \<open>f\<close> is passed down and its effect on the subtree is kept. On a panic the write to the cache is
  skipped, as the panic skips the assignment.
\<close>

fun at_subtree :: "path \<Rightarrow> ('a, tree) op \<Rightarrow> ('a, tree) op" where
  "at_subtree [] f st = f st"
| "at_subtree (i # p) f st =
     (case getSubtree i st of
        (Inl e, st') \<Rightarrow> (Inl e, st')
      | (Inr t, st') \<Rightarrow>
          (case at_subtree p f t of
             (Inl e, _) \<Rightarrow> (Inl e, st')
           | (Inr x, t') \<Rightarrow> (Inr x, Tree (tree_sa st') (put_subtree i t' (tree_subtrees st')))))"

definition on_array :: "('a, array) op \<Rightarrow> ('a, tree) op" where
  "on_array f st = (case f (tree_sa st) of (r, sa') \<Rightarrow> (r, Tree sa' (tree_subtrees st)))"

fun BytesAtPath :: "path \<Rightarrow> (bytes, tree) op" where
  "BytesAtPath [] st = tree_Bytes st"
| "BytesAtPath [i] st = on_array (At (unat i)) st"
| "BytesAtPath (i # p) st =
     (case getSubtree i st of
        (Inl e, st') \<Rightarrow> (Inl e, st')
      | (Inr t, st') \<Rightarrow>
          (case BytesAtPath p t of
             (Inl e, _) \<Rightarrow> (Inl e, st')
           | (Inr x, t') \<Rightarrow> (Inr x, Tree (tree_sa st') (put_subtree i t' (tree_subtrees st')))))"

definition tree_NumElements :: "path \<Rightarrow> (nat, tree) op" where
  "tree_NumElements p = at_subtree p (on_array NumElements)"

definition tree_elements :: "path \<Rightarrow> (bytes list, tree) op" where
  \<comment> \<open>the elements \<open>ForEach\<close> hands to its callback, in order\<close>
  "tree_elements p = at_subtree p (on_array Parsed)"

section \<open>The reference: reading without a cache\<close>

definition parse_node :: "bytes \<Rightarrow> bytes list res" where
  "parse_node d = as_panic (parseArray d MaxElementsLazyTree)"

fun elements_at :: "bytes list \<Rightarrow> path \<Rightarrow> bytes list res" where
  "elements_at xs [] = Inr xs"
| "elements_at xs (i # p) = rbind (nth_res xs (unat i)) (\<lambda>d. rbind (parse_node d) (\<lambda>ys. elements_at ys p))"

fun bytes_at :: "bytes list \<Rightarrow> path \<Rightarrow> bytes res" where
  "bytes_at xs [] = as_panic (encodeArray xs)"
| "bytes_at xs [i] = nth_res xs (unat i)"
| "bytes_at xs (i # p) = rbind (nth_res xs (unat i)) (\<lambda>d. rbind (parse_node d) (\<lambda>ys. bytes_at ys p))"

definition tree_at :: "tree \<Rightarrow> path \<Rightarrow> bytes res" where
  "tree_at st p =
     (if p = [] then fst (Bytes (tree_sa st)) else rbind (arr_view (tree_sa st)) (\<lambda>xs. bytes_at xs p))"

definition tree_elements_at :: "tree \<Rightarrow> path \<Rightarrow> bytes list res" where
  "tree_elements_at st p = rbind (arr_view (tree_sa st)) (\<lambda>xs. elements_at xs p)"

section \<open>The cache is invisible\<close>

text \<open>
  \<open>node_ok d t\<close>: the cached node \<open>t\<close> was made from the bytes \<open>d\<close>. \<open>subs_ok t\<close>: each cached subtree
  of \<open>t\<close> was made from the element it stands for.
\<close>

inductive node_ok :: "bytes \<Rightarrow> tree \<Rightarrow> bool"
  and subs_ok :: "tree \<Rightarrow> bool" where
  node: "arr_bytes (tree_sa t) = Some d \<Longrightarrow> arr_max (tree_sa t) = MaxElementsLazyTree
    \<Longrightarrow> (\<And>xs. arr_parsed (tree_sa t) = Some xs \<Longrightarrow> parseArray d MaxElementsLazyTree = Inr xs)
    \<Longrightarrow> subs_ok t \<Longrightarrow> node_ok d t"
| subs: "(\<And>k s. (k, s) \<in> set (tree_subtrees t)
      \<Longrightarrow> \<exists>xs. arr_parsed (tree_sa t) = Some xs \<and> unat k < length xs \<and> node_ok (xs ! unat k) s)
    \<Longrightarrow> subs_ok t"

inductive_simps node_ok_iff: "node_ok d t"
inductive_simps subs_ok_iff: "subs_ok t"

lemma node_ok_view: "node_ok d t \<Longrightarrow> arr_view (tree_sa t) = parse_node d"
  by (auto simp: node_ok_iff arr_view_def parse_node_def split: option.splits)

lemma node_ok_subs: "node_ok d t \<Longrightarrow> subs_ok t"
  by (simp add: node_ok_iff)

lemma subs_ok_fresh [simp]: "subs_ok (Tree a [])"
  by (simp add: subs_ok_iff)

lemma node_ok_TreeFromBytes [simp]: "node_ok d (TreeFromBytes d)"
  by (simp add: node_ok_iff TreeFromBytes_def ArrayFromBytesMax_def)

lemma arr_loaded_same: "arr_parsed a = Some xs \<Longrightarrow> arr_loaded a = a"
  by (cases a) (simp add: arr_loaded_def arr_view_def)

lemma subs_ok_same_parsed:
  "subs_ok (Tree a subs) \<Longrightarrow> (\<And>xs. arr_parsed a = Some xs \<Longrightarrow> arr_parsed b = Some xs) \<Longrightarrow> subs_ok (Tree b subs)"
  by (simp add: subs_ok_iff) blast

lemma arr_loaded_parsed: "arr_parsed a = Some xs \<Longrightarrow> arr_parsed (arr_loaded a) = Some xs"
  by (simp add: arr_loaded_same)

lemma subs_ok_loaded: "subs_ok t \<Longrightarrow> subs_ok (Tree (arr_loaded (tree_sa t)) (tree_subtrees t))"
  by (cases t) (auto elim: subs_ok_same_parsed intro: arr_loaded_parsed)

lemma node_ok_loaded:
  assumes "node_ok d t" and "tree_sa t' = arr_loaded (tree_sa t)" and "subs_ok t'"
  shows "node_ok d t'"
proof -
  have "parseArray d MaxElementsLazyTree = Inr xs" if "arr_parsed (tree_sa t') = Some xs" for xs
    using assms(1,2) that node_ok_view [OF assms(1)]
    by (auto simp: node_ok_iff arr_loaded_def parse_node_def split: sum.splits)
  then show ?thesis using assms by (simp add: node_ok_iff)
qed

lemma getSubtree_ok:
  assumes "subs_ok t"
  shows "case rbind (arr_view (tree_sa t)) (\<lambda>xs. nth_res xs (unat i)) of
      Inl e \<Rightarrow> \<exists>t'. getSubtree i t = (Inl e, t') \<and> subs_ok t' \<and> tree_sa t' = arr_loaded (tree_sa t)
    | Inr d \<Rightarrow> \<exists>s t'. getSubtree i t = (Inr s, t') \<and> node_ok d s \<and> subs_ok t'
        \<and> tree_sa t' = arr_loaded (tree_sa t)"
proof (cases "map_of (tree_subtrees t) i")
  case None
  then show ?thesis
    using subs_ok_loaded [OF assms] by (auto simp: getSubtree_def At_eq split: sum.splits)
next
  case (Some s)
  then obtain xs where "arr_parsed (tree_sa t) = Some xs" "unat i < length xs" "node_ok (xs ! unat i) s"
    using assms by (auto simp: subs_ok_iff dest!: map_of_SomeD)
  then show ?thesis
    using Some assms by (simp add: getSubtree_def arr_view_def arr_loaded_same nth_res_def)
qed

lemma subs_ok_put:
  assumes "subs_ok t" and "arr_view (tree_sa t) = Inr xs" and "tree_sa t = arr_loaded a"
    and "unat i < length xs" and "node_ok (xs ! unat i) s"
  shows "subs_ok (Tree (tree_sa t) (put_subtree i s (tree_subtrees t)))"
proof -
  have "arr_parsed (tree_sa t) = Some xs"
    using assms(2,3) by (metis arr_loaded_simps(2,5))
  then show ?thesis using assms(1,4,5) by (auto simp: subs_ok_iff put_subtree_def)
qed

text \<open>
  One walk down the tree, for both readers: the answer is the reference's, the array at the top is
  at most parsed, and the cache stays correct.
\<close>

definition reads :: "('a, tree) op \<Rightarrow> tree \<Rightarrow> 'a res \<Rightarrow> bool" where
  "reads m t r \<longleftrightarrow> fst (m t) = r \<and> subs_ok (snd (m t)) \<and> tree_sa (snd (m t)) = arr_loaded (tree_sa t)"

lemma walk_reads:
  assumes "subs_ok t"
    and step: "m t = (case getSubtree i t of
        (Inl e, st') \<Rightarrow> (Inl e, st')
      | (Inr s, st') \<Rightarrow>
          (case k s of
             (Inl e, _) \<Rightarrow> (Inl e, st')
           | (Inr x, s') \<Rightarrow> (Inr x, Tree (tree_sa st') (put_subtree i s' (tree_subtrees st')))))"
    and down: "\<And>d s. node_ok d s \<Longrightarrow> reads k s (rbind (parse_node d) g)"
  shows "reads m t (rbind (arr_view (tree_sa t)) (\<lambda>xs. rbind (nth_res xs (unat i)) (\<lambda>d. rbind (parse_node d) g)))"
proof (cases "rbind (arr_view (tree_sa t)) (\<lambda>xs. nth_res xs (unat i))")
  case (Inl e)
  then obtain t' where sub: "getSubtree i t = (Inl e, t')" "subs_ok t'"
    "tree_sa t' = arr_loaded (tree_sa t)"
    using getSubtree_ok [OF assms(1), of i] by auto
  have "rbind (arr_view (tree_sa t)) (\<lambda>xs. rbind (nth_res xs (unat i)) (\<lambda>d. rbind (parse_node d) g)) = Inl e"
    by (simp add: Inl flip: rbind_assoc)
  then show ?thesis using sub by (simp add: reads_def step)
next
  case (Inr d)
  then obtain xs where xs: "arr_view (tree_sa t) = Inr xs" "unat i < length xs" "xs ! unat i = d"
    by auto
  obtain s t' where sub: "getSubtree i t = (Inr s, t')" "node_ok d s" "subs_ok t'"
    "tree_sa t' = arr_loaded (tree_sa t)"
    using getSubtree_ok [OF assms(1), of i] Inr by auto
  note dn = down [OF sub(2)]
  have s': "node_ok d (snd (k s))"
    using node_ok_loaded [OF sub(2), of "snd (k s)"] dn by (simp add: reads_def)
  have "subs_ok (Tree (tree_sa t') (put_subtree i (snd (k s)) (tree_subtrees t')))"
    using subs_ok_put [OF sub(3) _ sub(4)] sub(4) xs s' by simp
  then show ?thesis
    using dn sub xs by (cases "k s") (auto simp: reads_def step split: sum.splits)
qed

lemma on_array_At: "on_array (At i) t
    = (rbind (arr_view (tree_sa t)) (\<lambda>xs. nth_res xs i), Tree (arr_loaded (tree_sa t)) (tree_subtrees t))"
  by (simp add: on_array_def At_eq)

lemma BytesAtPath_reads:
  "subs_ok t \<Longrightarrow> p \<noteq> [] \<Longrightarrow> reads (BytesAtPath p) t (rbind (arr_view (tree_sa t)) (\<lambda>xs. bytes_at xs p))"
proof (induction p arbitrary: t)
  case Nil
  then show ?case by simp
next
  case (Cons i q)
  show ?case
  proof (cases q)
    case Nil
    then show ?thesis
      using subs_ok_loaded [OF Cons.prems(1)] by (simp add: reads_def on_array_At)
  next
    case (Cons j r)
    then have q: "q \<noteq> []" by simp
    have "reads (BytesAtPath (i # q)) t (rbind (arr_view (tree_sa t)) (\<lambda>xs. rbind (nth_res xs (unat i))
        (\<lambda>d. rbind (parse_node d) (\<lambda>ys. bytes_at ys q))))"
    proof (rule walk_reads [OF Cons.prems(1)])
      fix d s assume s: "node_ok d s"
      show "reads (BytesAtPath q) s (rbind (parse_node d) (\<lambda>ys. bytes_at ys q))"
        using Cons.IH [OF node_ok_subs [OF s] q] node_ok_view [OF s] by simp
    qed (unfold Cons, rule BytesAtPath.simps)
    then show ?thesis by (simp add: Cons del: BytesAtPath.simps)
  qed
qed

lemma at_subtree_reads_bind:
  assumes "subs_ok t" and f: "\<And>t. subs_ok t \<Longrightarrow> reads f t (rbind (arr_view (tree_sa t)) g)"
  shows "reads (at_subtree p f) t (rbind (arr_view (tree_sa t)) (\<lambda>xs. rbind (elements_at xs p) g))"
  using assms(1)
proof (induction p arbitrary: t)
  case Nil
  then show ?case using f [OF Nil] by (simp add: reads_def)
next
  case (Cons i q)
  have "reads (at_subtree (i # q) f) t (rbind (arr_view (tree_sa t)) (\<lambda>xs. rbind (nth_res xs (unat i))
      (\<lambda>d. rbind (parse_node d) (\<lambda>ys. rbind (elements_at ys q) g))))"
  proof (rule walk_reads [OF Cons.prems])
    fix d s assume s: "node_ok d s"
    show "reads (at_subtree q f) s (rbind (parse_node d) (\<lambda>ys. rbind (elements_at ys q) g))"
      using Cons.IH [OF node_ok_subs [OF s]] node_ok_view [OF s] by simp
  qed simp
  then show ?case by (simp add: rbind_assoc del: at_subtree.simps)
qed

lemma at_subtree_reads:
  assumes "subs_ok t" and f: "\<And>t. subs_ok t \<Longrightarrow> reads f t (rmap g (arr_view (tree_sa t)))"
  shows "reads (at_subtree p f) t (rmap g (rbind (arr_view (tree_sa t)) (\<lambda>xs. elements_at xs p)))"
  using at_subtree_reads_bind [OF assms(1), of f "\<lambda>xs. Inr (g xs)" p] f by (simp add: rmap_def rbind_assoc)

lemma NumElements_reads: "subs_ok t \<Longrightarrow> reads (on_array NumElements) t (rmap length (arr_view (tree_sa t)))"
  using subs_ok_loaded by (simp add: reads_def on_array_def NumElements_eq)

lemma Parsed_reads: "subs_ok t \<Longrightarrow> reads (on_array Parsed) t (rmap id (arr_view (tree_sa t)))"
  using subs_ok_loaded by (simp add: reads_def on_array_def Parsed_def ensureParsed_eq rmap_def)

section \<open>Reading the whole tree\<close>

lemma node_ok_valid: "node_ok d t \<Longrightarrow> validBytes (tree_sa t)"
  by (auto simp: node_ok_iff validBytes_def nil_len_def parseArray_def split: option.splits if_splits)

lemma tree_flush_cached:
  "\<forall>p \<in> set subs. validBytes (tree_sa (snd p)) \<Longrightarrow> tree_flush subs sa = (Inr (), sa, subs)"
  by (induction subs) auto

lemma tree_Bytes_cached: "subs_ok t \<Longrightarrow> tree_Bytes t = on_array Bytes t"
proof -
  assume "subs_ok t"
  then have "\<forall>p \<in> set (tree_subtrees t). validBytes (tree_sa (snd p))"
    by (force simp: subs_ok_iff dest: node_ok_valid)
  then show ?thesis
    by (cases t) (simp add: tree_flush_cached on_array_def split: prod.splits)
qed

definition tree_inv :: "tree \<Rightarrow> bool" where
  "tree_inv t \<longleftrightarrow> arr_inv (tree_sa t) \<and> subs_ok t"

lemma Bytes_again:
  assumes "arr_inv a"
  shows "fst (Bytes (arr_loaded a)) = fst (Bytes a)"
    and "fst (Bytes (snd (Bytes a))) = fst (Bytes a)"
    and "arr_view (snd (Bytes a)) = arr_view a"
    and "arr_parsed (snd (Bytes a)) = arr_parsed a"
    and "arr_inv (snd (Bytes a))"
proof -
  show "fst (Bytes (arr_loaded a)) = fst (Bytes a)"
  proof (cases "arr_bytes a")
    case None
    then have "arr_loaded a = a" using assms by (auto simp: arr_inv_def arr_loaded_same)
    then show ?thesis by simp
  next
    case (Some b)
    then show ?thesis by (simp add: Bytes_def ensureBytes_def sbind_def)
  qed
  show "arr_parsed (snd (Bytes a)) = arr_parsed a"
    by (auto simp: Bytes_def ensureBytes_def sbind_def split: option.splits sum.splits prod.splits
        if_splits)
  show "fst (Bytes (snd (Bytes a))) = fst (Bytes a)"
    by (auto simp: Bytes_def ensureBytes_def sbind_def split: option.splits sum.splits prod.splits
        if_splits)
  show "arr_view (snd (Bytes a)) = arr_view a" "arr_inv (snd (Bytes a))"
    using assms Bytes_ok [of a] assms
    by (cases "fst (Bytes a)"; cases "Bytes a";
        auto simp: Bytes_def ensureBytes_def sbind_def split: option.splits sum.splits if_splits)+
qed

section \<open>The interface of a cached reader\<close>

text \<open>
  What the validator and the EasyFL built-ins rely on when they read the validation context: each
  answer is a function of the data alone, whatever was read before, and whether or not an earlier
  read panicked and was recovered from.
\<close>

locale cached_reader =
  fixes read :: "'q \<Rightarrow> ('x, 't) op"
    and answer :: "'t \<Rightarrow> 'q \<Rightarrow> 'x res"
    and ok :: "'t \<Rightarrow> bool"
  assumes read_answer: "ok t \<Longrightarrow> fst (read q t) = answer t q"
    and read_ok: "ok t \<Longrightarrow> ok (snd (read q t))"
    and read_keeps: "ok t \<Longrightarrow> answer (snd (read q t)) q' = answer t q'"
begin

lemma read_seq: "ok t \<Longrightarrow> fst (op_seq read qs t) = map (answer t) qs \<and> ok (snd (op_seq read qs t))"
proof (induction qs arbitrary: t)
  case Nil
  then show ?case by simp
next
  case (Cons q qs)
  have "map (answer (snd (read q t))) qs = map (answer t) qs"
    using read_keeps [OF Cons.prems] by simp
  then show ?case
    using Cons.IH [OF read_ok [OF Cons.prems, of q]] read_answer [OF Cons.prems, of q]
    by (cases "read q t"; cases "op_seq read qs (snd (read q t))") simp
qed

end

datatype tree_req = Rq_bytes path | Rq_num path | Rq_elems path

datatype tree_out = Out_data bytes | Out_num nat | Out_elems "bytes list"

fun tree_read :: "tree_req \<Rightarrow> (tree_out, tree) op" where
  "tree_read (Rq_bytes p) t = (case BytesAtPath p t of (r, t') \<Rightarrow> (rmap Out_data r, t'))"
| "tree_read (Rq_num p) t = (case tree_NumElements p t of (r, t') \<Rightarrow> (rmap Out_num r, t'))"
| "tree_read (Rq_elems p) t = (case tree_elements p t of (r, t') \<Rightarrow> (rmap Out_elems r, t'))"

fun tree_answer :: "tree \<Rightarrow> tree_req \<Rightarrow> tree_out res" where
  "tree_answer t (Rq_bytes p) = rmap Out_data (tree_at t p)"
| "tree_answer t (Rq_num p) = rmap (\<lambda>xs. Out_num (length xs)) (tree_elements_at t p)"
| "tree_answer t (Rq_elems p) = rmap Out_elems (tree_elements_at t p)"

lemma tree_answer_cong:
  assumes "arr_view (tree_sa t') = arr_view (tree_sa t)"
    and "fst (Bytes (tree_sa t')) = fst (Bytes (tree_sa t))"
  shows "tree_answer t' q = tree_answer t q"
  using assms by (cases q) (simp_all add: tree_at_def tree_elements_at_def)

lemma reads_tree_inv:
  assumes "tree_inv t" and "reads m t r"
  shows "tree_inv (snd (m t)) \<and> tree_answer (snd (m t)) q = tree_answer t q"
  using assms Bytes_again(1) [of "tree_sa t"]
  by (auto simp: tree_inv_def reads_def intro: tree_answer_cong)

lemma tree_read_spec:
  assumes "tree_inv t"
  shows "fst (tree_read q t) = tree_answer t q" and "tree_inv (snd (tree_read q t))"
    and "tree_answer (snd (tree_read q t)) q' = tree_answer t q'"
proof -
  have subs: "subs_ok t" and inv: "arr_inv (tree_sa t)"
    using assms by (simp_all add: tree_inv_def)
  have "fst (tree_read q t) = tree_answer t q \<and> tree_inv (snd (tree_read q t))
    \<and> tree_answer (snd (tree_read q t)) q' = tree_answer t q'"
  proof (cases q)
    case (Rq_bytes p)
    show ?thesis
    proof (cases "p = []")
      case True
      have eq: "tree_read q t = (rmap Out_data (fst (Bytes (tree_sa t))),
          Tree (snd (Bytes (tree_sa t))) (tree_subtrees t))"
        using Rq_bytes True by (simp add: tree_Bytes_cached [OF subs] on_array_def split: prod.splits)
      have "subs_ok (Tree (snd (Bytes (tree_sa t))) (tree_subtrees t))"
        using subs Bytes_again(4) [OF inv] by (simp add: subs_ok_iff)
      moreover have "tree_answer (Tree (snd (Bytes (tree_sa t))) (tree_subtrees t)) q' = tree_answer t q'"
        by (rule tree_answer_cong) (simp_all add: Bytes_again [OF inv])
      ultimately show ?thesis
        using Bytes_again(5) [OF inv] Rq_bytes True unfolding eq
        by (simp add: tree_inv_def tree_at_def)
    next
      case False
      have r: "reads (BytesAtPath p) t (tree_at t p)"
        using BytesAtPath_reads [OF subs False] False by (simp add: tree_at_def)
      show ?thesis
        using reads_tree_inv [OF assms r] r Rq_bytes
        by (cases "BytesAtPath p t") (simp add: reads_def)
    qed
  next
    case (Rq_num p)
    have r: "reads (tree_NumElements p) t (rmap length (tree_elements_at t p))"
      unfolding tree_NumElements_def tree_elements_at_def
      by (rule at_subtree_reads [OF subs NumElements_reads])
    show ?thesis
      using reads_tree_inv [OF assms r] r Rq_num
      by (cases "tree_NumElements p t") (simp add: reads_def rmap_def rbind_assoc)
  next
    case (Rq_elems p)
    have r: "reads (tree_elements p) t (rmap id (tree_elements_at t p))"
      unfolding tree_elements_def tree_elements_at_def
      by (rule at_subtree_reads [OF subs Parsed_reads])
    show ?thesis
      using reads_tree_inv [OF assms r] r Rq_elems
      by (cases "tree_elements p t") (simp add: reads_def rmap_def rbind_assoc)
  qed
  then show "fst (tree_read q t) = tree_answer t q" "tree_inv (snd (tree_read q t))"
    "tree_answer (snd (tree_read q t)) q' = tree_answer t q'" by simp_all
qed

interpretation tr: cached_reader tree_read tree_answer tree_inv
  by unfold_locales (simp_all add: tree_read_spec)

lemma tree_inv_AsTree [simp]: "arr_inv a \<Longrightarrow> tree_inv (AsTree a)"
  by (simp add: tree_inv_def AsTree_def)

lemma tree_inv_TreeFromBytes [simp]: "tree_inv (TreeFromBytes d)"
  by (simp add: tree_inv_def TreeFromBytes_def)

section \<open>Properties\<close>

text \<open>
  C25 (tree_reads_refine): for any sequence of reads (data at a path, number of elements, elements)
  on a tree fresh from bytes or from an array, each answer of the caching implementation, the
  panics included, is the answer of reading the data directly, whatever was read before.
\<close>

theorem tree_reads_refine:
  assumes "arr_inv a"
  shows "fst (op_seq tree_read qs (AsTree a)) = map (tree_answer (AsTree a)) qs"
  using tr.read_seq [OF tree_inv_AsTree [OF assms]] by blast

theorem tree_reads_refine_witness:
  "fst (op_seq tree_read [Rq_bytes [0, 0], Rq_num [0]] (AsTree (ArrayFromBytesMax [64, 1, 4, 64, 1, 1, 9] 256)))
    = [Inr (Out_data [9]), Inr (Out_num 1)]"
proof -
  have "parseArray [64, 1, 1, 9] 256 = Inr [[9]]"
    using parseArray_wire [of 1 "[[9]]" 256] by (simp add: wire_eval wire_ok_eval)
  moreover have "parseArray [64, 1, 4, 64, 1, 1, 9] 256 = Inr [[64, 1, 1, 9]]"
    using parseArray_wire [of 1 "[[64, 1, 1, 9]]" 256] by (simp add: wire_eval wire_ok_eval)
  ultimately show ?thesis
    using tree_reads_refine [of "ArrayFromBytesMax [64, 1, 4, 64, 1, 1, 9] 256" "[Rq_bytes [0, 0], Rq_num [0]]"]
    by (simp add: tree_at_def tree_elements_at_def AsTree_def parse_node_def MaxElementsLazyTree_def)
qed

end
