(* ===== verification/EasyFL.thy ===== *)
theory EasyFL
  imports LazyTree
begin

text \<open>
  The EasyFL engine (package \<^verbatim>\<open>easyfl\<close>, not part of the repository) as a parameter: the functions of
  its API that the repository calls, and its built-in functions that the constraint sources call.
  The laws the development relies on are predicates, used as named hypotheses: they state what the
  sources and their comments say of the built-ins. An argument of a formula may be a panic, because
  \<^verbatim>\<open>and\<close>, \<^verbatim>\<open>or\<close> and \<^verbatim>\<open>if\<close> do not evaluate every argument (\<^verbatim>\<open>lock_ed25519.go\<close>: ``Second condition not
  evaluated if the first is true'').

  The Go functions that \<^verbatim>\<open>constraints/extensions.go\<close> embeds into EasyFL (\<^verbatim>\<open>@\<close>, \<^verbatim>\<open>@Path\<close>, \<^verbatim>\<open>@Array8\<close>,
  \<^verbatim>\<open>callLocalLibrary\<close>) are definitions.
\<close>

section \<open>The interface\<close>

type_synonym val = "bytes res"

datatype builtin =
    B_and | B_or | B_not | B_if | B_true | B_nil | B_fail
  | B_equal | B_hasPrefix | B_isZero
  | B_lessThan | B_lessOrEqualThan | B_greaterOrEqualThan
  | B_len8 | B_len16 | B_concat | B_slice | B_byte | B_tail | B_repeat | B_mul16_32
  | B_blake2b | B_validSignatureED25519
  | B_parseBytecodeArg | B_parseBytecodePrefix

record data_context =
  \<comment> \<open>\<open>constraints.DataContext\<close>\<close>
  dc_tree :: tree
  dc_path :: path

record easyfl =
  ParseBytecodeOneLevel :: "bytes \<Rightarrow> nat option \<Rightarrow> (string \<times> bytes \<times> bytes list) res"
  ParseBytecodePrefix :: "bytes \<Rightarrow> bytes res"
  StripDataPrefix :: "bytes \<Rightarrow> bytes"
  CompileExpression :: "string \<Rightarrow> bytes res"
  EvalFromBinary :: "data_context \<Rightarrow> bytes \<Rightarrow> bytes list \<Rightarrow> val"
  CallLocalLibrary :: "data_context \<Rightarrow> val list \<Rightarrow> bytes list \<Rightarrow> nat \<Rightarrow> val"
  PrefixOf :: "string \<Rightarrow> bytes"
  Builtin :: "builtin \<Rightarrow> val list \<Rightarrow> val"
  Sum256 :: "bytes \<Rightarrow> bytes"
  VerifyED25519 :: "bytes \<Rightarrow> bytes \<Rightarrow> bytes \<Rightarrow> bool"

text \<open>\<open>PrefixOf E name\<close> is EasyFL's \<^verbatim>\<open>#name\<close>; \<open>Sum256\<close> is \<^verbatim>\<open>blake2b.Sum256\<close>.\<close>

abbreviation fl :: "easyfl \<Rightarrow> builtin \<Rightarrow> val list \<Rightarrow> val" where
  "fl E \<equiv> Builtin E"

section \<open>Embedded functions\<close>

definition NewDataContext :: "tree \<Rightarrow> data_context" where
  "NewDataContext t = \<lparr>dc_tree = t, dc_path = []\<rparr>"

definition SetPath :: "path \<Rightarrow> data_context \<Rightarrow> data_context" where
  "SetPath p c = c\<lparr>dc_path := p\<rparr>"

definition evalPath :: "data_context \<Rightarrow> val" where
  "evalPath c = Inr (dc_path c)"

definition evalAtPath :: "data_context \<Rightarrow> val \<Rightarrow> val" where
  "evalAtPath c a0 = rbind a0 (\<lambda>p. fst (BytesAtPath p (dc_tree c)))"

definition evalAtArray8 :: "val \<Rightarrow> val \<Rightarrow> val" where
  "evalAtArray8 a0 a1 =
     rbind a0 (\<lambda>data. rbind a1 (\<lambda>idx.
       if length idx \<noteq> 1 then Inl (Panic Wrong_array8_index)
       else fst (At (unat (idx ! 0)) (ArrayFromBytes data))))"

definition evalCallLocalLibrary :: "easyfl \<Rightarrow> data_context \<Rightarrow> val list \<Rightarrow> val" where
  "evalCallLocalLibrary E c args =
     rbind (rbind (nth_res args 0) id) (\<lambda>lib.
     rbind (fst (Parsed (ArrayFromBytes lib))) (\<lambda>libData.
     rbind (rbind (nth_res args 1) id) (\<lambda>idx.
       if length idx \<noteq> 1 \<or> unat (idx ! 0) \<ge> length libData then Inl (Panic Wrong_arguments)
       else CallLocalLibrary E c (drop 2 args) libData (unat (idx ! 0)))))"

section \<open>Truth\<close>

text \<open>
  A constraint holds when it evaluates to a non-empty byte string. \<open>tv\<close> is the outcome: \<open>None\<close> for
  a panic, \<open>Some False\<close> for the empty string.
\<close>

definition tv :: "val \<Rightarrow> bool option" where
  "tv r = (case r of Inl _ \<Rightarrow> None | Inr v \<Rightarrow> Some (v \<noteq> []))"

definition holds :: "val \<Rightarrow> bool" where
  "holds r \<longleftrightarrow> tv r = Some True"

fun all_in_order :: "val list \<Rightarrow> bool option" where
  "all_in_order [] = Some True"
| "all_in_order (r # rs) = (case tv r of Some True \<Rightarrow> all_in_order rs | x \<Rightarrow> x)"

fun any_in_order :: "val list \<Rightarrow> bool option" where
  "any_in_order [] = Some False"
| "any_in_order (r # rs) = (case tv r of Some False \<Rightarrow> any_in_order rs | x \<Rightarrow> x)"

lemma tv_simps [simp]: "tv (Inr v) = Some (v \<noteq> [])" "tv (Inl e) = None"
  by (simp_all add: tv_def)

lemma tv_None_iff: "tv r = None \<longleftrightarrow> (\<exists>e. r = Inl e)"
  by (cases r) simp_all

lemma tv_Some_iff: "tv r = Some b \<longleftrightarrow> (\<exists>v. r = Inr v \<and> b = (v \<noteq> []))"
  by (cases r) auto

lemma holds_iff: "holds r \<longleftrightarrow> (\<exists>v. r = Inr v \<and> v \<noteq> [])"
  by (auto simp: holds_def tv_Some_iff)

lemma all_in_order_True: "all_in_order rs = Some True \<longleftrightarrow> (\<forall>r \<in> set rs. holds r)"
  by (induction rs) (auto simp: holds_def split: option.splits bool.splits)

lemma all_in_order_False:
  "\<forall>r \<in> set rs. tv r \<noteq> None \<Longrightarrow> all_in_order rs = Some (\<forall>r \<in> set rs. holds r)"
  by (induction rs) (auto simp: holds_def split: option.splits bool.splits)

lemma any_in_order_True_imp: "any_in_order rs = Some True \<Longrightarrow> \<exists>r \<in> set rs. holds r"
  by (induction rs) (auto simp: holds_def split: option.splits bool.splits)

section \<open>Laws of the built-ins\<close>

definition sub_bytes :: "nat \<Rightarrow> nat \<Rightarrow> bytes \<Rightarrow> bytes" where
  "sub_bytes i j bs = take (Suc j - i) (drop i bs)"

definition strict_builtin :: "builtin \<Rightarrow> bool" where
  "strict_builtin b \<longleftrightarrow> b \<notin> {B_and, B_or, B_if}"

definition logic_laws :: "easyfl \<Rightarrow> bool" where
  "logic_laws E \<longleftrightarrow>
     (\<forall>rs. tv (fl E B_and rs) = all_in_order rs) \<and>
     (\<forall>rs. tv (fl E B_or rs) = any_in_order rs) \<and>
     (\<forall>r. tv (fl E B_not [r]) = map_option Not (tv r)) \<and>
     (\<forall>c a b. tv (fl E B_if [c, a, b]) =
        (case tv c of None \<Rightarrow> None | Some True \<Rightarrow> tv a | Some False \<Rightarrow> tv b)) \<and>
     (\<forall>c a b. tv c = Some True \<longrightarrow> fl E B_if [c, a, b] = a) \<and>
     (\<forall>c a b. tv c = Some False \<longrightarrow> fl E B_if [c, a, b] = b) \<and>
     tv (fl E B_true []) = Some True \<and>
     fl E B_nil [] = Inr [] \<and>
     tv (fl E B_fail []) = None \<and>
     (\<forall>b rs. strict_builtin b \<longrightarrow> (\<exists>r \<in> set rs. tv r = None) \<longrightarrow> tv (fl E b rs) = None)"

definition compare_laws :: "easyfl \<Rightarrow> bool" where
  "compare_laws E \<longleftrightarrow>
     (\<forall>x y. tv (fl E B_equal [Inr x, Inr y]) = Some (x = y)) \<and>
     (\<forall>x y. tv (fl E B_hasPrefix [Inr x, Inr y]) = Some (take (length y) x = y)) \<and>
     (\<forall>x. tv (fl E B_isZero [Inr x]) = Some (\<forall>b \<in> set x. b = 0)) \<and>
     (\<forall>x y. tv (fl E B_lessThan [Inr x, Inr y]) =
        (if length x = length y then Some (be_val x < be_val y) else None)) \<and>
     (\<forall>x y. tv (fl E B_lessOrEqualThan [Inr x, Inr y]) =
        (if length x = length y then Some (be_val x \<le> be_val y) else None)) \<and>
     (\<forall>x y. tv (fl E B_greaterOrEqualThan [Inr x, Inr y]) =
        (if length x = length y then Some (be_val x \<ge> be_val y) else None))"

definition bytes_laws :: "easyfl \<Rightarrow> bool" where
  "bytes_laws E \<longleftrightarrow>
     (\<forall>x. length x < 256 \<longrightarrow> fl E B_len8 [Inr x] = Inr [of_nat (length x)]) \<and>
     (\<forall>x. 256 \<le> length x \<longrightarrow> tv (fl E B_len8 [Inr x]) = None) \<and>
     (\<forall>x. length x < 65536 \<longrightarrow> fl E B_len16 [Inr x] = Inr (be 2 (length x))) \<and>
     (\<forall>x. 65536 \<le> length x \<longrightarrow> tv (fl E B_len16 [Inr x]) = None) \<and>
     (\<forall>xs. fl E B_concat (map Inr xs) = Inr (concat xs)) \<and>
     (\<forall>x i j. unat i \<le> unat j \<longrightarrow> unat j < length x \<longrightarrow>
        fl E B_slice [Inr x, Inr [i], Inr [j]] = Inr (sub_bytes (unat i) (unat j) x)) \<and>
     (\<forall>x i j. \<not> (unat i \<le> unat j \<and> unat j < length x) \<longrightarrow>
        tv (fl E B_slice [Inr x, Inr [i], Inr [j]]) = None) \<and>
     (\<forall>x i. unat i < length x \<longrightarrow> fl E B_byte [Inr x, Inr [i]] = Inr [x ! unat i]) \<and>
     (\<forall>x i. length x \<le> unat i \<longrightarrow> tv (fl E B_byte [Inr x, Inr [i]]) = None) \<and>
     (\<forall>x i. unat i < length x \<longrightarrow> fl E B_tail [Inr x, Inr [i]] = Inr (drop (unat i) x)) \<and>
     (\<forall>x i. length x \<le> unat i \<longrightarrow> tv (fl E B_tail [Inr x, Inr [i]]) = None) \<and>
     (\<forall>x n. fl E B_repeat [Inr x, Inr [n]] = Inr (concat (replicate (unat n) x))) \<and>
     (\<forall>x y. length x = 2 \<longrightarrow> length y = 2 \<longrightarrow>
        fl E B_mul16_32 [Inr x, Inr y] = Inr (be 4 (be_val x * be_val y)))"

definition crypto_laws :: "easyfl \<Rightarrow> bool" where
  "crypto_laws E \<longleftrightarrow>
     (\<forall>x. length (Sum256 E x) = 32) \<and>
     (\<forall>x. fl E B_blake2b [Inr x] = Inr (Sum256 E x)) \<and>
     (\<forall>m s k. holds (fl E B_validSignatureED25519 [Inr m, Inr s, Inr k]) \<longleftrightarrow> VerifyED25519 E k m s)"

text \<open>
  The constraint functions that the repository adds to the library, with their number of arguments.
\<close>

definition constraint_arity :: "(string \<times> nat) list" where
  "constraint_arity =
     [(''amount'', 1), (''timestamp'', 1), (''addressED25519'', 1), (''deadlineLock'', 3),
      (''timelock'', 1), (''senderAddressED25519'', 1), (''chain'', 1), (''chainLock'', 1),
      (''royaltiesED25519'', 2), (''immutable'', 1), (''commitToSibling'', 2)]"

definition constraint_symbols :: "string list" where
  "constraint_symbols = map fst constraint_arity"

definition parse_laws :: "easyfl \<Rightarrow> bool" where
  "parse_laws E \<longleftrightarrow>
     (\<forall>code n r. ParseBytecodeOneLevel E code (Some n) = Inr r \<longleftrightarrow>
        ParseBytecodeOneLevel E code None = Inr r \<and> length (snd (snd r)) = n) \<and>
     (\<forall>code sym pfx args. ParseBytecodeOneLevel E code None = Inr (sym, pfx, args) \<longrightarrow>
        ParseBytecodePrefix E code = Inr pfx) \<and>
     (\<forall>code sym pfx args name. ParseBytecodeOneLevel E code None = Inr (sym, pfx, args) \<longrightarrow>
        name \<in> set constraint_symbols \<longrightarrow> (pfx = PrefixOf E name \<longleftrightarrow> sym = name)) \<and>
     inj_on (PrefixOf E) (set constraint_symbols) \<and>
     (\<forall>name \<in> set constraint_symbols. PrefixOf E name \<noteq> [] \<and> length (PrefixOf E name) \<le> 2) \<and>
     (\<forall>code. fl E B_parseBytecodePrefix [Inr code] = ParseBytecodePrefix E code) \<and>
     (\<forall>code pfx i v. fl E B_parseBytecodeArg [Inr code, Inr pfx, Inr [i]] = Inr v \<longrightarrow>
        (\<exists>sym args. ParseBytecodeOneLevel E code None = Inr (sym, pfx, args)
           \<and> unat i < length args \<and> v = StripDataPrefix E (args ! unat i))) \<and>
     (\<forall>code sym pfx args i. ParseBytecodeOneLevel E code None = Inr (sym, pfx, args)
        \<longrightarrow> unat i < length args
        \<longrightarrow> fl E B_parseBytecodeArg [Inr code, Inr pfx, Inr [i]]
              = Inr (StripDataPrefix E (args ! unat i)))"

definition easyfl_laws :: "easyfl \<Rightarrow> bool" where
  "easyfl_laws E \<longleftrightarrow>
     logic_laws E \<and> compare_laws E \<and> bytes_laws E \<and> crypto_laws E \<and> parse_laws E"

end
