(* ===== verification/Constraints.thy ===== *)
theory Constraints
  imports EasyFL
begin

text \<open>
  The constraint types of \<^verbatim>\<open>ledger/constraints\<close> on the Go side: the source text each type renders
  itself to, the bytecode it compiles to, the parser that reads it back, the registry of
  constraints by bytecode prefix, and the dispatchers \<^verbatim>\<open>FromBytes\<close>, \<^verbatim>\<open>LockFromBytes\<close> and
  \<^verbatim>\<open>AccountableFromBytes\<close>. Everything takes the engine \<open>E\<close>; what reads the global registry takes it
  as \<open>R\<close>. The EasyFL formulas behind the names are in theory \<open>Scripts\<close>.
\<close>

section \<open>Constants\<close>

definition ConstraintIndexAmount :: nat where "ConstraintIndexAmount = 0"
definition ConstraintIndexTimestamp :: nat where "ConstraintIndexTimestamp = 1"
definition ConstraintIndexLock :: nat where "ConstraintIndexLock = 2"
definition MaxNumberOfEndorsements :: nat where "MaxNumberOfEndorsements = 4"

lemmas ConstraintIndex_defs =
  ConstraintIndexAmount_def ConstraintIndexTimestamp_def ConstraintIndexLock_def

definition MinimumStorageDeposit :: "32 word \<Rightarrow> 32 word \<Rightarrow> 64 word" where
  "MinimumStorageDeposit outputByteSize extraWeight = ucast outputByteSize"

section \<open>The types\<close>

type_synonym AddressED25519 = bytes
type_synonym ChainLock = bytes

datatype Accountable = Acc_AddressED25519 AddressED25519 | Acc_ChainLock ChainLock

record DeadlineLock =
  dl_Deadline :: "32 word"
  dl_Main :: Accountable
  dl_Expiry :: Accountable

record ChainConstraint =
  ch_ID :: bytes
  ch_TransitionMode :: byte
  ch_PreviousOutput :: byte
  ch_PreviousBlock :: byte

record RoyaltiesED25519 =
  ro_Address :: AddressED25519
  ro_Amount :: "64 word"

record Immutable =
  im_ChainBlockIndex :: byte
  im_DataBlockIndex :: byte

record CommitToSibling =
  cs_SiblingIndex :: byte
  cs_SiblingHash :: bytes

datatype Lock =
    Lock_AddressED25519 AddressED25519
  | Lock_DeadlineLock DeadlineLock
  | Lock_ChainLock ChainLock

datatype Constraint =
    Con_Amount "64 word"
  | Con_Timestamp "32 word"
  | Con_Timelock "32 word"
  | Con_Lock Lock
  | Con_Chain ChainConstraint
  | Con_Sender AddressED25519
  | Con_Royalties RoyaltiesED25519
  | Con_Immutable Immutable
  | Con_CommitToSibling CommitToSibling
  | Con_GeneralScript bytes

definition mustBinFromSource :: "easyfl \<Rightarrow> string \<Rightarrow> bytes res" where
  "mustBinFromSource E src = as_panic (CompileExpression E src)"

section \<open>Sources and bytecode\<close>

definition Amount_source :: "64 word \<Rightarrow> string" where
  "Amount_source a = ''amount(u64/'' @ dec (unat a) @ '')''"

definition Amount_Bytes :: "easyfl \<Rightarrow> 64 word \<Rightarrow> bytes res" where
  "Amount_Bytes E a = mustBinFromSource E (Amount_source a)"

definition Timestamp_source :: "32 word \<Rightarrow> string" where
  "Timestamp_source t = ''timestamp(u32/'' @ dec (unat t) @ '')''"

definition Timestamp_Bytes :: "easyfl \<Rightarrow> 32 word \<Rightarrow> bytes res" where
  "Timestamp_Bytes E t = mustBinFromSource E (Timestamp_source t)"

definition Timelock_source :: "32 word \<Rightarrow> string" where
  "Timelock_source t = ''timelock(u32/'' @ dec (unat t) @ '')''"

definition Timelock_Bytes :: "easyfl \<Rightarrow> 32 word \<Rightarrow> bytes res" where
  "Timelock_Bytes E t = mustBinFromSource E (Timelock_source t)"

definition AddressED25519_source :: "AddressED25519 \<Rightarrow> string" where
  "AddressED25519_source a = ''addressED25519(0x'' @ hex a @ '')''"

definition AddressED25519_Bytes :: "easyfl \<Rightarrow> AddressED25519 \<Rightarrow> bytes res" where
  "AddressED25519_Bytes E a = mustBinFromSource E (AddressED25519_source a)"

definition AddressED25519FromPublicKey :: "easyfl \<Rightarrow> bytes \<Rightarrow> AddressED25519" where
  "AddressED25519FromPublicKey E pubKey = Sum256 E pubKey"

definition AddressED25519Null :: AddressED25519 where
  "AddressED25519Null = replicate 32 0"

definition ChainLock_source :: "ChainLock \<Rightarrow> string" where
  "ChainLock_source cl = ''chainLock(0x'' @ hex cl @ '')''"

definition ChainLock_Bytes :: "easyfl \<Rightarrow> ChainLock \<Rightarrow> bytes res" where
  "ChainLock_Bytes E cl = mustBinFromSource E (ChainLock_source cl)"

definition ChainLockFromChainID :: "bytes \<Rightarrow> ChainLock res" where
  "ChainLockFromChainID chainID =
     (if length chainID \<noteq> 32 then Inl (Error Wrong_data_length) else Inr chainID)"

definition ChainLockNull :: ChainLock where
  "ChainLockNull = replicate 32 0"

definition NewChainLockUnlockParams :: "byte \<Rightarrow> byte \<Rightarrow> bytes" where
  "NewChainLockUnlockParams chainOutputIndex chainConstraintIndex =
     [chainOutputIndex, chainConstraintIndex]"

fun AccountID :: "easyfl \<Rightarrow> Accountable \<Rightarrow> bytes res" where
  "AccountID E (Acc_AddressED25519 a) = AddressED25519_Bytes E a"
| "AccountID E (Acc_ChainLock cl) = ChainLock_Bytes E cl"

fun AsLock :: "Accountable \<Rightarrow> Lock" where
  "AsLock (Acc_AddressED25519 a) = Lock_AddressED25519 a"
| "AsLock (Acc_ChainLock cl) = Lock_ChainLock cl"

definition DeadlineLock_source :: "easyfl \<Rightarrow> DeadlineLock \<Rightarrow> string res" where
  "DeadlineLock_source E dl =
     rbind (AccountID E (dl_Main dl)) (\<lambda>m.
     rbind (AccountID E (dl_Expiry dl)) (\<lambda>x.
     Inr (''deadlineLock(u32/'' @ dec (unat (dl_Deadline dl)) @ '',x/'' @ hex m @ '', x/'' @ hex x @ '')'')))"

definition DeadlineLock_Bytes :: "easyfl \<Rightarrow> DeadlineLock \<Rightarrow> bytes res" where
  "DeadlineLock_Bytes E dl = rbind (DeadlineLock_source E dl) (mustBinFromSource E)"

fun Lock_Bytes :: "easyfl \<Rightarrow> Lock \<Rightarrow> bytes res" where
  "Lock_Bytes E (Lock_AddressED25519 a) = AddressED25519_Bytes E a"
| "Lock_Bytes E (Lock_DeadlineLock dl) = DeadlineLock_Bytes E dl"
| "Lock_Bytes E (Lock_ChainLock cl) = ChainLock_Bytes E cl"

fun IndexableTags :: "Lock \<Rightarrow> Accountable list" where
  "IndexableTags (Lock_AddressED25519 a) = [Acc_AddressED25519 a]"
| "IndexableTags (Lock_DeadlineLock dl) = [dl_Main dl, dl_Expiry dl]"
| "IndexableTags (Lock_ChainLock cl) = [Acc_ChainLock cl]"

fun UnlockableWith :: "easyfl \<Rightarrow> Lock \<Rightarrow> bytes \<Rightarrow> 32 word \<Rightarrow> bool res" where
  "UnlockableWith E (Lock_AddressED25519 a) acc ts =
     rmap (\<lambda>b. b = acc) (AccountID E (Acc_AddressED25519 a))"
| "UnlockableWith E (Lock_DeadlineLock dl) acc ts =
     (if ts \<le> dl_Deadline dl then rmap (\<lambda>b. b = acc) (AccountID E (dl_Main dl))
      else rmap (\<lambda>b. b = acc) (AccountID E (dl_Expiry dl)))"
| "UnlockableWith E (Lock_ChainLock cl) acc ts = rmap (\<lambda>b. b = acc) (AccountID E (Acc_ChainLock cl))"

definition NewChainConstraint :: "bytes \<Rightarrow> byte \<Rightarrow> byte \<Rightarrow> byte \<Rightarrow> ChainConstraint" where
  "NewChainConstraint cid prevOut prevBlock mode =
     \<lparr>ch_ID = cid, ch_TransitionMode = mode, ch_PreviousOutput = prevOut, ch_PreviousBlock = prevBlock\<rparr>"

definition NewChainOrigin :: ChainConstraint where
  "NewChainOrigin = NewChainConstraint (replicate 32 0) 255 255 255"

definition IsOrigin :: "ChainConstraint \<Rightarrow> bool" where
  "IsOrigin ch =
     (if ch_ID ch \<noteq> replicate 32 0 then False
      else if ch_PreviousOutput ch \<noteq> 255 then False
      else if ch_PreviousBlock ch \<noteq> 255 then False
      else if ch_TransitionMode ch \<noteq> 255 then False
      else True)"

definition chain_data :: "ChainConstraint \<Rightarrow> bytes" where
  "chain_data ch = ch_ID ch @ [ch_PreviousOutput ch, ch_PreviousBlock ch, ch_TransitionMode ch]"

definition ChainConstraint_source :: "ChainConstraint \<Rightarrow> string" where
  "ChainConstraint_source ch = ''chain(0x'' @ hex (chain_data ch) @ '')''"

definition ChainConstraint_Bytes :: "easyfl \<Rightarrow> ChainConstraint \<Rightarrow> bytes res" where
  "ChainConstraint_Bytes E ch = mustBinFromSource E (ChainConstraint_source ch)"

definition Sender_source :: "AddressED25519 \<Rightarrow> string" where
  "Sender_source a = ''senderAddressED25519(0x'' @ hex a @ '')''"

definition Sender_Bytes :: "easyfl \<Rightarrow> AddressED25519 \<Rightarrow> bytes res" where
  "Sender_Bytes E a = mustBinFromSource E (Sender_source a)"

definition Royalties_source :: "easyfl \<Rightarrow> RoyaltiesED25519 \<Rightarrow> string res" where
  "Royalties_source E r =
     rbind (AddressED25519_Bytes E (ro_Address r)) (\<lambda>a.
     Inr (''royaltiesED25519(0x'' @ hex a @ '', u64/'' @ dec (unat (ro_Amount r)) @ '')''))"

definition Royalties_Bytes :: "easyfl \<Rightarrow> RoyaltiesED25519 \<Rightarrow> bytes res" where
  "Royalties_Bytes E r = rbind (Royalties_source E r) (mustBinFromSource E)"

definition Immutable_source :: "Immutable \<Rightarrow> string" where
  "Immutable_source d = ''immutable(0x'' @ hex [im_ChainBlockIndex d, im_DataBlockIndex d] @ '')''"

definition Immutable_Bytes :: "easyfl \<Rightarrow> Immutable \<Rightarrow> bytes res" where
  "Immutable_Bytes E d = mustBinFromSource E (Immutable_source d)"

definition CommitToSibling_source :: "CommitToSibling \<Rightarrow> string" where
  "CommitToSibling_source cs =
     ''commitToSibling('' @ dec (unat (cs_SiblingIndex cs)) @ '', 0x'' @ hex (cs_SiblingHash cs) @ '')''"

definition CommitToSibling_Bytes :: "easyfl \<Rightarrow> CommitToSibling \<Rightarrow> bytes res" where
  "CommitToSibling_Bytes E cs = mustBinFromSource E (CommitToSibling_source cs)"

section \<open>Parsers\<close>

text \<open>
  \<open>one_level\<close> is the call of \<^verbatim>\<open>easyfl.ParseBytecodeOneLevel\<close> that every parser opens with, \<open>data_arg\<close>
  the \<^verbatim>\<open>easyfl.StripDataPrefix(args[i])\<close> that follows.
\<close>

definition data_arg :: "easyfl \<Rightarrow> bytes list \<Rightarrow> nat \<Rightarrow> bytes res" where
  "data_arg E args i = rmap (StripDataPrefix E) (nth_res args i)"

definition AmountFromBytes :: "easyfl \<Rightarrow> bytes \<Rightarrow> 64 word res" where
  "AmountFromBytes E data =
     rbind (ParseBytecodeOneLevel E data None) (\<lambda>(sym, _, args).
       if sym \<noteq> ''amount'' then Inl (Error Not_the_constraint)
       else rbind (data_arg E args 0) (\<lambda>amountBin.
         if length amountBin \<noteq> 8 then Inl (Error Wrong_data_length) else Inr (get_u64 amountBin)))"

definition TimestampFromBytes :: "easyfl \<Rightarrow> bytes \<Rightarrow> 32 word res" where
  "TimestampFromBytes E data =
     rbind (ParseBytecodeOneLevel E data (Some 1)) (\<lambda>(sym, _, args).
     rbind (data_arg E args 0) (\<lambda>tsBin.
       if sym \<noteq> ''timestamp'' \<or> length tsBin \<noteq> 4 then Inl (Error Not_the_constraint)
       else Inr (get_u32 tsBin)))"

definition TimelockFromBytes :: "easyfl \<Rightarrow> bytes \<Rightarrow> 32 word res" where
  "TimelockFromBytes E data =
     rbind (ParseBytecodeOneLevel E data (Some 1)) (\<lambda>(sym, _, args).
       if sym \<noteq> ''timelock'' then Inl (Error Not_the_constraint)
       else rbind (data_arg E args 0) (\<lambda>tlBin.
         if length tlBin \<noteq> 4 then Inl (Panic Wrong_data_length) else Inr (get_u32 tlBin)))"

definition AddressED25519FromBytes :: "easyfl \<Rightarrow> bytes \<Rightarrow> AddressED25519 res" where
  "AddressED25519FromBytes E data =
     rbind (ParseBytecodeOneLevel E data (Some 1)) (\<lambda>(sym, _, args).
       if sym \<noteq> ''addressED25519'' then Inl (Error Not_the_constraint)
       else rbind (data_arg E args 0) (\<lambda>addrBin.
         if length addrBin \<noteq> 32 then Inl (Error Wrong_data_length) else Inr addrBin))"

definition ChainLockFromBytes :: "easyfl \<Rightarrow> bytes \<Rightarrow> ChainLock res" where
  "ChainLockFromBytes E data =
     rbind (ParseBytecodeOneLevel E data (Some 1)) (\<lambda>(sym, _, args).
       if sym \<noteq> ''chainLock'' then Inl (Error Not_the_constraint)
       else rbind (data_arg E args 0) (\<lambda>chainIdBin.
         if length chainIdBin \<noteq> 32 then Inl (Error Wrong_data_length) else Inr chainIdBin))"

definition ChainConstraintFromBytes :: "easyfl \<Rightarrow> bytes \<Rightarrow> ChainConstraint res" where
  "ChainConstraintFromBytes E data =
     rbind (ParseBytecodeOneLevel E data (Some 1)) (\<lambda>(sym, _, args).
       if sym \<noteq> ''chain'' then Inl (Error Not_the_constraint)
       else rbind (data_arg E args 0) (\<lambda>d.
         if length d \<noteq> 32 + 3 then Inl (Error Wrong_data_length)
         else Inr \<lparr>ch_ID = take 32 d, ch_TransitionMode = d ! 34, ch_PreviousOutput = d ! 32,
                   ch_PreviousBlock = d ! 33\<rparr>))"

definition SenderFromBytes :: "easyfl \<Rightarrow> bytes \<Rightarrow> AddressED25519 res" where
  "SenderFromBytes E data =
     rbind (ParseBytecodeOneLevel E data (Some 1)) (\<lambda>(sym, _, args).
       if sym \<noteq> ''senderAddressED25519'' then Inl (Error Not_the_constraint)
       else data_arg E args 0)"

definition RoyaltiesFromBytes :: "easyfl \<Rightarrow> bytes \<Rightarrow> RoyaltiesED25519 res" where
  "RoyaltiesFromBytes E data =
     rbind (ParseBytecodeOneLevel E data (Some 2)) (\<lambda>(sym, _, args).
       if sym \<noteq> ''royaltiesED25519'' then Inl (Error Not_the_constraint)
       else rbind (data_arg E args 0) (\<lambda>addrBin.
         rbind (AddressED25519FromBytes E addrBin) (\<lambda>addr.
         rbind (data_arg E args 1) (\<lambda>amountBin.
           if length amountBin \<noteq> 8 then Inl (Error Wrong_data_length)
           else Inr \<lparr>ro_Address = addr, ro_Amount = get_u64 amountBin\<rparr>))))"

definition ImmutableFromBytes :: "easyfl \<Rightarrow> bytes \<Rightarrow> Immutable res" where
  "ImmutableFromBytes E data =
     rbind (ParseBytecodeOneLevel E data (Some 1)) (\<lambda>(sym, _, args).
       if sym \<noteq> ''immutable'' then Inl (Error Not_the_constraint)
       else rbind (data_arg E args 0) (\<lambda>d.
         if length d \<noteq> 2 then Inl (Error Wrong_data_length)
         else Inr \<lparr>im_ChainBlockIndex = d ! 0, im_DataBlockIndex = d ! 1\<rparr>))"

definition CommitToSiblingFromBytes :: "easyfl \<Rightarrow> bytes \<Rightarrow> CommitToSibling res" where
  "CommitToSiblingFromBytes E data =
     rbind (ParseBytecodeOneLevel E data (Some 2)) (\<lambda>(sym, _, args).
       if sym \<noteq> ''commitToSibling'' then Inl (Error Not_the_constraint)
       else rbind (data_arg E args 0) (\<lambda>idxBin.
         if length idxBin \<noteq> 1 then Inl (Error Wrong_data_length)
         else rbind (data_arg E args 1) (\<lambda>hash.
           if length hash \<noteq> 32 then Inl (Error Wrong_data_length)
           else Inr \<lparr>cs_SiblingIndex = idxBin ! 0, cs_SiblingHash = hash\<rparr>)))"

section \<open>The registry\<close>

text \<open>
  The registered parsers are closures over the package's parser functions, some of which read the
  registry themselves when they are called. The registry holds their names.
\<close>

datatype Parser =
    Parse_Amount | Parse_Timestamp | Parse_AddressED25519 | Parse_DeadlineLock | Parse_Sender
  | Parse_Chain | Parse_ChainLock | Parse_Royalties | Parse_Immutable | Parse_CommitToSibling

record constraintRecord =
  cr_name :: string
  cr_prefix :: bytes
  cr_parser :: Parser

record registry =
  constraintByPrefix :: "bytes \<rightharpoonup> constraintRecord"
  constraintNames :: "string set"

definition empty_registry :: registry where
  "empty_registry = \<lparr>constraintByPrefix = Map.empty, constraintNames = {}\<rparr>"

definition registerConstraint :: "string \<Rightarrow> bytes \<Rightarrow> Parser \<Rightarrow> registry \<Rightarrow> registry res" where
  "registerConstraint name prefix parser R =
     rbind (guard (name \<notin> constraintNames R) (Panic Repeating_name)) (\<lambda>_.
     rbind (guard (constraintByPrefix R prefix = None) (Panic Repeating_prefix)) (\<lambda>_.
     rbind (guard (0 < length prefix \<and> length prefix \<le> 2) (Panic Wrong_prefix_length)) (\<lambda>_.
     Inr (R\<lparr>constraintByPrefix := (constraintByPrefix R)
              (prefix \<mapsto> \<lparr>cr_name = name, cr_prefix = prefix, cr_parser = parser\<rparr>),
            constraintNames := insert name (constraintNames R)\<rparr>))))"

definition NameByPrefix :: "registry \<Rightarrow> bytes \<Rightarrow> string option" where
  "NameByPrefix R prefix = map_option cr_name (constraintByPrefix R prefix)"

definition parserByPrefix :: "registry \<Rightarrow> bytes \<Rightarrow> Parser option" where
  "parserByPrefix R prefix = map_option cr_parser (constraintByPrefix R prefix)"

definition AccountableFromBytes :: "easyfl \<Rightarrow> registry \<Rightarrow> bytes \<Rightarrow> Accountable res" where
  "AccountableFromBytes E R data =
     rbind (ParseBytecodePrefix E data) (\<lambda>prefix.
       case NameByPrefix R prefix of
         None \<Rightarrow> Inl (Error Unknown_prefix)
       | Some name \<Rightarrow>
           if name = ''addressED25519'' then rmap Acc_AddressED25519 (AddressED25519FromBytes E data)
           else Inl (Error Not_the_constraint))"

definition DeadlineLockFromBytes :: "easyfl \<Rightarrow> registry \<Rightarrow> bytes \<Rightarrow> DeadlineLock res" where
  "DeadlineLockFromBytes E R data =
     rbind (ParseBytecodeOneLevel E data (Some 3)) (\<lambda>(sym, _, args).
     rbind (data_arg E args 0) (\<lambda>dlBin.
       if sym \<noteq> ''deadlineLock'' \<or> length dlBin \<noteq> 4 then Inl (Error Not_the_constraint)
       else rbind (rbind (nth_res args 1) (AccountableFromBytes E R)) (\<lambda>m.
         rbind (rbind (nth_res args 2) (AccountableFromBytes E R)) (\<lambda>x.
         Inr \<lparr>dl_Deadline = get_u32 dlBin, dl_Main = m, dl_Expiry = x\<rparr>))))"

definition LockFromBytes :: "easyfl \<Rightarrow> registry \<Rightarrow> bytes \<Rightarrow> Lock res" where
  "LockFromBytes E R data =
     rbind (ParseBytecodePrefix E data) (\<lambda>prefix.
       case NameByPrefix R prefix of
         None \<Rightarrow> Inl (Error Unknown_prefix)
       | Some name \<Rightarrow>
           if name = ''addressED25519'' then rmap Lock_AddressED25519 (AddressED25519FromBytes E data)
           else if name = ''deadlineLock'' then rmap Lock_DeadlineLock (DeadlineLockFromBytes E R data)
           else if name = ''chainLock'' then rmap Lock_ChainLock (ChainLockFromBytes E data)
           else Inl (Error Not_the_constraint))"

fun run_parser :: "easyfl \<Rightarrow> registry \<Rightarrow> Parser \<Rightarrow> bytes \<Rightarrow> Constraint res" where
  "run_parser E R Parse_Amount data = rmap Con_Amount (AmountFromBytes E data)"
| "run_parser E R Parse_Timestamp data = rmap Con_Timestamp (TimestampFromBytes E data)"
| "run_parser E R Parse_AddressED25519 data =
     rmap (\<lambda>a. Con_Lock (Lock_AddressED25519 a)) (AddressED25519FromBytes E data)"
| "run_parser E R Parse_DeadlineLock data =
     rmap (\<lambda>d. Con_Lock (Lock_DeadlineLock d)) (DeadlineLockFromBytes E R data)"
| "run_parser E R Parse_Sender data = rmap Con_Sender (SenderFromBytes E data)"
| "run_parser E R Parse_Chain data = rmap Con_Chain (ChainConstraintFromBytes E data)"
| "run_parser E R Parse_ChainLock data =
     rmap (\<lambda>c. Con_Lock (Lock_ChainLock c)) (ChainLockFromBytes E data)"
| "run_parser E R Parse_Royalties data = rmap Con_Royalties (RoyaltiesFromBytes E data)"
| "run_parser E R Parse_Immutable data = rmap Con_Immutable (ImmutableFromBytes E data)"
| "run_parser E R Parse_CommitToSibling data = rmap Con_CommitToSibling (CommitToSiblingFromBytes E data)"

definition FromBytes :: "easyfl \<Rightarrow> registry \<Rightarrow> bytes \<Rightarrow> Constraint res" where
  "FromBytes E R data =
     rbind (ParseBytecodePrefix E data) (\<lambda>prefix.
       case parserByPrefix R prefix of
         Some parser \<Rightarrow> run_parser E R parser data
       | None \<Rightarrow> Inr (Con_GeneralScript data))"

definition constraints_Equal :: "easyfl \<Rightarrow> bytes res option \<Rightarrow> bytes res option \<Rightarrow> bool res" where
  \<comment> \<open>\<open>constraints.Equal\<close> on the \<open>Bytes()\<close> of its arguments; \<open>None\<close> is a nil interface\<close>
  "constraints_Equal E l1 l2 =
     (case (l1, l2) of
        (Some b1, Some b2) \<Rightarrow> rbind b1 (\<lambda>x. rbind b2 (\<lambda>y. Inr (x = y)))
      | _ \<Rightarrow> Inr False)"

section \<open>Initialisation\<close>

text \<open>
  The \<^verbatim>\<open>init...Constraint\<close> functions, in the order in which \<^verbatim>\<open>extensions.go\<close> calls them. Each one
  compiles an example, checks that it reads back, and registers the name under the prefix of the
  example's bytecode. Adding the EasyFL source to the engine's library (\<^verbatim>\<open>MustExtendMany\<close>) is part of
  the engine \<open>E\<close>.
\<close>

abbreviation assert :: "bool \<Rightarrow> (unit \<Rightarrow> 'a res) \<Rightarrow> 'a res" where
  "assert b k \<equiv> rbind (guard b (Panic Inconsistency)) k"

definition initAmountConstraint :: "easyfl \<Rightarrow> registry \<Rightarrow> registry res" where
  "initAmountConstraint E R =
     rbind (Amount_Bytes E 1337) (\<lambda>example.
     rbind (as_panic (ParseBytecodeOneLevel E example (Some 1))) (\<lambda>(sym, prefix, args).
     rbind (data_arg E args 0) (\<lambda>amountBin.
     assert (sym = ''amount'' \<and> length amountBin = 8 \<and> get_u64 amountBin = 1337) (\<lambda>_.
     registerConstraint ''amount'' prefix Parse_Amount R))))"

definition initTimestampConstraint :: "easyfl \<Rightarrow> registry \<Rightarrow> registry res" where
  "initTimestampConstraint E R =
     rbind (Timestamp_Bytes E 1337) (\<lambda>example.
     rbind (as_panic (ParseBytecodeOneLevel E example (Some 1))) (\<lambda>(sym, prefix, args).
     rbind (data_arg E args 0) (\<lambda>tsBin.
     assert (sym = ''timestamp'' \<and> length tsBin = 4 \<and> get_u32 tsBin = 1337) (\<lambda>_.
     registerConstraint ''timestamp'' prefix Parse_Timestamp R))))"

definition initAddressED25519Constraint :: "easyfl \<Rightarrow> registry \<Rightarrow> registry res" where
  "initAddressED25519Constraint E R =
     rbind (AddressED25519_Bytes E AddressED25519Null) (\<lambda>example.
     rbind (as_panic (AddressED25519FromBytes E example)) (\<lambda>addrBack.
     rbind (constraints_Equal E (Some (AddressED25519_Bytes E addrBack))
              (Some (AddressED25519_Bytes E AddressED25519Null))) (\<lambda>same.
     assert same (\<lambda>_.
     rbind (as_panic (ParseBytecodePrefix E example)) (\<lambda>prefix.
     registerConstraint ''addressED25519'' prefix Parse_AddressED25519 R)))))"

definition initDeadlineLockConstraint :: "easyfl \<Rightarrow> registry \<Rightarrow> registry res" where
  "initDeadlineLockConstraint E R =
     rbind (DeadlineLock_Bytes E \<lparr>dl_Deadline = 1337, dl_Main = Acc_AddressED25519 AddressED25519Null,
              dl_Expiry = Acc_AddressED25519 AddressED25519Null\<rparr>) (\<lambda>example.
     rbind (as_panic (DeadlineLockFromBytes E R example)) (\<lambda>lockBack.
     rbind (constraints_Equal E (Some (AccountID E (dl_Main lockBack)))
              (Some (AddressED25519_Bytes E AddressED25519Null))) (\<lambda>same_main.
     assert same_main (\<lambda>_.
     rbind (constraints_Equal E (Some (AccountID E (dl_Expiry lockBack)))
              (Some (AddressED25519_Bytes E AddressED25519Null))) (\<lambda>same_expiry.
     assert same_expiry (\<lambda>_.
     rbind (as_panic (ParseBytecodePrefix E example)) (\<lambda>prefix.
     registerConstraint ''deadlineLock'' prefix Parse_DeadlineLock R)))))))"

definition initTimelockConstraint :: "easyfl \<Rightarrow> registry \<Rightarrow> registry res" where
  \<comment> \<open>registers \<open>TimestampFromBytes\<close> as the parser of the time lock, as the code does\<close>
  "initTimelockConstraint E R =
     rbind (Timelock_Bytes E 1337) (\<lambda>example.
     rbind (as_panic (ParseBytecodeOneLevel E example (Some 1))) (\<lambda>(sym, prefix, args).
     rbind (data_arg E args 0) (\<lambda>tlBin.
     assert (sym = ''timelock'' \<and> length tlBin = 4 \<and> get_u32 tlBin = 1337) (\<lambda>_.
     registerConstraint ''timelock'' prefix Parse_Timestamp R))))"

definition initSenderConstraint :: "easyfl \<Rightarrow> registry \<Rightarrow> registry res" where
  "initSenderConstraint E R =
     rbind (Sender_Bytes E AddressED25519Null) (\<lambda>example.
     rbind (as_panic (ParseBytecodeOneLevel E example (Some 1))) (\<lambda>(sym, prefix, args).
     rbind (data_arg E args 0) (\<lambda>addrBin.
     assert (sym = ''senderAddressED25519'' \<and> addrBin = AddressED25519Null) (\<lambda>_.
     registerConstraint ''senderAddressED25519'' prefix Parse_Sender R))))"

definition initChainConstraint :: "easyfl \<Rightarrow> registry \<Rightarrow> registry res" where
  "initChainConstraint E R =
     rbind (ChainConstraint_Bytes E NewChainOrigin) (\<lambda>example.
     rbind (as_panic (ChainConstraintFromBytes E example)) (\<lambda>back.
     rbind (ChainConstraint_Bytes E back) (\<lambda>backBytes.
     assert (backBytes = example) (\<lambda>_.
     rbind (as_panic (ParseBytecodeOneLevel E example (Some 1))) (\<lambda>(sym, prefix, args).
     registerConstraint ''chain'' prefix Parse_Chain R)))))"

definition initChainLockConstraint :: "easyfl \<Rightarrow> registry \<Rightarrow> registry res" where
  "initChainLockConstraint E R =
     rbind (ChainLock_Bytes E ChainLockNull) (\<lambda>example.
     rbind (as_panic (ChainLockFromBytes E example)) (\<lambda>chainLockBack.
     rbind (constraints_Equal E (Some (ChainLock_Bytes E chainLockBack))
              (Some (ChainLock_Bytes E ChainLockNull))) (\<lambda>same.
     assert same (\<lambda>_.
     rbind (as_panic (ParseBytecodePrefix E example)) (\<lambda>prefix.
     registerConstraint ''chainLock'' prefix Parse_ChainLock R)))))"

definition initRoyaltiesConstraint :: "easyfl \<Rightarrow> registry \<Rightarrow> registry res" where
  "initRoyaltiesConstraint E R =
     rbind (Royalties_Bytes E \<lparr>ro_Address = AddressED25519Null, ro_Amount = 1337\<rparr>) (\<lambda>example.
     rbind (as_panic (RoyaltiesFromBytes E example)) (\<lambda>back.
     rbind (constraints_Equal E (Some (AddressED25519_Bytes E (ro_Address back)))
              (Some (AddressED25519_Bytes E AddressED25519Null))) (\<lambda>same.
     assert same (\<lambda>_.
     assert (ro_Amount back = 1337) (\<lambda>_.
     rbind (as_panic (ParseBytecodePrefix E example)) (\<lambda>prefix.
     registerConstraint ''royaltiesED25519'' prefix Parse_Royalties R))))))"

definition initImmutableConstraint :: "easyfl \<Rightarrow> registry \<Rightarrow> registry res" where
  "initImmutableConstraint E R =
     rbind (Immutable_Bytes E \<lparr>im_ChainBlockIndex = 1, im_DataBlockIndex = 5\<rparr>) (\<lambda>example.
     rbind (as_panic (ImmutableFromBytes E example)) (\<lambda>back.
     assert (im_DataBlockIndex back = 5) (\<lambda>_.
     assert (im_ChainBlockIndex back = 1) (\<lambda>_.
     rbind (as_panic (ParseBytecodePrefix E example)) (\<lambda>prefix.
     registerConstraint ''immutable'' prefix Parse_Immutable R)))))"

definition initCommitToSiblingConstraint :: "easyfl \<Rightarrow> registry \<Rightarrow> registry res" where
  "initCommitToSiblingConstraint E R =
     (let h = Sum256 E (map (\<lambda>c. of_nat (of_char c)) ''just data'') in
     rbind (CommitToSibling_Bytes E \<lparr>cs_SiblingIndex = 2, cs_SiblingHash = h\<rparr>) (\<lambda>example.
     rbind (as_panic (CommitToSiblingFromBytes E example)) (\<lambda>back.
     assert (cs_SiblingIndex back = 2) (\<lambda>_.
     assert (cs_SiblingHash back = h) (\<lambda>_.
     rbind (as_panic (ParseBytecodePrefix E example)) (\<lambda>prefix.
     registerConstraint ''commitToSibling'' prefix Parse_CommitToSibling R))))))"

definition init_constraints :: "easyfl \<Rightarrow> registry res" where
  "init_constraints E =
     rfold (\<lambda>f R. f E R)
       [initAmountConstraint, initTimestampConstraint, initAddressED25519Constraint,
        initDeadlineLockConstraint, initTimelockConstraint, initSenderConstraint,
        initChainConstraint, initChainLockConstraint, initRoyaltiesConstraint,
        initImmutableConstraint, initCommitToSiblingConstraint]
       empty_registry"

end
