(* ===== verification/ConstraintCodec.thy ===== *)
theory ConstraintCodec
  imports Constraints
begin

text \<open>
  What the Go side of the constraints promises: the initialisation of the registry goes through,
  and every constraint value that is rendered, compiled and parsed again reads back as itself. The
  laws of the engine's compiler are stated for a call of a constraint with literal arguments, which
  is the only kind of source the package renders.
\<close>

section \<open>Laws of the compiler\<close>

datatype lit = L_u64 "64 word" | L_u32 "32 word" | L_u8 byte | L_hex bytes | L_code bytes

fun lit_source :: "lit \<Rightarrow> string" where
  "lit_source (L_u64 w) = ''u64/'' @ dec (unat w)"
| "lit_source (L_u32 w) = ''u32/'' @ dec (unat w)"
| "lit_source (L_u8 b) = dec (unat b)"
| "lit_source (L_hex bs) = ''0x'' @ hex bs"
| "lit_source (L_code bs) = ''x/'' @ hex bs"

fun lit_data :: "lit \<Rightarrow> bytes" where
  "lit_data (L_u64 w) = put_u64 w"
| "lit_data (L_u32 w) = put_u32 w"
| "lit_data (L_u8 b) = [b]"
| "lit_data (L_hex bs) = bs"
| "lit_data (L_code bs) = bs"

text \<open>
  The literals the package renders: hexadecimal data fits the one-byte length of inline data, and
  \<^verbatim>\<open>x/...\<close> inlines bytecode that was compiled before.
\<close>

fun lit_ok :: "easyfl \<Rightarrow> lit \<Rightarrow> bool" where
  "lit_ok E (L_hex bs) \<longleftrightarrow> bs \<noteq> [] \<and> length bs \<le> 127"
| "lit_ok E (L_code bs) \<longleftrightarrow> length bs \<le> 127 \<and> (\<exists>src. CompileExpression E src = Inr bs)"
| "lit_ok E _ \<longleftrightarrow> True"

fun args_source :: "(string \<times> lit) list \<Rightarrow> string" where
  "args_source [] = ''''"
| "args_source ((sep, l) # sl) = sep @ lit_source l @ args_source sl"

definition call_source :: "string \<Rightarrow> (string \<times> lit) list \<Rightarrow> string" where
  "call_source name sl = name @ ''('' @ args_source sl @ '')''"

definition seps_ok :: "(string \<times> lit) list \<Rightarrow> bool" where
  "seps_ok sl \<longleftrightarrow> (case sl of [] \<Rightarrow> True
     | (s, _) # rest \<Rightarrow> s = '''' \<and> (\<forall>p \<in> set rest. fst p \<in> {'','', '', ''}))"

text \<open>How an argument of the bytecode stands for a literal: inline data has a prefix, which
  \<^verbatim>\<open>StripDataPrefix\<close> removes; an inlined bytecode is kept as it is.\<close>

fun arg_is :: "easyfl \<Rightarrow> lit \<Rightarrow> bytes \<Rightarrow> bool" where
  "arg_is E (L_code c) a \<longleftrightarrow> a = c"
| "arg_is E l a \<longleftrightarrow> StripDataPrefix E a = lit_data l \<and> length (lit_data l) < length a"

definition reads_as :: "easyfl \<Rightarrow> bytes \<Rightarrow> string \<Rightarrow> lit list \<Rightarrow> bool" where
  "reads_as E code name lits \<longleftrightarrow>
     (\<exists>args. ParseBytecodeOneLevel E code None = Inr (name, PrefixOf E name, args)
        \<and> list_all2 (arg_is E) lits args)"

definition compile_laws :: "easyfl \<Rightarrow> bool" where
  "compile_laws E \<longleftrightarrow>
     (\<forall>name sl. map_of constraint_arity name = Some (length sl) \<longrightarrow> seps_ok sl
        \<longrightarrow> (\<forall>p \<in> set sl. lit_ok E (snd p))
        \<longrightarrow> (\<exists>code. CompileExpression E (call_source name sl) = Inr code
              \<and> reads_as E code name (map snd sl)
              \<and> length code \<le> 8 + sum_list (map (\<lambda>p. 8 + length (lit_data (snd p))) sl)
              \<and> code \<noteq> [] \<and> hd code \<noteq> 0))"

definition compiles_to :: "easyfl \<Rightarrow> bytes res \<Rightarrow> string \<Rightarrow> lit list \<Rightarrow> bool" where
  "compiles_to E r name lits \<longleftrightarrow>
     (\<exists>code. r = Inr code \<and> reads_as E code name lits \<and> code \<noteq> [] \<and> hd code \<noteq> 0
        \<and> (\<exists>src. CompileExpression E src = Inr code)
        \<and> length code \<le> 8 + sum_list (map (\<lambda>l. 8 + length (lit_data l)) lits))"

lemma compiles:
  assumes "compile_laws E" "map_of constraint_arity name = Some (length sl)" "seps_ok sl"
    "\<forall>p \<in> set sl. lit_ok E (snd p)" "src = call_source name sl" "lits = map snd sl"
  shows "compiles_to E (mustBinFromSource E src) name lits"
proof -
  obtain code where "CompileExpression E src = Inr code" "reads_as E code name lits"
    "length code \<le> 8 + sum_list (map (\<lambda>p. 8 + length (lit_data (snd p))) sl)" "code \<noteq> []" "hd code \<noteq> 0"
    using assms unfolding compile_laws_def by blast
  then show ?thesis
    unfolding compiles_to_def mustBinFromSource_def by (auto simp: assms(6) comp_def)
qed

section \<open>Every type compiles to a call of its own symbol\<close>

lemmas source_eval = call_source_def seps_ok_def constraint_arity_def

lemma Amount_compiles:
  "compile_laws E \<Longrightarrow> compiles_to E (Amount_Bytes E a) ''amount'' [L_u64 a]"
  unfolding Amount_Bytes_def
  by (rule compiles [where sl = "[('''', L_u64 a)]"]) (simp_all add: Amount_source_def source_eval)

lemma Timestamp_compiles:
  "compile_laws E \<Longrightarrow> compiles_to E (Timestamp_Bytes E t) ''timestamp'' [L_u32 t]"
  unfolding Timestamp_Bytes_def
  by (rule compiles [where sl = "[('''', L_u32 t)]"]) (simp_all add: Timestamp_source_def source_eval)

lemma Timelock_compiles:
  "compile_laws E \<Longrightarrow> compiles_to E (Timelock_Bytes E t) ''timelock'' [L_u32 t]"
  unfolding Timelock_Bytes_def
  by (rule compiles [where sl = "[('''', L_u32 t)]"]) (simp_all add: Timelock_source_def source_eval)

lemma AddressED25519_compiles:
  "compile_laws E \<Longrightarrow> a \<noteq> [] \<Longrightarrow> length a \<le> 127
   \<Longrightarrow> compiles_to E (AddressED25519_Bytes E a) ''addressED25519'' [L_hex a]"
  unfolding AddressED25519_Bytes_def
  by (rule compiles [where sl = "[('''', L_hex a)]"])
    (simp_all add: AddressED25519_source_def source_eval)

lemma ChainLock_compiles:
  "compile_laws E \<Longrightarrow> a \<noteq> [] \<Longrightarrow> length a \<le> 127
   \<Longrightarrow> compiles_to E (ChainLock_Bytes E a) ''chainLock'' [L_hex a]"
  unfolding ChainLock_Bytes_def
  by (rule compiles [where sl = "[('''', L_hex a)]"])
    (simp_all add: ChainLock_source_def source_eval)

lemma Sender_compiles:
  "compile_laws E \<Longrightarrow> a \<noteq> [] \<Longrightarrow> length a \<le> 127
   \<Longrightarrow> compiles_to E (Sender_Bytes E a) ''senderAddressED25519'' [L_hex a]"
  unfolding Sender_Bytes_def
  by (rule compiles [where sl = "[('''', L_hex a)]"])
    (simp_all add: Sender_source_def source_eval)

lemma ChainConstraint_compiles:
  "compile_laws E \<Longrightarrow> length (ch_ID ch) = 32
   \<Longrightarrow> compiles_to E (ChainConstraint_Bytes E ch) ''chain'' [L_hex (chain_data ch)]"
  unfolding ChainConstraint_Bytes_def
  by (rule compiles [where sl = "[('''', L_hex (chain_data ch))]"])
    (simp_all add: ChainConstraint_source_def source_eval chain_data_def)

lemma Immutable_compiles:
  "compile_laws E
   \<Longrightarrow> compiles_to E (Immutable_Bytes E d) ''immutable'' [L_hex [im_ChainBlockIndex d, im_DataBlockIndex d]]"
  unfolding Immutable_Bytes_def
  by (rule compiles [where sl = "[('''', L_hex [im_ChainBlockIndex d, im_DataBlockIndex d])]"])
    (simp_all add: Immutable_source_def source_eval)

lemma CommitToSibling_compiles:
  "compile_laws E \<Longrightarrow> cs_SiblingHash cs \<noteq> [] \<Longrightarrow> length (cs_SiblingHash cs) \<le> 127
   \<Longrightarrow> compiles_to E (CommitToSibling_Bytes E cs) ''commitToSibling''
         [L_u8 (cs_SiblingIndex cs), L_hex (cs_SiblingHash cs)]"
  unfolding CommitToSibling_Bytes_def
  by (rule compiles [where sl = "[('''', L_u8 (cs_SiblingIndex cs)), ('', '', L_hex (cs_SiblingHash cs))]"])
    (simp_all add: CommitToSibling_source_def source_eval)

lemma mustBin_source:
  "mustBinFromSource E src = Inr code \<Longrightarrow> CompileExpression E src = Inr code"
  by (simp add: mustBinFromSource_def)

fun accountable_data :: "Accountable \<Rightarrow> bytes" where
  "accountable_data (Acc_AddressED25519 a) = a"
| "accountable_data (Acc_ChainLock a) = a"

fun accountable_name :: "Accountable \<Rightarrow> string" where
  "accountable_name (Acc_AddressED25519 a) = ''addressED25519''"
| "accountable_name (Acc_ChainLock a) = ''chainLock''"

lemma AccountID_compiles:
  assumes "compile_laws E" "length (accountable_data acc) = 32"
  shows "compiles_to E (AccountID E acc) (accountable_name acc) [L_hex (accountable_data acc)]"
proof -
  have "accountable_data acc \<noteq> []" using assms(2) by auto
  then show ?thesis
    using assms by (cases acc) (auto intro: AddressED25519_compiles ChainLock_compiles)
qed

lemma compiles_to_code:
  assumes "compiles_to E r name [L_hex a]" "length a = 32"
  obtains m where "r = Inr m" "reads_as E m name [L_hex a]" "lit_ok E (L_code m)" "lit_ok E (L_hex m)"
    "m \<noteq> []" "length m \<le> 127"
proof -
  obtain m where m: "r = Inr m" "reads_as E m name [L_hex a]" "m \<noteq> []"
    "\<exists>src. CompileExpression E src = Inr m" "length m \<le> 8 + (8 + length a)"
    using assms(1) unfolding compiles_to_def by auto
  then have "length m \<le> 127" using assms(2) by simp
  then show ?thesis using that [OF m(1,2)] m(3,4) by simp
qed

lemma DeadlineLock_compiles:
  assumes "compile_laws E" "length (accountable_data (dl_Main dl)) = 32"
    "length (accountable_data (dl_Expiry dl)) = 32"
  obtains m x where
    "reads_as E m (accountable_name (dl_Main dl)) [L_hex (accountable_data (dl_Main dl))]"
    "reads_as E x (accountable_name (dl_Expiry dl)) [L_hex (accountable_data (dl_Expiry dl))]"
    "compiles_to E (DeadlineLock_Bytes E dl) ''deadlineLock'' [L_u32 (dl_Deadline dl), L_code m, L_code x]"
    "length m \<le> 127" "length x \<le> 127"
proof -
  obtain m where m: "AccountID E (dl_Main dl) = Inr m" "lit_ok E (L_code m)"
    "reads_as E m (accountable_name (dl_Main dl)) [L_hex (accountable_data (dl_Main dl))]"
    using compiles_to_code [OF AccountID_compiles [OF assms(1,2)] assms(2)] by blast
  obtain x where x: "AccountID E (dl_Expiry dl) = Inr x" "lit_ok E (L_code x)"
    "reads_as E x (accountable_name (dl_Expiry dl)) [L_hex (accountable_data (dl_Expiry dl))]"
    using compiles_to_code [OF AccountID_compiles [OF assms(1,3)] assms(3)] by blast
  let ?src = "call_source ''deadlineLock''
    [('''', L_u32 (dl_Deadline dl)), ('','', L_code m), ('', '', L_code x)]"
  have src: "DeadlineLock_Bytes E dl = mustBinFromSource E ?src"
    by (simp add: DeadlineLock_Bytes_def DeadlineLock_source_def m x call_source_def)
  have "compiles_to E (mustBinFromSource E ?src) ''deadlineLock''
          [L_u32 (dl_Deadline dl), L_code m, L_code x]"
    by (rule compiles [OF assms(1) _ _ _ refl])
      (use m(2) x(2) in \<open>simp_all add: seps_ok_def constraint_arity_def\<close>)
  then show ?thesis using that [OF m(3) x(3)] m(2) x(2) src by simp
qed

lemma Royalties_compiles:
  assumes "compile_laws E" "length (ro_Address r) = 32"
  obtains a where "reads_as E a ''addressED25519'' [L_hex (ro_Address r)]"
    "compiles_to E (Royalties_Bytes E r) ''royaltiesED25519'' [L_hex a, L_u64 (ro_Amount r)]"
proof -
  have "compiles_to E (AddressED25519_Bytes E (ro_Address r)) ''addressED25519'' [L_hex (ro_Address r)]"
    using AccountID_compiles [of E "Acc_AddressED25519 (ro_Address r)"] assms by simp
  then obtain a where a: "AddressED25519_Bytes E (ro_Address r) = Inr a" "lit_ok E (L_hex a)"
    "reads_as E a ''addressED25519'' [L_hex (ro_Address r)]"
    using compiles_to_code assms(2) by blast
  let ?src = "call_source ''royaltiesED25519'' [('''', L_hex a), ('', '', L_u64 (ro_Amount r))]"
  have src: "Royalties_Bytes E r = mustBinFromSource E ?src"
    by (simp add: Royalties_Bytes_def Royalties_source_def a call_source_def)
  have "compiles_to E (mustBinFromSource E ?src) ''royaltiesED25519'' [L_hex a, L_u64 (ro_Amount r)]"
    by (rule compiles [OF assms(1) _ _ _ refl])
      (use a(2) in \<open>simp_all add: seps_ok_def constraint_arity_def\<close>)
  then show ?thesis using that a src by simp
qed

section \<open>Every parser reads a call of its symbol\<close>

lemma reads_as_parses:
  assumes "easyfl_laws E" "reads_as E code name lits"
  obtains args where "ParseBytecodeOneLevel E code None = Inr (name, PrefixOf E name, args)"
    "ParseBytecodeOneLevel E code (Some (length lits)) = Inr (name, PrefixOf E name, args)"
    "ParseBytecodePrefix E code = Inr (PrefixOf E name)" "list_all2 (arg_is E) lits args"
proof -
  obtain args where args: "ParseBytecodeOneLevel E code None = Inr (name, PrefixOf E name, args)"
      "list_all2 (arg_is E) lits args"
    using assms(2) unfolding reads_as_def by blast
  have "length args = length lits" using args(2) by (simp add: list_all2_lengthD)
  with args assms(1) show ?thesis
    by (intro that [of args]) (auto simp: easyfl_laws_def parse_laws_def)
qed

lemma list_all2_Cons_left:
  "list_all2 P (x # xs) ys \<longleftrightarrow> (\<exists>z zs. ys = z # zs \<and> P x z \<and> list_all2 P xs zs)"
  by (cases ys) auto

lemmas read_simps = list_all2_Cons_left data_arg_def numeral_2_eq_2 numeral_3_eq_3

lemma Amount_reads:
  assumes "easyfl_laws E" "reads_as E code ''amount'' [L_u64 a]"
  shows "AmountFromBytes E code = Inr a"
  using assms(2) by (elim reads_as_parses [OF assms(1)]) (auto simp: AmountFromBytes_def read_simps)

lemma Timestamp_reads:
  assumes "easyfl_laws E" "reads_as E code ''timestamp'' [L_u32 t]"
  shows "TimestampFromBytes E code = Inr t"
  using assms(2) by (elim reads_as_parses [OF assms(1)]) (auto simp: TimestampFromBytes_def read_simps)

lemma Timelock_reads:
  assumes "easyfl_laws E" "reads_as E code ''timelock'' [L_u32 t]"
  shows "TimelockFromBytes E code = Inr t"
  using assms(2) by (elim reads_as_parses [OF assms(1)]) (auto simp: TimelockFromBytes_def read_simps)

lemma Timelock_not_timestamp:
  assumes "easyfl_laws E" "reads_as E code ''timelock'' [L_u32 t]"
  shows "TimestampFromBytes E code = Inl (Error Not_the_constraint)"
  using assms(2) by (elim reads_as_parses [OF assms(1)]) (auto simp: TimestampFromBytes_def read_simps)

lemma AddressED25519_reads:
  assumes "easyfl_laws E" "length a = 32" "reads_as E code ''addressED25519'' [L_hex a]"
  shows "AddressED25519FromBytes E code = Inr a"
  using assms(3) assms(2)
  by (elim reads_as_parses [OF assms(1)]) (auto simp: AddressED25519FromBytes_def read_simps)

lemma ChainLock_reads:
  assumes "easyfl_laws E" "length a = 32" "reads_as E code ''chainLock'' [L_hex a]"
  shows "ChainLockFromBytes E code = Inr a"
  using assms(3) assms(2)
  by (elim reads_as_parses [OF assms(1)]) (auto simp: ChainLockFromBytes_def read_simps)

lemma Sender_reads:
  assumes "easyfl_laws E" "reads_as E code ''senderAddressED25519'' [L_hex a]"
  shows "SenderFromBytes E code = Inr a"
  using assms(2) by (elim reads_as_parses [OF assms(1)]) (auto simp: SenderFromBytes_def read_simps)

lemma Immutable_reads:
  assumes "easyfl_laws E"
    "reads_as E code ''immutable'' [L_hex [im_ChainBlockIndex d, im_DataBlockIndex d]]"
  shows "ImmutableFromBytes E code = Inr d"
  using assms(2) by (elim reads_as_parses [OF assms(1)]) (auto simp: ImmutableFromBytes_def read_simps)

lemma CommitToSibling_reads:
  assumes "easyfl_laws E" "length (cs_SiblingHash d) = 32"
    "reads_as E code ''commitToSibling'' [L_u8 (cs_SiblingIndex d), L_hex (cs_SiblingHash d)]"
  shows "CommitToSiblingFromBytes E code = Inr d"
  using assms(3) assms(2)
  by (elim reads_as_parses [OF assms(1)]) (auto simp: CommitToSiblingFromBytes_def read_simps)

lemma ChainConstraint_reads:
  assumes "easyfl_laws E" "length (ch_ID ch) = 32" "reads_as E code ''chain'' [L_hex (chain_data ch)]"
  shows "ChainConstraintFromBytes E code = Inr ch"
  using assms(3) assms(2)
  by (elim reads_as_parses [OF assms(1)])
    (auto simp: ChainConstraintFromBytes_def read_simps chain_data_def nth_append)

lemma Royalties_reads:
  assumes "easyfl_laws E" "length (ro_Address r) = 32"
    "reads_as E a ''addressED25519'' [L_hex (ro_Address r)]"
    "reads_as E code ''royaltiesED25519'' [L_hex a, L_u64 (ro_Amount r)]"
  shows "RoyaltiesFromBytes E code = Inr r"
  using assms(4) AddressED25519_reads [OF assms(1,2,3)]
  by (elim reads_as_parses [OF assms(1)]) (auto simp: RoyaltiesFromBytes_def read_simps)

section \<open>The registry\<close>

definition registry_of :: "easyfl \<Rightarrow> (string \<times> Parser) list \<Rightarrow> registry" where
  "registry_of E l =
     \<lparr>constraintByPrefix = map_of (map (\<lambda>(n, p). (PrefixOf E n,
          \<lparr>cr_name = n, cr_prefix = PrefixOf E n, cr_parser = p\<rparr>)) l),
      constraintNames = set (map fst l)\<rparr>"

definition std_entries :: "(string \<times> Parser) list" where
  "std_entries =
     [(''commitToSibling'', Parse_CommitToSibling), (''immutable'', Parse_Immutable),
      (''royaltiesED25519'', Parse_Royalties), (''chainLock'', Parse_ChainLock),
      (''chain'', Parse_Chain), (''senderAddressED25519'', Parse_Sender),
      (''timelock'', Parse_Timestamp), (''deadlineLock'', Parse_DeadlineLock),
      (''addressED25519'', Parse_AddressED25519), (''timestamp'', Parse_Timestamp),
      (''amount'', Parse_Amount)]"

lemma prefix_inject:
  "easyfl_laws E \<Longrightarrow> m \<in> set constraint_symbols \<Longrightarrow> n \<in> set constraint_symbols
   \<Longrightarrow> PrefixOf E m = PrefixOf E n \<longleftrightarrow> m = n"
  by (auto simp: easyfl_laws_def parse_laws_def inj_on_def)

lemma prefix_nonempty:
  "easyfl_laws E \<Longrightarrow> n \<in> set constraint_symbols \<Longrightarrow> PrefixOf E n \<noteq> [] \<and> length (PrefixOf E n) \<le> 2"
  by (auto simp: easyfl_laws_def parse_laws_def)

lemma registry_lookup:
  assumes "easyfl_laws E" "n \<in> set constraint_symbols" "set (map fst l) \<subseteq> set constraint_symbols"
  shows "constraintByPrefix (registry_of E l) (PrefixOf E n) =
    map_option (\<lambda>p. \<lparr>cr_name = n, cr_prefix = PrefixOf E n, cr_parser = p\<rparr>) (map_of l n)"
  using assms(3)
proof (induction l)
  case Nil
  then show ?case by (simp add: registry_of_def)
next
  case (Cons e l)
  obtain m p where e: "e = (m, p)" by (cases e)
  with Cons.prems have "PrefixOf E m = PrefixOf E n \<longleftrightarrow> m = n"
    using prefix_inject [OF assms(1) _ assms(2)] by simp
  with Cons e show ?case by (auto simp: registry_of_def)
qed

lemma register_next:
  assumes "easyfl_laws E" "n \<in> set constraint_symbols" "n \<notin> set (map fst l)"
    "set (map fst l) \<subseteq> set constraint_symbols"
  shows "registerConstraint n (PrefixOf E n) p (registry_of E l) = Inr (registry_of E ((n, p) # l))"
proof -
  have "map_of l n = None" using assms(3) by (simp add: map_of_eq_None_iff)
  then have "constraintByPrefix (registry_of E l) (PrefixOf E n) = None"
    using registry_lookup [OF assms(1,2,4)] by simp
  moreover have "n \<notin> constraintNames (registry_of E l)"
    using assms(3) by (simp add: registry_of_def)
  moreover have "0 < length (PrefixOf E n) \<and> length (PrefixOf E n) \<le> 2"
    using prefix_nonempty [OF assms(1,2)] by auto
  ultimately show ?thesis by (simp add: registerConstraint_def registry_of_def)
qed

lemma NameByPrefix_of:
  assumes "easyfl_laws E" "n \<in> set constraint_symbols" "set (map fst l) \<subseteq> set constraint_symbols"
  shows "NameByPrefix (registry_of E l) (PrefixOf E n) = (if n \<in> set (map fst l) then Some n else None)"
  using registry_lookup [OF assms]
  by (auto simp: NameByPrefix_def map_of_eq_None_iff dom_map_of_conv_image_fst [symmetric] split: option.splits)

lemma parserByPrefix_of:
  assumes "easyfl_laws E" "n \<in> set constraint_symbols" "set (map fst l) \<subseteq> set constraint_symbols"
  shows "parserByPrefix (registry_of E l) (PrefixOf E n) = map_of l n"
  using registry_lookup [OF assms] by (cases "map_of l n") (simp_all add: parserByPrefix_def)

lemma Accountable_reads:
  assumes "easyfl_laws E" "length a = 32" "reads_as E m ''addressED25519'' [L_hex a]"
    "''addressED25519'' \<in> set (map fst l)" "set (map fst l) \<subseteq> set constraint_symbols"
  shows "AccountableFromBytes E (registry_of E l) m = Inr (Acc_AddressED25519 a)"
  using NameByPrefix_of [OF assms(1) _ assms(5)] AddressED25519_reads [OF assms(1,2,3)] assms(4)
  by - (rule reads_as_parses [OF assms(1,3)], simp add: AccountableFromBytes_def constraint_symbols_def constraint_arity_def)

lemma Accountable_chainLock:
  assumes "easyfl_laws E" "reads_as E m ''chainLock'' [L_hex a]"
    "set (map fst l) \<subseteq> set constraint_symbols"
  shows "\<exists>f. AccountableFromBytes E (registry_of E l) m = Inl (Error f)"
  using NameByPrefix_of [OF assms(1) _ assms(3)]
  by - (rule reads_as_parses [OF assms(1,2)], auto simp: AccountableFromBytes_def constraint_symbols_def constraint_arity_def)

lemma DeadlineLock_reads:
  assumes "easyfl_laws E"
    "reads_as E code ''deadlineLock'' [L_u32 d, L_code m, L_code x]"
    "AccountableFromBytes E R m = Inr ma" "AccountableFromBytes E R x = Inr xa"
  shows "DeadlineLockFromBytes E R code = Inr \<lparr>dl_Deadline = d, dl_Main = ma, dl_Expiry = xa\<rparr>"
  using assms(3,4)
  by - (rule reads_as_parses [OF assms(1,2)], auto simp: DeadlineLockFromBytes_def read_simps)

section \<open>Initialisation goes through\<close>

text \<open>
  Each step reads back its own example and registers the symbol's prefix in front of the entries
  that are there. Only the deadline lock looks names up while it checks its example.
\<close>

lemma registers:
  assumes "easyfl_laws E" "n \<in> set constraint_symbols" "n \<notin> set (map fst l)"
    "set (map fst l) \<subseteq> set constraint_symbols" "l' = (n, p) # l"
  shows "registerConstraint n (PrefixOf E n) p (registry_of E l) = Inr (registry_of E l')"
  using register_next [OF assms(1-4)] assms(5) by simp

definition fresh_for :: "string \<Rightarrow> (string \<times> Parser) list \<Rightarrow> bool" where
  "fresh_for n l \<longleftrightarrow> n \<in> set constraint_symbols \<and> n \<notin> set (map fst l)
     \<and> set (map fst l) \<subseteq> set constraint_symbols"

lemma register_fresh:
  "easyfl_laws E \<Longrightarrow> fresh_for n l
   \<Longrightarrow> registerConstraint n (PrefixOf E n) p (registry_of E l) = Inr (registry_of E ((n, p) # l))"
  by (simp add: register_next fresh_for_def)

lemma initAmount_ok:
  assumes "easyfl_laws E" "compile_laws E" "fresh_for ''amount'' l"
  shows "initAmountConstraint E (registry_of E l) = Inr (registry_of E ((''amount'', Parse_Amount) # l))"
proof -
  obtain code where code: "Amount_Bytes E 1337 = Inr code" "reads_as E code ''amount'' [L_u64 1337]"
    using Amount_compiles [OF assms(2)] unfolding compiles_to_def by blast
  show ?thesis
    by (rule reads_as_parses [OF assms(1) code(2)])
      (auto simp: initAmountConstraint_def code(1) read_simps register_fresh [OF assms(1,3)])
qed

lemma initTimestamp_ok:
  assumes "easyfl_laws E" "compile_laws E" "fresh_for ''timestamp'' l"
  shows "initTimestampConstraint E (registry_of E l) = Inr (registry_of E ((''timestamp'', Parse_Timestamp) # l))"
proof -
  obtain code where code: "Timestamp_Bytes E 1337 = Inr code" "reads_as E code ''timestamp'' [L_u32 1337]"
    using Timestamp_compiles [OF assms(2)] unfolding compiles_to_def by blast
  show ?thesis
    by (rule reads_as_parses [OF assms(1) code(2)])
      (auto simp: initTimestampConstraint_def code(1) read_simps register_fresh [OF assms(1,3)])
qed

lemma initTimelock_ok:
  assumes "easyfl_laws E" "compile_laws E" "fresh_for ''timelock'' l"
  shows "initTimelockConstraint E (registry_of E l) = Inr (registry_of E ((''timelock'', Parse_Timestamp) # l))"
proof -
  obtain code where code: "Timelock_Bytes E 1337 = Inr code" "reads_as E code ''timelock'' [L_u32 1337]"
    using Timelock_compiles [OF assms(2)] unfolding compiles_to_def by blast
  show ?thesis
    by (rule reads_as_parses [OF assms(1) code(2)])
      (auto simp: initTimelockConstraint_def code(1) read_simps register_fresh [OF assms(1,3)])
qed

lemma null_data [simp]: "length AddressED25519Null = 32" "length ChainLockNull = 32"
  by (simp_all add: AddressED25519Null_def ChainLockNull_def)

lemma address_compiles:
  assumes "compile_laws E" "length a = 32"
  obtains code where "AddressED25519_Bytes E a = Inr code" "reads_as E code ''addressED25519'' [L_hex a]"
  using AccountID_compiles [of E "Acc_AddressED25519 a"] compiles_to_code assms
  by (metis AccountID.simps(1) accountable_data.simps(1) accountable_name.simps(1))

lemma chainLock_compiles:
  assumes "compile_laws E" "length a = 32"
  obtains code where "ChainLock_Bytes E a = Inr code" "reads_as E code ''chainLock'' [L_hex a]"
  using AccountID_compiles [of E "Acc_ChainLock a"] compiles_to_code assms
  by (metis AccountID.simps(2) accountable_data.simps(2) accountable_name.simps(2))

lemma initAddressED25519_ok:
  assumes "easyfl_laws E" "compile_laws E" "fresh_for ''addressED25519'' l"
  shows "initAddressED25519Constraint E (registry_of E l)
    = Inr (registry_of E ((''addressED25519'', Parse_AddressED25519) # l))"
proof -
  obtain code where code: "AddressED25519_Bytes E AddressED25519Null = Inr code"
    "reads_as E code ''addressED25519'' [L_hex AddressED25519Null]"
    by (rule address_compiles [OF assms(2) null_data(1)])
  have bk: "AddressED25519FromBytes E code = Inr AddressED25519Null"
    by (rule AddressED25519_reads [OF assms(1) null_data(1) code(2)])
  show ?thesis
    by (rule reads_as_parses [OF assms(1) code(2)])
      (simp add: initAddressED25519Constraint_def code(1) bk constraints_Equal_def register_fresh [OF assms(1,3)])
qed

lemma initChainLock_ok:
  assumes "easyfl_laws E" "compile_laws E" "fresh_for ''chainLock'' l"
  shows "initChainLockConstraint E (registry_of E l)
    = Inr (registry_of E ((''chainLock'', Parse_ChainLock) # l))"
proof -
  obtain code where code: "ChainLock_Bytes E ChainLockNull = Inr code"
    "reads_as E code ''chainLock'' [L_hex ChainLockNull]"
    by (rule chainLock_compiles [OF assms(2) null_data(2)])
  have bk: "ChainLockFromBytes E code = Inr ChainLockNull"
    by (rule ChainLock_reads [OF assms(1) null_data(2) code(2)])
  show ?thesis
    by (rule reads_as_parses [OF assms(1) code(2)])
      (simp add: initChainLockConstraint_def code(1) bk constraints_Equal_def register_fresh [OF assms(1,3)])
qed

lemma initDeadlineLock_ok:
  assumes "easyfl_laws E" "compile_laws E" "fresh_for ''deadlineLock'' l"
    "''addressED25519'' \<in> set (map fst l)"
  shows "initDeadlineLockConstraint E (registry_of E l)
    = Inr (registry_of E ((''deadlineLock'', Parse_DeadlineLock) # l))"
proof -
  let ?a = "AddressED25519Null"
  let ?dl = "\<lparr>dl_Deadline = 1337, dl_Main = Acc_AddressED25519 ?a, dl_Expiry = Acc_AddressED25519 ?a\<rparr>"
  obtain m x code where m: "reads_as E m ''addressED25519'' [L_hex ?a]"
      "reads_as E x ''addressED25519'' [L_hex ?a]"
      "DeadlineLock_Bytes E ?dl = Inr code" "reads_as E code ''deadlineLock'' [L_u32 1337, L_code m, L_code x]"
    by (rule DeadlineLock_compiles [OF assms(2), of ?dl]) (auto simp: compiles_to_def)
  obtain a where a: "AddressED25519_Bytes E ?a = Inr a"
    by (rule address_compiles [OF assms(2) null_data(1)])
  have sub: "set (map fst l) \<subseteq> set constraint_symbols" using assms(3) by (simp add: fresh_for_def)
  have "DeadlineLockFromBytes E (registry_of E l) code = Inr ?dl"
    using DeadlineLock_reads [OF assms(1) m(4)] Accountable_reads [OF assms(1) _ _ assms(4) sub] m(1,2) by simp
  then show ?thesis
    by - (rule reads_as_parses [OF assms(1) m(4)],
      simp add: initDeadlineLockConstraint_def m(3) a constraints_Equal_def register_fresh [OF assms(1,3)])
qed

lemma initSender_ok:
  assumes "easyfl_laws E" "compile_laws E" "fresh_for ''senderAddressED25519'' l"
  shows "initSenderConstraint E (registry_of E l)
    = Inr (registry_of E ((''senderAddressED25519'', Parse_Sender) # l))"
proof -
  have "compiles_to E (Sender_Bytes E AddressED25519Null) ''senderAddressED25519'' [L_hex AddressED25519Null]"
    by (rule Sender_compiles [OF assms(2)]) (simp_all add: AddressED25519Null_def)
  then obtain code where code: "Sender_Bytes E AddressED25519Null = Inr code"
    "reads_as E code ''senderAddressED25519'' [L_hex AddressED25519Null]"
    unfolding compiles_to_def by blast
  show ?thesis
    by (rule reads_as_parses [OF assms(1) code(2)])
      (auto simp: initSenderConstraint_def code(1) read_simps assms(3) register_fresh [OF assms(1,3)])
qed

lemma initChain_ok:
  assumes "easyfl_laws E" "compile_laws E" "fresh_for ''chain'' l"
  shows "initChainConstraint E (registry_of E l) = Inr (registry_of E ((''chain'', Parse_Chain) # l))"
proof -
  have len: "length (ch_ID NewChainOrigin) = 32"
    by (simp add: NewChainOrigin_def NewChainConstraint_def)
  obtain code where code: "ChainConstraint_Bytes E NewChainOrigin = Inr code"
    "reads_as E code ''chain'' [L_hex (chain_data NewChainOrigin)]"
    using ChainConstraint_compiles [OF assms(2) len] unfolding compiles_to_def by blast
  show ?thesis
    by (rule reads_as_parses [OF assms(1) code(2)])
      (simp add: initChainConstraint_def code(1) ChainConstraint_reads [OF assms(1) len code(2)]
        register_fresh [OF assms(1,3)])
qed

lemma initRoyalties_ok:
  assumes "easyfl_laws E" "compile_laws E" "fresh_for ''royaltiesED25519'' l"
  shows "initRoyaltiesConstraint E (registry_of E l)
    = Inr (registry_of E ((''royaltiesED25519'', Parse_Royalties) # l))"
proof -
  let ?r = "\<lparr>ro_Address = AddressED25519Null, ro_Amount = 1337\<rparr>"
  obtain a code where a: "reads_as E a ''addressED25519'' [L_hex (ro_Address ?r)]"
    "Royalties_Bytes E ?r = Inr code" "reads_as E code ''royaltiesED25519'' [L_hex a, L_u64 (ro_Amount ?r)]"
    by (rule Royalties_compiles [OF assms(2), of ?r]) (auto simp: compiles_to_def)
  obtain b where b: "AddressED25519_Bytes E AddressED25519Null = Inr b"
    by (rule address_compiles [OF assms(2) null_data(1)])
  have "RoyaltiesFromBytes E code = Inr ?r"
    by (rule Royalties_reads [OF assms(1) _ a(1,3)]) simp
  then show ?thesis
    by - (rule reads_as_parses [OF assms(1) a(3)],
      simp add: initRoyaltiesConstraint_def a(2) b constraints_Equal_def register_fresh [OF assms(1,3)])
qed

lemma initImmutable_ok:
  assumes "easyfl_laws E" "compile_laws E" "fresh_for ''immutable'' l"
  shows "initImmutableConstraint E (registry_of E l) = Inr (registry_of E ((''immutable'', Parse_Immutable) # l))"
proof -
  let ?d = "\<lparr>im_ChainBlockIndex = 1, im_DataBlockIndex = 5\<rparr> :: Immutable"
  obtain code where code: "Immutable_Bytes E ?d = Inr code"
    "reads_as E code ''immutable'' [L_hex [im_ChainBlockIndex ?d, im_DataBlockIndex ?d]]"
    using Immutable_compiles [OF assms(2)] unfolding compiles_to_def by blast
  show ?thesis
    by (rule reads_as_parses [OF assms(1) code(2)])
      (simp add: initImmutableConstraint_def code(1) Immutable_reads [OF assms(1) code(2)]
        register_fresh [OF assms(1,3)])
qed

lemma initCommitToSibling_ok:
  assumes "easyfl_laws E" "compile_laws E" "fresh_for ''commitToSibling'' l"
  shows "initCommitToSiblingConstraint E (registry_of E l)
    = Inr (registry_of E ((''commitToSibling'', Parse_CommitToSibling) # l))"
proof -
  define h where "h = Sum256 E (map (\<lambda>c. of_nat (of_char c)) ''just data'')"
  let ?d = "\<lparr>cs_SiblingIndex = 2, cs_SiblingHash = h\<rparr>"
  have len: "length (cs_SiblingHash ?d) = 32"
    using assms(1) by (simp add: h_def easyfl_laws_def crypto_laws_def)
  have "compiles_to E (CommitToSibling_Bytes E ?d) ''commitToSibling''
      [L_u8 (cs_SiblingIndex ?d), L_hex (cs_SiblingHash ?d)]"
    by (rule CommitToSibling_compiles [OF assms(2)]) (use len in auto)
  then obtain code where code: "CommitToSibling_Bytes E ?d = Inr code"
    "reads_as E code ''commitToSibling'' [L_u8 (cs_SiblingIndex ?d), L_hex (cs_SiblingHash ?d)]"
    unfolding compiles_to_def by blast
  show ?thesis
    unfolding initCommitToSiblingConstraint_def h_def [symmetric]
    by (rule reads_as_parses [OF assms(1) code(2)])
      (simp add: Let_def code(1) CommitToSibling_reads [OF assms(1) len code(2)] register_fresh [OF assms(1,3)])
qed

lemma init_constraints_std:
  assumes "easyfl_laws E" "compile_laws E"
  shows "init_constraints E = Inr (registry_of E std_entries)"
proof -
  have empty: "empty_registry = registry_of E []"
    by (simp add: empty_registry_def registry_of_def)
  note steps = initAmount_ok initTimestamp_ok initAddressED25519_ok initDeadlineLock_ok initTimelock_ok
    initSender_ok initChain_ok initChainLock_ok initRoyalties_ok initImmutable_ok initCommitToSibling_ok
  show ?thesis
    by (simp add: init_constraints_def empty std_entries_def steps [OF assms]
        fresh_for_def constraint_symbols_def constraint_arity_def)
qed

section \<open>What the package promises\<close>

fun Constraint_Bytes :: "easyfl \<Rightarrow> Constraint \<Rightarrow> bytes res" where
  "Constraint_Bytes E (Con_Amount a) = Amount_Bytes E a"
| "Constraint_Bytes E (Con_Timestamp t) = Timestamp_Bytes E t"
| "Constraint_Bytes E (Con_Timelock t) = Timelock_Bytes E t"
| "Constraint_Bytes E (Con_Lock l) = Lock_Bytes E l"
| "Constraint_Bytes E (Con_Chain ch) = ChainConstraint_Bytes E ch"
| "Constraint_Bytes E (Con_Sender a) = Sender_Bytes E a"
| "Constraint_Bytes E (Con_Royalties r) = Royalties_Bytes E r"
| "Constraint_Bytes E (Con_Immutable d) = Immutable_Bytes E d"
| "Constraint_Bytes E (Con_CommitToSibling d) = CommitToSibling_Bytes E d"
| "Constraint_Bytes E (Con_GeneralScript code) = Inr code"

text \<open>
  The values that Go's types allow: addresses, identities and hashes have 32 bytes, and the accounts
  of a deadline lock may be addresses or chain locks. Every value of the package is of this kind.
\<close>

fun lock_sized :: "Lock \<Rightarrow> bool" where
  "lock_sized (Lock_AddressED25519 a) \<longleftrightarrow> length a = 32"
| "lock_sized (Lock_ChainLock c) \<longleftrightarrow> length c = 32"
| "lock_sized (Lock_DeadlineLock dl) \<longleftrightarrow>
     length (accountable_data (dl_Main dl)) = 32 \<and> length (accountable_data (dl_Expiry dl)) = 32"

fun constraint_sized :: "Constraint \<Rightarrow> bool" where
  "constraint_sized (Con_Amount a) \<longleftrightarrow> True"
| "constraint_sized (Con_Timestamp t) \<longleftrightarrow> True"
| "constraint_sized (Con_Timelock t) \<longleftrightarrow> True"
| "constraint_sized (Con_Lock l) \<longleftrightarrow> lock_sized l"
| "constraint_sized (Con_Chain ch) \<longleftrightarrow> length (ch_ID ch) = 32"
| "constraint_sized (Con_Sender a) \<longleftrightarrow> length a = 32"
| "constraint_sized (Con_Royalties r) \<longleftrightarrow> length (ro_Address r) = 32"
| "constraint_sized (Con_Immutable d) \<longleftrightarrow> True"
| "constraint_sized (Con_CommitToSibling d) \<longleftrightarrow> length (cs_SiblingHash d) = 32"
| "constraint_sized (Con_GeneralScript code) \<longleftrightarrow> True"

text \<open>
  Which of them read back: not a time lock (its registered parser is that of the time stamp), not a
  deadline lock that names a chain lock (\<open>AccountableFromBytes\<close> knows addresses only), and a general
  script only if its prefix is not the one of a registered constraint.
\<close>

fun lock_readable :: "Lock \<Rightarrow> bool" where
  "lock_readable (Lock_AddressED25519 a) \<longleftrightarrow> True"
| "lock_readable (Lock_ChainLock c) \<longleftrightarrow> True"
| "lock_readable (Lock_DeadlineLock dl) \<longleftrightarrow>
     accountable_name (dl_Main dl) = ''addressED25519'' \<and> accountable_name (dl_Expiry dl) = ''addressED25519''"

fun constraint_readable :: "easyfl \<Rightarrow> Constraint \<Rightarrow> bool" where
  "constraint_readable E (Con_Timelock t) \<longleftrightarrow> False"
| "constraint_readable E (Con_Lock l) \<longleftrightarrow> lock_readable l"
| "constraint_readable E (Con_GeneralScript code) \<longleftrightarrow>
     (case ParseBytecodePrefix E code of
        Inl _ \<Rightarrow> False | Inr prefix \<Rightarrow> prefix \<notin> PrefixOf E ` set constraint_symbols)"
| "constraint_readable E c \<longleftrightarrow> True"

definition lock_ok :: "Lock \<Rightarrow> bool" where
  "lock_ok l \<longleftrightarrow> lock_sized l \<and> lock_readable l"

lemma lock_ok_simps [simp]:
  "lock_ok (Lock_AddressED25519 a) \<longleftrightarrow> length a = 32"
  "lock_ok (Lock_ChainLock c) \<longleftrightarrow> length c = 32"
  "lock_ok (Lock_DeadlineLock dl) \<longleftrightarrow>
     (\<exists>a b. dl_Main dl = Acc_AddressED25519 a \<and> length a = 32
        \<and> dl_Expiry dl = Acc_AddressED25519 b \<and> length b = 32)"
  by (simp_all add: lock_ok_def) (cases "dl_Main dl"; cases "dl_Expiry dl"; simp)

text \<open>The constraints of the registry that read back.\<close>

fun constraint_ok :: "Constraint \<Rightarrow> bool" where
  "constraint_ok (Con_Timelock t) \<longleftrightarrow> False"
| "constraint_ok (Con_GeneralScript code) \<longleftrightarrow> False"
| "constraint_ok (Con_Lock l) \<longleftrightarrow> lock_ok l"
| "constraint_ok c \<longleftrightarrow> constraint_sized c"

lemma std_symbols: "set (map fst std_entries) = set constraint_symbols"
  by (auto simp: std_entries_def constraint_symbols_def constraint_arity_def)

lemma std_prefixes:
  "dom (constraintByPrefix (registry_of E std_entries)) = PrefixOf E ` set constraint_symbols"
proof -
  have "dom (constraintByPrefix (registry_of E std_entries)) = PrefixOf E ` set (map fst std_entries)"
    by (simp add: registry_of_def dom_map_of_conv_image_fst image_image case_prod_beta)
  then show ?thesis unfolding std_symbols .
qed

lemma NameByPrefix_std:
  "easyfl_laws E \<Longrightarrow> n \<in> set constraint_symbols
   \<Longrightarrow> NameByPrefix (registry_of E std_entries) (PrefixOf E n) = Some n"
  using NameByPrefix_of [of E n std_entries] std_symbols by simp

lemma FromBytes_std:
  assumes "easyfl_laws E" "reads_as E code n lits" "n \<in> set constraint_symbols"
    "map_of std_entries n = Some p"
  shows "FromBytes E (registry_of E std_entries) code = run_parser E (registry_of E std_entries) p code"
  using parserByPrefix_of [OF assms(1,3), of std_entries] std_symbols assms(4)
  by - (rule reads_as_parses [OF assms(1,2)], simp add: FromBytes_def)

lemma lock_reads_back:
  assumes "easyfl_laws E" "compile_laws E" "lock_ok l"
  obtains code n where "Lock_Bytes E l = Inr code" "LockFromBytes E (registry_of E std_entries) code = Inr l"
    "FromBytes E (registry_of E std_entries) code = Inr (Con_Lock l)"
proof (cases l)
  case (Lock_AddressED25519 a)
  with assms(3) have len: "length a = 32" by simp
  obtain code where code: "AddressED25519_Bytes E a = Inr code" "reads_as E code ''addressED25519'' [L_hex a]"
    by (rule address_compiles [OF assms(2) len])
  have sym: "''addressED25519'' \<in> set constraint_symbols"
    by (simp add: constraint_symbols_def constraint_arity_def)
  have "LockFromBytes E (registry_of E std_entries) code = Inr l"
    by (rule reads_as_parses [OF assms(1) code(2)])
      (simp add: LockFromBytes_def NameByPrefix_std [OF assms(1) sym] AddressED25519_reads [OF assms(1) len code(2)]
        Lock_AddressED25519)
  moreover have "FromBytes E (registry_of E std_entries) code = Inr (Con_Lock l)"
    using FromBytes_std [OF assms(1) code(2) sym, of Parse_AddressED25519]
      AddressED25519_reads [OF assms(1) len code(2)] Lock_AddressED25519
    by (simp add: std_entries_def)
  ultimately show ?thesis using that code Lock_AddressED25519 by simp
next
  case (Lock_ChainLock a)
  with assms(3) have len: "length a = 32" by simp
  obtain code where code: "ChainLock_Bytes E a = Inr code" "reads_as E code ''chainLock'' [L_hex a]"
    by (rule chainLock_compiles [OF assms(2) len])
  have sym: "''chainLock'' \<in> set constraint_symbols"
    by (simp add: constraint_symbols_def constraint_arity_def)
  have "LockFromBytes E (registry_of E std_entries) code = Inr l"
    by (rule reads_as_parses [OF assms(1) code(2)])
      (simp add: LockFromBytes_def NameByPrefix_std [OF assms(1) sym] ChainLock_reads [OF assms(1) len code(2)]
        Lock_ChainLock)
  moreover have "FromBytes E (registry_of E std_entries) code = Inr (Con_Lock l)"
    using FromBytes_std [OF assms(1) code(2) sym, of Parse_ChainLock]
      ChainLock_reads [OF assms(1) len code(2)] Lock_ChainLock
    by (simp add: std_entries_def)
  ultimately show ?thesis using that code Lock_ChainLock by simp
next
  case (Lock_DeadlineLock dl)
  with assms(3) obtain a b where ab: "dl_Main dl = Acc_AddressED25519 a" "length a = 32"
    "dl_Expiry dl = Acc_AddressED25519 b" "length b = 32" by auto
  obtain m x code where m: "reads_as E m ''addressED25519'' [L_hex a]" "reads_as E x ''addressED25519'' [L_hex b]"
      "DeadlineLock_Bytes E dl = Inr code"
      "reads_as E code ''deadlineLock'' [L_u32 (dl_Deadline dl), L_code m, L_code x]"
    by (rule DeadlineLock_compiles [OF assms(2), of dl]) (auto simp: compiles_to_def ab)
  have sym: "''deadlineLock'' \<in> set constraint_symbols"
    by (simp add: constraint_symbols_def constraint_arity_def)
  have acc: "AccountableFromBytes E (registry_of E std_entries) m = Inr (Acc_AddressED25519 a)"
    "AccountableFromBytes E (registry_of E std_entries) x = Inr (Acc_AddressED25519 b)"
    by (rule Accountable_reads [OF assms(1) ab(2) m(1)], simp_all add: std_entries_def constraint_symbols_def constraint_arity_def)
      (rule Accountable_reads [OF assms(1) ab(4) m(2)], simp_all add: std_entries_def constraint_symbols_def constraint_arity_def)
  have rd: "DeadlineLockFromBytes E (registry_of E std_entries) code = Inr dl"
    using DeadlineLock_reads [OF assms(1) m(4) acc] ab by (cases dl) simp
  have "LockFromBytes E (registry_of E std_entries) code = Inr l"
    by (rule reads_as_parses [OF assms(1) m(4)])
      (simp add: LockFromBytes_def NameByPrefix_std [OF assms(1) sym] rd Lock_DeadlineLock)
  moreover have "FromBytes E (registry_of E std_entries) code = Inr (Con_Lock l)"
    using FromBytes_std [OF assms(1) m(4) sym, of Parse_DeadlineLock] rd Lock_DeadlineLock
    by (simp add: std_entries_def)
  ultimately show ?thesis using that m Lock_DeadlineLock by simp
qed

lemma lock_code_size:
  assumes "easyfl_laws E" "compile_laws E" "lock_sized l" "Lock_Bytes E l = Inr code"
  shows "length code \<le> 400 \<and> code \<noteq> [] \<and> hd code \<noteq> 0"
proof (cases l)
  case (Lock_AddressED25519 a)
  then show ?thesis
    using AccountID_compiles [OF assms(2), of "Acc_AddressED25519 a"] assms(3,4) by (auto simp: compiles_to_def)
next
  case (Lock_ChainLock a)
  then show ?thesis
    using AccountID_compiles [OF assms(2), of "Acc_ChainLock a"] assms(3,4) by (auto simp: compiles_to_def)
next
  case (Lock_DeadlineLock dl)
  obtain m x where "compiles_to E (DeadlineLock_Bytes E dl) ''deadlineLock'' [L_u32 (dl_Deadline dl), L_code m, L_code x]"
    "length m \<le> 127" "length x \<le> 127"
    by (rule DeadlineLock_compiles [OF assms(2), of dl]) (use assms(3) Lock_DeadlineLock in auto)
  then show ?thesis using assms(4) Lock_DeadlineLock by (auto simp: compiles_to_def)
qed

lemma compiles_toE:
  assumes "compiles_to E r name lits"
  obtains code where "r = Inr code" "reads_as E code name lits"
  using assms unfolding compiles_to_def by blast

lemma reads_back:
  assumes "easyfl_laws E" "compiles_to E (Constraint_Bytes E c) n lits" "map_of std_entries n = Some p"
    "\<And>code. reads_as E code n lits \<Longrightarrow> run_parser E (registry_of E std_entries) p code = Inr c"
  shows "\<exists>code. Constraint_Bytes E c = Inr code \<and> FromBytes E (registry_of E std_entries) code = Inr c"
proof -
  obtain code where code: "Constraint_Bytes E c = Inr code" "reads_as E code n lits"
    by (rule compiles_toE [OF assms(2)])
  have "n \<in> set constraint_symbols"
    using map_of_SomeD [OF assms(3)] unfolding std_symbols [symmetric] by force
  then show ?thesis using FromBytes_std [OF assms(1) code(2) _ assms(3)] assms(4) [OF code(2)] code(1) by auto
qed

lemma constraint_reads_back:
  assumes "easyfl_laws E" "compile_laws E" "constraint_ok c"
  shows "\<exists>code. Constraint_Bytes E c = Inr code \<and> FromBytes E (registry_of E std_entries) code = Inr c"
proof (cases c)
  case (Con_Amount a)
  show ?thesis
    by (rule reads_back [OF assms(1), where n = "''amount''" and lits = "[L_u64 a]" and p = Parse_Amount])
      (simp_all add: Con_Amount Amount_compiles [OF assms(2)] Amount_reads [OF assms(1)] std_entries_def)
next
  case (Con_Timestamp t)
  show ?thesis
    by (rule reads_back [OF assms(1), where n = "''timestamp''" and lits = "[L_u32 t]" and p = Parse_Timestamp])
      (simp_all add: Con_Timestamp Timestamp_compiles [OF assms(2)] Timestamp_reads [OF assms(1)] std_entries_def)
next
  case (Con_Lock l)
  then have "lock_ok l" using assms(3) by simp
  then obtain code where "Lock_Bytes E l = Inr code" "FromBytes E (registry_of E std_entries) code = Inr (Con_Lock l)"
    by (rule lock_reads_back [OF assms(1,2)])
  then show ?thesis using Con_Lock by simp
next
  case (Con_Chain ch)
  then have len: "length (ch_ID ch) = 32" using assms(3) by simp
  show ?thesis
    by (rule reads_back [OF assms(1), where n = "''chain''" and lits = "[L_hex (chain_data ch)]" and p = Parse_Chain])
      (simp_all add: Con_Chain ChainConstraint_compiles [OF assms(2) len] ChainConstraint_reads [OF assms(1) len]
        std_entries_def)
next
  case (Con_Sender a)
  then have len: "a \<noteq> []" "length a \<le> 127" using assms(3) by auto
  show ?thesis
    by (rule reads_back [OF assms(1), where n = "''senderAddressED25519''" and lits = "[L_hex a]" and p = Parse_Sender])
      (simp_all add: Con_Sender Sender_compiles [OF assms(2) len] Sender_reads [OF assms(1)] std_entries_def)
next
  case (Con_Royalties r)
  then have len: "length (ro_Address r) = 32" using assms(3) by simp
  obtain a where a: "reads_as E a ''addressED25519'' [L_hex (ro_Address r)]"
    "compiles_to E (Royalties_Bytes E r) ''royaltiesED25519'' [L_hex a, L_u64 (ro_Amount r)]"
    by (rule Royalties_compiles [OF assms(2) len])
  show ?thesis
    by (rule reads_back [OF assms(1), where n = "''royaltiesED25519''" and lits = "[L_hex a, L_u64 (ro_Amount r)]" and p = Parse_Royalties])
      (simp_all add: Con_Royalties a Royalties_reads [OF assms(1) len a(1)] std_entries_def)
next
  case (Con_Immutable d)
  show ?thesis
    by (rule reads_back [OF assms(1), where n = "''immutable''" and lits = "[L_hex [im_ChainBlockIndex d, im_DataBlockIndex d]]" and p = Parse_Immutable])
      (simp_all add: Con_Immutable Immutable_compiles [OF assms(2)] Immutable_reads [OF assms(1)] std_entries_def)
next
  case (Con_CommitToSibling d)
  then have len: "length (cs_SiblingHash d) = 32" "cs_SiblingHash d \<noteq> []" "length (cs_SiblingHash d) \<le> 127"
    using assms(3) by auto
  show ?thesis
    by (rule reads_back [OF assms(1), where n = "''commitToSibling''" and lits = "[L_u8 (cs_SiblingIndex d), L_hex (cs_SiblingHash d)]" and p = Parse_CommitToSibling])
      (simp_all add: Con_CommitToSibling CommitToSibling_compiles [OF assms(2) len(2,3)]
        CommitToSibling_reads [OF assms(1) len(1)] std_entries_def)
qed (use assms(3) in simp_all)

text \<open>
  Initialisation never trips one of its consistency checks, and afterwards
  the registry knows exactly the eleven constraints, each by its own prefix.
\<close>

theorem init_registers_all:
  assumes "easyfl_laws E" "compile_laws E"
  shows "\<exists>R. init_constraints E = Inr R \<and> constraintNames R = set constraint_symbols
    \<and> dom (constraintByPrefix R) = PrefixOf E ` set constraint_symbols
    \<and> (\<forall>n \<in> set constraint_symbols. NameByPrefix R (PrefixOf E n) = Some n)"
  using init_constraints_std [OF assms] NameByPrefix_std [OF assms(1)] std_prefixes [of E] std_symbols
  by (simp add: registry_of_def)

lemma timelock_refused:
  assumes "easyfl_laws E" "compile_laws E" "init_constraints E = Inr R"
  shows "\<exists>code. Constraint_Bytes E (Con_Timelock t) = Inr code \<and> TimelockFromBytes E code = Inr t
    \<and> FromBytes E R code = Inl (Error Not_the_constraint)"
proof -
  obtain code where code: "Timelock_Bytes E t = Inr code" "reads_as E code ''timelock'' [L_u32 t]"
    by (rule compiles_toE [OF Timelock_compiles [OF assms(2)]])
  have R: "R = registry_of E std_entries" using init_constraints_std [OF assms(1,2)] assms(3) by simp
  have "FromBytes E R code = run_parser E R Parse_Timestamp code"
    unfolding R by (rule FromBytes_std [OF assms(1) code(2)])
      (simp_all add: std_entries_def constraint_symbols_def constraint_arity_def)
  then show ?thesis
    using code Timelock_reads [OF assms(1) code(2)] Timelock_not_timestamp [OF assms(1) code(2)] by simp
qed

text \<open>
  C38 (timelock_not_readable): the registry holds \<open>TimestampFromBytes\<close> as the parser of the time lock,
  so \<open>FromBytes\<close> rejects every time lock, although \<open>TimelockFromBytes\<close> reads it.
\<close>

theorem timelock_not_readable:
  assumes "easyfl_laws E" "compile_laws E" "init_constraints E = Inr R"
  shows "\<exists>code. Constraint_Bytes E (Con_Timelock t) = Inr code \<and> TimelockFromBytes E code = Inr t
    \<and> FromBytes E R code = Inl (Error Not_the_constraint)"
  by (rule timelock_refused [OF assms])

lemma std_subset: "set (map fst std_entries) \<subseteq> set constraint_symbols"
  unfolding std_symbols by (rule subset_refl)

lemma Accountable_unreadable:
  assumes "easyfl_laws E" "reads_as E m (accountable_name acc) [L_hex (accountable_data acc)]"
    "accountable_name acc \<noteq> ''addressED25519''"
  shows "\<exists>f. AccountableFromBytes E (registry_of E std_entries) m = Inl (Error f)"
proof -
  have "accountable_name acc = ''chainLock''" using assms(3) by (cases acc) simp_all
  then show ?thesis using Accountable_chainLock [OF assms(1) _ std_subset] assms(2) by simp
qed

lemma Accountable_readable:
  assumes "easyfl_laws E" "reads_as E m (accountable_name acc) [L_hex (accountable_data acc)]"
    "length (accountable_data acc) = 32" "accountable_name acc = ''addressED25519''"
  shows "AccountableFromBytes E (registry_of E std_entries) m = Inr (Acc_AddressED25519 (accountable_data acc))"
proof -
  have "''addressED25519'' \<in> set (map fst std_entries)" by (simp add: std_entries_def)
  then show ?thesis using Accountable_reads [OF assms(1,3) _ _ std_subset] assms(2,4) by simp
qed

lemma deadline_lock_unreadable:
  assumes "easyfl_laws E" "compile_laws E" "lock_sized (Lock_DeadlineLock dl)" "\<not> lock_readable (Lock_DeadlineLock dl)"
  shows "\<exists>code f. DeadlineLock_Bytes E dl = Inr code \<and> length code \<le> 400
    \<and> LockFromBytes E (registry_of E std_entries) code = Inl (Error f)
    \<and> FromBytes E (registry_of E std_entries) code = Inl (Error f)"
proof -
  let ?R = "registry_of E std_entries"
  obtain m x where m: "reads_as E m (accountable_name (dl_Main dl)) [L_hex (accountable_data (dl_Main dl))]"
      "reads_as E x (accountable_name (dl_Expiry dl)) [L_hex (accountable_data (dl_Expiry dl))]"
      "compiles_to E (DeadlineLock_Bytes E dl) ''deadlineLock'' [L_u32 (dl_Deadline dl), L_code m, L_code x]"
      "length m \<le> 127" "length x \<le> 127"
    by (rule DeadlineLock_compiles [OF assms(2), of dl]) (use assms(3) in auto)
  then obtain code where code: "DeadlineLock_Bytes E dl = Inr code" "length code \<le> 400"
    "reads_as E code ''deadlineLock'' [L_u32 (dl_Deadline dl), L_code m, L_code x]"
    by (auto simp: compiles_to_def)
  have sym: "''deadlineLock'' \<in> set constraint_symbols"
    by (simp add: constraint_symbols_def constraint_arity_def)
  have "\<exists>f. DeadlineLockFromBytes E ?R code = Inl (Error f)"
  proof (cases "accountable_name (dl_Main dl) = ''addressED25519''")
    case True
    have a: "AccountableFromBytes E ?R m = Inr (Acc_AddressED25519 (accountable_data (dl_Main dl)))"
      by (rule Accountable_readable [OF assms(1) m(1) _ True]) (use assms(3) in simp)
    obtain f where f: "AccountableFromBytes E ?R x = Inl (Error f)"
      using Accountable_unreadable [OF assms(1) m(2)] True assms(4) unfolding lock_readable.simps by blast
    show ?thesis
      by (rule reads_as_parses [OF assms(1) code(3)]) (use a f in \<open>auto simp: DeadlineLockFromBytes_def read_simps\<close>)
  next
    case False
    obtain f where f: "AccountableFromBytes E ?R m = Inl (Error f)"
      using Accountable_unreadable [OF assms(1) m(1) False] by blast
    show ?thesis
      by (rule reads_as_parses [OF assms(1) code(3)]) (use f in \<open>auto simp: DeadlineLockFromBytes_def read_simps\<close>)
  qed
  then obtain f where f: "DeadlineLockFromBytes E ?R code = Inl (Error f)" ..
  have "LockFromBytes E ?R code = Inl (Error f)"
    by - (rule reads_as_parses [OF assms(1) code(3)],
      simp add: LockFromBytes_def NameByPrefix_std [OF assms(1) sym] f)
  moreover have "FromBytes E ?R code = Inl (Error f)"
    using FromBytes_std [OF assms(1) code(3) sym, of Parse_DeadlineLock] f by (simp add: std_entries_def)
  ultimately show ?thesis using code(1,2) by blast
qed

lemma general_script_reads:
  assumes "easyfl_laws E"
  shows "FromBytes E (registry_of E std_entries) code = Inr (Con_GeneralScript code)
    \<longleftrightarrow> constraint_readable E (Con_GeneralScript code)"
proof (cases "ParseBytecodePrefix E code")
  case (Inl e)
  then show ?thesis by (simp add: FromBytes_def)
next
  case (Inr prefix)
  show ?thesis
  proof (cases "prefix \<in> PrefixOf E ` set constraint_symbols")
    case True
    then obtain n where n: "prefix = PrefixOf E n" "n \<in> set constraint_symbols" by blast
    then obtain p where p: "map_of std_entries n = Some p"
      unfolding std_symbols [symmetric] by (metis map_of_eq_None_iff option.exhaust set_map)
    have "run_parser E R p code \<noteq> Inr (Con_GeneralScript code)" for R
      by (cases p) simp_all
    moreover have "parserByPrefix (registry_of E std_entries) prefix = Some p"
      unfolding n(1) parserByPrefix_of [OF assms n(2) std_subset] by (rule p)
    ultimately show ?thesis using True Inr by (simp add: FromBytes_def)
  next
    case False
    then have "prefix \<notin> dom (constraintByPrefix (registry_of E std_entries))"
      unfolding std_prefixes .
    then have "parserByPrefix (registry_of E std_entries) prefix = None"
      by (simp add: parserByPrefix_def domIff)
    then show ?thesis using False Inr by (simp add: FromBytes_def)
  qed
qed

text \<open>
  A deadline lock one of whose accounts is a chain lock can be
  built and compiled, and does not read back: \<open>AccountableFromBytes\<close> knows addresses only. An output
  locked this way is refused by \<open>LockFromBytes\<close>.
\<close>

theorem deadline_chain_lock_not_readable:
  assumes "easyfl_laws E" "compile_laws E" "init_constraints E = Inr R"
    "lock_sized (Lock_DeadlineLock dl)" "\<not> lock_readable (Lock_DeadlineLock dl)"
  shows "\<exists>code f. Lock_Bytes E (Lock_DeadlineLock dl) = Inr code \<and> LockFromBytes E R code = Inl (Error f)
    \<and> FromBytes E R code = Inl (Error f)"
  using deadline_lock_unreadable [OF assms(1,2,4,5)] init_constraints_std [OF assms(1,2)] assms(3) by auto

lemma constraint_kinds:
  obtains (ok) "constraint_ok c" "constraint_readable E c"
    | (timelock) t where "c = Con_Timelock t"
    | (deadline) dl where "c = Con_Lock (Lock_DeadlineLock dl)" "\<not> lock_readable (Lock_DeadlineLock dl)"
    | (script) code where "c = Con_GeneralScript code"
    | (unsized) "\<not> constraint_sized c"
proof (cases "\<exists>l. c = Con_Lock l")
  case True
  then obtain l where l: "c = Con_Lock l" ..
  show ?thesis
  proof (cases "lock_readable l")
    case True
    then show ?thesis using l ok unsized by (auto simp: lock_ok_def)
  next
    case False
    then show ?thesis using l deadline by (cases l) auto
  qed
next
  case False
  then show ?thesis using ok timelock script unsized by (cases c) auto
qed


end
