(* ===== verification/Scripts.thy ===== *)
theory Scripts
  imports ConstraintCodec
begin

text \<open>
  The EasyFL sources of \<^verbatim>\<open>ledger/constraints\<close>: the library extensions of \<^verbatim>\<open>extensions.go\<close> and the formula
  of every constraint, one definition per EasyFL function, in the order of the sources. A formula
  takes the engine \<open>E\<close>, the data context \<open>c\<close> (the tree of the transaction and the path of the invoked
  constraint) and its arguments \<open>$0, $1, ...\<close> as outcomes, because EasyFL passes them by name.
\<close>

section \<open>Paths (extensions.go)\<close>

definition TransactionBranch :: byte where "TransactionBranch = 0"
definition ConsumedBranch :: byte where "ConsumedBranch = 1"

definition TxUnlockParams :: byte where "TxUnlockParams = 0"
definition TxInputIDs :: byte where "TxInputIDs = 1"
definition TxOutputs :: byte where "TxOutputs = 2"
definition TxSignature :: byte where "TxSignature = 3"
definition TxTimestamp :: byte where "TxTimestamp = 4"
definition TxInputCommitment :: byte where "TxInputCommitment = 5"
definition TxEndorsements :: byte where "TxEndorsements = 6"
definition TxLocalLibraries :: byte where "TxLocalLibraries = 7"
definition TxTreeIndexMax :: byte where "TxTreeIndexMax = 8"

definition ConsumedOutputsBranch :: byte where "ConsumedOutputsBranch = 0"

definition PathToConsumedOutputs :: path where "PathToConsumedOutputs = [ConsumedBranch, ConsumedOutputsBranch]"
definition PathToProducedOutputs :: path where "PathToProducedOutputs = [TransactionBranch, TxOutputs]"
definition PathToUnlockParams :: path where "PathToUnlockParams = [TransactionBranch, TxUnlockParams]"
definition PathToInputIDs :: path where "PathToInputIDs = [TransactionBranch, TxInputIDs]"
definition PathToSignature :: path where "PathToSignature = [TransactionBranch, TxSignature]"
definition PathToInputCommitment :: path where "PathToInputCommitment = [TransactionBranch, TxInputCommitment]"
definition PathToEndorsements :: path where "PathToEndorsements = [TransactionBranch, TxEndorsements]"
definition PathToLocalLibraries :: path where "PathToLocalLibraries = [TransactionBranch, TxLocalLibraries]"
definition PathToTimestamp :: path where "PathToTimestamp = [TransactionBranch, TxTimestamp]"

lemmas path_defs =
  TransactionBranch_def ConsumedBranch_def TxUnlockParams_def TxInputIDs_def TxOutputs_def TxSignature_def
  TxTimestamp_def TxInputCommitment_def TxEndorsements_def TxLocalLibraries_def TxTreeIndexMax_def
  ConsumedOutputsBranch_def PathToConsumedOutputs_def PathToProducedOutputs_def PathToUnlockParams_def
  PathToInputIDs_def PathToSignature_def PathToInputCommitment_def PathToEndorsements_def
  PathToLocalLibraries_def PathToTimestamp_def

section \<open>Library extensions (extensions.go)\<close>

definition vbCost16 :: val where "vbCost16 = Inr (put_u16 1)"

definition amountBlockIndex :: val where "amountBlockIndex = Inr [of_nat ConstraintIndexAmount]"
definition timestampBlockIndex :: val where "timestampBlockIndex = Inr [of_nat ConstraintIndexTimestamp]"
definition lockBlockIndex :: val where "lockBlockIndex = Inr [of_nat ConstraintIndexLock]"

definition amountConstraint :: "val \<Rightarrow> val" where
  "amountConstraint a0 = evalAtArray8 a0 amountBlockIndex"
definition timestampConstraint :: "val \<Rightarrow> val" where
  "timestampConstraint a0 = evalAtArray8 a0 timestampBlockIndex"
definition lockConstraint :: "val \<Rightarrow> val" where
  "lockConstraint a0 = evalAtArray8 a0 lockBlockIndex"

definition isPathToConsumedOutput :: "easyfl \<Rightarrow> val \<Rightarrow> val" where
  "isPathToConsumedOutput E a0 = fl E B_hasPrefix [a0, Inr PathToConsumedOutputs]"
definition isPathToProducedOutput :: "easyfl \<Rightarrow> val \<Rightarrow> val" where
  "isPathToProducedOutput E a0 = fl E B_hasPrefix [a0, Inr PathToProducedOutputs]"

definition consumedOutputPathByIndex :: "easyfl \<Rightarrow> val \<Rightarrow> val" where
  "consumedOutputPathByIndex E a0 = fl E B_concat [Inr PathToConsumedOutputs, a0]"
definition unlockParamsPathByIndex :: "easyfl \<Rightarrow> val \<Rightarrow> val" where
  "unlockParamsPathByIndex E a0 = fl E B_concat [Inr PathToUnlockParams, a0]"
definition producedOutputPathByIndex :: "easyfl \<Rightarrow> val \<Rightarrow> val" where
  "producedOutputPathByIndex E a0 = fl E B_concat [Inr PathToProducedOutputs, a0]"

definition consumedOutputByIndex :: "easyfl \<Rightarrow> data_context \<Rightarrow> val \<Rightarrow> val" where
  "consumedOutputByIndex E c a0 = evalAtPath c (consumedOutputPathByIndex E a0)"
definition unlockParamsByIndex :: "easyfl \<Rightarrow> data_context \<Rightarrow> val \<Rightarrow> val" where
  "unlockParamsByIndex E c a0 = evalAtPath c (unlockParamsPathByIndex E a0)"
definition producedOutputByIndex :: "easyfl \<Rightarrow> data_context \<Rightarrow> val \<Rightarrow> val" where
  "producedOutputByIndex E c a0 = evalAtPath c (producedOutputPathByIndex E a0)"

definition producedConstraintByIndex :: "easyfl \<Rightarrow> data_context \<Rightarrow> val \<Rightarrow> val" where
  "producedConstraintByIndex E c a0 =
     evalAtArray8 (producedOutputByIndex E c (fl E B_byte [a0, Inr [0]])) (fl E B_byte [a0, Inr [1]])"
definition consumedConstraintByIndex :: "easyfl \<Rightarrow> data_context \<Rightarrow> val \<Rightarrow> val" where
  "consumedConstraintByIndex E c a0 =
     evalAtArray8 (consumedOutputByIndex E c (fl E B_byte [a0, Inr [0]])) (fl E B_byte [a0, Inr [1]])"
definition unlockParamsByConstraintIndex :: "easyfl \<Rightarrow> data_context \<Rightarrow> val \<Rightarrow> val" where
  "unlockParamsByConstraintIndex E c a0 =
     evalAtArray8 (unlockParamsByIndex E c (fl E B_byte [a0, Inr [0]])) (fl E B_byte [a0, Inr [1]])"

definition consumedLockByOutputIndex :: "easyfl \<Rightarrow> data_context \<Rightarrow> val \<Rightarrow> val" where
  "consumedLockByOutputIndex E c a0 = consumedConstraintByIndex E c (fl E B_concat [a0, lockBlockIndex])"

definition inputIDByIndex :: "easyfl \<Rightarrow> data_context \<Rightarrow> val \<Rightarrow> val" where
  "inputIDByIndex E c a0 = evalAtPath c (fl E B_concat [Inr PathToInputIDs, a0])"

definition txBytes :: "data_context \<Rightarrow> val" where
  "txBytes c = evalAtPath c (Inr [TransactionBranch])"
definition txID :: "easyfl \<Rightarrow> data_context \<Rightarrow> val" where
  "txID E c = fl E B_blake2b [txBytes c]"
definition txSignature :: "data_context \<Rightarrow> val" where
  "txSignature c = evalAtPath c (Inr PathToSignature)"
definition txTimestampBytes :: "data_context \<Rightarrow> val" where
  "txTimestampBytes c = evalAtPath c (Inr PathToTimestamp)"
definition txEssenceBytes :: "easyfl \<Rightarrow> data_context \<Rightarrow> val" where
  "txEssenceBytes E c =
     fl E B_concat [evalAtPath c (Inr PathToInputIDs), evalAtPath c (Inr PathToProducedOutputs),
                    evalAtPath c (Inr PathToInputCommitment)]"

definition selfOutputPath :: "easyfl \<Rightarrow> data_context \<Rightarrow> val" where
  "selfOutputPath E c = fl E B_slice [evalPath c, Inr [0], Inr [2]]"
definition selfSiblingConstraint :: "easyfl \<Rightarrow> data_context \<Rightarrow> val \<Rightarrow> val" where
  "selfSiblingConstraint E c a0 = evalAtArray8 (evalAtPath c (selfOutputPath E c)) a0"
definition selfOutputBytes :: "easyfl \<Rightarrow> data_context \<Rightarrow> val" where
  "selfOutputBytes E c = evalAtPath c (selfOutputPath E c)"

definition fl_self :: "data_context \<Rightarrow> val" where
  "fl_self c = evalAtPath c (evalPath c)"
definition selfBytecodePrefix :: "easyfl \<Rightarrow> data_context \<Rightarrow> val" where
  "selfBytecodePrefix E c = fl E B_parseBytecodePrefix [fl_self c]"
definition selfIsConsumedOutput :: "easyfl \<Rightarrow> data_context \<Rightarrow> val" where
  "selfIsConsumedOutput E c = isPathToConsumedOutput E (evalPath c)"
definition selfIsProducedOutput :: "easyfl \<Rightarrow> data_context \<Rightarrow> val" where
  "selfIsProducedOutput E c = isPathToProducedOutput E (evalPath c)"
definition selfOutputIndex :: "easyfl \<Rightarrow> data_context \<Rightarrow> val" where
  "selfOutputIndex E c = fl E B_byte [evalPath c, Inr [2]]"
definition selfBlockIndex :: "easyfl \<Rightarrow> data_context \<Rightarrow> val" where
  "selfBlockIndex E c = fl E B_tail [evalPath c, Inr [3]]"
definition selfBranch :: "easyfl \<Rightarrow> data_context \<Rightarrow> val" where
  "selfBranch E c = fl E B_slice [evalPath c, Inr [0], Inr [1]]"
definition selfConstraintIndex :: "easyfl \<Rightarrow> data_context \<Rightarrow> val" where
  "selfConstraintIndex E c = fl E B_slice [evalPath c, Inr [2], Inr [3]]"
definition constraintData :: "easyfl \<Rightarrow> val \<Rightarrow> val" where
  "constraintData E a0 = fl E B_tail [a0, Inr [1]]"
definition selfConstraintData :: "easyfl \<Rightarrow> data_context \<Rightarrow> val" where
  "selfConstraintData E c = constraintData E (fl_self c)"
definition selfUnlockParameters :: "easyfl \<Rightarrow> data_context \<Rightarrow> val" where
  "selfUnlockParameters E c =
     evalAtPath c (fl E B_concat [Inr PathToUnlockParams, selfConstraintIndex E c])"
definition selfReferencedPath :: "easyfl \<Rightarrow> data_context \<Rightarrow> val" where
  "selfReferencedPath E c =
     fl E B_concat [selfBranch E c, selfUnlockParameters E c, selfBlockIndex E c]"
definition selfSiblingUnlockBlock :: "easyfl \<Rightarrow> data_context \<Rightarrow> val \<Rightarrow> val" where
  "selfSiblingUnlockBlock E c a0 =
     evalAtArray8 (evalAtPath c (fl E B_concat [Inr PathToUnlockParams, selfOutputIndex E c])) a0"
definition selfHashUnlock :: "easyfl \<Rightarrow> data_context \<Rightarrow> val \<Rightarrow> val" where
  "selfHashUnlock E c a0 =
     fl E B_if [fl E B_equal [a0, fl E B_blake2b [selfUnlockParameters E c]],
                selfUnlockParameters E c, fl E B_nil []]"

definition signatureED25519 :: "easyfl \<Rightarrow> val \<Rightarrow> val" where
  "signatureED25519 E a0 = fl E B_slice [a0, Inr [0], Inr [63]]"
definition publicKeyED25519 :: "easyfl \<Rightarrow> val \<Rightarrow> val" where
  "publicKeyED25519 E a0 = fl E B_slice [a0, Inr [64], Inr [95]]"

section \<open>amount, timestamp, timelock\<close>

definition storageDepositEnough :: "easyfl \<Rightarrow> data_context \<Rightarrow> val \<Rightarrow> val" where
  "storageDepositEnough E c a0 =
     fl E B_if
       [fl E B_greaterOrEqualThan
          [a0, fl E B_concat [Inr (put_u32 0),
                 fl E B_mul16_32 [vbCost16, fl E B_len16 [selfOutputBytes E c]]]],
        fl E B_true [], fl E B_fail []]"

definition fl_amount :: "easyfl \<Rightarrow> data_context \<Rightarrow> val \<Rightarrow> val" where
  "fl_amount E c a0 =
     fl E B_and
       [fl E B_equal [selfBlockIndex E c, Inr [0]],
        fl E B_or
          [selfIsConsumedOutput E c,
           fl E B_and
             [selfIsProducedOutput E c,
              fl E B_equal [fl E B_len8 [a0], Inr [8]],
              storageDepositEnough E c a0]]]"

definition amountValue :: "easyfl \<Rightarrow> val \<Rightarrow> val" where
  "amountValue E a0 =
     fl E B_parseBytecodeArg [evalAtArray8 a0 amountBlockIndex, Inr (PrefixOf E ''amount''), Inr [0]]"

definition fl_timestamp :: "easyfl \<Rightarrow> data_context \<Rightarrow> val \<Rightarrow> val" where
  "fl_timestamp E c a0 =
     fl E B_and
       [fl E B_equal [selfBlockIndex E c, Inr [1]],
        fl E B_or
          [fl E B_and [selfIsProducedOutput E c, fl E B_equal [a0, txTimestampBytes c]],
           fl E B_and [selfIsConsumedOutput E c, fl E B_lessThan [a0, txTimestampBytes c]]]]"

definition fl_timelock :: "easyfl \<Rightarrow> data_context \<Rightarrow> val \<Rightarrow> val" where
  "fl_timelock E c a0 =
     fl E B_or
       [fl E B_and
          [selfIsProducedOutput E c,
           fl E B_equal [fl E B_len8 [a0], Inr [4]],
           fl E B_lessThan [txTimestampBytes c, a0]],
        fl E B_and [selfIsConsumedOutput E c, fl E B_lessThan [a0, txTimestampBytes c]]]"

section \<open>Locks\<close>

definition unlockedWithSigED25519 :: "easyfl \<Rightarrow> data_context \<Rightarrow> val \<Rightarrow> val \<Rightarrow> val \<Rightarrow> val" where
  "unlockedWithSigED25519 E c a0 a1 a2 =
     fl E B_and
       [fl E B_equal [a0, fl E B_blake2b [a2]],
        fl E B_validSignatureED25519 [txEssenceBytes E c, a1, a2]]"

definition unlockedByReference :: "easyfl \<Rightarrow> data_context \<Rightarrow> val" where
  "unlockedByReference E c =
     fl E B_and
       [fl E B_lessThan [selfUnlockParameters E c, selfOutputIndex E c],
        fl E B_equal [fl_self c, consumedLockByOutputIndex E c (selfUnlockParameters E c)]]"

definition fl_addressED25519 :: "easyfl \<Rightarrow> data_context \<Rightarrow> val \<Rightarrow> val" where
  "fl_addressED25519 E c a0 =
     fl E B_and
       [fl E B_equal [selfBlockIndex E c, Inr [2]],
        fl E B_or
          [fl E B_and [selfIsProducedOutput E c, fl E B_equal [fl E B_len8 [a0], Inr [32]]],
           fl E B_and
             [selfIsConsumedOutput E c,
              fl E B_or
                [unlockedByReference E c,
                 unlockedWithSigED25519 E c a0 (signatureED25519 E (txSignature c))
                   (publicKeyED25519 E (txSignature c))]],
           fl E B_fail []]]"

definition fl_deadlineLock :: "easyfl \<Rightarrow> data_context \<Rightarrow> val \<Rightarrow> val \<Rightarrow> val \<Rightarrow> val" where
  "fl_deadlineLock E c a0 a1 a2 =
     fl E B_and
       [fl E B_equal [selfBlockIndex E c, Inr [2]],
        fl E B_if [fl E B_lessThan [a0, txTimestampBytes c], a1, a2]]"

definition fl_senderAddressED25519 :: "easyfl \<Rightarrow> data_context \<Rightarrow> val \<Rightarrow> val" where
  "fl_senderAddressED25519 E c a0 =
     fl E B_or
       [selfIsConsumedOutput E c,
        fl E B_and
          [selfIsProducedOutput E c,
           fl E B_equal [a0, fl E B_blake2b [publicKeyED25519 E (txSignature c)]]]]"

section \<open>chain\<close>

definition originChainData :: "easyfl \<Rightarrow> val" where
  "originChainData E = fl E B_concat [fl E B_repeat [Inr [0], Inr [32]], Inr [255, 255, 255]]"
definition destroyUnlockParams :: val where
  "destroyUnlockParams = Inr [255, 255, 255]"

definition chainID :: "easyfl \<Rightarrow> val \<Rightarrow> val" where
  "chainID E a0 = fl E B_slice [a0, Inr [0], Inr [31]]"
definition transitionMode :: "easyfl \<Rightarrow> val \<Rightarrow> val" where
  "transitionMode E a0 = fl E B_byte [a0, Inr [34]]"
definition predecessorConstraintIndex :: "easyfl \<Rightarrow> val \<Rightarrow> val" where
  "predecessorConstraintIndex E a0 = fl E B_slice [a0, Inr [32], Inr [33]]"

definition predecessorOutput :: "easyfl \<Rightarrow> data_context \<Rightarrow> val \<Rightarrow> val" where
  "predecessorOutput E c a0 = consumedConstraintByIndex E c (predecessorConstraintIndex E a0)"
definition predecessorInputID :: "easyfl \<Rightarrow> data_context \<Rightarrow> val \<Rightarrow> val" where
  "predecessorInputID E c a0 = inputIDByIndex E c (fl E B_byte [a0, Inr [32]])"

definition validPredecessorData :: "easyfl \<Rightarrow> data_context \<Rightarrow> val \<Rightarrow> val \<Rightarrow> val" where
  "validPredecessorData E c a0 a1 =
     fl E B_and
       [fl E B_if
          [fl E B_isZero [chainID E a1],
           fl E B_and
             [fl E B_equal [a1, originChainData E],
              fl E B_equal [chainID E a0, fl E B_blake2b [predecessorInputID E c a0]]],
           fl E B_and [fl E B_equal [chainID E a0, chainID E a1]]],
        fl E B_equal
          [transitionMode E a0,
           fl E B_byte [unlockParamsByConstraintIndex E c (predecessorConstraintIndex E a0), Inr [2]]]]"

definition chainPredecessorData :: "easyfl \<Rightarrow> data_context \<Rightarrow> val \<Rightarrow> val" where
  "chainPredecessorData E c a0 =
     fl E B_parseBytecodeArg [consumedConstraintByIndex E c a0, selfBytecodePrefix E c, Inr [0]]"

definition validSuccessorData :: "easyfl \<Rightarrow> data_context \<Rightarrow> val \<Rightarrow> val \<Rightarrow> val" where
  "validSuccessorData E c a0 a1 =
     fl E B_and
       [fl E B_if
          [fl E B_isZero [chainID E a0],
           fl E B_equal [a0, originChainData E],
           fl E B_equal [chainID E a0, chainID E a1]],
        fl E B_equal [predecessorConstraintIndex E a1, selfConstraintIndex E c]]"

definition chainSuccessorData :: "easyfl \<Rightarrow> data_context \<Rightarrow> val" where
  "chainSuccessorData E c =
     fl E B_parseBytecodeArg
       [producedConstraintByIndex E c (fl E B_slice [selfUnlockParameters E c, Inr [0], Inr [1]]),
        selfBytecodePrefix E c, Inr [0]]"

definition fl_chain :: "easyfl \<Rightarrow> data_context \<Rightarrow> val \<Rightarrow> val" where
  "fl_chain E c a0 =
     fl E B_and
       [fl E B_not [fl E B_equal [selfOutputIndex E c, Inr [255]]],
        fl E B_or
          [fl E B_if
             [fl E B_and [fl E B_isZero [chainID E a0], selfIsProducedOutput E c],
              fl E B_or [fl E B_equal [a0, originChainData E], fl E B_fail []],
              fl E B_nil []],
           fl E B_and
             [selfIsConsumedOutput E c,
              fl E B_or
                [fl E B_equal [selfUnlockParameters E c, destroyUnlockParams],
                 validSuccessorData E c a0 (chainSuccessorData E c),
                 fl E B_fail []]],
           fl E B_and
             [selfIsProducedOutput E c,
              fl E B_or
                [validPredecessorData E c a0 (chainPredecessorData E c (predecessorConstraintIndex E a0)),
                 fl E B_fail []]],
           fl E B_fail []]]"

section \<open>chainLock\<close>

definition selfReferencedChainData :: "easyfl \<Rightarrow> data_context \<Rightarrow> val" where
  "selfReferencedChainData E c =
     fl E B_parseBytecodeArg
       [consumedConstraintByIndex E c (selfUnlockParameters E c), Inr (PrefixOf E ''chain''), Inr [0]]"

definition selfReferencedChainIDAdjusted :: "easyfl \<Rightarrow> data_context \<Rightarrow> val \<Rightarrow> val" where
  "selfReferencedChainIDAdjusted E c a0 =
     fl E B_if
       [fl E B_isZero [a0],
        fl E B_blake2b [inputIDByIndex E c (fl E B_byte [selfUnlockParameters E c, Inr [0]])],
        a0]"

definition validChainUnlock :: "easyfl \<Rightarrow> data_context \<Rightarrow> val \<Rightarrow> val" where
  "validChainUnlock E c a0 =
     fl E B_and
       [fl E B_equal
          [a0, selfReferencedChainIDAdjusted E c
                 (fl E B_slice [selfReferencedChainData E c, Inr [0], Inr [31]])],
        fl E B_equal
          [fl E B_byte [unlockParamsByConstraintIndex E c (selfUnlockParameters E c), Inr [2]],
           Inr [0]]]"

definition fl_chainLock :: "easyfl \<Rightarrow> data_context \<Rightarrow> val \<Rightarrow> val" where
  "fl_chainLock E c a0 =
     fl E B_and
       [fl E B_equal [selfBlockIndex E c, Inr [2]],
        fl E B_or
          [fl E B_and [selfIsProducedOutput E c, fl E B_equal [fl E B_len8 [a0], Inr [32]]],
           fl E B_and
             [selfIsConsumedOutput E c,
              fl E B_not [fl E B_equal [selfOutputIndex E c, fl E B_byte [selfUnlockParameters E c, Inr [0]]]],
              validChainUnlock E c a0]]]"

section \<open>royaltiesED25519, immutable, commitToSibling\<close>

definition fl_royaltiesED25519 :: "easyfl \<Rightarrow> data_context \<Rightarrow> val \<Rightarrow> val \<Rightarrow> val" where
  "fl_royaltiesED25519 E c a0 a1 =
     fl E B_or
       [selfIsProducedOutput E c,
        fl E B_and
          [selfIsConsumedOutput E c,
           fl E B_equal [a0, lockConstraint (producedOutputByIndex E c (selfUnlockParameters E c))],
           fl E B_lessOrEqualThan [a1, amountValue E (producedOutputByIndex E c (selfUnlockParameters E c))]],
        fl E B_fail []]"

definition immutable_successor :: "easyfl \<Rightarrow> data_context \<Rightarrow> val \<Rightarrow> byte \<Rightarrow> val" where
  \<comment> \<open>the inner \<open>producedConstraintByIndex(concat(byte(selfSiblingUnlockBlock(byte($0,0)),0), byte(selfUnlockParameters, j)))\<close>\<close>
  "immutable_successor E c a0 j =
     producedConstraintByIndex E c
       (fl E B_concat
          [fl E B_byte [selfSiblingUnlockBlock E c (fl E B_byte [a0, Inr [0]]), Inr [0]],
           fl E B_byte [selfUnlockParameters E c, Inr [j]]])"

definition fl_immutable :: "easyfl \<Rightarrow> data_context \<Rightarrow> val \<Rightarrow> val" where
  "fl_immutable E c a0 =
     fl E B_or
       [fl E B_and
          [selfIsProducedOutput E c,
           fl E B_equal
             [fl E B_parseBytecodePrefix [selfSiblingConstraint E c (fl E B_byte [a0, Inr [0]])],
              Inr (PrefixOf E ''chain'')],
           selfSiblingConstraint E c (fl E B_byte [a0, Inr [1]])],
        fl E B_and
          [selfIsConsumedOutput E c,
           fl E B_equal
             [selfSiblingConstraint E c (fl E B_byte [a0, Inr [1]]), immutable_successor E c a0 0],
           fl E B_equal
             [fl E B_parseBytecodeArg [immutable_successor E c a0 1, selfBytecodePrefix E c, Inr [0]],
              fl E B_concat
                [fl E B_byte [selfSiblingUnlockBlock E c (fl E B_byte [a0, Inr [0]]), Inr [1]],
                 fl E B_byte [selfUnlockParameters E c, Inr [0]]]]],
        fl E B_fail []]"

definition fl_commitToSibling :: "easyfl \<Rightarrow> data_context \<Rightarrow> val \<Rightarrow> val \<Rightarrow> val" where
  "fl_commitToSibling E c a0 a1 =
     fl E B_or
       [fl E B_and
          [selfIsConsumedOutput E c, fl E B_not [fl E B_equal [a0, selfOutputIndex E c]]],
        fl E B_and
          [selfIsProducedOutput E c,
           fl E B_equal [a1, fl E B_blake2b [producedOutputByIndex E c a0]]],
        fl E B_fail []]"

section \<open>Calls by name\<close>

text \<open>
  What the engine runs when the bytecode calls a constraint. \<open>runs_library\<close> is the hypothesis that
  ties the engine to the sources above: a call of a constraint has the truth value of its formula
  on its arguments, and inline data evaluates to itself.
\<close>

definition fl_call :: "easyfl \<Rightarrow> data_context \<Rightarrow> string \<Rightarrow> val list \<Rightarrow> val" where
  "fl_call E c name args =
     (case args of
        [a0] \<Rightarrow>
          if name = ''amount'' then fl_amount E c a0
          else if name = ''timestamp'' then fl_timestamp E c a0
          else if name = ''timelock'' then fl_timelock E c a0
          else if name = ''addressED25519'' then fl_addressED25519 E c a0
          else if name = ''senderAddressED25519'' then fl_senderAddressED25519 E c a0
          else if name = ''chain'' then fl_chain E c a0
          else if name = ''chainLock'' then fl_chainLock E c a0
          else if name = ''immutable'' then fl_immutable E c a0
          else Inl (Error Wrong_arguments)
      | [a0, a1] \<Rightarrow>
          if name = ''royaltiesED25519'' then fl_royaltiesED25519 E c a0 a1
          else if name = ''commitToSibling'' then fl_commitToSibling E c a0 a1
          else Inl (Error Wrong_arguments)
      | [a0, a1, a2] \<Rightarrow>
          if name = ''deadlineLock'' then fl_deadlineLock E c a0 a1 a2
          else Inl (Error Wrong_arguments)
      | _ \<Rightarrow> Inl (Error Wrong_arguments))"

definition runs_library :: "easyfl \<Rightarrow> bool" where
  "runs_library E \<longleftrightarrow>
     (\<forall>c code name pfx args. ParseBytecodeOneLevel E code None = Inr (name, pfx, args)
        \<longrightarrow> name \<in> set constraint_symbols
        \<longrightarrow> tv (EvalFromBinary E c code []) = tv (fl_call E c name (map (\<lambda>a. EvalFromBinary E c a []) args))) \<and>
     (\<forall>c a. length (StripDataPrefix E a) < length a
        \<longrightarrow> EvalFromBinary E c a [] = Inr (StripDataPrefix E a))"

end
