(* ===== verification/ScriptProps.thy ===== *)
theory ScriptProps
  imports Scripts
begin

text \<open>
  What the constraint formulas enforce. The laws of the built-ins become rewrite rules (\<open>fl_rules\<close>),
  the path functions of a constraint at \<^verbatim>\<open>branch/output/block\<close> evaluate, and each formula gets its
  meaning on the consumed and on the produced side.
\<close>

section \<open>The laws as rules\<close>

lemma fl_logic:
  assumes "easyfl_laws E"
  shows "tv (fl E B_and rs) = all_in_order rs"
    and "tv (fl E B_or rs) = any_in_order rs"
    and "tv (fl E B_not [r]) = map_option Not (tv r)"
    and "tv (fl E B_true []) = Some True"
    and "fl E B_nil [] = Inr []"
    and "tv (fl E B_fail []) = None"
    and "tv (fl E B_if [a, b, d]) =
      (case tv a of None \<Rightarrow> None | Some True \<Rightarrow> tv b | Some False \<Rightarrow> tv d)"
  using assms by (simp_all add: easyfl_laws_def logic_laws_def)

lemma fl_if:
  assumes "easyfl_laws E"
  shows "tv a = Some True \<Longrightarrow> fl E B_if [a, b, d] = b"
    and "tv a = Some False \<Longrightarrow> fl E B_if [a, b, d] = d"
  using assms by (simp_all add: easyfl_laws_def logic_laws_def)

lemma fl_strict:
  assumes "easyfl_laws E" "strict_builtin b" "Inl e \<in> set rs"
  shows "tv (fl E b rs) = None" and "\<exists>e'. fl E b rs = Inl e'"
proof -
  have "\<forall>b rs. strict_builtin b \<longrightarrow> (\<exists>r \<in> set rs. tv r = None) \<longrightarrow> tv (fl E b rs) = None"
    using assms(1) by (simp add: easyfl_laws_def logic_laws_def)
  then show "tv (fl E b rs) = None" using assms(2,3) by (metis tv_simps(2))
  then show "\<exists>e'. fl E b rs = Inl e'" by (simp add: tv_None_iff)
qed

lemma fl_compare:
  assumes "easyfl_laws E"
  shows "tv (fl E B_equal [Inr x, Inr y]) = Some (x = y)"
    and "tv (fl E B_hasPrefix [Inr x, Inr y]) = Some (take (length y) x = y)"
    and "tv (fl E B_isZero [Inr x]) = Some (\<forall>b \<in> set x. b = 0)"
    and "tv (fl E B_lessThan [Inr x, Inr y]) =
      (if length x = length y then Some (be_val x < be_val y) else None)"
    and "tv (fl E B_lessOrEqualThan [Inr x, Inr y]) =
      (if length x = length y then Some (be_val x \<le> be_val y) else None)"
    and "tv (fl E B_greaterOrEqualThan [Inr x, Inr y]) =
      (if length x = length y then Some (be_val x \<ge> be_val y) else None)"
  using assms by (simp_all add: easyfl_laws_def compare_laws_def)

lemma fl_bytes:
  assumes "easyfl_laws E"
  shows "length x < 256 \<Longrightarrow> fl E B_len8 [Inr x] = Inr [of_nat (length x)]"
    and "256 \<le> length x \<Longrightarrow> tv (fl E B_len8 [Inr x]) = None"
    and "length x < 65536 \<Longrightarrow> fl E B_len16 [Inr x] = Inr (be 2 (length x))"
    and "65536 \<le> length x \<Longrightarrow> tv (fl E B_len16 [Inr x]) = None"
    and "unat i \<le> unat j \<Longrightarrow> unat j < length x
      \<Longrightarrow> fl E B_slice [Inr x, Inr [i], Inr [j]] = Inr (sub_bytes (unat i) (unat j) x)"
    and "\<not> (unat i \<le> unat j \<and> unat j < length x) \<Longrightarrow> tv (fl E B_slice [Inr x, Inr [i], Inr [j]]) = None"
    and "unat i < length x \<Longrightarrow> fl E B_byte [Inr x, Inr [i]] = Inr [x ! unat i]"
    and "length x \<le> unat i \<Longrightarrow> tv (fl E B_byte [Inr x, Inr [i]]) = None"
    and "unat i < length x \<Longrightarrow> fl E B_tail [Inr x, Inr [i]] = Inr (drop (unat i) x)"
    and "length x \<le> unat i \<Longrightarrow> tv (fl E B_tail [Inr x, Inr [i]]) = None"
    and "fl E B_repeat [Inr x, Inr [i]] = Inr (concat (replicate (unat i) x))"
    and "length x = 2 \<Longrightarrow> length y = 2 \<Longrightarrow> fl E B_mul16_32 [Inr x, Inr y] = Inr (be 4 (be_val x * be_val y))"
  using assms by (simp_all add: easyfl_laws_def bytes_laws_def)

lemma fl_concat:
  assumes "easyfl_laws E"
  shows "fl E B_concat [Inr x, Inr y] = Inr (x @ y)"
    and "fl E B_concat [Inr x, Inr y, Inr z] = Inr (x @ y @ z)"
proof -
  have "\<forall>xs. fl E B_concat (map Inr xs) = Inr (concat xs)"
    using assms by (simp add: easyfl_laws_def bytes_laws_def)
  from spec [OF this, of "[x, y]"] spec [OF this, of "[x, y, z]"]
  show "fl E B_concat [Inr x, Inr y] = Inr (x @ y)"
    "fl E B_concat [Inr x, Inr y, Inr z] = Inr (x @ y @ z)" by simp_all
qed

lemma fl_crypto:
  assumes "easyfl_laws E"
  shows "length (Sum256 E x) = 32"
    and "fl E B_blake2b [Inr x] = Inr (Sum256 E x)"
    and "holds (fl E B_validSignatureED25519 [Inr m, Inr s, Inr k]) \<longleftrightarrow> VerifyED25519 E k m s"
  using assms by (simp_all add: easyfl_laws_def crypto_laws_def)

lemma fl_parse:
  assumes "easyfl_laws E"
  shows "fl E B_parseBytecodePrefix [Inr code] = ParseBytecodePrefix E code"
    and "fl E B_parseBytecodeArg [Inr code, Inr pfx, Inr [i]] = Inr v \<Longrightarrow>
      \<exists>sym args. ParseBytecodeOneLevel E code None = Inr (sym, pfx, args)
        \<and> unat i < length args \<and> v = StripDataPrefix E (args ! unat i)"
    and "ParseBytecodeOneLevel E code None = Inr (nm, pfx, args) \<Longrightarrow> unat i < length args
      \<Longrightarrow> fl E B_parseBytecodeArg [Inr code, Inr pfx, Inr [i]] = Inr (StripDataPrefix E (args ! unat i))"
  using assms by (simp_all add: easyfl_laws_def parse_laws_def)

text \<open>An argument of a strict built-in that holds was a value.\<close>

lemma fl_strict_Inr:
  assumes "easyfl_laws E" "strict_builtin b" "fl E b rs = Inr v" "r \<in> set rs"
  shows "\<exists>x. r = Inr x"
  using assms fl_strict(2) by (cases r) fastforce+

lemma fl_strict_tv:
  assumes "easyfl_laws E" "strict_builtin b" "tv (fl E b rs) \<noteq> None" "r \<in> set rs"
  shows "\<exists>x. r = Inr x"
  using assms fl_strict(1) by (cases r) fastforce+

lemma equal_holds:
  assumes "easyfl_laws E"
  shows "holds (fl E B_equal [a, b]) \<longleftrightarrow> (\<exists>x. a = Inr x \<and> b = Inr x)"
proof
  assume h: "holds (fl E B_equal [a, b])"
  then have "tv (fl E B_equal [a, b]) \<noteq> None" by (simp add: holds_def)
  then have "\<exists>x. a = Inr x" "\<exists>y. b = Inr y"
    using fl_strict_tv [OF assms, of B_equal "[a, b]"] by (simp_all add: strict_builtin_def)
  then obtain x y where "a = Inr x" "b = Inr y" by blast
  then show "\<exists>x. a = Inr x \<and> b = Inr x"
    using h fl_compare(1) [OF assms] by (simp add: holds_def)
qed (auto simp: holds_def fl_compare(1) [OF assms])

lemma and_holds: "easyfl_laws E \<Longrightarrow> holds (fl E B_and rs) \<longleftrightarrow> (\<forall>r \<in> set rs. holds r)"
  by (simp add: holds_def [of "fl E B_and rs"] fl_logic all_in_order_True)

lemma or_holds:
  assumes "easyfl_laws E"
  shows "holds (fl E B_or [a]) \<longleftrightarrow> holds a"
    and "holds (fl E B_or (a # b # rs)) \<longleftrightarrow> holds a \<or> (tv a = Some False \<and> holds (fl E B_or (b # rs)))"
  by (auto simp: holds_def fl_logic [OF assms] split: option.splits bool.splits)

lemma fail_never_holds: "easyfl_laws E \<Longrightarrow> \<not> holds (fl E B_fail [])"
  by (simp add: holds_def fl_logic)

section \<open>Where the constraint stands\<close>

definition ctx_at :: "tree \<Rightarrow> path \<Rightarrow> data_context" where
  "ctx_at t p = \<lparr>dc_tree = t, dc_path = p\<rparr>"

definition tread :: "tree \<Rightarrow> path \<Rightarrow> bytes res" where
  "tread t p = fst (BytesAtPath p t)"

definition consumed_path :: "byte \<Rightarrow> byte \<Rightarrow> path" where
  "consumed_path i j = [ConsumedBranch, ConsumedOutputsBranch, i, j]"

definition produced_path :: "byte \<Rightarrow> byte \<Rightarrow> path" where
  "produced_path i j = [TransactionBranch, TxOutputs, i, j]"

lemma evalAtPath_tread: "evalAtPath (ctx_at t p) (Inr q) = tread t q"
  by (simp add: evalAtPath_def ctx_at_def tread_def)

lemma evalAtPath_Inl [simp]: "evalAtPath c (Inl e) = Inl e"
  by (simp add: evalAtPath_def)

lemma evalPath_ctx [simp]: "evalPath (ctx_at t p) = Inr p"
  by (simp add: evalPath_def ctx_at_def)

lemma tx_reads:
  "txTimestampBytes (ctx_at t p) = tread t PathToTimestamp"
  "txSignature (ctx_at t p) = tread t PathToSignature"
  "txBytes (ctx_at t p) = tread t [TransactionBranch]"
  "fl_self (ctx_at t p) = tread t p"
  by (simp_all add: txTimestampBytes_def txSignature_def txBytes_def fl_self_def evalAtPath_tread)

lemma unat_small_byte [simp]:
  "unat (2 :: byte) = 2" "unat (3 :: byte) = 3" "unat (31 :: byte) = 31" "unat (32 :: byte) = 32"
  "unat (33 :: byte) = 33" "unat (34 :: byte) = 34" "unat (63 :: byte) = 63" "unat (64 :: byte) = 64"
  "unat (95 :: byte) = 95"
  by simp_all

lemma self_consumed:
  assumes "easyfl_laws E" "c = ctx_at t (consumed_path i j)"
  shows "selfBlockIndex E c = Inr [j]" and "selfOutputIndex E c = Inr [i]"
    and "selfConstraintIndex E c = Inr [i, j]"
    and "tv (selfIsConsumedOutput E c) = Some True" and "tv (selfIsProducedOutput E c) = Some False"
    and "selfOutputPath E c = Inr [ConsumedBranch, ConsumedOutputsBranch, i]"
    and "selfUnlockParameters E c = tread t (PathToUnlockParams @ [i, j])"
  using assms(2)
  by (simp_all add: selfBlockIndex_def selfOutputIndex_def selfConstraintIndex_def selfIsConsumedOutput_def
      selfIsProducedOutput_def isPathToConsumedOutput_def isPathToProducedOutput_def selfOutputPath_def
      selfUnlockParameters_def fl_bytes [OF assms(1)] fl_compare [OF assms(1)] fl_concat [OF assms(1)]
      evalAtPath_tread consumed_path_def path_defs sub_bytes_def)

lemma self_produced:
  assumes "easyfl_laws E" "c = ctx_at t (produced_path i j)"
  shows "selfBlockIndex E c = Inr [j]" and "selfOutputIndex E c = Inr [i]"
    and "selfConstraintIndex E c = Inr [i, j]"
    and "tv (selfIsConsumedOutput E c) = Some False" and "tv (selfIsProducedOutput E c) = Some True"
    and "selfOutputPath E c = Inr [TransactionBranch, TxOutputs, i]"
    and "selfUnlockParameters E c = tread t (PathToUnlockParams @ [i, j])"
  using assms(2)
  by (simp_all add: selfBlockIndex_def selfOutputIndex_def selfConstraintIndex_def selfIsConsumedOutput_def
      selfIsProducedOutput_def isPathToConsumedOutput_def isPathToProducedOutput_def selfOutputPath_def
      selfUnlockParameters_def fl_bytes [OF assms(1)] fl_compare [OF assms(1)] fl_concat [OF assms(1)]
      evalAtPath_tread produced_path_def path_defs sub_bytes_def)

section \<open>amount\<close>

lemma holds_tv: "tv r = Some b \<Longrightarrow> holds r \<longleftrightarrow> b"
  by (simp add: holds_def)

lemma greater_or_equal_holds:
  assumes "easyfl_laws E"
  shows "tv (fl E B_greaterOrEqualThan [Inr x, r]) =
    (case r of Inl _ \<Rightarrow> None | Inr y \<Rightarrow> if length x = length y then Some (be_val x \<ge> be_val y) else None)"
  by (cases r) (simp_all add: fl_compare [OF assms] fl_strict(1) [OF assms] strict_builtin_def)

lemma be_val_zeros: "be_val (replicate n 0 @ bs) = be_val bs"
proof (induction bs rule: rev_induct)
  case Nil
  have "be_val (replicate n (0 :: byte)) = 0"
  proof (induction n)
    case (Suc n)
    have "replicate (Suc n) (0 :: byte) = replicate n 0 @ [0]"
      by (simp add: replicate_append_same)
    then show ?case using Suc by (simp only: be_val_snoc) simp
  qed simp
  then show ?case by simp
next
  case (snoc b bs)
  then show ?case by (simp flip: append_assoc)
qed

lemma storage_deposit_holds:
  assumes "easyfl_laws E" "selfOutputBytes E c = out" "length a = 8"
  shows "holds (storageDepositEnough E c (Inr a)) \<longleftrightarrow>
    (\<exists>bs. out = Inr bs \<and> length bs < 65536 \<and> length bs \<le> be_val a)"
proof -
  have strict: "\<exists>e'. fl E B_concat [r, Inl e] = Inl e'" "\<exists>e'. fl E B_mul16_32 [r, Inl e] = Inl e'" for r e
    by (auto intro: fl_strict(2) [OF assms(1)] simp: strict_builtin_def)
  show ?thesis
  proof (cases "\<exists>bs. out = Inr bs \<and> length bs < 65536")
    case True
    then obtain bs where bs: "out = Inr bs" "length bs < 65536" by blast
    have "put_u32 0 = [0, 0, 0, 0]"
      by (simp add: put_u32_def be_numeral)
    moreover have "be_val (0 # 0 # 0 # 0 # x) = be_val x" for x
      using be_val_zeros [of 4 x] by (simp add: numeral_eq_Suc)
    moreover have "be_val (be 4 (length bs)) = length bs"
      using bs(2) by (simp add: be_val_be)
    moreover have "be_val (be 2 (length bs)) = length bs"
      using bs(2) by (simp add: be_val_be)
    ultimately show ?thesis
      using bs assms(2,3)
      by (simp add: storageDepositEnough_def holds_def fl_logic [OF assms(1)] fl_bytes [OF assms(1)]
          fl_concat [OF assms(1)] vbCost16_def greater_or_equal_holds [OF assms(1)] put_u16_def be_val_be
          split: bool.splits)
  next
    case False
    have "\<exists>e. fl E B_len16 [out] = Inl e"
    proof (cases out)
      case (Inl e)
      then show ?thesis using fl_strict(2) [OF assms(1), of B_len16 e] by (simp add: strict_builtin_def)
    next
      case (Inr bs)
      with False have "tv (fl E B_len16 [out]) = None" by (simp add: fl_bytes [OF assms(1)])
      then show ?thesis by (simp add: tv_None_iff)
    qed
    then obtain e where e: "fl E B_len16 [out] = Inl e" ..
    obtain e1 where e1: "fl E B_mul16_32 [vbCost16, Inl e] = Inl e1" using strict(2) by blast
    obtain e2 where e2: "fl E B_concat [Inr (put_u32 0), Inl e1] = Inl e2" using strict(1) by blast
    show ?thesis
      using False assms(2) e e1 e2
      by (auto simp: storageDepositEnough_def holds_def fl_logic [OF assms(1)]
          greater_or_equal_holds [OF assms(1)])
  qed
qed

lemma len8_value:
  assumes "easyfl_laws E" "n < 256"
  shows "fl E B_len8 [Inr x] = Inr [of_nat n] \<longleftrightarrow> length x = n"
proof (cases "length x < 256")
  case True
  then show ?thesis
    using assms(2) by (auto simp: fl_bytes [OF assms(1)] word_unat_eq_iff)
next
  case False
  then have "tv (fl E B_len8 [Inr x]) = None" by (simp add: fl_bytes [OF assms(1)])
  then show ?thesis using False assms(2) by (auto simp: tv_None_iff)
qed

lemma amount_enforced_parts:
  assumes "easyfl_laws E"
  shows "holds (fl_amount E (ctx_at t (produced_path i j)) (Inr a)) \<longleftrightarrow>
      j = 0 \<and> length a = 8
      \<and> (\<exists>out. tread t (PathToProducedOutputs @ [i]) = Inr out \<and> length out < 65536 \<and> length out \<le> be_val a)"
    and "holds (fl_amount E (ctx_at t (consumed_path i j)) (Inr a)) \<longleftrightarrow> j = 0"
proof -
  note self = self_produced [OF assms refl]
  have out: "selfOutputBytes E (ctx_at t (produced_path i j)) = tread t (PathToProducedOutputs @ [i])"
    by (simp add: selfOutputBytes_def self evalAtPath_tread path_defs)
  have len: "fl E B_len8 [Inr a] = Inr [8] \<longleftrightarrow> length a = 8"
    using len8_value [OF assms, of 8 a] by simp
  have prod: "holds (selfIsProducedOutput E (ctx_at t (produced_path i j)))"
    by (simp add: holds_def self)
  show "holds (fl_amount E (ctx_at t (produced_path i j)) (Inr a)) \<longleftrightarrow>
      j = 0 \<and> length a = 8
      \<and> (\<exists>out. tread t (PathToProducedOutputs @ [i]) = Inr out \<and> length out < 65536 \<and> length out \<le> be_val a)"
    using storage_deposit_holds [OF assms out, of a]
    by (auto simp: fl_amount_def and_holds [OF assms] or_holds [OF assms] equal_holds [OF assms] len prod self
        holds_def [of "selfIsConsumedOutput _ _"])
  note self = self_consumed [OF assms refl]
  show "holds (fl_amount E (ctx_at t (consumed_path i j)) (Inr a)) \<longleftrightarrow> j = 0"
    by (auto simp: fl_amount_def and_holds [OF assms] or_holds [OF assms] equal_holds [OF assms] self
        holds_def [of "selfIsConsumedOutput _ _"])
qed

text \<open>
  On a produced output the \<^verbatim>\<open>amount\<close> constraint holds exactly when it stands at
  block 0, its argument is 8 bytes long, and the amount it encodes is at least the size of the whole
  output in bytes (the storage deposit); on a consumed output it only checks its place.
\<close>

theorem amount_enforced:
  assumes "easyfl_laws E"
  shows "(holds (fl_amount E (ctx_at t (produced_path i j)) (Inr a)) \<longleftrightarrow>
      j = 0 \<and> length a = 8
      \<and> (\<exists>out. tread t (PathToProducedOutputs @ [i]) = Inr out \<and> length out < 65536 \<and> length out \<le> be_val a)) \<and>
    (holds (fl_amount E (ctx_at t (consumed_path i j)) (Inr a)) \<longleftrightarrow> j = 0)"
  by (rule conjI [OF amount_enforced_parts(1) [OF assms] amount_enforced_parts(2) [OF assms]])

section \<open>timestamp and timelock\<close>

lemma less_holds:
  assumes "easyfl_laws E"
  shows "tv (fl E B_lessThan [a, b]) = (case (a, b) of
      (Inr x, Inr y) \<Rightarrow> if length x = length y then Some (be_val x < be_val y) else None
    | _ \<Rightarrow> None)"
  by (cases a; cases b) (auto simp: fl_compare [OF assms] strict_builtin_def intro!: fl_strict(1) [OF assms])

lemma if_holds:
  "easyfl_laws E \<Longrightarrow> holds (fl E B_if [a, b, d]) \<longleftrightarrow> (\<exists>v. tv a = Some v \<and> holds (if v then b else d))"
  by (auto simp: holds_def fl_logic split: option.splits bool.splits if_splits)

lemma tv_and_False: "easyfl_laws E \<Longrightarrow> tv r = Some False \<Longrightarrow> tv (fl E B_and (r # rs)) = Some False"
  by (simp add: fl_logic)

lemma timestamp_enforced_parts:
  assumes "easyfl_laws E"
  shows "holds (fl_timestamp E (ctx_at t (produced_path i j)) (Inr a)) \<longleftrightarrow>
      j = 1 \<and> tread t PathToTimestamp = Inr a"
    and "holds (fl_timestamp E (ctx_at t (consumed_path i j)) (Inr a)) \<longleftrightarrow>
      j = 1 \<and> (\<exists>ts. tread t PathToTimestamp = Inr ts \<and> length a = length ts \<and> be_val a < be_val ts)"
proof -
  note rules = fl_timestamp_def and_holds [OF assms] or_holds [OF assms] equal_holds [OF assms] tx_reads
  note self = self_produced [OF assms refl]
  show "holds (fl_timestamp E (ctx_at t (produced_path i j)) (Inr a)) \<longleftrightarrow>
      j = 1 \<and> tread t PathToTimestamp = Inr a"
    by (auto simp: rules self holds_def [of "selfIsProducedOutput _ _"] holds_def [of "selfIsConsumedOutput _ _"])
  note self = self_consumed [OF assms refl]
  show "holds (fl_timestamp E (ctx_at t (consumed_path i j)) (Inr a)) \<longleftrightarrow>
      j = 1 \<and> (\<exists>ts. tread t PathToTimestamp = Inr ts \<and> length a = length ts \<and> be_val a < be_val ts)"
    by (cases "tread t PathToTimestamp")
      (auto simp: rules self holds_def [of "selfIsProducedOutput _ _"] holds_def [of "selfIsConsumedOutput _ _"]
        holds_def [of "fl E B_lessThan _"] less_holds [OF assms] fl_logic [OF assms])
qed

text \<open>
  A produced output must carry exactly the time stamp of the transaction, at
  block 1, and a consumed output a strictly earlier one: a transaction is younger than everything it
  consumes.
\<close>

theorem timestamp_enforced:
  assumes "easyfl_laws E"
  shows "(holds (fl_timestamp E (ctx_at t (produced_path i j)) (Inr a)) \<longleftrightarrow>
      j = 1 \<and> tread t PathToTimestamp = Inr a) \<and>
    (holds (fl_timestamp E (ctx_at t (consumed_path i j)) (Inr a)) \<longleftrightarrow>
      j = 1 \<and> (\<exists>ts. tread t PathToTimestamp = Inr ts \<and> length a = length ts \<and> be_val a < be_val ts))"
  by (rule conjI [OF timestamp_enforced_parts(1) [OF assms] timestamp_enforced_parts(2) [OF assms]])

lemma timelock_enforced_parts:
  assumes "easyfl_laws E"
  shows "holds (fl_timelock E (ctx_at t (consumed_path i j)) (Inr a)) \<longleftrightarrow>
      (\<exists>ts. tread t PathToTimestamp = Inr ts \<and> length a = length ts \<and> be_val a < be_val ts)"
    and "holds (fl_timelock E (ctx_at t (produced_path i j)) (Inr a)) \<longleftrightarrow>
      length a = 4 \<and> (\<exists>ts. tread t PathToTimestamp = Inr ts \<and> length ts = 4 \<and> be_val ts < be_val a)"
proof -
  note rules = fl_timelock_def and_holds [OF assms] or_holds [OF assms] equal_holds [OF assms] tx_reads
    less_holds [OF assms] fl_logic [OF assms]
  note self = self_consumed [OF assms refl]
  show "holds (fl_timelock E (ctx_at t (consumed_path i j)) (Inr a)) \<longleftrightarrow>
      (\<exists>ts. tread t PathToTimestamp = Inr ts \<and> length a = length ts \<and> be_val a < be_val ts)"
    by (cases "tread t PathToTimestamp")
      (auto simp: rules self holds_def [of "selfIsProducedOutput _ _"] holds_def [of "selfIsConsumedOutput _ _"]
        holds_def [of "fl E B_lessThan _"])
  note self = self_produced [OF assms refl]
  have len: "fl E B_len8 [Inr a] = Inr [4] \<longleftrightarrow> length a = 4"
    using len8_value [OF assms, of 4 a] by simp
  show "holds (fl_timelock E (ctx_at t (produced_path i j)) (Inr a)) \<longleftrightarrow>
      length a = 4 \<and> (\<exists>ts. tread t PathToTimestamp = Inr ts \<and> length ts = 4 \<and> be_val ts < be_val a)"
    by (cases "tread t PathToTimestamp")
      (auto simp: rules self len holds_def [of "selfIsProducedOutput _ _"] holds_def [of "selfIsConsumedOutput _ _"]
        holds_def [of "fl E B_lessThan _"])
qed

text \<open>
  A consumed output under a time lock is unlocked only by a transaction whose
  time stamp is strictly after the lock, whatever else the transaction contains; a produced one must
  carry a 4-byte lock after the transaction's time stamp.
\<close>

theorem timelock_enforced:
  assumes "easyfl_laws E"
  shows "(holds (fl_timelock E (ctx_at t (consumed_path i j)) (Inr a)) \<longleftrightarrow>
      (\<exists>ts. tread t PathToTimestamp = Inr ts \<and> length a = length ts \<and> be_val a < be_val ts)) \<and>
    (holds (fl_timelock E (ctx_at t (produced_path i j)) (Inr a)) \<longleftrightarrow>
      length a = 4 \<and> (\<exists>ts. tread t PathToTimestamp = Inr ts \<and> length ts = 4 \<and> be_val ts < be_val a))"
  by (rule conjI [OF timelock_enforced_parts(1) [OF assms] timelock_enforced_parts(2) [OF assms]])

section \<open>deadlineLock\<close>

lemma deadline_lock_holds:
  assumes "easyfl_laws E" "p = consumed_path i j \<or> p = produced_path i j"
  shows "holds (fl_deadlineLock E (ctx_at t p) (Inr d) m x) \<longleftrightarrow>
    j = 2 \<and> (\<exists>ts. tread t PathToTimestamp = Inr ts \<and> length d = length ts
      \<and> holds (if be_val d < be_val ts then m else x))"
proof -
  have blk: "selfBlockIndex E (ctx_at t p) = Inr [j]"
    using assms(2) self_consumed(1) [OF assms(1) refl] self_produced(1) [OF assms(1) refl] by auto
  show ?thesis
    by (cases "tread t PathToTimestamp")
      (auto simp: fl_deadlineLock_def and_holds [OF assms(1)] equal_holds [OF assms(1)] tx_reads blk
        less_holds [OF assms(1)] if_holds [OF assms(1)])
qed

text \<open>
  C33 (deadline_lock_reversed): the script of the deadline lock and \<open>UnlockableWith\<close> disagree on which
  account may spend. For a transaction time stamp up to the deadline, \<open>UnlockableWith\<close> names the main
  account, while the script evaluates the expiry account's lock, and the other way round after it.
\<close>

theorem deadline_lock_reversed:
  assumes "easyfl_laws E" "tread t PathToTimestamp = Inr (put_u32 ts)"
    "AccountID E (dl_Main dl) = Inr mainID" "AccountID E (dl_Expiry dl) = Inr expiryID" "mainID \<noteq> expiryID"
  shows "holds (fl_deadlineLock E (ctx_at t (consumed_path i 2)) (Inr (put_u32 (dl_Deadline dl))) m x)
      \<longleftrightarrow> holds (if UnlockableWith E (Lock_DeadlineLock dl) mainID ts = Inr True then x else m)"
  using assms(2-5)
  by (auto simp: deadline_lock_holds [OF assms(1) disjI1 [OF refl]] word_le_nat_alt)

section \<open>senderAddressED25519\<close>

text \<open>
  A produced output that names a sender belongs to a transaction signed with a
  full-length signature whose public key hashes to the named address.
\<close>

theorem sender_enforced:
  assumes "easyfl_laws E"
  shows "holds (fl_senderAddressED25519 E (ctx_at t (produced_path i j)) (Inr a)) \<longleftrightarrow>
    (\<exists>sig. tread t PathToSignature = Inr sig \<and> 96 \<le> length sig \<and> a = Sum256 E (sub_bytes 64 95 sig))"
proof -
  note self = self_produced [OF assms refl]
  have pk: "(\<exists>h. fl E B_blake2b [publicKeyED25519 E r] = Inr h \<and> P h) \<longleftrightarrow>
      (\<exists>sig. r = Inr sig \<and> 96 \<le> length sig \<and> P (Sum256 E (sub_bytes 64 95 sig)))" for r P
  proof (cases "\<exists>sig. r = Inr sig \<and> 96 \<le> length sig")
    case True
    then show ?thesis by (auto simp: publicKeyED25519_def fl_bytes [OF assms] fl_crypto [OF assms])
  next
    case False
    have "tv (publicKeyED25519 E r) = None"
    proof (cases r)
      case (Inl e)
      then show ?thesis by (simp add: publicKeyED25519_def fl_strict(1) [OF assms] strict_builtin_def)
    next
      case (Inr sig)
      with False show ?thesis by (simp add: publicKeyED25519_def fl_bytes [OF assms])
    qed
    then obtain e where "publicKeyED25519 E r = Inl e" by (auto simp: tv_None_iff)
    then have "\<exists>e'. fl E B_blake2b [publicKeyED25519 E r] = Inl e'"
      using fl_strict(2) [OF assms, of B_blake2b e] by (simp add: strict_builtin_def)
    then show ?thesis using False by auto
  qed
  show ?thesis
    using pk [of "tread t PathToSignature" "\<lambda>h. h = a"]
    by (auto simp: fl_senderAddressED25519_def and_holds [OF assms] or_holds [OF assms] equal_holds [OF assms]
        tx_reads self holds_def [of "selfIsProducedOutput _ _"] holds_def [of "selfIsConsumedOutput _ _"])
qed

section \<open>addressED25519\<close>

definition array8_at :: "bytes \<Rightarrow> nat \<Rightarrow> bytes res" where
  \<comment> \<open>the element of a serialised array\<close>
  "array8_at data i = fst (At i (ArrayFromBytes data))"

lemma evalAtArray8_value: "evalAtArray8 (Inr data) (Inr [i]) = array8_at data (unat i)"
  by (simp add: evalAtArray8_def array8_at_def)

lemma evalAtArray8_Inr_iff:
  "evalAtArray8 a b = Inr d \<longleftrightarrow> (\<exists>data i. a = Inr data \<and> b = Inr [i] \<and> array8_at data (unat i) = Inr d)"
proof
  assume "evalAtArray8 a b = Inr d"
  then show "\<exists>data i. a = Inr data \<and> b = Inr [i] \<and> array8_at data (unat i) = Inr d"
    by (auto simp: evalAtArray8_def array8_at_def length_Suc_conv split: if_splits)
qed (auto simp: evalAtArray8_value)

definition essence :: "tree \<Rightarrow> bytes res" where
  "essence t =
     rbind (tread t PathToInputIDs) (\<lambda>ids. rbind (tread t PathToProducedOutputs) (\<lambda>outs.
     rbind (tread t PathToInputCommitment) (\<lambda>com. Inr (ids @ outs @ com))))"

definition signed_by :: "easyfl \<Rightarrow> tree \<Rightarrow> AddressED25519 \<Rightarrow> bool" where
  \<comment> \<open>the transaction carries a valid signature of its essence by a key that hashes to the address\<close>
  "signed_by E t a \<longleftrightarrow>
     (\<exists>ess sig. essence t = Inr ess \<and> tread t PathToSignature = Inr sig \<and> 96 \<le> length sig
        \<and> a = Sum256 E (sub_bytes 64 95 sig)
        \<and> VerifyED25519 E (sub_bytes 64 95 sig) ess (sub_bytes 0 63 sig))"

lemma txEssence_value:
  assumes "easyfl_laws E"
  shows "txEssenceBytes E (ctx_at t p) = Inr v \<longleftrightarrow> essence t = Inr v"
proof -
  let ?l = "[tread t PathToInputIDs, tread t PathToProducedOutputs, tread t PathToInputCommitment]"
  have eq: "txEssenceBytes E (ctx_at t p) = fl E B_concat ?l"
    by (simp add: txEssenceBytes_def evalAtPath_tread)
  show ?thesis
  proof (cases "\<exists>e. Inl e \<in> set ?l")
    case True
    then obtain e where "Inl e \<in> set ?l" ..
    then obtain e' where "fl E B_concat ?l = Inl e'"
      using fl_strict(2) [OF assms, of B_concat e ?l] by (auto simp: strict_builtin_def)
    then show ?thesis using True by (auto simp: eq essence_def)
  next
    case False
    then obtain x y z where "tread t PathToInputIDs = Inr x" "tread t PathToProducedOutputs = Inr y"
        "tread t PathToInputCommitment = Inr z"
      by (metis list.set_intros(1,2) obj_sumE)
    then show ?thesis by (simp add: eq essence_def fl_concat [OF assms])
  qed
qed

lemma signature_unlocks:
  assumes "easyfl_laws E"
    "holds (unlockedWithSigED25519 E (ctx_at t p) (Inr a) (signatureED25519 E (txSignature (ctx_at t p)))
              (publicKeyED25519 E (txSignature (ctx_at t p))))"
  shows "signed_by E t a"
proof -
  let ?k = "publicKeyED25519 E (tread t PathToSignature)"
  let ?s = "signatureED25519 E (tread t PathToSignature)"
  have eq: "fl E B_blake2b [?k] = Inr a"
    and ver: "holds (fl E B_validSignatureED25519 [txEssenceBytes E (ctx_at t p), ?s, ?k])"
    using assms(2) by (auto simp: unlockedWithSigED25519_def and_holds [OF assms(1)] equal_holds [OF assms(1)] tx_reads)
  have "tv (fl E B_validSignatureED25519 [txEssenceBytes E (ctx_at t p), ?s, ?k]) \<noteq> None"
    using ver by (simp add: holds_def)
  then have vals: "\<exists>m. txEssenceBytes E (ctx_at t p) = Inr m" "\<exists>s. ?s = Inr s" "\<exists>k. ?k = Inr k"
    using fl_strict_tv [OF assms(1), of B_validSignatureED25519] by (simp_all add: strict_builtin_def)
  then obtain m s k where m: "txEssenceBytes E (ctx_at t p) = Inr m" "?s = Inr s" "?k = Inr k" by blast
  obtain sig where sig: "tread t PathToSignature = Inr sig"
    using m(3) fl_strict_Inr [OF assms(1), of B_slice] unfolding publicKeyED25519_def
    by (fastforce simp: strict_builtin_def)
  have len: "96 \<le> length sig"
    using m(3) fl_bytes(6) [OF assms(1), of 64 95 sig] sig by (fastforce simp: publicKeyED25519_def)
  have "k = sub_bytes 64 95 sig" "s = sub_bytes 0 63 sig"
    using m(2,3) sig len by (simp_all add: publicKeyED25519_def signatureED25519_def fl_bytes [OF assms(1)])
  then show ?thesis
    using eq ver m sig len fl_crypto(3) [OF assms(1), of m s k] txEssence_value [OF assms(1), of t p m]
    by (auto simp: signed_by_def fl_crypto(2) [OF assms(1)])
qed

lemma reference_unlocks:
  assumes "easyfl_laws E" "holds (unlockedByReference E (ctx_at t (consumed_path i j)))"
  obtains k out d where "k < i" "tread t (PathToUnlockParams @ [i, j]) = Inr [k]"
    "tread t (PathToConsumedOutputs @ [k]) = Inr out" "tread t (consumed_path i j) = Inr d"
    "array8_at out ConstraintIndexLock = Inr d"
proof -
  note self = self_consumed [OF assms(1) refl, of t i j]
  let ?u = "tread t (PathToUnlockParams @ [i, j])"
  let ?c = "ctx_at t (consumed_path i j)"
  have lt: "holds (fl E B_lessThan [?u, Inr [i]])"
    and eq: "holds (fl E B_equal [tread t (consumed_path i j), consumedLockByOutputIndex E ?c ?u])"
    using assms(2) by (simp_all add: unlockedByReference_def and_holds [OF assms(1)] self tx_reads)
  obtain u where u: "?u = Inr u" "length u = 1" "be_val u < be_val [i]"
    using lt by (auto simp: holds_def less_holds [OF assms(1)] split: sum.splits if_splits)
  then obtain k where k: "u = [k]" by (auto simp: length_Suc_conv)
  have "be_val [x] = unat x" for x using be_val_snoc [of "[]" x] by simp
  then have less: "k < i" using u(3) k by (simp add: word_less_nat_alt)
  obtain d where d: "tread t (consumed_path i j) = Inr d" "consumedLockByOutputIndex E ?c (Inr [k]) = Inr d"
    using eq u(1) k by (auto simp: equal_holds [OF assms(1)])
  have two: "(2 :: byte) = of_nat ConstraintIndexLock" by (simp add: ConstraintIndexLock_def)
  have "evalAtArray8 (tread t (PathToConsumedOutputs @ [k])) (Inr [2]) = Inr d"
    using d(2) by (simp add: consumedLockByOutputIndex_def consumedConstraintByIndex_def lockBlockIndex_def
        fl_concat [OF assms(1)] fl_bytes [OF assms(1)] consumedOutputByIndex_def consumedOutputPathByIndex_def
        evalAtPath_tread flip: two)
  then show ?thesis
    using that [OF less] u(1) k d(1)
    by (auto simp: evalAtArray8_Inr_iff ConstraintIndexLock_def)
qed

text \<open>The meaning of an address lock on a consumed output.\<close>

lemma address_consumed:
  assumes "easyfl_laws E" "holds (fl_addressED25519 E (ctx_at t (consumed_path i j)) (Inr a))"
  shows "j = 2" and "signed_by E t a \<or> holds (unlockedByReference E (ctx_at t (consumed_path i j)))"
proof -
  note self = self_consumed [OF assms(1) refl, of t i j]
  show "j = 2" "signed_by E t a \<or> holds (unlockedByReference E (ctx_at t (consumed_path i j)))"
    using assms(2) signature_unlocks [OF assms(1), of t "consumed_path i j" a] fail_never_holds [OF assms(1)]
    by (auto simp: fl_addressED25519_def and_holds [OF assms(1)] or_holds [OF assms(1)] equal_holds [OF assms(1)]
        self holds_def [of "selfIsProducedOutput _ _"])
qed

section \<open>Built-ins that return\<close>

lemma slice_Inr:
  assumes "easyfl_laws E"
  shows "fl E B_slice [r, Inr [i], Inr [j]] = Inr v \<longleftrightarrow>
    (\<exists>x. r = Inr x \<and> unat i \<le> unat j \<and> unat j < length x \<and> v = sub_bytes (unat i) (unat j) x)"
proof (cases r)
  case (Inl e)
  then show ?thesis using fl_strict(2) [OF assms, of B_slice e "[r, Inr [i], Inr [j]]"] by (auto simp: strict_builtin_def)
next
  case (Inr x)
  then show ?thesis
    using fl_bytes(5,6) [OF assms, where x = x and i = i and j = j]
    by (cases "unat i \<le> unat j \<and> unat j < length x") (auto simp: tv_None_iff)
qed

lemma byte_Inr:
  assumes "easyfl_laws E"
  shows "fl E B_byte [r, Inr [i]] = Inr v \<longleftrightarrow> (\<exists>x. r = Inr x \<and> unat i < length x \<and> v = [x ! unat i])"
proof (cases r)
  case (Inl e)
  then show ?thesis using fl_strict(2) [OF assms, of B_byte e "[r, Inr [i]]"] by (auto simp: strict_builtin_def)
next
  case (Inr x)
  then show ?thesis
    using fl_bytes(7,8) [OF assms, where x = x and i = i] by (cases "unat i < length x") (auto simp: tv_None_iff)
qed

lemma concat_Inr:
  assumes "easyfl_laws E"
  shows "fl E B_concat [r, s] = Inr v \<longleftrightarrow> (\<exists>x y. r = Inr x \<and> s = Inr y \<and> v = x @ y)"
proof
  assume v: "fl E B_concat [r, s] = Inr v"
  then have "\<exists>x. r = Inr x" "\<exists>y. s = Inr y"
    using fl_strict_Inr [OF assms _ v] by (simp_all add: strict_builtin_def)
  then show "\<exists>x y. r = Inr x \<and> s = Inr y \<and> v = x @ y" using v by (auto simp: fl_concat [OF assms])
qed (auto simp: fl_concat [OF assms])

lemma blake_Inr:
  assumes "easyfl_laws E"
  shows "fl E B_blake2b [r] = Inr v \<longleftrightarrow> (\<exists>x. r = Inr x \<and> v = Sum256 E x)"
proof (cases r)
  case (Inl e)
  then show ?thesis using fl_strict(2) [OF assms, of B_blake2b e "[r]"] by (auto simp: strict_builtin_def)
qed (auto simp: fl_crypto(2) [OF assms])

lemma parseArg_Inr:
  assumes "easyfl_laws E"
  shows "fl E B_parseBytecodeArg [r, q, Inr [i]] = Inr v \<longleftrightarrow>
    (\<exists>code pfx nm args. r = Inr code \<and> q = Inr pfx \<and> ParseBytecodeOneLevel E code None = Inr (nm, pfx, args)
       \<and> unat i < length args \<and> v = StripDataPrefix E (args ! unat i))"
proof
  assume v: "fl E B_parseBytecodeArg [r, q, Inr [i]] = Inr v"
  then have "\<exists>x. r = Inr x" "\<exists>y. q = Inr y"
    using fl_strict_Inr [OF assms _ v] by (simp_all add: strict_builtin_def)
  then obtain code pfx where c: "r = Inr code" "q = Inr pfx" by blast
  obtain nm args where "ParseBytecodeOneLevel E code None = Inr (nm, pfx, args)" "unat i < length args"
    "v = StripDataPrefix E (args ! unat i)"
    using fl_parse(2) [OF assms v [unfolded c]] by blast
  with c show "\<exists>code pfx nm args. r = Inr code \<and> q = Inr pfx
      \<and> ParseBytecodeOneLevel E code None = Inr (nm, pfx, args) \<and> unat i < length args
      \<and> v = StripDataPrefix E (args ! unat i)" by simp
next
  assume "\<exists>code pfx nm args. r = Inr code \<and> q = Inr pfx
      \<and> ParseBytecodeOneLevel E code None = Inr (nm, pfx, args) \<and> unat i < length args
      \<and> v = StripDataPrefix E (args ! unat i)"
  then show "fl E B_parseBytecodeArg [r, q, Inr [i]] = Inr v"
    by (elim exE conjE) (simp add: fl_parse(3) [OF assms])
qed

lemma isZero_tv:
  assumes "easyfl_laws E"
  shows "tv (fl E B_isZero [r]) = map_option (\<lambda>_. \<forall>b \<in> set (projr r). b = 0) (tv r)"
  by (cases r) (simp_all add: fl_compare [OF assms] fl_strict(1) [OF assms] strict_builtin_def)

lemmas fl_returns = slice_Inr byte_Inr concat_Inr blake_Inr parseArg_Inr

lemma evalAtPath_Inr_iff: "evalAtPath (ctx_at t p) r = Inr v \<longleftrightarrow> (\<exists>q. r = Inr q \<and> tread t q = Inr v)"
  by (cases r) (simp_all add: evalAtPath_tread)

definition constraint_at :: "tree \<Rightarrow> path \<Rightarrow> byte \<Rightarrow> byte \<Rightarrow> bytes \<Rightarrow> bool" where
  \<comment> \<open>the constraint at block \<open>j\<close> of the output \<open>i\<close> of a branch, read through the output's own array\<close>
  "constraint_at t branch i j code \<longleftrightarrow>
     (\<exists>out. tread t (branch @ [i]) = Inr out \<and> array8_at out (unat j) = Inr code)"

lemma constraint_at_unique: "constraint_at t b i j c \<Longrightarrow> constraint_at t b i j d \<Longrightarrow> c = d"
  by (auto simp: constraint_at_def)

lemma producedConstraintByIndex_Inr:
  assumes "easyfl_laws E"
  shows "producedConstraintByIndex E (ctx_at t p) r = Inr code \<longleftrightarrow>
    (\<exists>x. r = Inr x \<and> 2 \<le> length x \<and> constraint_at t PathToProducedOutputs (x ! 0) (x ! 1) code)"
  by (auto simp: producedConstraintByIndex_def fl_returns [OF assms] evalAtArray8_Inr_iff producedOutputByIndex_def
      producedOutputPathByIndex_def evalAtPath_Inr_iff constraint_at_def Suc_le_eq numeral_2_eq_2)

lemma consumedConstraintByIndex_Inr:
  assumes "easyfl_laws E"
  shows "consumedConstraintByIndex E (ctx_at t p) r = Inr code \<longleftrightarrow>
    (\<exists>x. r = Inr x \<and> 2 \<le> length x \<and> constraint_at t PathToConsumedOutputs (x ! 0) (x ! 1) code)"
  by (auto simp: consumedConstraintByIndex_def fl_returns [OF assms] evalAtArray8_Inr_iff consumedOutputByIndex_def
      consumedOutputPathByIndex_def evalAtPath_Inr_iff constraint_at_def Suc_le_eq numeral_2_eq_2)

lemma unlockParamsByConstraintIndex_Inr:
  assumes "easyfl_laws E"
  shows "unlockParamsByConstraintIndex E (ctx_at t p) r = Inr code \<longleftrightarrow>
    (\<exists>x. r = Inr x \<and> 2 \<le> length x \<and> constraint_at t PathToUnlockParams (x ! 0) (x ! 1) code)"
  by (auto simp: unlockParamsByConstraintIndex_def fl_returns [OF assms] evalAtArray8_Inr_iff unlockParamsByIndex_def
      unlockParamsPathByIndex_def evalAtPath_Inr_iff constraint_at_def Suc_le_eq numeral_2_eq_2)

lemma chain_parts:
  assumes "easyfl_laws E"
  shows "chainID E (Inr a) = Inr v \<longleftrightarrow> 32 \<le> length a \<and> v = take 32 a"
    and "predecessorConstraintIndex E r = Inr v \<longleftrightarrow>
      (\<exists>a. r = Inr a \<and> 34 \<le> length a \<and> v = [a ! 32, a ! 33])"
    and "transitionMode E r = Inr v \<longleftrightarrow> (\<exists>a. r = Inr a \<and> 35 \<le> length a \<and> v = [a ! 34])"
    and "originChainData E = Inr (replicate 32 0 @ [255, 255, 255])"
proof -
  have cut: "sub_bytes 32 33 a = [a ! 32, a ! 33]" if "34 \<le> length a" for a :: bytes
  proof (rule nth_equalityI)
    show "length (sub_bytes 32 33 a) = length [a ! 32, a ! 33]" using that by (simp add: sub_bytes_def)
    fix i assume "i < length (sub_bytes 32 33 a)"
    then have "i = 0 \<or> i = 1" using that by (auto simp: sub_bytes_def)
    then show "sub_bytes 32 33 a ! i = [a ! 32, a ! 33] ! i"
      using that by (auto simp: sub_bytes_def)
  qed
  show "chainID E (Inr a) = Inr v \<longleftrightarrow> 32 \<le> length a \<and> v = take 32 a"
    by (auto simp: chainID_def slice_Inr [OF assms] sub_bytes_def)
  show "predecessorConstraintIndex E r = Inr v \<longleftrightarrow> (\<exists>a. r = Inr a \<and> 34 \<le> length a \<and> v = [a ! 32, a ! 33])"
    by (auto simp: predecessorConstraintIndex_def slice_Inr [OF assms] cut)
  show "transitionMode E r = Inr v \<longleftrightarrow> (\<exists>a. r = Inr a \<and> 35 \<le> length a \<and> v = [a ! 34])"
    by (auto simp: transitionMode_def byte_Inr [OF assms])
  show "originChainData E = Inr (replicate 32 0 @ [255, 255, 255])"
    by (simp add: originChainData_def fl_bytes [OF assms] fl_concat [OF assms] map_replicate_const)
qed

section \<open>chain\<close>

definition origin_data :: bytes where
  "origin_data = replicate 32 0 @ [255, 255, 255]"

definition chain_data_of :: "easyfl \<Rightarrow> bytes \<Rightarrow> bytes \<Rightarrow> bytes \<Rightarrow> bool" where
  \<comment> \<open>the bytecode calls the function with the given prefix, and \<open>d\<close> is its first argument\<close>
  "chain_data_of E pfx code d \<longleftrightarrow>
     (\<exists>nm args. ParseBytecodeOneLevel E code None = Inr (nm, pfx, args) \<and> args \<noteq> []
        \<and> d = StripDataPrefix E (args ! 0))"

lemma chain_data_of_unique: "chain_data_of E pfx code d \<Longrightarrow> chain_data_of E pfx' code d' \<Longrightarrow> d = d' \<and> pfx = pfx'"
  by (auto simp: chain_data_of_def)

definition own_prefix :: "easyfl \<Rightarrow> tree \<Rightarrow> path \<Rightarrow> bytes \<Rightarrow> bool" where
  "own_prefix E t p pfx \<longleftrightarrow> (\<exists>code. tread t p = Inr code \<and> ParseBytecodePrefix E code = Inr pfx)"

lemma selfBytecodePrefix_Inr:
  assumes "easyfl_laws E"
  shows "selfBytecodePrefix E (ctx_at t p) = Inr pfx \<longleftrightarrow> own_prefix E t p pfx"
proof (cases "tread t p")
  case (Inl e)
  then show ?thesis using fl_strict(2) [OF assms, of B_parseBytecodePrefix e "[Inl e]"]
    by (auto simp: selfBytecodePrefix_def tx_reads own_prefix_def strict_builtin_def)
qed (simp add: selfBytecodePrefix_def tx_reads own_prefix_def fl_parse(1) [OF assms])

text \<open>A consumed chain constraint: the transition it takes part in.\<close>

definition successor_of :: "byte \<Rightarrow> byte \<Rightarrow> bytes \<Rightarrow> bytes \<Rightarrow> bool" where
  "successor_of i j a succ \<longleftrightarrow> 34 \<le> length succ \<and> [succ ! 32, succ ! 33] = [i, j]
     \<and> (if \<forall>b \<in> set (take 32 a). b = 0 then a = origin_data else take 32 succ = take 32 a)"

definition chain_continues :: "easyfl \<Rightarrow> tree \<Rightarrow> byte \<Rightarrow> byte \<Rightarrow> bytes \<Rightarrow> byte \<Rightarrow> byte \<Rightarrow> bool" where
  "chain_continues E t i j a si sj \<longleftrightarrow>
     (\<exists>pfx code succ. own_prefix E t (consumed_path i j) pfx
        \<and> constraint_at t PathToProducedOutputs si sj code \<and> chain_data_of E pfx code succ
        \<and> successor_of i j a succ)"

lemma validSuccessor_holds:
  assumes "easyfl_laws E" "32 \<le> length a"
  shows "holds (validSuccessorData E (ctx_at t (consumed_path i j)) (Inr a)
      (chainSuccessorData E (ctx_at t (consumed_path i j)))) \<longleftrightarrow>
    (\<exists>u. tread t (PathToUnlockParams @ [i, j]) = Inr u \<and> 2 \<le> length u \<and> chain_continues E t i j a (u ! 0) (u ! 1))"
proof -
  let ?c = "ctx_at t (consumed_path i j)"
  note self = self_consumed [OF assms(1) refl, of t i j]
  have cut: "sub_bytes 0 (Suc 0) x ! 0 = x ! 0" "sub_bytes 0 (Suc 0) x ! Suc 0 = x ! Suc 0"
    if "2 \<le> length x" for x :: bytes
    using that by (auto simp: sub_bytes_def)
  have succ: "chainSuccessorData E ?c = Inr s \<longleftrightarrow>
    (\<exists>u pfx code. tread t (PathToUnlockParams @ [i, j]) = Inr u \<and> 2 \<le> length u \<and> own_prefix E t (consumed_path i j) pfx
      \<and> constraint_at t PathToProducedOutputs (u ! 0) (u ! 1) code \<and> chain_data_of E pfx code s)" for s
    by (auto simp: chainSuccessorData_def fl_returns [OF assms(1)] producedConstraintByIndex_Inr [OF assms(1)]
        selfBytecodePrefix_Inr [OF assms(1)] self chain_data_of_def cut Suc_le_eq numeral_2_eq_2 sub_bytes_def)
      blast
  have id: "chainID E (Inr a) = Inr (take 32 a)" using assms(2) by (simp add: chain_parts(1) [OF assms(1)])
  have idr: "chainID E r = Inr v \<longleftrightarrow> (\<exists>x. r = Inr x \<and> 32 \<le> length x \<and> v = take 32 x)" for r v
    by (auto simp: chainID_def slice_Inr [OF assms(1)] sub_bytes_def)
  have vs: "holds (validSuccessorData E ?c (Inr a) r) \<longleftrightarrow> (\<exists>succ. r = Inr succ \<and> successor_of i j a succ)" for r
    by (cases r; cases "\<forall>b \<in> set (take 32 a). b = 0")
      (auto simp: validSuccessorData_def and_holds [OF assms(1)] equal_holds [OF assms(1)] if_holds [OF assms(1)]
        id fl_compare [OF assms(1)] chain_parts [OF assms(1)] self idr origin_data_def
        successor_of_def)
  show ?thesis unfolding vs chain_continues_def succ by blast
qed

lemma chain_consumed:
  assumes "easyfl_laws E"
  shows "holds (fl_chain E (ctx_at t (consumed_path i j)) (Inr a)) \<longleftrightarrow>
    i \<noteq> 255 \<and> 32 \<le> length a \<and> (\<exists>u. tread t (PathToUnlockParams @ [i, j]) = Inr u \<and>
      (u = [255, 255, 255] \<or> 2 \<le> length u \<and> chain_continues E t i j a (u ! 0) (u ! 1)))"
proof -
  note self = self_consumed [OF assms refl, of t i j]
  let ?c = "ctx_at t (consumed_path i j)"
  let ?first = "fl E B_if [fl E B_and [fl E B_isZero [chainID E (Inr a)], selfIsProducedOutput E ?c],
      fl E B_or [fl E B_equal [Inr a, originChainData E], fl E B_fail []], fl E B_nil []]"
  have idx: "holds (fl E B_not [fl E B_equal [Inr [i], Inr [255]]]) \<longleftrightarrow> i \<noteq> 255"
    by (simp add: holds_def fl_logic [OF assms] fl_compare [OF assms])
  have first: "tv ?first = (if 32 \<le> length a then Some False else None)"
  proof (cases "32 \<le> length a")
    case True
    then have "chainID E (Inr a) = Inr (take 32 a)" by (simp add: chain_parts [OF assms])
    then show ?thesis using True by (simp add: fl_logic [OF assms] fl_compare [OF assms] self split: bool.split)
  next
    case False
    then have "\<nexists>v. chainID E (Inr a) = Inr v" by (simp add: chain_parts [OF assms])
    then obtain e where "chainID E (Inr a) = Inl e" by (cases "chainID E (Inr a)") auto
    then have "tv (fl E B_isZero [chainID E (Inr a)]) = None"
      by (simp add: fl_strict(1) [OF assms] strict_builtin_def)
    then show ?thesis using False by (simp add: fl_logic [OF assms])
  qed
  have un: "tv (fl E B_equal [r, destroyUnlockParams]) = Some False \<longleftrightarrow> (\<exists>u. r = Inr u \<and> u \<noteq> [255, 255, 255])" for r
    by (cases r) (auto simp: destroyUnlockParams_def fl_compare [OF assms] fl_strict(1) [OF assms] strict_builtin_def)
  have des: "holds (fl E B_equal [r, destroyUnlockParams]) \<longleftrightarrow> r = Inr [255, 255, 255]" for r
    by (auto simp: equal_holds [OF assms] destroyUnlockParams_def)
  have "\<not> holds (fl E B_and [selfIsProducedOutput E ?c, x])" for x
    by (simp add: holds_def fl_logic [OF assms] self)
  then show ?thesis
    using validSuccessor_holds [OF assms, of a t i j]
    by (auto simp: fl_chain_def and_holds [OF assms] or_holds [OF assms] self idx first un des
        holds_def [of ?first] holds_def [of "selfIsConsumedOutput _ _"] fail_never_holds [OF assms])
qed

definition chain_extends :: "easyfl \<Rightarrow> tree \<Rightarrow> bytes \<Rightarrow> bytes \<Rightarrow> bool" where
  \<comment> \<open>the produced chain data \<open>a\<close> names a consumed chain constraint it continues\<close>
  "chain_extends E t pfx a \<longleftrightarrow>
     35 \<le> length a \<and>
     (\<exists>code p. constraint_at t PathToConsumedOutputs (a ! 32) (a ! 33) code \<and> chain_data_of E pfx code p
        \<and> 32 \<le> length p
        \<and> (if \<forall>b \<in> set (take 32 p). b = 0
           then p = origin_data
             \<and> (\<exists>oid. tread t (PathToInputIDs @ [a ! 32]) = Inr oid \<and> take 32 a = Sum256 E oid)
           else take 32 a = take 32 p)) \<and>
     (\<exists>u. constraint_at t PathToUnlockParams (a ! 32) (a ! 33) u \<and> 2 < length u \<and> u ! 2 = a ! 34)"

lemma chainPredecessorData_Inr:
  assumes "easyfl_laws E"
  shows "chainPredecessorData E (ctx_at t q) (predecessorConstraintIndex E (Inr a)) = Inr p \<longleftrightarrow>
    34 \<le> length a \<and> (\<exists>pfx code. own_prefix E t q pfx
      \<and> constraint_at t PathToConsumedOutputs (a ! 32) (a ! 33) code \<and> chain_data_of E pfx code p)"
  by (auto simp: chainPredecessorData_def fl_returns [OF assms] consumedConstraintByIndex_Inr [OF assms]
      selfBytecodePrefix_Inr [OF assms] chain_parts [OF assms] chain_data_of_def)

lemma predecessorInputID_Inr:
  assumes "easyfl_laws E"
  shows "predecessorInputID E (ctx_at t q) (Inr a) = Inr oid \<longleftrightarrow>
    32 < length a \<and> tread t (PathToInputIDs @ [a ! 32]) = Inr oid"
  by (auto simp: predecessorInputID_def inputIDByIndex_def evalAtPath_Inr_iff fl_returns [OF assms])

lemma validPredecessor_holds:
  assumes "easyfl_laws E"
  shows "holds (validPredecessorData E (ctx_at t q) (Inr a)
      (chainPredecessorData E (ctx_at t q) (predecessorConstraintIndex E (Inr a)))) \<longleftrightarrow>
    (\<exists>pfx. own_prefix E t q pfx \<and> chain_extends E t pfx a)"
proof -
  let ?c = "ctx_at t q"
  define same where "same p \<longleftrightarrow> 32 \<le> length p
        \<and> (if \<forall>b \<in> set (take 32 p). b = 0
           then p = origin_data
             \<and> (\<exists>oid. tread t (PathToInputIDs @ [a ! 32]) = Inr oid \<and> take 32 a = Sum256 E oid)
           else take 32 a = take 32 p)" for p
  define mode where "mode \<longleftrightarrow> 35 \<le> length a \<and>
    (\<exists>u. constraint_at t PathToUnlockParams (a ! 32) (a ! 33) u \<and> 2 < length u \<and> u ! 2 = a ! 34)"
  have idr: "chainID E r = Inr v \<longleftrightarrow> (\<exists>x. r = Inr x \<and> 32 \<le> length x \<and> v = take 32 x)" for r v
    by (auto simp: chainID_def slice_Inr [OF assms] sub_bytes_def)
  have zero: "tv (fl E B_isZero [chainID E (Inr p)]) = Some b \<longleftrightarrow>
      32 \<le> length p \<and> b = (\<forall>b \<in> set (take 32 p). b = 0)" for p b
  proof (cases "chainID E (Inr p)")
    case (Inl e)
    then have "\<not> 32 \<le> length p" using idr [of "Inr p" "take 32 p"] by auto
    then show ?thesis using Inl by (simp add: fl_strict(1) [OF assms] strict_builtin_def)
  next
    case (Inr v)
    then show ?thesis using idr [of "Inr p" v] by (auto simp: fl_compare [OF assms])
  qed
  have m: "(\<exists>x. transitionMode E (Inr a) = Inr x \<and>
      fl E B_byte [unlockParamsByConstraintIndex E ?c (predecessorConstraintIndex E (Inr a)), Inr [2]] = Inr x)
      \<longleftrightarrow> mode"
    by (auto simp: mode_def chain_parts [OF assms] byte_Inr [OF assms]
        unlockParamsByConstraintIndex_Inr [OF assms])
  have p: "holds (validPredecessorData E ?c (Inr a) r) \<longleftrightarrow> mode \<and> (\<exists>p. r = Inr p \<and> same p)" for r
  proof (cases r)
    case (Inl e)
    have "chainID E (Inl e) \<noteq> Inr v" for v using idr by simp
    then obtain e' where "chainID E (Inl e) = Inl e'" by (cases "chainID E (Inl e)") auto
    then have "tv (fl E B_isZero [chainID E r]) = None"
      using Inl by (simp add: fl_strict(1) [OF assms] strict_builtin_def)
    then show ?thesis
      using Inl by (simp add: validPredecessorData_def and_holds [OF assms] if_holds [OF assms])
  next
    case (Inr p)
    have "32 \<le> length a" if mode using that by (simp add: mode_def)
    moreover have "32 < length a" if mode using that by (simp add: mode_def)
    ultimately show ?thesis
      using Inr
      by (cases "\<forall>b \<in> set (take 32 p). b = 0")
        (auto simp: validPredecessorData_def and_holds [OF assms] if_holds [OF assms] m zero same_def
          equal_holds [OF assms] idr chain_parts(4) [OF assms] origin_data_def blake_Inr [OF assms]
          predecessorInputID_Inr [OF assms])
  qed
  show ?thesis
    unfolding p chainPredecessorData_Inr [OF assms] chain_extends_def same_def [symmetric]
    by (auto simp: mode_def)
qed

lemma chain_produced:
  assumes "easyfl_laws E"
  shows "holds (fl_chain E (ctx_at t (produced_path i j)) (Inr a)) \<longleftrightarrow>
    i \<noteq> 255 \<and> 32 \<le> length a \<and>
    (if \<forall>b \<in> set (take 32 a). b = 0 then a = origin_data
     else \<exists>pfx. own_prefix E t (produced_path i j) pfx \<and> chain_extends E t pfx a)"
proof -
  note self = self_produced [OF assms refl, of t i j]
  let ?c = "ctx_at t (produced_path i j)"
  have idx: "holds (fl E B_not [fl E B_equal [Inr [i], Inr [255]]]) \<longleftrightarrow> i \<noteq> 255"
    by (simp add: holds_def fl_logic [OF assms] fl_compare [OF assms])
  have cons: "tv (fl E B_and [selfIsConsumedOutput E ?c, x]) = Some False" for x
    by (simp add: fl_logic [OF assms] self)
  have prod: "holds (selfIsProducedOutput E ?c)" "\<not> holds (selfIsConsumedOutput E ?c)"
    by (simp_all add: holds_def self)
  show ?thesis
  proof (cases "32 \<le> length a")
    case False
    then have "\<nexists>v. chainID E (Inr a) = Inr v" by (simp add: chain_parts [OF assms])
    then obtain e where "chainID E (Inr a) = Inl e" by (cases "chainID E (Inr a)") auto
    then have "tv (fl E B_isZero [chainID E (Inr a)]) = None"
      by (simp add: fl_strict(1) [OF assms] strict_builtin_def)
    then have "\<not> holds (fl_chain E ?c (Inr a))"
      by (simp add: fl_chain_def and_holds [OF assms] holds_def [of "fl E B_or _"] fl_logic [OF assms])
    with False show ?thesis by simp
  next
    case True
    then have id: "chainID E (Inr a) = Inr (take 32 a)" by (simp add: chain_parts [OF assms])
    show ?thesis
    proof (cases "\<forall>b \<in> set (take 32 a). b = 0")
      case zero: True
      have "fl E B_if [fl E B_and [fl E B_isZero [chainID E (Inr a)], selfIsProducedOutput E ?c], x, y] = x" for x y
        by (rule fl_if(1) [OF assms]) (use zero in \<open>simp add: fl_logic [OF assms] id fl_compare [OF assms] self\<close>)
      moreover have "tv (fl E B_or [fl E B_equal [Inr a, originChainData E], fl E B_fail []])
          = (if a = origin_data then Some True else None)"
        by (simp add: fl_logic [OF assms] fl_compare [OF assms] chain_parts(4) [OF assms] origin_data_def)
      moreover have "tv (fl E B_equal [Inr a, originChainData E]) = Some (a = origin_data)"
        by (simp add: fl_compare [OF assms] chain_parts(4) [OF assms] origin_data_def)
      ultimately show ?thesis
        using True zero
        by (auto simp: fl_chain_def and_holds [OF assms] or_holds [OF assms] self idx
            holds_def [of "fl E B_equal [Inr a, originChainData E]"] fail_never_holds [OF assms] split: if_splits)
    next
      case nz: False
      have "fl E B_if [fl E B_and [fl E B_isZero [chainID E (Inr a)], selfIsProducedOutput E ?c], x, y] = y" for x y
        by (rule fl_if(2) [OF assms]) (use nz in \<open>auto simp: fl_logic [OF assms] id fl_compare [OF assms] self split: bool.split\<close>)
      then show ?thesis
        using True nz validPredecessor_holds [OF assms, of t "produced_path i j" a]
        by (auto simp: fl_chain_def and_holds [OF assms] or_holds [OF assms] self idx cons prod
            fl_logic(5) [OF assms] holds_def [of "Inr []"] fail_never_holds [OF assms])
    qed
  qed
qed

text \<open>
  C29 (chain_never_merges): two chain constraints that are consumed in one transaction and not
  destroyed have different successors. The successor names its predecessor, so one produced chain
  constraint continues at most one consumed one.
\<close>

theorem chain_never_merges:
  assumes "easyfl_laws E"
    "holds (fl_chain E (ctx_at t (consumed_path i j)) (Inr a))"
    "holds (fl_chain E (ctx_at t (consumed_path i' j')) (Inr a'))"
    "tread t (PathToUnlockParams @ [i, j]) = Inr u" "u \<noteq> [255, 255, 255]"
    "tread t (PathToUnlockParams @ [i', j']) = Inr u'" "u' \<noteq> [255, 255, 255]"
    "take 2 u = take 2 u'"
  shows "i = i' \<and> j = j'"
proof -
  have c: "chain_continues E t i j a (u ! 0) (u ! 1)" "chain_continues E t i' j' a' (u' ! 0) (u' ! 1)"
    "2 \<le> length u" "2 \<le> length u'"
    using assms(2-7) by (auto simp: chain_consumed [OF assms(1)])
  have "u ! k = u' ! k" if "k < 2" for k
    using assms(8) c(3,4) that by (metis nth_take)
  then have "u ! 0 = u' ! 0" "u ! 1 = u' ! 1" by simp_all
  with c(1,2) obtain pfx code s pfx' code' s' where s:
    "constraint_at t PathToProducedOutputs (u ! 0) (u ! 1) code" "chain_data_of E pfx code s"
    "successor_of i j a s"
    "constraint_at t PathToProducedOutputs (u ! 0) (u ! 1) code'" "chain_data_of E pfx' code' s'"
    "successor_of i' j' a' s'"
    unfolding chain_continues_def by auto
  then have "code = code'" using constraint_at_unique by blast
  with s(2,5) have "s = s'" using chain_data_of_unique by blast
  with s(3,6) show ?thesis by (simp add: successor_of_def)
qed

text \<open>
  On the produced side nothing ties a chain constraint to the successor that
  the consumed side designates. If the constraint holds on one produced output, an exact copy of it
  holds on any other produced output (except number 255) of the transaction, so the script lets a
  chain continue in two outputs at once.
\<close>

theorem chain_fork_accepted:
  assumes "easyfl_laws E" "holds (fl_chain E (ctx_at t (produced_path i j)) (Inr a))"
    "tread t (produced_path i j) = tread t (produced_path i' j')" "i' \<noteq> 255"
  shows "holds (fl_chain E (ctx_at t (produced_path i' j')) (Inr a))"
  using assms(2-4) by (simp add: chain_produced [OF assms(1)] own_prefix_def split: if_splits)

text \<open>
  C30 (chain_produced_enforced): exactly when the chain constraint holds on a produced output (never
  number 255). With a zero identity its data are those of an origin. Otherwise bytes 32 and 33 name a
  consumed constraint of the same function; that one carries the same identity, or is an origin and
  the identity is the hash of its output id; and byte 34 repeats the transition mode, byte 2 of the
  unlock parameters of that consumed constraint. Nothing is asked of bytes 0 and 1 of these unlock
  parameters: the predecessor need not point back at the constraint (see \<open>chain_fork_accepted\<close>).
\<close>

theorem chain_produced_enforced:
  assumes "easyfl_laws E"
  shows "holds (fl_chain E (ctx_at t (produced_path i j)) (Inr a)) \<longleftrightarrow>
    i \<noteq> 255 \<and> 32 \<le> length a \<and>
    (if \<forall>b \<in> set (take 32 a). b = 0 then a = origin_data
     else 35 \<le> length a \<and>
       (\<exists>pfx code p u. own_prefix E t (produced_path i j) pfx
          \<and> constraint_at t PathToConsumedOutputs (a ! 32) (a ! 33) code \<and> chain_data_of E pfx code p
          \<and> 32 \<le> length p
          \<and> (if \<forall>b \<in> set (take 32 p). b = 0
             then p = origin_data
               \<and> (\<exists>oid. tread t (PathToInputIDs @ [a ! 32]) = Inr oid \<and> take 32 a = Sum256 E oid)
             else take 32 a = take 32 p)
          \<and> constraint_at t PathToUnlockParams (a ! 32) (a ! 33) u \<and> 2 < length u \<and> u ! 2 = a ! 34))"
  unfolding chain_produced [OF assms] chain_extends_def by (intro conj_cong if_cong refl) blast

section \<open>chainLock\<close>

definition referenced_chain_id :: "easyfl \<Rightarrow> tree \<Rightarrow> byte \<Rightarrow> byte \<Rightarrow> bytes \<Rightarrow> bool" where
  \<comment> \<open>the consumed chain constraint at \<open>(k, l)\<close> has identity \<open>cid\<close>; an origin has the hash of its output id\<close>
  "referenced_chain_id E t k l cid \<longleftrightarrow>
     (\<exists>code d. constraint_at t PathToConsumedOutputs k l code \<and> chain_data_of E (PrefixOf E ''chain'') code d
        \<and> 32 \<le> length d
        \<and> (if \<forall>b \<in> set (take 32 d). b = 0
           then \<exists>oid. tread t (PathToInputIDs @ [k]) = Inr oid \<and> cid = Sum256 E oid
           else cid = take 32 d))"

text \<open>The parts of the chain lock script, at a consumed output.\<close>

lemma referenced_data_Inr:
  assumes "easyfl_laws E"
  shows "selfReferencedChainData E (ctx_at t (consumed_path i j)) = Inr d \<longleftrightarrow>
    (\<exists>u code. tread t (PathToUnlockParams @ [i, j]) = Inr u \<and> 2 \<le> length u
      \<and> constraint_at t PathToConsumedOutputs (u ! 0) (u ! 1) code \<and> chain_data_of E (PrefixOf E ''chain'') code d)"
  by (auto simp: selfReferencedChainData_def parseArg_Inr [OF assms] consumedConstraintByIndex_Inr [OF assms]
      self_consumed [OF assms refl, of t i j] chain_data_of_def)

lemma adjusted_id_Inr:
  assumes "easyfl_laws E"
  shows "selfReferencedChainIDAdjusted E (ctx_at t (consumed_path i j)) (Inr v) = Inr x \<longleftrightarrow>
    (if \<forall>b \<in> set v. b = 0
     then \<exists>u oid. tread t (PathToUnlockParams @ [i, j]) = Inr u \<and> 0 < length u
       \<and> tread t (PathToInputIDs @ [u ! 0]) = Inr oid \<and> x = Sum256 E oid
     else x = v)"
proof (cases "\<forall>b \<in> set v. b = 0")
  case True
  let ?c = "ctx_at t (consumed_path i j)"
  have "selfReferencedChainIDAdjusted E ?c (Inr v)
      = fl E B_blake2b [inputIDByIndex E ?c (fl E B_byte [selfUnlockParameters E ?c, Inr [0]])]"
    unfolding selfReferencedChainIDAdjusted_def
    by (intro fl_if(1) [OF assms]) (simp add: True fl_compare [OF assms])
  then show ?thesis
    using True by (auto simp: self_consumed [OF assms refl, of t i j] blake_Inr [OF assms] inputIDByIndex_def
        evalAtPath_Inr_iff concat_Inr [OF assms] byte_Inr [OF assms])
next
  case False
  then have "selfReferencedChainIDAdjusted E (ctx_at t (consumed_path i j)) (Inr v) = Inr v"
    unfolding selfReferencedChainIDAdjusted_def
    by (intro fl_if(2) [OF assms]) (auto simp: fl_compare [OF assms])
  then show ?thesis using False by auto
qed

lemma adjusted_id_Inl:
  assumes "easyfl_laws E"
  obtains e' where "selfReferencedChainIDAdjusted E c (Inl e) = Inl e'"
proof -
  have "\<exists>e'. selfReferencedChainIDAdjusted E c (Inl e) = Inl e'"
    by (simp add: selfReferencedChainIDAdjusted_def flip: tv_None_iff)
      (simp add: fl_logic [OF assms] fl_strict(1) [OF assms] strict_builtin_def)
  then show thesis using that by blast
qed

lemma referenced_id_Inr:
  assumes "easyfl_laws E"
  shows "selfReferencedChainIDAdjusted E (ctx_at t (consumed_path i j))
      (fl E B_slice [selfReferencedChainData E (ctx_at t (consumed_path i j)), Inr [0], Inr [31]]) = Inr cid
    \<longleftrightarrow> (\<exists>u. tread t (PathToUnlockParams @ [i, j]) = Inr u \<and> 2 \<le> length u
      \<and> referenced_chain_id E t (u ! 0) (u ! 1) cid)"
proof -
  let ?d = "selfReferencedChainData E (ctx_at t (consumed_path i j))"
  have cut: "fl E B_slice [?d, Inr [0], Inr [31]] = Inr v \<longleftrightarrow> (\<exists>d. ?d = Inr d \<and> 32 \<le> length d \<and> v = take 32 d)" for v
    by (auto simp: slice_Inr [OF assms] sub_bytes_def)
  note data = referenced_data_Inr [OF assms, of t i j]
  show ?thesis
  proof (cases "fl E B_slice [?d, Inr [0], Inr [31]]")
    case (Inl e)
    then have no: "\<nexists>d. ?d = Inr d \<and> 32 \<le> length d" using cut by fastforce
    obtain e' where "selfReferencedChainIDAdjusted E (ctx_at t (consumed_path i j)) (Inl e) = Inl e'"
      by (rule adjusted_id_Inl [OF assms])
    with Inl no show ?thesis unfolding data referenced_chain_id_def by auto
  next
    case (Inr v)
    then obtain d where d: "?d = Inr d" "32 \<le> length d" "v = take 32 d" using cut by blast
    then obtain u code where u: "tread t (PathToUnlockParams @ [i, j]) = Inr u" "2 \<le> length u"
      "constraint_at t PathToConsumedOutputs (u ! 0) (u ! 1) code" "chain_data_of E (PrefixOf E ''chain'') code d"
      using data by blast
    have "referenced_chain_id E t (u ! 0) (u ! 1) cid \<longleftrightarrow>
      (if \<forall>b \<in> set (take 32 d). b = 0
       then \<exists>oid. tread t (PathToInputIDs @ [u ! 0]) = Inr oid \<and> cid = Sum256 E oid else cid = take 32 d)"
      using u(3,4) d(2) constraint_at_unique [OF u(3)] chain_data_of_unique [OF u(4)]
      unfolding referenced_chain_id_def by fast
    moreover have "0 < length u" using u(2) by linarith
    ultimately show ?thesis using Inr d u(1,2) by (simp add: adjusted_id_Inr [OF assms])
  qed
qed

lemma other_index_holds:
  assumes "easyfl_laws E"
  shows "holds (fl E B_not [fl E B_equal [Inr [i], fl E B_byte [r, Inr [0]]]]) \<longleftrightarrow>
    (\<exists>u. r = Inr u \<and> 0 < length u \<and> u ! 0 \<noteq> i)"
proof (cases "fl E B_byte [r, Inr [0]]")
  case (Inl e)
  then have "\<nexists>u. r = Inr u \<and> 0 < length u" using byte_Inr [OF assms, of r 0] by fastforce
  then show ?thesis
    using Inl by (auto simp: holds_def fl_logic [OF assms] fl_strict(1) [OF assms] strict_builtin_def)
next
  case (Inr v)
  then show ?thesis
    using byte_Inr [OF assms, of r 0 v] by (auto simp: holds_def fl_logic [OF assms] fl_compare [OF assms])
qed

lemma chainLock_consumed:
  assumes "easyfl_laws E"
  shows "holds (fl_chainLock E (ctx_at t (consumed_path i j)) (Inr cid)) \<longleftrightarrow>
    j = 2 \<and> (\<exists>u p. tread t (PathToUnlockParams @ [i, j]) = Inr u \<and> 2 \<le> length u \<and> u ! 0 \<noteq> i
      \<and> referenced_chain_id E t (u ! 0) (u ! 1) cid
      \<and> constraint_at t PathToUnlockParams (u ! 0) (u ! 1) p \<and> 2 < length p \<and> p ! 2 = 0)"
proof -
  note self = self_consumed [OF assms refl, of t i j]
  let ?c = "ctx_at t (consumed_path i j)"
  let ?u = "tread t (PathToUnlockParams @ [i, j])"
  have mode: "fl E B_byte [unlockParamsByConstraintIndex E ?c ?u, Inr [2]] = Inr [0] \<longleftrightarrow>
      (\<exists>u p. ?u = Inr u \<and> 2 \<le> length u \<and> constraint_at t PathToUnlockParams (u ! 0) (u ! 1) p \<and> 2 < length p \<and> p ! 2 = 0)"
    by (auto simp: byte_Inr [OF assms] unlockParamsByConstraintIndex_Inr [OF assms])
  have prod: "tv (fl E B_and [selfIsProducedOutput E ?c, x]) = Some False"
    "\<not> holds (fl E B_and [selfIsProducedOutput E ?c, x])" for x
    by (simp_all add: holds_def fl_logic [OF assms] self)
  have cons: "holds (selfIsConsumedOutput E ?c)" "\<not> holds (selfIsProducedOutput E ?c)"
    by (simp_all add: holds_def self)
  have "holds (fl_chainLock E ?c (Inr cid)) \<longleftrightarrow> j = 2 \<and>
      (\<exists>u. ?u = Inr u \<and> 0 < length u \<and> u ! 0 \<noteq> i) \<and>
      (\<exists>u. ?u = Inr u \<and> 2 \<le> length u \<and> referenced_chain_id E t (u ! 0) (u ! 1) cid) \<and>
      (\<exists>u p. ?u = Inr u \<and> 2 \<le> length u \<and> constraint_at t PathToUnlockParams (u ! 0) (u ! 1) p \<and> 2 < length p \<and> p ! 2 = 0)"
    unfolding fl_chainLock_def and_holds [OF assms] or_holds [OF assms] validChainUnlock_def
    by (simp add: and_holds [OF assms] or_holds [OF assms] prod cons self other_index_holds [OF assms]
        equal_holds [OF assms] referenced_id_Inr [OF assms] mode)
  then show ?thesis by auto
qed

text \<open>
  C31 (chain_lock_enforced): a consumed output under a chain lock is unlocked only together with
  another consumed output that carries the chain constraint of that very chain, and only when that
  chain makes a state transition (mode 0).
\<close>

theorem chain_lock_enforced:
  assumes "easyfl_laws E"
  shows "holds (fl_chainLock E (ctx_at t (consumed_path i j)) (Inr cid)) \<longleftrightarrow>
    j = 2 \<and> (\<exists>u p. tread t (PathToUnlockParams @ [i, j]) = Inr u \<and> 2 \<le> length u \<and> u ! 0 \<noteq> i
      \<and> referenced_chain_id E t (u ! 0) (u ! 1) cid
      \<and> constraint_at t PathToUnlockParams (u ! 0) (u ! 1) p \<and> 2 < length p \<and> p ! 2 = 0)"
  by (rule chainLock_consumed [OF assms])

section \<open>royaltiesED25519, immutable, commitToSibling\<close>

lemma lessOrEqual_holds:
  assumes "easyfl_laws E"
  shows "holds (fl E B_lessOrEqualThan [a, b]) \<longleftrightarrow>
    (\<exists>x y. a = Inr x \<and> b = Inr y \<and> length x = length y \<and> be_val x \<le> be_val y)"
proof (cases "tv (fl E B_lessOrEqualThan [a, b])")
  case None
  then show ?thesis by (auto simp: holds_def fl_compare [OF assms])
next
  case (Some v)
  then have "\<exists>x. a = Inr x" "\<exists>y. b = Inr y"
    using fl_strict_tv [OF assms, of B_lessOrEqualThan "[a, b]"] by (simp_all add: strict_builtin_def)
  then show ?thesis by (auto simp: holds_def fl_compare [OF assms] split: if_splits)
qed

lemma fail_false [simp]: "easyfl_laws E \<Longrightarrow> tv (fl E B_fail []) \<noteq> Some b"
  by (simp add: fl_logic)

text \<open>
  A consumed output with royalties is unlocked only when the transaction
  produces an output, named in the unlock parameters, whose lock is the given one and whose amount is
  at least the given amount.
\<close>

theorem royalties_enforced:
  assumes "easyfl_laws E"
  shows "holds (fl_royaltiesED25519 E (ctx_at t (consumed_path i j)) (Inr lock) (Inr amt)) \<longleftrightarrow>
    (\<exists>u out acode x. tread t (PathToUnlockParams @ [i, j]) = Inr u
      \<and> tread t (PathToProducedOutputs @ u) = Inr out \<and> array8_at out 2 = Inr lock
      \<and> array8_at out 0 = Inr acode \<and> chain_data_of E (PrefixOf E ''amount'') acode x
      \<and> length x = length amt \<and> be_val amt \<le> be_val x)"
proof -
  note self = self_consumed [OF assms refl, of t i j]
  let ?c = "ctx_at t (consumed_path i j)"
  have prod: "tv (selfIsProducedOutput E ?c) = Some False" "\<not> holds (selfIsProducedOutput E ?c)"
    "holds (selfIsConsumedOutput E ?c)"
    by (simp_all add: holds_def self)
  have out: "producedOutputByIndex E ?c (tread t (PathToUnlockParams @ [i, j])) = Inr v \<longleftrightarrow>
    (\<exists>u. tread t (PathToUnlockParams @ [i, j]) = Inr u \<and> tread t (PathToProducedOutputs @ u) = Inr v)" for v
    by (auto simp: producedOutputByIndex_def producedOutputPathByIndex_def evalAtPath_Inr_iff concat_Inr [OF assms])
  show ?thesis
    by (auto simp: fl_royaltiesED25519_def and_holds [OF assms] or_holds [OF assms] prod self equal_holds [OF assms]
        lessOrEqual_holds [OF assms] lockConstraint_def amountValue_def lockBlockIndex_def amountBlockIndex_def
        evalAtArray8_Inr_iff parseArg_Inr [OF assms] out chain_data_of_def ConstraintIndex_defs
        fail_never_holds [OF assms])
qed

text \<open>
  A produced output that commits to a sibling names a produced output
  of the same transaction whose hash is exactly the one it carries.
\<close>

theorem commit_to_sibling_enforced:
  assumes "easyfl_laws E"
  shows "holds (fl_commitToSibling E (ctx_at t (produced_path i j)) (Inr k) (Inr h)) \<longleftrightarrow>
    (\<exists>out. tread t (PathToProducedOutputs @ k) = Inr out \<and> h = Sum256 E out)"
proof -
  note self = self_produced [OF assms refl, of t i j]
  let ?c = "ctx_at t (produced_path i j)"
  have cons: "tv (fl E B_and [selfIsConsumedOutput E ?c, x]) = Some False" for x
    by (simp add: fl_logic [OF assms] self)
  have prod: "holds (selfIsProducedOutput E ?c)" "\<not> holds (selfIsConsumedOutput E ?c)"
    by (simp_all add: holds_def self)
  show ?thesis
    by (auto simp: fl_commitToSibling_def and_holds [OF assms] or_holds [OF assms] cons prod equal_holds [OF assms]
        blake_Inr [OF assms] producedOutputByIndex_def producedOutputPathByIndex_def evalAtPath_Inr_iff
        concat_Inr [OF assms] fail_never_holds [OF assms])
qed

lemma ex_image2: "(\<exists>x. (\<exists>a b. P a b \<and> x = f a b) \<and> Q x) \<longleftrightarrow> (\<exists>a b. P a b \<and> Q (f a b))"
  by blast

text \<open>The parts of the immutable script, at a consumed output.\<close>

lemma sibling_Inr:
  assumes "easyfl_laws E"
  shows "selfSiblingConstraint E (ctx_at t (consumed_path i j)) (Inr [k]) = Inr v \<longleftrightarrow>
      constraint_at t PathToConsumedOutputs i k v"
    and "selfSiblingConstraint E (ctx_at t (produced_path i j)) (Inr [k]) = Inr v \<longleftrightarrow>
      constraint_at t PathToProducedOutputs i k v"
    and "selfSiblingUnlockBlock E (ctx_at t (consumed_path i j)) (Inr [k]) = Inr v \<longleftrightarrow>
      constraint_at t PathToUnlockParams i k v"
  using self_consumed [OF assms refl, of t i j] self_produced [OF assms refl, of t i j]
  by (auto simp: selfSiblingConstraint_def selfSiblingUnlockBlock_def evalAtPath_tread evalAtArray8_Inr_iff
      fl_concat [OF assms] constraint_at_def path_defs)

lemma pair_bytes:
  assumes "easyfl_laws E"
  shows "fl E B_byte [Inr [x, y], Inr [0]] = Inr [x]" "fl E B_byte [Inr [x, y], Inr [1]] = Inr [y]"
  by (simp_all add: fl_bytes [OF assms])

lemma immutable_successor_Inr:
  assumes "easyfl_laws E"
  shows "immutable_successor E (ctx_at t (consumed_path i j)) (Inr [cidx, didx]) k = Inr v \<longleftrightarrow>
    (\<exists>cu u. constraint_at t PathToUnlockParams i cidx cu \<and> 0 < length cu
      \<and> tread t (PathToUnlockParams @ [i, j]) = Inr u \<and> unat k < length u
      \<and> constraint_at t PathToProducedOutputs (cu ! 0) (u ! unat k) v)"
proof -
  let ?c = "ctx_at t (consumed_path i j)"
  have idx: "fl E B_concat [fl E B_byte [selfSiblingUnlockBlock E ?c (Inr [cidx]), Inr [0]],
      fl E B_byte [tread t (PathToUnlockParams @ [i, j]), Inr [k]]] = Inr x
    \<longleftrightarrow> (\<exists>cu u. (constraint_at t PathToUnlockParams i cidx cu \<and> 0 < length cu
        \<and> tread t (PathToUnlockParams @ [i, j]) = Inr u \<and> unat k < length u) \<and> x = [cu ! 0, u ! unat k])" for k x
    by (auto simp: concat_Inr [OF assms] byte_Inr [OF assms] sibling_Inr [OF assms])
  show ?thesis
    unfolding immutable_successor_def producedConstraintByIndex_Inr [OF assms] pair_bytes [OF assms]
      self_consumed [OF assms refl, of t i j] idx ex_image2 by simp
qed

lemma immutable_same_holds:
  assumes "easyfl_laws E"
  shows "holds (fl E B_equal [selfSiblingConstraint E (ctx_at t (consumed_path i j)) (Inr [didx]),
      immutable_successor E (ctx_at t (consumed_path i j)) (Inr [cidx, didx]) 0]) \<longleftrightarrow>
    (\<exists>u cu block. tread t (PathToUnlockParams @ [i, j]) = Inr u \<and> 0 < length u
      \<and> constraint_at t PathToUnlockParams i cidx cu \<and> 0 < length cu
      \<and> constraint_at t PathToConsumedOutputs i didx block
      \<and> constraint_at t PathToProducedOutputs (cu ! 0) (u ! 0) block)"
  by (auto simp: equal_holds [OF assms] sibling_Inr [OF assms] immutable_successor_Inr [OF assms])

lemma immutable_next_holds:
  assumes "easyfl_laws E"
  shows "holds (fl E B_equal
       [fl E B_parseBytecodeArg [immutable_successor E (ctx_at t (consumed_path i j)) (Inr [cidx, didx]) 1,
          selfBytecodePrefix E (ctx_at t (consumed_path i j)), Inr [0]],
        fl E B_concat [fl E B_byte [selfSiblingUnlockBlock E (ctx_at t (consumed_path i j)) (Inr [cidx]), Inr [1]],
          fl E B_byte [tread t (PathToUnlockParams @ [i, j]), Inr [0]]]]) \<longleftrightarrow>
    (\<exists>u cu pfx code. tread t (PathToUnlockParams @ [i, j]) = Inr u \<and> 1 < length u
      \<and> constraint_at t PathToUnlockParams i cidx cu
      \<and> 1 < length cu \<and> constraint_at t PathToProducedOutputs (cu ! 0) (u ! 1) code
      \<and> own_prefix E t (consumed_path i j) pfx \<and> chain_data_of E pfx code [cu ! 1, u ! 0])"
  (is "holds (fl E B_equal [?arg, ?pair]) \<longleftrightarrow> ?R")
proof -
  let ?u = "tread t (PathToUnlockParams @ [i, j])"
  have arg: "?arg = Inr v \<longleftrightarrow> (\<exists>cu u pfx code. constraint_at t PathToUnlockParams i cidx cu \<and> 0 < length cu
      \<and> ?u = Inr u \<and> 1 < length u \<and> constraint_at t PathToProducedOutputs (cu ! 0) (u ! 1) code
      \<and> own_prefix E t (consumed_path i j) pfx \<and> chain_data_of E pfx code v)" for v
    unfolding parseArg_Inr [OF assms] selfBytecodePrefix_Inr [OF assms] immutable_successor_Inr [OF assms] chain_data_of_def
    by (auto; blast)
  have pair: "?pair = Inr v \<longleftrightarrow> (\<exists>cu u. constraint_at t PathToUnlockParams i cidx cu \<and> 1 < length cu \<and> ?u = Inr u
      \<and> 0 < length u \<and> v = [cu ! 1, u ! 0])" for v
    by (auto simp: concat_Inr [OF assms] byte_Inr [OF assms] sibling_Inr [OF assms])
  show ?thesis
    unfolding equal_holds [OF assms] arg pair
  proof
    assume "\<exists>v. (\<exists>cu u pfx code. constraint_at t PathToUnlockParams i cidx cu \<and> 0 < length cu \<and> ?u = Inr u
          \<and> 1 < length u \<and> constraint_at t PathToProducedOutputs (cu ! 0) (u ! 1) code
          \<and> own_prefix E t (consumed_path i j) pfx \<and> chain_data_of E pfx code v)
        \<and> (\<exists>cu u. constraint_at t PathToUnlockParams i cidx cu \<and> 1 < length cu \<and> ?u = Inr u \<and> 0 < length u
          \<and> v = [cu ! 1, u ! 0])"
    then show ?R by (elim exE conjE) (auto dest: constraint_at_unique)
  next
    assume ?R
    then obtain u cu pfx code where h: "?u = Inr u" "1 < length u" "constraint_at t PathToUnlockParams i cidx cu"
      "1 < length cu" "constraint_at t PathToProducedOutputs (cu ! 0) (u ! 1) code"
      "own_prefix E t (consumed_path i j) pfx" "chain_data_of E pfx code [cu ! 1, u ! 0]"
      by blast
    then have "0 < length u" "0 < length cu" by linarith+
    with h show "\<exists>v. (\<exists>cu u pfx code. constraint_at t PathToUnlockParams i cidx cu \<and> 0 < length cu \<and> ?u = Inr u
          \<and> 1 < length u \<and> constraint_at t PathToProducedOutputs (cu ! 0) (u ! 1) code
          \<and> own_prefix E t (consumed_path i j) pfx \<and> chain_data_of E pfx code v)
        \<and> (\<exists>cu u. constraint_at t PathToUnlockParams i cidx cu \<and> 1 < length cu \<and> ?u = Inr u \<and> 0 < length u
          \<and> v = [cu ! 1, u ! 0])"
      by blast
  qed
qed

lemma immutable_consumed:
  assumes "easyfl_laws E"
  shows "holds (fl_immutable E (ctx_at t (consumed_path i j)) (Inr [cidx, didx])) \<longleftrightarrow>
    (\<exists>u cu block pfx code. tread t (PathToUnlockParams @ [i, j]) = Inr u \<and> 2 \<le> length u
    \<and> constraint_at t PathToUnlockParams i cidx cu \<and> 2 \<le> length cu
    \<and> constraint_at t PathToConsumedOutputs i didx block
    \<and> constraint_at t PathToProducedOutputs (cu ! 0) (u ! 0) block
    \<and> constraint_at t PathToProducedOutputs (cu ! 0) (u ! 1) code
    \<and> own_prefix E t (consumed_path i j) pfx \<and> chain_data_of E pfx code [cu ! 1, u ! 0])"
  (is "_ \<longleftrightarrow> ?R")
proof -
  let ?c = "ctx_at t (consumed_path i j)" and ?u = "tread t (PathToUnlockParams @ [i, j])"
  note self = self_consumed [OF assms refl, of t i j]
  have cons: "tv (fl E B_and (selfIsProducedOutput E ?c # rs)) = Some False" "holds (selfIsConsumedOutput E ?c)"
    "\<not> holds (selfIsProducedOutput E ?c)" for rs
    by (simp_all add: holds_def self fl_logic [OF assms])
  have "holds (fl_immutable E ?c (Inr [cidx, didx])) \<longleftrightarrow>
      holds (fl E B_equal [selfSiblingConstraint E ?c (Inr [didx]), immutable_successor E ?c (Inr [cidx, didx]) 0])
      \<and> holds (fl E B_equal
       [fl E B_parseBytecodeArg [immutable_successor E ?c (Inr [cidx, didx]) 1, selfBytecodePrefix E ?c, Inr [0]],
        fl E B_concat [fl E B_byte [selfSiblingUnlockBlock E ?c (Inr [cidx]), Inr [1]],
          fl E B_byte [tread t (PathToUnlockParams @ [i, j]), Inr [0]]]])"
    by (auto simp: fl_immutable_def and_holds [OF assms] or_holds [OF assms] cons pair_bytes [OF assms] self
        fail_never_holds [OF assms])
  also have "\<dots> \<longleftrightarrow> ?R" (is "?same \<and> ?next \<longleftrightarrow> _")
  proof
    assume both: "?same \<and> ?next"
    obtain u cu block where s: "?u = Inr u" "constraint_at t PathToUnlockParams i cidx cu"
      "constraint_at t PathToConsumedOutputs i didx block" "constraint_at t PathToProducedOutputs (cu ! 0) (u ! 0) block"
      using both unfolding immutable_same_holds [OF assms] by blast
    obtain u' cu' pfx code where n: "?u = Inr u'" "1 < length u'" "constraint_at t PathToUnlockParams i cidx cu'"
      "1 < length cu'" "constraint_at t PathToProducedOutputs (cu' ! 0) (u' ! 1) code"
      "own_prefix E t (consumed_path i j) pfx" "chain_data_of E pfx code [cu' ! 1, u' ! 0]"
      using both unfolding immutable_next_holds [OF assms] by blast
    have "cu' = cu" "u' = u" using s(1,2) n(1,3) constraint_at_unique by auto
    moreover have "2 \<le> length u'" "2 \<le> length cu'" using n(2,4) by linarith+
    ultimately show ?R using s n by blast
  next
    assume ?R
    then obtain u cu block pfx code where h: "?u = Inr u" "2 \<le> length u" "constraint_at t PathToUnlockParams i cidx cu"
      "2 \<le> length cu" "constraint_at t PathToConsumedOutputs i didx block"
      "constraint_at t PathToProducedOutputs (cu ! 0) (u ! 0) block"
      "constraint_at t PathToProducedOutputs (cu ! 0) (u ! 1) code" "own_prefix E t (consumed_path i j) pfx"
      "chain_data_of E pfx code [cu ! 1, u ! 0]"
      by blast
    then have "0 < length u" "0 < length cu" "1 < length u" "1 < length cu" by linarith+
    with h show "?same \<and> ?next"
      unfolding immutable_same_holds [OF assms] immutable_next_holds [OF assms] by blast
  qed
  finally show ?thesis .
qed

lemma immutable_produced:
  assumes "easyfl_laws E" "constraint_at t PathToProducedOutputs i cidx code"
    "ParseBytecodePrefix E code = Inr (PrefixOf E ''chain'')" "constraint_at t PathToProducedOutputs i didx d" "d \<noteq> []"
  shows "holds (fl_immutable E (ctx_at t (produced_path i j)) (Inr [cidx, didx]))"
proof -
  have "selfSiblingConstraint E (ctx_at t (produced_path i j)) (Inr [cidx]) = Inr code"
    "selfSiblingConstraint E (ctx_at t (produced_path i j)) (Inr [didx]) = Inr d"
    using assms(2,4) sibling_Inr(2) [OF assms(1)] by blast+
  then show ?thesis
    using self_produced(5) [OF assms(1) refl, of t i j] assms(3,5)
    by (auto simp: fl_immutable_def and_holds [OF assms(1)] or_holds [OF assms(1)] pair_bytes [OF assms(1)]
        fl_parse [OF assms(1)] equal_holds [OF assms(1)] holds_def [of "selfIsProducedOutput _ _"] holds_def [of "Inr _"])
qed

text \<open>
  C32 (immutable_enforced): a consumed output with an immutable block is unlocked exactly when the successor
  of its chain repeats the block byte for byte and carries the immutability constraint on, pointing at
  the chain constraint and at the repeated block.
\<close>

theorem immutable_enforced:
  assumes "easyfl_laws E"
  shows "holds (fl_immutable E (ctx_at t (consumed_path i j)) (Inr [cidx, didx])) \<longleftrightarrow>
    (\<exists>u cu block pfx code. tread t (PathToUnlockParams @ [i, j]) = Inr u \<and> 2 \<le> length u
    \<and> constraint_at t PathToUnlockParams i cidx cu \<and> 2 \<le> length cu
    \<and> constraint_at t PathToConsumedOutputs i didx block
    \<and> constraint_at t PathToProducedOutputs (cu ! 0) (u ! 0) block
    \<and> constraint_at t PathToProducedOutputs (cu ! 0) (u ! 1) code
    \<and> own_prefix E t (consumed_path i j) pfx \<and> chain_data_of E pfx code [cu ! 1, u ! 0])"
  by (rule immutable_consumed [OF assms])

section \<open>Accepting locks\<close>

lemma address_produced:
  assumes "easyfl_laws E" "length a = 32"
  shows "holds (fl_addressED25519 E (ctx_at t (produced_path i 2)) (Inr a))"
proof -
  note self = self_produced [OF assms(1) refl, of t i 2]
  have "fl E B_len8 [Inr a] = Inr [32]" using len8_value [OF assms(1), of 32 a] assms(2) by simp
  then have "holds (fl E B_and [selfIsProducedOutput E (ctx_at t (produced_path i 2)), fl E B_equal [fl E B_len8 [Inr a], Inr [32]]])"
    by (simp add: and_holds [OF assms(1)] equal_holds [OF assms(1)] self holds_def [of "selfIsProducedOutput _ _"])
  then show ?thesis
    by (simp add: fl_addressED25519_def and_holds [OF assms(1)] or_holds [OF assms(1)] equal_holds [OF assms(1)] self)
qed

lemma chainLock_produced:
  assumes "easyfl_laws E" "length a = 32"
  shows "holds (fl_chainLock E (ctx_at t (produced_path i 2)) (Inr a))"
proof -
  note self = self_produced [OF assms(1) refl, of t i 2]
  have "fl E B_len8 [Inr a] = Inr [32]" using len8_value [OF assms(1), of 32 a] assms(2) by simp
  then have "holds (fl E B_and [selfIsProducedOutput E (ctx_at t (produced_path i 2)), fl E B_equal [fl E B_len8 [Inr a], Inr [32]]])"
    by (simp add: and_holds [OF assms(1)] equal_holds [OF assms(1)] self holds_def [of "selfIsProducedOutput _ _"])
  then show ?thesis
    by (simp add: fl_chainLock_def and_holds [OF assms(1)] or_holds [OF assms(1)] equal_holds [OF assms(1)] self)
qed

lemma be_val_single: "be_val [b] = unat b"
  using be_val_snoc [of "[]" b] by simp

lemma address_consumedI:
  assumes "easyfl_laws E"
    "holds (unlockedByReference E (ctx_at t (consumed_path i 2)))
     \<or> tv (unlockedByReference E (ctx_at t (consumed_path i 2))) = Some False
       \<and> holds (unlockedWithSigED25519 E (ctx_at t (consumed_path i 2)) (Inr a)
            (signatureED25519 E (txSignature (ctx_at t (consumed_path i 2))))
            (publicKeyED25519 E (txSignature (ctx_at t (consumed_path i 2)))))"
  shows "holds (fl_addressED25519 E (ctx_at t (consumed_path i 2)) (Inr a))"
proof -
  note self = self_consumed [OF assms(1) refl, of t i 2]
  have prod: "tv (fl E B_and [selfIsProducedOutput E (ctx_at t (consumed_path i 2)), x]) = Some False" for x
    by (simp add: fl_logic [OF assms(1)] self)
  have cons: "holds (selfIsConsumedOutput E (ctx_at t (consumed_path i 2)))"
    by (simp add: holds_def self)
  show ?thesis
    using assms(2) cons
    by (auto simp: fl_addressED25519_def and_holds [OF assms(1)] or_holds [OF assms(1)] equal_holds [OF assms(1)]
        self prod)
qed

lemma address_signed:
  assumes "easyfl_laws E" "signed_by E t a" "tread t (PathToUnlockParams @ [i, 2]) = Inr [255]"
  shows "holds (fl_addressED25519 E (ctx_at t (consumed_path i 2)) (Inr a))"
proof (rule address_consumedI [OF assms(1)], rule disjI2, intro conjI)
  note self = self_consumed [OF assms(1) refl, of t i 2]
  have "unat i < 256" by (rule unat_byte_less)
  then have "\<not> 255 < unat i" by linarith
  then have "\<not> unat (255 :: byte) < unat i" by (simp del: unat_byte_less)
  then have "tv (fl E B_lessThan [tread t (PathToUnlockParams @ [i, 2]), Inr [i]]) = Some False"
    using assms(3) by (simp add: less_holds [OF assms(1)] be_val_single)
  then show "tv (unlockedByReference E (ctx_at t (consumed_path i 2))) = Some False"
    by (simp add: unlockedByReference_def self fl_logic [OF assms(1)])
  obtain ess sig where s: "essence t = Inr ess" "tread t PathToSignature = Inr sig" "96 \<le> length sig"
    "a = Sum256 E (sub_bytes 64 95 sig)" "VerifyED25519 E (sub_bytes 64 95 sig) ess (sub_bytes 0 63 sig)"
    using assms(2) unfolding signed_by_def by blast
  have "txEssenceBytes E (ctx_at t (consumed_path i 2)) = Inr ess"
    using txEssence_value [OF assms(1)] s(1) by simp
  moreover have "signatureED25519 E (Inr sig) = Inr (sub_bytes 0 63 sig)"
    "publicKeyED25519 E (Inr sig) = Inr (sub_bytes 64 95 sig)"
    using s(3) by (simp_all add: signatureED25519_def publicKeyED25519_def fl_bytes [OF assms(1)])
  ultimately show "holds (unlockedWithSigED25519 E (ctx_at t (consumed_path i 2)) (Inr a)
            (signatureED25519 E (txSignature (ctx_at t (consumed_path i 2))))
            (publicKeyED25519 E (txSignature (ctx_at t (consumed_path i 2)))))"
    using s(2,4,5)
    by (simp add: unlockedWithSigED25519_def and_holds [OF assms(1)] equal_holds [OF assms(1)] tx_reads
        fl_crypto(2,3) [OF assms(1)])
qed

lemma address_referenced:
  assumes "easyfl_laws E" "tread t (PathToUnlockParams @ [i, 2]) = Inr [k]" "k < i"
    "tread t (consumed_path i 2) = Inr d" "constraint_at t PathToConsumedOutputs k 2 d"
  shows "holds (fl_addressED25519 E (ctx_at t (consumed_path i 2)) (Inr a))"
proof (rule address_consumedI [OF assms(1)], rule disjI1)
  note self = self_consumed [OF assms(1) refl, of t i 2]
  have "holds (fl E B_lessThan [Inr [k], Inr [i]])"
    using assms(3) by (simp add: holds_def less_holds [OF assms(1)] be_val_single word_less_nat_alt)
  moreover have "consumedLockByOutputIndex E (ctx_at t (consumed_path i 2)) (Inr [k]) = Inr d"
    using assms(5) unfolding consumedLockByOutputIndex_def consumedConstraintByIndex_Inr [OF assms(1)]
    by (simp add: lockBlockIndex_def fl_concat [OF assms(1)] ConstraintIndexLock_def)
  ultimately show "holds (unlockedByReference E (ctx_at t (consumed_path i 2)))"
    using assms(2,4)
    by (simp add: unlockedByReference_def and_holds [OF assms(1)] self tx_reads equal_holds [OF assms(1)])
qed

end
