(* ===== verification/Transaction.thy ===== *)
theory Transaction
  imports ScriptProps
begin

text \<open>
  \<^verbatim>\<open>ledger/common.go\<close> (transaction and output ids), \<^verbatim>\<open>ledger/state/tx.go\<close> (the transferable transaction
  and what can be checked of it without its context) and \<^verbatim>\<open>ledger/state/txcontext.go\<close> (the validation
  context: the transaction together with the outputs it consumes). A fixed-size Go array is a byte
  list of that length; \<^verbatim>\<open>StateReadAccess.GetUTXO\<close> is a function \<open>getUTXO\<close> to an option.

  The accessors read the tree through \<open>tread\<close> and \<open>tree_elements\<close>, without keeping the cache that a
  read leaves behind: by \<open>LazyTree.tree_reads_refine\<close> the cache never changes an answer.
\<close>

section \<open>Identifiers (common.go)\<close>

type_synonym TransactionID = bytes
type_synonym OutputID = bytes

definition TransactionIDLength :: nat where "TransactionIDLength = 32"
definition OutputIDLength :: nat where "OutputIDLength = TransactionIDLength + 1"

definition GenesisOutputID :: OutputID where "GenesisOutputID = replicate OutputIDLength 0"

record OutputDataWithID =
  od_ID :: OutputID
  od_OutputData :: bytes

definition TransactionIDFromBytes :: "bytes \<Rightarrow> TransactionID res" where
  "TransactionIDFromBytes data =
     (if length data \<noteq> TransactionIDLength then Inl (Error Wrong_data_length) else Inr data)"

definition NewOutputID :: "TransactionID \<Rightarrow> byte \<Rightarrow> OutputID" where
  "NewOutputID txid idx = txid @ [idx]"

definition OutputIDFromBytes :: "bytes \<Rightarrow> OutputID res" where
  "OutputIDFromBytes data =
     (if length data \<noteq> OutputIDLength then Inl (Error Wrong_data_length) else Inr data)"

definition OutputID_TransactionID :: "OutputID \<Rightarrow> TransactionID" where
  "OutputID_TransactionID oid = take TransactionIDLength oid"

definition OutputID_Index :: "OutputID \<Rightarrow> byte" where
  "OutputID_Index oid = oid ! TransactionIDLength"

lemmas id_lengths = TransactionIDLength_def OutputIDLength_def

lemma OutputIDFromBytes_Inr [simp]: "OutputIDFromBytes d = Inr oid \<longleftrightarrow> d = oid \<and> length d = 33"
  by (auto simp: OutputIDFromBytes_def id_lengths)

lemma NewOutputID_inject:
  "length t = length t' \<Longrightarrow> NewOutputID t i = NewOutputID t' i' \<longleftrightarrow> t = t' \<and> i = i'"
  by (auto simp: NewOutputID_def)

lemma NewOutputID_parts:
  "length t = 32 \<Longrightarrow> OutputID_TransactionID (NewOutputID t i) = t \<and> OutputID_Index (NewOutputID t i) = i
    \<and> length (NewOutputID t i) = 33"
  by (simp add: NewOutputID_def OutputID_TransactionID_def OutputID_Index_def id_lengths nth_append)

section \<open>The transferable transaction (tx.go)\<close>

record Transaction =
  tx_tree :: tree
  tx_txid :: TransactionID

definition num_at :: "tree \<Rightarrow> path \<Rightarrow> nat res" where
  "num_at t p = fst (tree_NumElements p t)"

definition elems_at :: "tree \<Rightarrow> path \<Rightarrow> bytes list res" where
  "elems_at t p = fst (tree_elements p t)"

definition MustForEachInput :: "Transaction \<Rightarrow> (OutputID \<Rightarrow> 's \<Rightarrow> 's res) \<Rightarrow> 's \<Rightarrow> 's res" where
  "MustForEachInput tx f s =
     rbind (elems_at (tx_tree tx) [TxInputIDs])
       (\<lambda>ds. rfold (\<lambda>d s. rbind (as_panic (OutputIDFromBytes d)) (\<lambda>oid. f oid s)) ds s)"

definition MustForEachEndorsement :: "Transaction \<Rightarrow> (TransactionID \<Rightarrow> 's \<Rightarrow> 's res) \<Rightarrow> 's \<Rightarrow> 's res" where
  "MustForEachEndorsement tx f s =
     rbind (elems_at (tx_tree tx) [TxEndorsements])
       (\<lambda>ds. rfold (\<lambda>d s. rbind (as_panic (TransactionIDFromBytes d)) (\<lambda>txid. f txid s)) ds s)"

definition see_once :: "fault \<Rightarrow> bytes \<Rightarrow> bytes set \<Rightarrow> bytes set res" where
  \<comment> \<open>the callbacks that fill \<open>inps\<close> and \<open>endorsements\<close>\<close>
  "see_once f x seen = rbind (guard (x \<notin> seen) (Panic f)) (\<lambda>_. Inr (insert x seen))"

definition MustTransactionFromTransferableBytes :: "easyfl \<Rightarrow> bytes \<Rightarrow> Transaction res" where
  "MustTransactionFromTransferableBytes E txbytes =
     (let ret = \<lparr>tx_tree = TreeFromBytes txbytes, tx_txid = Sum256 E txbytes\<rparr> in
      rbind (num_at (tx_tree ret) [TxOutputs]) (\<lambda>n.
      rbind (guard (n > 0) (Panic No_outputs)) (\<lambda>_.
      rbind (num_at (tx_tree ret) [TxInputIDs]) (\<lambda>n.
      rbind (guard (n > 0) (Panic No_inputs)) (\<lambda>_.
      rbind (num_at (tx_tree ret) [TxEndorsements]) (\<lambda>n.
      rbind (guard (n > MaxNumberOfEndorsements) (Panic Endorsement_limit)) (\<lambda>_.
      rbind (MustForEachInput ret (see_once Repeating_input) {}) (\<lambda>_.
      rbind (MustForEachEndorsement ret (see_once Repeating_endorsement) {}) (\<lambda>_.
      Inr ret)))))))))"

definition MustForEachConsumedTransactionID :: "Transaction \<Rightarrow> TransactionID list res" where
  \<comment> \<open>the ids handed to the callback: unique, in the order of appearance\<close>
  "MustForEachConsumedTransactionID tx =
     MustForEachInput tx (\<lambda>oid acc. let txid = OutputID_TransactionID oid in
       Inr (if txid \<in> set acc then acc else acc @ [txid])) []"

definition FetchConsumedOutputs :: "(OutputID \<Rightarrow> bytes option) \<Rightarrow> Transaction \<Rightarrow> bytes list res" where
  "FetchConsumedOutputs getUTXO tx =
     rbind (num_at (tx_tree tx) [TxInputIDs]) (\<lambda>_.
     MustForEachInput tx (\<lambda>oid ret. case getUTXO oid of
         None \<Rightarrow> Inl (Error Input_not_found) | Some d \<Rightarrow> Inr (ret @ [d])) [])"

section \<open>The validation context (txcontext.go)\<close>

record TransactionContext =
  tc_tree :: tree
  tc_txid :: TransactionID

definition consume_input :: "(OutputID \<Rightarrow> bytes option) \<Rightarrow> bytes \<Rightarrow> bytes set \<times> array \<Rightarrow> (bytes set \<times> array) res" where
  \<comment> \<open>the loop body over the input ids: \<open>(ids, consumedOutputsArray)\<close>\<close>
  "consume_input getUTXO data s =
     (case s of (ids, consumed) \<Rightarrow>
      rbind (OutputIDFromBytes data) (\<lambda>oid.
      if data \<in> ids then Inl (Error Repeating_input)
      else (case getUTXO oid of
              None \<Rightarrow> Inl (Error Input_not_found)
            | Some od \<Rightarrow> (case Push od consumed of
                 (Inl e, _) \<Rightarrow> Inl e
               | (Inr _, consumed') \<Rightarrow> Inr (insert data ids, consumed')))))"

definition MakeArray :: "bytes list \<Rightarrow> array res" where
  \<comment> \<open>\<open>MakeArray\<close> on elements that were already turned into bytes\<close>
  "MakeArray ds = (case MakeArrayFromData ds of (Inl e, _) \<Rightarrow> Inl e | (Inr _, a) \<Rightarrow> Inr a)"

definition array_bytes :: "array \<Rightarrow> bytes res" where
  "array_bytes a = fst (Bytes a)"

definition TransactionContextFromTransferableBytes ::
    "easyfl \<Rightarrow> (OutputID \<Rightarrow> bytes option) \<Rightarrow> bytes \<Rightarrow> TransactionContext res" where
  "TransactionContextFromTransferableBytes E getUTXO txbytes =
     rbind (fst (At (unat TxInputIDs) (ArrayFromBytesMax txbytes (unat TxTreeIndexMax)))) (\<lambda>idsBin.
     rbind (fst (Parsed (ArrayFromBytesMax idsBin 256))) (\<lambda>inputIDs.
     rbind (rfold (consume_input getUTXO) inputIDs ({}, EmptyArrayMax 256)) (\<lambda>(_, consumed).
     rbind (array_bytes consumed) (\<lambda>consumedBin.
     rbind (MakeArray [consumedBin]) (\<lambda>consumedBranch.
     rbind (array_bytes consumedBranch) (\<lambda>consumedBranchBin.
     rbind (MakeArray [txbytes, consumedBranchBin]) (\<lambda>ctx.
     Inr \<lparr>tc_tree = AsTree ctx, tc_txid = Sum256 E txbytes\<rparr>)))))))"

definition tc_InputIDs :: "TransactionContext \<Rightarrow> OutputID list res" where
  "tc_InputIDs v =
     rbind (elems_at (tc_tree v) PathToInputIDs) (rmapM (\<lambda>d. as_panic (OutputIDFromBytes d)))"

definition ConsumedOutputData :: "TransactionContext \<Rightarrow> byte \<Rightarrow> bytes res" where
  "ConsumedOutputData v idx = tread (tc_tree v) (PathToConsumedOutputs @ [idx])"

definition UnlockData :: "TransactionContext \<Rightarrow> byte \<Rightarrow> bytes res" where
  "UnlockData v idx = tread (tc_tree v) (PathToUnlockParams @ [idx])"

definition ProducedOutputData :: "TransactionContext \<Rightarrow> byte \<Rightarrow> bytes res" where
  "ProducedOutputData v idx = tread (tc_tree v) (PathToProducedOutputs @ [idx])"

definition NumProducedOutputs :: "TransactionContext \<Rightarrow> nat res" where
  "NumProducedOutputs v = num_at (tc_tree v) [TransactionBranch, TxOutputs]"

definition NumInputs :: "TransactionContext \<Rightarrow> nat res" where
  "NumInputs v = num_at (tc_tree v) [TransactionBranch, TxInputIDs]"

definition InputID :: "TransactionContext \<Rightarrow> byte \<Rightarrow> OutputID res" where
  "InputID v idx =
     rbind (tread (tc_tree v) (PathToInputIDs @ [idx])) (\<lambda>data. as_panic (OutputIDFromBytes data))"

definition InputCommitment :: "TransactionContext \<Rightarrow> bytes res" where
  "InputCommitment v = tread (tc_tree v) PathToInputCommitment"

definition Signature :: "TransactionContext \<Rightarrow> bytes res" where
  "Signature v = tread (tc_tree v) PathToSignature"

definition TimestampData :: "TransactionContext \<Rightarrow> (bytes \<times> 32 word) res" where
  "TimestampData v =
     rmap (\<lambda>ret. (ret, if length ret = 4 then get_u32 ret else 0)) (tread (tc_tree v) PathToTimestamp)"

section \<open>Reading a tree without its cache\<close>

lemma rmap_inj: "inj f \<Longrightarrow> rmap f r = rmap f r' \<longleftrightarrow> r = r'"
  by (cases r; cases r') (auto dest: injD)

lemma reads_tree:
  assumes "tree_inv t"
  shows "tread t p = tree_at t p" and "elems_at t p = tree_elements_at t p"
    and "num_at t p = rmap length (tree_elements_at t p)"
proof -
  have "rmap Out_data (tread t p) = rmap Out_data (tree_at t p)"
    using tree_read_spec(1) [OF assms, of "Rq_bytes p"] by (simp add: tread_def split: prod.splits)
  then show "tread t p = tree_at t p" by (simp add: rmap_inj inj_def)
  have "rmap Out_elems (elems_at t p) = rmap Out_elems (tree_elements_at t p)"
    using tree_read_spec(1) [OF assms, of "Rq_elems p"] by (simp add: elems_at_def split: prod.splits)
  then show "elems_at t p = tree_elements_at t p" by (simp add: rmap_inj inj_def)
  have "rmap Out_num (num_at t p) = rmap Out_num (rmap length (tree_elements_at t p))"
    using tree_read_spec(1) [OF assms, of "Rq_num p"]
    by (simp add: num_at_def rmap_def rbind_assoc split: prod.splits)
  then show "num_at t p = rmap length (tree_elements_at t p)" by (simp add: rmap_inj inj_def)
qed

lemma bytes_at_snoc: "bytes_at xs (p @ [i]) = rbind (elements_at xs p) (\<lambda>ys. nth_res ys (unat i))"
proof (induction p arbitrary: xs)
  case Nil
  then show ?case by simp
next
  case (Cons j q)
  obtain k r where q: "q @ [i] = k # r" by (cases "q @ [i]") auto
  show ?case using Cons.IH by (simp add: q rbind_assoc)
qed

lemma tree_at_snoc: "tree_at t (p @ [i]) = rbind (tree_elements_at t p) (\<lambda>ys. nth_res ys (unat i))"
  by (simp add: tree_at_def tree_elements_at_def bytes_at_snoc rbind_assoc)

lemma elements_at_snoc:
  "elements_at xs (p @ [i]) = rbind (rbind (elements_at xs p) (\<lambda>ys. nth_res ys (unat i))) parse_node"
  by (induction p arbitrary: xs) (simp_all add: rbind_assoc)

lemma tree_elements_at_snoc: "tree_elements_at t (p @ [i]) = rbind (tree_at t (p @ [i])) parse_node"
  by (simp add: tree_elements_at_def elements_at_snoc tree_at_snoc rbind_assoc)

text \<open>One constraint, read by path or through the array of its output.\<close>

lemma parse_node_256: "parse_node d = Inr xs \<longleftrightarrow> parseArray d 256 = Inr xs"
  by (simp add: parse_node_def MaxElementsLazyTree_def)

lemma array8_at_parsed:
  assumes "parseArray d 256 = Inr xs"
  shows "array8_at d k = nth_res xs k"
proof -
  have "parseArray d maxArrayLen = Inr xs"
    using parseArray_max_mono [OF assms, of maxArrayLen] by (simp add: maxArrayLen_eq)
  then show ?thesis by (simp add: array8_at_def At_eq ArrayFromBytes_def)
qed

lemma constraint_by_path:
  assumes "tree_inv t" "tread t (b @ [i]) = Inr out" "parseArray out 256 = Inr xs"
  shows "tread t (b @ [i, j]) = nth_res xs (unat j)"
    and "constraint_at t b i j code \<longleftrightarrow> unat j < length xs \<and> xs ! unat j = code"
proof -
  have "tread t ((b @ [i]) @ [j]) = nth_res xs (unat j)"
    using assms(2,3) unfolding reads_tree [OF assms(1)] tree_at_snoc [of t "b @ [i]"] tree_elements_at_snoc
    by (simp add: parse_node_def MaxElementsLazyTree_def)
  then show "tread t (b @ [i, j]) = nth_res xs (unat j)" by simp
  show "constraint_at t b i j code \<longleftrightarrow> unat j < length xs \<and> xs ! unat j = code"
    using assms(2) by (simp add: constraint_at_def array8_at_parsed [OF assms(3)])
qed

section \<open>What the context holds\<close>

definition context_of :: "TransactionContext \<Rightarrow> bytes \<Rightarrow> OutputID list \<Rightarrow> bytes list \<Rightarrow> bool" where
  \<comment> \<open>\<open>v\<close> is the context of the transaction \<open>txb\<close> with inputs \<open>ids\<close>, which stand for the outputs \<open>outs\<close>\<close>
  "context_of v txb ids outs \<longleftrightarrow>
     tree_inv (tc_tree v) \<and>
     tread (tc_tree v) [TransactionBranch] = Inr txb \<and>
     elems_at (tc_tree v) PathToInputIDs = Inr ids \<and>
     elems_at (tc_tree v) PathToConsumedOutputs = Inr outs \<and>
     length outs = length ids \<and> length ids \<le> 256 \<and>
     distinct ids \<and> (\<forall>oid \<in> set ids. length oid = 33)"

lemma consume_inputs:
  assumes "rfold (consume_input getUTXO) ds s = Inr t" "s = (set seen, a)" "arr_inv a" "arr_view a = Inr outs"
    "distinct seen" "map getUTXO seen = map Some outs" "\<forall>oid \<in> set seen. length oid = 33"
  shows "\<exists>a'. t = (set (seen @ ds), a') \<and> arr_inv a'
    \<and> (\<exists>outs'. arr_view a' = Inr outs' \<and> map getUTXO (seen @ ds) = map Some outs')
    \<and> distinct (seen @ ds) \<and> (\<forall>oid \<in> set (seen @ ds). length oid = 33)"
  using assms
proof (induction ds arbitrary: s seen a outs)
  case Nil
  then show ?case by auto
next
  case (Cons d ds)
  obtain u where u: "consume_input getUTXO d s = Inr u" "rfold (consume_input getUTXO) ds u = Inr t"
    using Cons.prems(1) by auto
  obtain od i a' where od: "length d = 33" "d \<notin> set seen" "getUTXO d = Some od" "Push od a = (Inr i, a')"
    "u = (insert d (set seen), a')"
    using u(1) Cons.prems(2)
    by (auto simp: consume_input_def split: if_splits option.splits prod.splits sum.splits)
  have a': "arr_inv a'" "arr_view a' = Inr (outs @ [od])"
    using od(4) Cons.prems(3,4)
    by (auto simp: Push_def ensureParsed_eq arr_inv_def arr_view_written split: if_splits)
  show ?case
    using Cons.IH [OF u(2), of "seen @ [d]" a' "outs @ [od]"] od a' Cons.prems(5-7) by simp
qed

lemma MakeArray_Inr:
  assumes "MakeArray ds = Inr a"
  shows "arr_inv a \<and> arr_view a = Inr ds"
  using assms MakeArrayFromData_ok [of ds] by (auto simp: MakeArray_def)

lemma array_bytes_Inr:
  assumes "arr_inv a" "arr_view a = Inr xs" "array_bytes a = Inr b" "length xs \<le> n"
  shows "parseArray b n = Inr xs"
proof -
  obtain a' where "Bytes a = (Inr b, a')" using assms(3) by (cases "Bytes a") (simp add: array_bytes_def)
  then have "parseArray b maxArrayLen = Inr xs" using Bytes_ok [OF assms(1)] assms(2) by blast
  then show ?thesis by (rule parseArray_lower_max) (rule assms(4))
qed

lemma AsTree_simps [simp]: "tree_sa (AsTree a) = a" "tree_subtrees (AsTree a) = []"
  by (simp_all add: AsTree_def)

lemma context_from_bytes:
  assumes "TransactionContextFromTransferableBytes E getUTXO txb = Inr v"
  shows "\<exists>ids outs. context_of v txb ids outs \<and> map getUTXO ids = map Some outs \<and> tc_txid v = Sum256 E txb"
proof -
  obtain idsBin ids seen consumed cbin branch bbin ctx where s:
    "fst (At (unat TxInputIDs) (ArrayFromBytesMax txb (unat TxTreeIndexMax))) = Inr idsBin"
    "fst (Parsed (ArrayFromBytesMax idsBin 256)) = Inr ids"
    "rfold (consume_input getUTXO) ids ({}, EmptyArrayMax 256) = Inr (seen, consumed)"
    "array_bytes consumed = Inr cbin" "MakeArray [cbin] = Inr branch" "array_bytes branch = Inr bbin"
    "MakeArray [txb, bbin] = Inr ctx" "v = \<lparr>tc_tree = AsTree ctx, tc_txid = Sum256 E txb\<rparr>"
    using assms by (auto simp: TransactionContextFromTransferableBytes_def split: prod.splits)
  obtain parts where parts: "parseArray txb 8 = Inr parts" "1 < length parts" "parts ! 1 = idsBin"
    using s(1) by (auto simp: At_eq path_defs)
  have ids: "parseArray idsBin 256 = Inr ids"
    using s(2) by (simp add: Parsed_def ensureParsed_eq)
  then have len: "length ids \<le> 256" using parseArray_length by blast
  obtain outs where outs: "arr_inv consumed" "arr_view consumed = Inr outs" "map getUTXO ids = map Some outs"
    "distinct ids" "\<forall>oid \<in> set ids. length oid = 33"
    using consume_inputs [OF s(3), of "[]" "EmptyArrayMax 256" "[]"] by auto
  then have lo: "length outs = length ids" by (metis length_map)
  have b: "arr_inv branch" "arr_view branch = Inr [cbin]" using MakeArray_Inr [OF s(5)] by simp_all
  have c: "arr_inv ctx" "arr_view ctx = Inr [txb, bbin]" using MakeArray_Inr [OF s(7)] by simp_all
  have p: "parse_node cbin = Inr outs" "parse_node bbin = Inr [cbin]"
    using array_bytes_Inr [OF outs(1,2) s(4), of 256] array_bytes_Inr [OF b s(6), of 256] len lo
    by (simp_all add: parse_node_256)
  have q: "parse_node txb = Inr parts" "parse_node idsBin = Inr ids"
    using parseArray_max_mono [OF parts(1), of 256] ids by (simp_all add: parse_node_256)
  have inv: "tree_inv (AsTree ctx)" using c(1) by simp
  have "context_of v txb ids outs"
    using inv c(2) p q parts(2,3) outs(4,5) lo len s(8)
    by (simp add: context_of_def reads_tree [OF inv] tree_at_def tree_elements_at_def path_defs)
  then show ?thesis using outs(3) s(8) by auto
qed

text \<open>
  C20 (context_holds_consumed): a context is built only for a transaction whose input ids are well-formed,
  pairwise different and all present in the state, and it holds exactly the transaction and, in the
  order of its inputs, the outputs the state has for them.
\<close>

theorem context_holds_consumed:
  assumes "TransactionContextFromTransferableBytes E getUTXO txb = Inr v"
  shows "\<exists>ids outs. elems_at (tc_tree v) PathToInputIDs = Inr ids \<and> distinct ids
    \<and> (\<forall>oid \<in> set ids. length oid = OutputIDLength)
    \<and> map getUTXO ids = map Some outs
    \<and> elems_at (tc_tree v) PathToConsumedOutputs = Inr outs
    \<and> tread (tc_tree v) [TransactionBranch] = Inr txb \<and> tc_txid v = Sum256 E txb"
  using context_from_bytes [OF assms] by (auto simp: context_of_def id_lengths)

text \<open>
  C36 (endorsement_check_inverted): \<^verbatim>\<open>MustTransactionFromTransferableBytes\<close> refuses every transaction that
  keeps to the limit of \<open>MaxNumberOfEndorsements\<close>, also those without any endorsement: the assertion
  that should bound their number from above is written the wrong way round.
\<close>

theorem endorsement_check_inverted:
  assumes "elems_at (TreeFromBytes txb) [TxEndorsements] = Inr es" "length es \<le> MaxNumberOfEndorsements"
  shows "\<nexists>tx. MustTransactionFromTransferableBytes E txb = Inr tx"
proof
  assume "\<exists>tx. MustTransactionFromTransferableBytes E txb = Inr tx"
  then have "\<exists>n. num_at (TreeFromBytes txb) [TxEndorsements] = Inr n \<and> n > MaxNumberOfEndorsements"
    by (auto simp: MustTransactionFromTransferableBytes_def Let_def)
  then show False using assms by (auto simp: reads_tree)
qed

end
