(* ===== verification/Indexer.thy ===== *)
theory Indexer
  imports Transaction
begin

text \<open>
  \<^verbatim>\<open>ledger/indexer/indexer.go\<close>: the index of outputs by account and by chain, kept in a key/value
  store. The store (\<^verbatim>\<open>IndexerStore\<close>, implemented in package unitrie) is a parameter \<open>K\<close>; \<open>kv_laws\<close> says
  what the indexer relies on. The mutex only orders calls and is not modelled.
\<close>

section \<open>The store\<close>

record 's kv_store =
  kv_Get :: "'s \<Rightarrow> bytes \<Rightarrow> bytes"
  kv_Iterate :: "'s \<Rightarrow> bytes \<Rightarrow> (bytes \<times> bytes) list"
  kv_Commit :: "(bytes \<times> bytes) list \<Rightarrow> 's \<Rightarrow> unit res \<times> 's"

text \<open>
  A batched writer collects \<^verbatim>\<open>Set(k, v)\<close> calls; \<open>kv_Commit\<close> applies them in order. An empty value
  deletes the key, and an absent key reads as the empty value.
\<close>

fun apply_writes :: "(bytes \<times> bytes) list \<Rightarrow> (bytes \<Rightarrow> bytes) \<Rightarrow> bytes \<Rightarrow> bytes" where
  "apply_writes [] f = f"
| "apply_writes ((k, v) # ws) f = apply_writes ws (f(k := v))"

definition is_prefix :: "bytes \<Rightarrow> bytes \<Rightarrow> bool" where
  "is_prefix p k \<longleftrightarrow> take (length p) k = p"

definition kv_laws :: "'s kv_store \<Rightarrow> bool" where
  "kv_laws K \<longleftrightarrow>
     (\<forall>ws s s'. kv_Commit K ws s = (Inr (), s') \<longrightarrow> kv_Get K s' = apply_writes ws (kv_Get K s)) \<and>
     (\<forall>s p. set (kv_Iterate K s p) = {(k, v). is_prefix p k \<and> v = kv_Get K s k \<and> v \<noteq> []}) \<and>
     (\<forall>s p. distinct (map fst (kv_Iterate K s p)))"

section \<open>Commands\<close>

type_synonym Partition = byte

definition PartitionAccount :: Partition where "PartitionAccount = 0"
definition PartitionChainID :: Partition where "PartitionChainID = 1"

record Command =
  cmd_ID :: bytes
  cmd_OutputID :: OutputID
  cmd_Delete :: bool
  cmd_Partition :: Partition

definition run_command :: "Command \<Rightarrow> (bytes \<times> bytes) res" where
  \<comment> \<open>the key and value that \<open>run\<close> sets\<close>
  "run_command cmd =
     (if length (cmd_ID cmd) > 255 then Inl (Error ID_too_long)
      else if cmd_Partition cmd = PartitionAccount then
        Inr ([PartitionAccount, of_nat (length (cmd_ID cmd))] @ cmd_ID cmd @ cmd_OutputID cmd,
             if cmd_Delete cmd then [] else [255])
      else if cmd_Partition cmd = PartitionChainID then
        (if length (cmd_ID cmd) \<noteq> 32 then Inl (Error Wrong_data_length)
         else Inr (PartitionChainID # cmd_ID cmd, if cmd_Delete cmd then [] else cmd_OutputID cmd))
      else Inl (Error Unsupported_partition))"

definition indexer_Update :: "'s kv_store \<Rightarrow> Command list \<Rightarrow> (unit, 's) op" where
  "indexer_Update K commands s =
     (case rmapM run_command commands of
        Inl e \<Rightarrow> (Inl e, s)
      | Inr ws \<Rightarrow> kv_Commit K ws s)"

definition InitIndexer :: "easyfl \<Rightarrow> 's kv_store \<Rightarrow> AddressED25519 \<Rightarrow> (unit, 's) op" where
  "InitIndexer E K genesisAddress s =
     (case AddressED25519_Bytes E genesisAddress of
        Inl e \<Rightarrow> (Inl e, s)
      | Inr addrBytes \<Rightarrow>
          (case kv_Commit K [([PartitionAccount, of_nat (length addrBytes)] @ addrBytes @ GenesisOutputID, [255])] s of
             (r, s') \<Rightarrow> (as_panic r, s')))"

section \<open>Queries\<close>

definition GetUTXOsLockedInAccount ::
    "easyfl \<Rightarrow> 's kv_store \<Rightarrow> Accountable \<Rightarrow> (OutputID \<Rightarrow> bytes option) \<Rightarrow> 's \<Rightarrow> OutputDataWithID list res" where
  "GetUTXOsLockedInAccount E K addr getUTXO s =
     rbind (AccountID E addr) (\<lambda>acc.
     if length acc > 255 then Inl (Error ID_too_long)
     else let accountPrefix = [PartitionAccount, of_nat (length acc)] @ acc in
       rfold (\<lambda>(k, _) ret.
           rbind (OutputIDFromBytes (drop (length accountPrefix) k)) (\<lambda>oid.
           case getUTXO oid of
             None \<Rightarrow> Inr ret
           | Some d \<Rightarrow> Inr (ret @ [\<lparr>od_ID = oid, od_OutputData = d\<rparr>])))
         (kv_Iterate K s accountPrefix) [])"

definition GetUTXOForChainID ::
    "'s kv_store \<Rightarrow> bytes \<Rightarrow> (OutputID \<Rightarrow> bytes option) \<Rightarrow> 's \<Rightarrow> OutputDataWithID res" where
  "GetUTXOForChainID K cid getUTXO s =
     (if length cid \<noteq> 32 then Inl (Error Wrong_data_length)
      else let outID = kv_Get K s (PartitionChainID # cid) in
        if outID = [] then Inl (Error Not_indexed)
        else rbind (OutputIDFromBytes outID) (\<lambda>oid.
          case getUTXO oid of
            None \<Rightarrow> Inl (Error Output_not_found)
          | Some d \<Rightarrow> Inr \<lparr>od_ID = oid, od_OutputData = d\<rparr>))"

section \<open>The index as a relation\<close>

text \<open>
  The specification: a set of pairs of account and output, and a map from chain to output. The keys
  are prefixed by the length of the account, so that an account never sees the keys of another one.
\<close>

definition account_key :: "bytes \<Rightarrow> OutputID \<Rightarrow> bytes" where
  "account_key acc oid = [PartitionAccount, of_nat (length acc)] @ acc @ oid"

definition accounts_of :: "(bytes \<Rightarrow> bytes) \<Rightarrow> (bytes \<times> OutputID) set" where
  "accounts_of f = {(acc, oid). length acc \<le> 255 \<and> length oid = 33 \<and> f (account_key acc oid) \<noteq> []}"

definition chains_of :: "(bytes \<Rightarrow> bytes) \<Rightarrow> bytes \<Rightarrow> OutputID option" where
  "chains_of f = (\<lambda>cid. if length cid = 32 \<and> f (PartitionChainID # cid) \<noteq> []
     then Some (f (PartitionChainID # cid)) else None)"

definition account_index :: "'s kv_store \<Rightarrow> 's \<Rightarrow> (bytes \<times> OutputID) set" where
  "account_index K s = accounts_of (kv_Get K s)"

definition chain_index :: "'s kv_store \<Rightarrow> 's \<Rightarrow> bytes \<Rightarrow> OutputID option" where
  "chain_index K s = chains_of (kv_Get K s)"

definition account_step :: "Command \<Rightarrow> (bytes \<times> OutputID) set \<Rightarrow> (bytes \<times> OutputID) set" where
  "account_step cmd X =
     (if cmd_Partition cmd \<noteq> PartitionAccount then X
      else if cmd_Delete cmd then X - {(cmd_ID cmd, cmd_OutputID cmd)}
      else insert (cmd_ID cmd, cmd_OutputID cmd) X)"

definition chain_step :: "Command \<Rightarrow> (bytes \<Rightarrow> OutputID option) \<Rightarrow> bytes \<Rightarrow> OutputID option" where
  "chain_step cmd m =
     (if cmd_Partition cmd \<noteq> PartitionChainID then m
      else m(cmd_ID cmd := if cmd_Delete cmd then None else Some (cmd_OutputID cmd)))"

lemma account_key_inject:
  assumes "length acc \<le> 255" "length acc' \<le> 255" "length oid = length oid'"
  shows "account_key acc oid = account_key acc' oid' \<longleftrightarrow> acc = acc' \<and> oid = oid'"
  using assms by (auto simp: account_key_def)

lemma is_prefix_append: "length p \<le> length q \<Longrightarrow> is_prefix p (q @ r) \<longleftrightarrow> is_prefix p q"
  by (simp add: is_prefix_def)

lemma account_key_prefix:
  assumes "length acc \<le> 255" "length acc' \<le> 255"
  shows "is_prefix ([PartitionAccount, of_nat (length acc)] @ acc) (account_key acc' oid) \<longleftrightarrow> acc = acc'"
proof
  assume p: "is_prefix ([PartitionAccount, of_nat (length acc)] @ acc) (account_key acc' oid)"
  then have "(of_nat (length acc) :: byte) = of_nat (length acc')"
    by (simp add: is_prefix_def account_key_def)
  then have "length acc = length acc'"
    using assms by (simp add: word_unat_eq_iff)
  then show "acc = acc'" using p by (simp add: is_prefix_def account_key_def)
qed (simp add: is_prefix_def account_key_def)

lemma partitions_differ [simp]: "PartitionAccount \<noteq> PartitionChainID" "PartitionChainID \<noteq> PartitionAccount"
  by (simp_all add: PartitionAccount_def PartitionChainID_def)

lemma run_command_writes:
  assumes "run_command cmd = Inr (k, v)" "length (cmd_OutputID cmd) = 33"
  shows "accounts_of (f(k := v)) = account_step cmd (accounts_of f)"
    and "chains_of (f(k := v)) = chain_step cmd (chains_of f)"
proof -
  have id: "length (cmd_ID cmd) \<le> 255" using assms(1) by (auto simp: run_command_def split: if_splits)
  consider "cmd_Partition cmd = PartitionAccount" "k = account_key (cmd_ID cmd) (cmd_OutputID cmd)"
      "v = (if cmd_Delete cmd then [] else [255])"
    | "cmd_Partition cmd = PartitionChainID" "length (cmd_ID cmd) = 32" "k = PartitionChainID # cmd_ID cmd"
      "v = (if cmd_Delete cmd then [] else cmd_OutputID cmd)"
    using assms(1) by (auto simp: run_command_def account_key_def split: if_splits)
  note cases = this
  from cases show "accounts_of (f(k := v)) = account_step cmd (accounts_of f)"
  proof cases
    case 1
    then show ?thesis
      using id assms(2) by (auto simp: accounts_of_def account_step_def account_key_inject [OF _ id])
  next
    case 2
    then show ?thesis by (auto simp: accounts_of_def account_step_def account_key_def)
  qed
  from cases show "chains_of (f(k := v)) = chain_step cmd (chains_of f)"
  proof cases
    case 1
    then show ?thesis by (auto simp: chains_of_def chain_step_def account_key_def)
  next
    case 2
    have "cmd_OutputID cmd \<noteq> []" using assms(2) by auto
    with 2 show ?thesis by (auto simp: chains_of_def chain_step_def)
  qed
qed

lemma writes_refine:
  assumes "rmapM run_command cmds = Inr ws" "\<forall>c \<in> set cmds. length (cmd_OutputID c) = 33"
  shows "accounts_of (apply_writes ws f) = fold account_step cmds (accounts_of f)
    \<and> chains_of (apply_writes ws f) = fold chain_step cmds (chains_of f)"
  using assms
proof (induction cmds arbitrary: ws f)
  case Nil
  then show ?case by simp
next
  case (Cons c cs)
  then obtain k v ws' where w: "run_command c = Inr (k, v)" "rmapM run_command cs = Inr ws'"
    "ws = (k, v) # ws'" by auto
  then show ?case
    using Cons.IH [OF w(2), of "f(k := v)"] run_command_writes [OF w(1), of f] Cons.prems(2) by (simp del: fun_upd_apply)
qed

lemma indexer_update_refines_parts:
  assumes "kv_laws K" "indexer_Update K cmds s = (Inr (), s')"
    "\<forall>c \<in> set cmds. length (cmd_OutputID c) = 33"
  shows "account_index K s' = fold account_step cmds (account_index K s)"
    and "chain_index K s' = fold chain_step cmds (chain_index K s)"
proof -
  obtain ws where ws: "rmapM run_command cmds = Inr ws" "kv_Commit K ws s = (Inr (), s')"
    using assms(2) by (auto simp: indexer_Update_def split: sum.splits)
  then have "kv_Get K s' = apply_writes ws (kv_Get K s)" using assms(1) by (simp add: kv_laws_def)
  then show "account_index K s' = fold account_step cmds (account_index K s)"
    "chain_index K s' = fold chain_step cmds (chain_index K s)"
    using writes_refine [OF ws(1) assms(3), of "kv_Get K s"]
    by (simp_all add: account_index_def chain_index_def)
qed

text \<open>
  C35 (indexer_update_refines): a successful update of the indexer changes the two indexes exactly as
  its commands say, in their order: an account command adds or removes one pair of account and
  output, a chain command sets or removes the output of one chain, and nothing else changes.
\<close>

theorem indexer_update_refines:
  assumes "kv_laws K" "indexer_Update K cmds s = (Inr (), s')"
    "\<forall>c \<in> set cmds. length (cmd_OutputID c) = 33"
  shows "(account_index K s' = fold account_step cmds (account_index K s)) \<and>
    (chain_index K s' = fold chain_step cmds (chain_index K s))"
  by (rule conjI [OF indexer_update_refines_parts(1) [OF assms] indexer_update_refines_parts(2) [OF assms]])

definition present :: "(OutputID \<Rightarrow> bytes option) \<Rightarrow> OutputID list \<Rightarrow> OutputDataWithID list" where
  "present getUTXO oids =
     map (\<lambda>oid. \<lparr>od_ID = oid, od_OutputData = the (getUTXO oid)\<rparr>) (filter (\<lambda>oid. getUTXO oid \<noteq> None) oids)"

lemma lookup_loop:
  assumes "rfold (\<lambda>(k, _) ret. rbind (OutputIDFromBytes (drop n k)) (\<lambda>oid.
      case getUTXO oid of None \<Rightarrow> Inr ret | Some d \<Rightarrow> Inr (ret @ [\<lparr>od_ID = oid, od_OutputData = d\<rparr>]))) kvs r0 = Inr res"
  shows "res = r0 @ present getUTXO (map (drop n \<circ> fst) kvs)
    \<and> (\<forall>kv \<in> set kvs. length (drop n (fst kv)) = 33)"
  using assms
proof (induction kvs arbitrary: r0)
  case Nil
  then show ?case by (simp add: present_def)
next
  case (Cons kv kvs)
  obtain k v where kv: "kv = (k, v)" by (cases kv)
  from Cons.prems obtain r1 where r1: "length (drop n k) = 33"
    "r1 = (case getUTXO (drop n k) of None \<Rightarrow> r0
        | Some d \<Rightarrow> r0 @ [\<lparr>od_ID = drop n k, od_OutputData = d\<rparr>])"
    "rfold (\<lambda>(k, _) ret. rbind (OutputIDFromBytes (drop n k)) (\<lambda>oid.
      case getUTXO oid of None \<Rightarrow> Inr ret | Some d \<Rightarrow> Inr (ret @ [\<lparr>od_ID = oid, od_OutputData = d\<rparr>]))) kvs r1 = Inr res"
    unfolding kv by (cases "getUTXO (drop n k)") auto
  show ?case
    using Cons.IH [OF r1(3)] r1(1,2) unfolding kv
    by (cases "getUTXO (drop n k)") (simp_all add: present_def)
qed

lemma account_lookup_exact_parts:
  assumes "kv_laws K" "AccountID E addr = Inr acc" "GetUTXOsLockedInAccount E K addr getUTXO s = Inr res"
  shows "set res = {\<lparr>od_ID = oid, od_OutputData = d\<rparr> |oid d. (acc, oid) \<in> account_index K s \<and> getUTXO oid = Some d}"
    and "distinct (map od_ID res)"
proof -
  let ?p = "[PartitionAccount, of_nat (length acc)] @ acc"
  let ?n = "length ?p"
  let ?kvs = "kv_Iterate K s ?p"
  have acc: "length acc \<le> 255"
    and loop: "rfold (\<lambda>(k, _) ret. rbind (OutputIDFromBytes (drop ?n k)) (\<lambda>oid.
      case getUTXO oid of None \<Rightarrow> Inr ret | Some d \<Rightarrow> Inr (ret @ [\<lparr>od_ID = oid, od_OutputData = d\<rparr>]))) ?kvs [] = Inr res"
    using assms(3) unfolding GetUTXOsLockedInAccount_def assms(2) rbind.simps Let_def
    by (cases "255 < length acc"; simp only: if_True if_False not_less sum.distinct)+
  define oids where "oids = map (drop ?n \<circ> fst) ?kvs"
  have res: "res = present getUTXO oids" and len: "\<forall>kv \<in> set ?kvs. length (drop ?n (fst kv)) = 33"
    using lookup_loop [OF loop] by (simp_all add: oids_def)
  have iter: "set ?kvs = {(k, v). is_prefix ?p k \<and> v = kv_Get K s k \<and> v \<noteq> []}"
    by (rule assms(1) [unfolded kv_laws_def, THEN conjunct2, THEN conjunct1, rule_format])
  have key: "k = account_key acc (drop ?n k)" if "is_prefix ?p k" for k
    using that unfolding is_prefix_def account_key_def
    by (metis append.assoc append_take_drop_id)
  have pref: "is_prefix ?p (account_key acc oid)" "drop ?n (account_key acc oid) = oid" for oid
    by (simp_all add: account_key_def is_prefix_def)
  have in_index: "oid \<in> set oids \<longleftrightarrow> (acc, oid) \<in> account_index K s" for oid
  proof
    assume "oid \<in> set oids"
    then obtain kv where kv: "kv \<in> set ?kvs" "oid = drop ?n (fst kv)" by (auto simp: oids_def)
    then have "is_prefix ?p (fst kv)" "kv_Get K s (fst kv) \<noteq> []"
      unfolding iter by (auto simp: case_prod_beta)
    moreover have "length oid = 33" using kv len by simp
    ultimately show "(acc, oid) \<in> account_index K s"
      using acc kv(2) unfolding account_index_def accounts_of_def
      by (metis (mono_tags, lifting) key case_prodI mem_Collect_eq)
  next
    assume "(acc, oid) \<in> account_index K s"
    then have "(account_key acc oid, kv_Get K s (account_key acc oid)) \<in> set ?kvs"
      using iter pref(1) by (simp add: account_index_def accounts_of_def)
    then have "drop ?n (account_key acc oid) \<in> set oids" unfolding oids_def by force
    then show "oid \<in> set oids" by (simp only: pref(2))
  qed
  show "set res = {\<lparr>od_ID = oid, od_OutputData = d\<rparr> |oid d. (acc, oid) \<in> account_index K s \<and> getUTXO oid = Some d}"
    unfolding res present_def using in_index by force
  have "map fst ?kvs = map (account_key acc) oids"
    unfolding oids_def map_map
  proof (rule map_cong [OF refl])
    fix kv assume "kv \<in> set ?kvs"
    then have "is_prefix ?p (fst kv)" unfolding iter by (simp add: case_prod_beta)
    then show "fst kv = (account_key acc \<circ> (drop ?n \<circ> fst)) kv" unfolding comp_def by (rule key)
  qed
  moreover have "distinct (map fst ?kvs)"
    by (rule assms(1) [unfolded kv_laws_def, THEN conjunct2, THEN conjunct2, rule_format])
  ultimately have "distinct (map (account_key acc) oids)" by (simp only:)
  then have "distinct oids" by (simp add: distinct_map)
  then show "distinct (map od_ID res)" unfolding res present_def by (simp add: comp_def)
qed

text \<open>
  C34 (account_lookup_exact): a query by account returns exactly the outputs that the index has for
  this account and that are in the state, each once and with its data. It never returns an output of
  another account, whatever the bytes of the two account ids are.
\<close>

theorem account_lookup_exact:
  assumes "kv_laws K" "AccountID E addr = Inr acc" "GetUTXOsLockedInAccount E K addr getUTXO s = Inr res"
  shows "(set res = {\<lparr>od_ID = oid, od_OutputData = d\<rparr> |oid d. (acc, oid) \<in> account_index K s \<and> getUTXO oid = Some d}) \<and>
    (distinct (map od_ID res))"
  by (rule conjI [OF account_lookup_exact_parts(1) [OF assms] account_lookup_exact_parts(2) [OF assms]])

end
