(* ===== verification/Validation.thy ===== *)
theory Validation
  imports Indexer
begin

text \<open>
  \<^verbatim>\<open>ledger/state/validate.go\<close>: the validation of a transaction in its context. Every constraint of every
  consumed and produced output is evaluated, the storage deposits and the sums of the amounts are
  checked, and the commands for the indexer are collected. Tracing and the texts of error messages
  are left out; \<^verbatim>\<open>PathToString\<close> and \<^verbatim>\<open>constraintName\<close> are in theory \<open>Rendering\<close>.
\<close>

section \<open>One constraint\<close>

text \<open>
  \<open>fill_args\<close> is the loop \<^verbatim>\<open>for i := 1; i < arr.NumElements(); i++ { args[i] = arr.At(i) }\<close> over the slice
  \<open>args\<close> of length \<^verbatim>\<open>NumElements()-1\<close>.
\<close>

definition fill_args :: "array \<Rightarrow> nat \<Rightarrow> bytes list res" where
  "fill_args arr n =
     rfold (\<lambda>i args. rbind (fst (At i arr)) (\<lambda>d.
         if i < length args then Inr (args[i := d]) else Inl (Panic Index_out_of_range)))
       [1..<n] (replicate (n - 1) [])"

definition evalConstraint :: "easyfl \<Rightarrow> TransactionContext \<Rightarrow> bytes \<Rightarrow> path \<Rightarrow> bytes res" where
  "evalConstraint E v constr p =
     (if constr = [] then Inl (Error Empty_constraint)
      else let ctx = SetPath p (NewDataContext (tc_tree v)) in
        if hd constr \<noteq> 0 then EvalFromBinary E ctx constr []
        else let arr = ArrayFromBytesMax (tl constr) 256 in
          rbind (fst (NumElements arr)) (\<lambda>n.
          if n = 0 then Inl (Error Empty_constraint)
          else rbind (fst (At 0 arr)) (\<lambda>binCode.
            rbind (fill_args arr n) (\<lambda>args.
            EvalFromBinary E ctx binCode args))))"

definition checkConstraint :: "easyfl \<Rightarrow> TransactionContext \<Rightarrow> bytes \<Rightarrow> path \<Rightarrow> bytes res" where
  "checkConstraint E v constr p =
     catch_panic (evalConstraint E v constr p)"

section \<open>One output\<close>

definition run_block :: "easyfl \<Rightarrow> TransactionContext \<Rightarrow> bool \<Rightarrow> path \<Rightarrow> nat \<times> bytes
    \<Rightarrow> bytes set \<times> 32 word \<Rightarrow> (bytes set \<times> 32 word) res" where
  \<comment> \<open>the callback of \<open>runOutput\<close>; the state is \<open>(checkDuplicates, extraStorageDepositWeight)\<close>\<close>
  "run_block E v consumedBranch p = (\<lambda>(idx, data) (seen, weight).
     rbind (guard (consumedBranch \<or> data \<notin> seen) (Error Duplicated_constraint)) (\<lambda>_.
     rbind (checkConstraint E v data (p @ [of_nat idx])) (\<lambda>res.
     if res = [] then Inl (Error Constraint_failed)
     else Inr (if consumedBranch then seen else insert data seen,
               if length res = 4 then weight + get_u32 res else weight))))"

definition runOutput :: "easyfl \<Rightarrow> TransactionContext \<Rightarrow> bool \<Rightarrow> array \<Rightarrow> path \<Rightarrow> 32 word res" where
  "runOutput E v consumedBranch outputArray p =
     rbind (fst (Parsed outputArray)) (\<lambda>blocks.
     rmap snd (rfold (run_block E v consumedBranch p) (enumerate 0 blocks) ({}, 0)))"

section \<open>Commands for the indexer\<close>

definition UnlockParams :: "TransactionContext \<Rightarrow> byte \<Rightarrow> byte \<Rightarrow> bytes res" where
  "UnlockParams v consumedOutputIdx constraintIdx =
     tread (tc_tree v) (PathToUnlockParams @ [consumedOutputIdx, constraintIdx])"

definition indexLock :: "easyfl \<Rightarrow> registry \<Rightarrow> TransactionContext \<Rightarrow> byte \<Rightarrow> array \<Rightarrow> bool
    \<Rightarrow> Command list \<Rightarrow> Command list res" where
  "indexLock E R v idx outputArray consumedBranch records =
     rbind (fst (At ConstraintIndexLock outputArray)) (\<lambda>lockBin.
     rbind (LockFromBytes E R lockBin) (\<lambda>lock.
     rfold (\<lambda>addr records.
         rbind (AccountID E addr) (\<lambda>acc.
         rbind (if consumedBranch then InputID v idx else Inr (NewOutputID (tc_txid v) idx)) (\<lambda>oid.
         Inr (records @ [\<lparr>cmd_ID = acc, cmd_OutputID = oid, cmd_Delete = consumedBranch,
                           cmd_Partition = PartitionAccount\<rparr>]))))
       (IndexableTags lock) records))"

definition ZeroOutputID :: OutputID where
  \<comment> \<open>the zero value of the \<open>OutputID\<close> field\<close>
  "ZeroOutputID = replicate OutputIDLength 0"

fun indexChain_loop :: "easyfl \<Rightarrow> TransactionContext \<Rightarrow> byte \<Rightarrow> bool \<Rightarrow> (nat \<times> bytes) list
    \<Rightarrow> Command list \<Rightarrow> Command list res" where
  "indexChain_loop E v idx consumedBranch [] records = Inr records"
| "indexChain_loop E v idx consumedBranch ((i, data) # rest) records =
     (if i = ConstraintIndexAmount \<or> i = ConstraintIndexTimestamp \<or> i = ConstraintIndexLock
      then indexChain_loop E v idx consumedBranch rest records
      else (case ChainConstraintFromBytes E data of
          Inl (Panic f) \<Rightarrow> Inl (Panic f)
        | Inl (Error _) \<Rightarrow> indexChain_loop E v idx consumedBranch rest records
        | Inr ch \<Rightarrow>
            if consumedBranch then
              rbind (UnlockParams v idx (of_nat i)) (\<lambda>u.
              if u \<noteq> [255, 255, 255] then Inr records
              else rbind (if IsOrigin ch then rmap (Sum256 E) (InputID v idx) else Inr (ch_ID ch)) (\<lambda>cid.
                Inr (records @ [\<lparr>cmd_ID = cid, cmd_OutputID = ZeroOutputID, cmd_Delete = True,
                                  cmd_Partition = PartitionChainID\<rparr>])))
            else
              let oid = NewOutputID (tc_txid v) idx in
              Inr (records @ [\<lparr>cmd_ID = (if IsOrigin ch then Sum256 E oid else ch_ID ch), cmd_OutputID = oid,
                                cmd_Delete = False, cmd_Partition = PartitionChainID\<rparr>])))"

definition indexChainID :: "easyfl \<Rightarrow> TransactionContext \<Rightarrow> byte \<Rightarrow> array \<Rightarrow> bool
    \<Rightarrow> Command list \<Rightarrow> Command list res" where
  "indexChainID E v idx outputArray consumedBranch records =
     rbind (fst (Parsed outputArray)) (\<lambda>blocks.
     indexChain_loop E v idx consumedBranch (enumerate 0 blocks) records)"

definition createIndexEntries :: "easyfl \<Rightarrow> registry \<Rightarrow> TransactionContext \<Rightarrow> byte \<Rightarrow> array \<Rightarrow> bool
    \<Rightarrow> Command list \<Rightarrow> Command list res" where
  "createIndexEntries E R v idx outputArray consumedBranch records =
     rbind (indexLock E R v idx outputArray consumedBranch records)
       (indexChainID E v idx outputArray consumedBranch)"

section \<open>All outputs of a branch\<close>

definition validate_output :: "easyfl \<Rightarrow> registry \<Rightarrow> TransactionContext \<Rightarrow> bool \<Rightarrow> path \<Rightarrow> nat \<times> bytes
    \<Rightarrow> 64 word \<times> Command list \<Rightarrow> (64 word \<times> Command list) res" where
  \<comment> \<open>the callback of \<open>validateOutputs\<close>; the state is \<open>(sum, *indexRecords)\<close>\<close>
  "validate_output E R v consumedBranch branch = (\<lambda>(i, data) (total, records).
     let arr = ArrayFromBytesMax data 256 in
     rbind (runOutput E v consumedBranch arr (branch @ [of_nat i])) (\<lambda>extraDepositWeight.
     let minDeposit = MinimumStorageDeposit (of_nat (length data)) extraDepositWeight in
     rbind (fst (At ConstraintIndexAmount arr)) (\<lambda>amountBin.
     rbind (AmountFromBytes E amountBin) (\<lambda>amount.
     rbind (guard (\<not> amount < minDeposit) (Error Not_enough_deposit)) (\<lambda>_.
     rbind (guard (\<not> amount > - 1 - total) (Error Amount_overflow)) (\<lambda>_.
     rbind (createIndexEntries E R v (of_nat i) arr consumedBranch records) (\<lambda>records'.
     Inr (total + amount, records'))))))))"

definition validateOutputs :: "easyfl \<Rightarrow> registry \<Rightarrow> TransactionContext \<Rightarrow> bool \<Rightarrow> Command list
    \<Rightarrow> (64 word \<times> Command list) res" where
  "validateOutputs E R v consumedBranch records =
     (let branch = (if consumedBranch then [ConsumedBranch, ConsumedOutputsBranch]
                    else [TransactionBranch, TxOutputs]) in
      rbind (elems_at (tc_tree v) branch) (\<lambda>outs.
      rfold (validate_output E R v consumedBranch branch) (enumerate 0 outs) (0, records)))"

definition validateInputCommitment :: "easyfl \<Rightarrow> TransactionContext \<Rightarrow> unit res" where
  "validateInputCommitment E v =
     rbind (tread (tc_tree v) [ConsumedBranch, ConsumedOutputsBranch]) (\<lambda>consumedOutputBytes.
     rbind (tread (tc_tree v) [TransactionBranch, TxInputCommitment]) (\<lambda>inputCommitment.
     guard (Sum256 E consumedOutputBytes = inputCommitment) (Error Wrong_input_commitment)))"

definition Validate :: "easyfl \<Rightarrow> registry \<Rightarrow> TransactionContext \<Rightarrow> Command list res" where
  "Validate E R v =
     rbind (catch_panic (validateOutputs E R v True [])) (\<lambda>(inSum, records).
     rbind (catch_panic (validateOutputs E R v False records)) (\<lambda>(outSum, records').
     rbind (catch_panic (validateInputCommitment E v)) (\<lambda>_.
     if inSum \<noteq> outSum then Inl (Error Unbalanced_amounts) else Inr records')))"

section \<open>What a valid transaction has passed\<close>

lemma catch_Inr: "catch_panic r = Inr x \<Longrightarrow> r = Inr x"
  by simp

lemma Validate_parts:
  assumes "Validate E R v = Inr records"
  obtains total records1 where
    "validateOutputs E R v True [] = Inr (total, records1)"
    "validateOutputs E R v False records1 = Inr (total, records)"
    "validateInputCommitment E v = Inr ()"
  using assms by (auto simp: Validate_def split: if_splits)

definition branch_path :: "bool \<Rightarrow> path" where
  "branch_path consumedBranch = (if consumedBranch then PathToConsumedOutputs else PathToProducedOutputs)"

definition block_passes :: "easyfl \<Rightarrow> TransactionContext \<Rightarrow> path \<Rightarrow> nat \<Rightarrow> bytes \<Rightarrow> bool" where
  "block_passes E v p j code \<longleftrightarrow> (\<exists>r. evalConstraint E v code (p @ [of_nat j]) = Inr r \<and> r \<noteq> [])"

lemma branch_path_eq:
  "(if c then [ConsumedBranch, ConsumedOutputsBranch] else [TransactionBranch, TxOutputs]) = branch_path c"
  by (simp add: branch_path_def path_defs)

lemma run_block_passes:
  "run_block E v c p (j, code) s = Inr t \<Longrightarrow> block_passes E v p j code"
  by (cases s) (auto simp: run_block_def checkConstraint_def block_passes_def split: if_splits)

lemma run_blocks_distinct:
  assumes "rfold (run_block E v False p) (enumerate n blocks) (seen, w) = Inr t"
  shows "distinct blocks \<and> set blocks \<inter> seen = {}"
  using assms
proof (induction blocks arbitrary: n seen w)
  case Nil
  then show ?case by simp
next
  case (Cons b bs)
  from Cons.prems obtain w' where "b \<notin> seen"
    "rfold (run_block E v False p) (enumerate (Suc n) bs) (insert b seen, w') = Inr t"
    by (auto simp: run_block_def split: if_splits)
  then show ?case using Cons.IH by fastforce
qed

lemma runOutput_passes:
  assumes "runOutput E v c (ArrayFromBytesMax data 256) p = Inr w"
  obtains blocks where "parseArray data 256 = Inr blocks"
    "\<And>j. j < length blocks \<Longrightarrow> block_passes E v p j (blocks ! j)"
    "\<not> c \<Longrightarrow> distinct blocks"
proof -
  obtain blocks s where b: "parseArray data 256 = Inr blocks"
    "rfold (run_block E v c p) (enumerate 0 blocks) ({}, 0) = Inr s"
    using assms by (auto simp: runOutput_def Parsed_def ensureParsed_eq)
  have "block_passes E v p j (blocks ! j)" if "j < length blocks" for j
    using rfold_each [OF b(2) enumerate_mem [OF that]] run_block_passes by blast
  moreover have "distinct blocks" if "\<not> c"
    using run_blocks_distinct [of E v p 0 blocks "{}" 0 s] b(2) that by simp
  ultimately show ?thesis using that b(1) by blast
qed

definition output_passes :: "easyfl \<Rightarrow> TransactionContext \<Rightarrow> bool \<Rightarrow> nat \<Rightarrow> bytes \<Rightarrow> bool" where
  "output_passes E v c i data \<longleftrightarrow>
     (\<exists>blocks. parseArray data 256 = Inr blocks
        \<and> (\<forall>j < length blocks. block_passes E v (branch_path c @ [of_nat i]) j (blocks ! j))
        \<and> (c \<or> distinct blocks))"

lemma validateOutputs_passes:
  assumes "validateOutputs E R v c records = Inr t"
  obtains outs where "elems_at (tc_tree v) (branch_path c) = Inr outs"
    "\<And>i. i < length outs \<Longrightarrow> output_passes E v c i (outs ! i)"
    "rfold (validate_output E R v c (branch_path c)) (enumerate 0 outs) (0, records) = Inr t"
proof -
  obtain outs where outs: "elems_at (tc_tree v) (branch_path c) = Inr outs"
    "rfold (validate_output E R v c (branch_path c)) (enumerate 0 outs) (0, records) = Inr t"
    using assms by (auto simp: validateOutputs_def branch_path_eq Let_def)
  have "output_passes E v c i (outs ! i)" if i: "i < length outs" for i
  proof -
    obtain s s' where "validate_output E R v c (branch_path c) (i, outs ! i) s = Inr s'"
      using rfold_each [OF outs(2) enumerate_mem [OF i]] by blast
    then obtain w where "runOutput E v c (ArrayFromBytesMax (outs ! i) 256) (branch_path c @ [of_nat i]) = Inr w"
      by (cases s) (auto simp: validate_output_def Let_def)
    then show ?thesis
      by (rule runOutput_passes) (auto simp: output_passes_def)
  qed
  then show ?thesis using that outs by blast
qed

lemma validation_passes:
  assumes "Validate E R v = Inr records"
  shows "\<exists>ins outs. elems_at (tc_tree v) PathToConsumedOutputs = Inr ins
    \<and> elems_at (tc_tree v) PathToProducedOutputs = Inr outs
    \<and> (\<forall>i < length ins. output_passes E v True i (ins ! i))
    \<and> (\<forall>i < length outs. output_passes E v False i (outs ! i))"
proof -
  obtain total records1 where v: "validateOutputs E R v True [] = Inr (total, records1)"
    "validateOutputs E R v False records1 = Inr (total, records)"
    by (rule Validate_parts [OF assms])
  obtain ins where ins: "elems_at (tc_tree v) PathToConsumedOutputs = Inr ins"
    "\<And>i. i < length ins \<Longrightarrow> output_passes E v True i (ins ! i)"
    by (rule validateOutputs_passes [OF v(1)]) (simp add: branch_path_def)
  obtain outs where outs: "elems_at (tc_tree v) PathToProducedOutputs = Inr outs"
    "\<And>i. i < length outs \<Longrightarrow> output_passes E v False i (outs ! i)"
    by (rule validateOutputs_passes [OF v(2)]) (simp add: branch_path_def)
  show ?thesis using ins outs by blast
qed

text \<open>
  A transaction is valid only if every constraint of every output
  that it consumes or produces evaluates, at its own path, to a non-empty result, and no produced
  output repeats a constraint.
\<close>

theorem validation_evaluates_everything:
  assumes "Validate E R v = Inr records"
  shows "\<exists>ins outs. elems_at (tc_tree v) PathToConsumedOutputs = Inr ins
    \<and> elems_at (tc_tree v) PathToProducedOutputs = Inr outs
    \<and> (\<forall>i < length ins. output_passes E v True i (ins ! i))
    \<and> (\<forall>i < length outs. output_passes E v False i (outs ! i))"
  using assms by (rule validation_passes)

section \<open>Amounts\<close>

definition output_amount :: "easyfl \<Rightarrow> bytes \<Rightarrow> 64 word res" where
  \<comment> \<open>the amount in block 0 of a serialised output\<close>
  "output_amount E data = rbind (fst (At ConstraintIndexAmount (ArrayFromBytesMax data 256))) (AmountFromBytes E)"

definition amount_nat :: "easyfl \<Rightarrow> bytes \<Rightarrow> nat" where
  "amount_nat E data = (case output_amount E data of Inl _ \<Rightarrow> 0 | Inr a \<Rightarrow> unat a)"

definition total_amount :: "easyfl \<Rightarrow> bytes list \<Rightarrow> nat" where
  "total_amount E outs = sum_list (map (amount_nat E) outs)"

lemma add_no_overflow:
  fixes a b :: "64 word"
  assumes "\<not> a > - 1 - b"
  shows "unat (b + a) = unat b + unat a"
proof -
  have "unat a \<le> unat (- 1 - b)" using assms by (simp add: word_le_nat_alt not_less)
  also have "unat (- 1 - b) = unat (- 1 :: 64 word) - unat b"
    by (rule unat_sub) (rule word_order.extremum)
  also have "unat (- 1 :: 64 word) = 2 ^ 64 - 1"
    by (simp add: unsigned_minus_1_eq_mask mask_eq_exp_minus_1)
  finally have "unat b + unat a < 2 ^ 64"
    using unat_word_less [of b] by simp
  then show ?thesis by (simp add: unat_word_ariths)
qed

lemma validate_output_amount:
  assumes "validate_output E R v c p (i, data) (tot, records) = Inr (tot', records')"
  shows "unat tot' = unat tot + amount_nat E data"
    and "is_ok (output_amount E data)" and "length data mod 2 ^ 32 \<le> amount_nat E data"
proof -
  obtain a where a: "output_amount E data = Inr a" "tot' = tot + a" "\<not> a > - 1 - tot"
    "\<not> a < ucast (of_nat (length data) :: 32 word)"
    using assms by (auto simp: validate_output_def Let_def output_amount_def MinimumStorageDeposit_def)
  then show "unat tot' = unat tot + amount_nat E data"
    by (simp add: amount_nat_def add_no_overflow)
  show "is_ok (output_amount E data)" using a(1) by simp
  have "unat (ucast (of_nat (length data) :: 32 word) :: 64 word) \<le> unat a"
    using a(4) by (simp add: word_le_nat_alt not_less)
  also have "unat (ucast (of_nat (length data) :: 32 word) :: 64 word) = length data mod 2 ^ 32"
    by (simp add: unsigned_ucast_eq unat_of_nat take_bit_eq_mod mod_mod_cancel)
  finally show "length data mod 2 ^ 32 \<le> amount_nat E data"
    using a(1) by (simp add: amount_nat_def)
qed

lemma validateOutputs_total:
  assumes "rfold (validate_output E R v c p) (enumerate n outs) (tot, records) = Inr (tot', records')"
  shows "unat tot' = unat tot + total_amount E outs
    \<and> (\<forall>d \<in> set outs. is_ok (output_amount E d) \<and> length d mod 2 ^ 32 \<le> amount_nat E d)"
  using assms
proof (induction outs arbitrary: n tot records)
  case Nil
  then show ?case by (simp add: total_amount_def)
next
  case (Cons d outs)
  then obtain tot1 records1 where step: "validate_output E R v c p (n, d) (tot, records) = Inr (tot1, records1)"
    "rfold (validate_output E R v c p) (enumerate (Suc n) outs) (tot1, records1) = Inr (tot', records')"
    by auto
  show ?case
    using Cons.IH [OF step(2)] validate_output_amount [OF step(1)] by (simp add: total_amount_def)
qed

lemma validation_conserves_amounts_parts:
  assumes "Validate E R v = Inr records"
    "elems_at (tc_tree v) PathToConsumedOutputs = Inr ins"
    "elems_at (tc_tree v) PathToProducedOutputs = Inr outs"
  shows "total_amount E ins = total_amount E outs" and "total_amount E outs < 2 ^ 64"
    and "\<forall>d \<in> set ins \<union> set outs. is_ok (output_amount E d) \<and> length d mod 2 ^ 32 \<le> amount_nat E d"
proof -
  obtain tot records1 where v: "validateOutputs E R v True [] = Inr (tot, records1)"
    "validateOutputs E R v False records1 = Inr (tot, records)"
    by (rule Validate_parts [OF assms(1)])
  have "rfold (validate_output E R v True PathToConsumedOutputs) (enumerate 0 ins) (0, []) = Inr (tot, records1)"
    by (rule validateOutputs_passes [OF v(1)]) (use assms(2) in \<open>simp add: branch_path_def\<close>)
  note i = validateOutputs_total [OF this]
  have "rfold (validate_output E R v False PathToProducedOutputs) (enumerate 0 outs) (0, records1) = Inr (tot, records)"
    by (rule validateOutputs_passes [OF v(2)]) (use assms(3) in \<open>simp add: branch_path_def\<close>)
  note o = validateOutputs_total [OF this]
  show "total_amount E ins = total_amount E outs" using i o by simp
  show "total_amount E outs < 2 ^ 64" using o unat_word_less [of tot] by simp
  show "\<forall>d \<in> set ins \<union> set outs. is_ok (output_amount E d) \<and> length d mod 2 ^ 32 \<le> amount_nat E d"
    using i o by blast
qed

text \<open>
  C18 (validation_conserves_amounts): a valid transaction produces exactly as much as it consumes. The sums
  are those of natural numbers, so no wrap-around of the 64-bit accumulators hides a difference, they
  stay below \<open>2^64\<close>, and every output holds at least as many tokens as it has bytes.
\<close>

theorem validation_conserves_amounts:
  assumes "Validate E R v = Inr records"
    "elems_at (tc_tree v) PathToConsumedOutputs = Inr ins"
    "elems_at (tc_tree v) PathToProducedOutputs = Inr outs"
  shows "(total_amount E ins = total_amount E outs) \<and>
    (total_amount E outs < 2 ^ 64) \<and>
    (\<forall>d \<in> set ins \<union> set outs. is_ok (output_amount E d) \<and> length d mod 2 ^ 32 \<le> amount_nat E d)"
  by (rule conjI [OF validation_conserves_amounts_parts(1) [OF assms] conjI [OF validation_conserves_amounts_parts(2) [OF assms] validation_conserves_amounts_parts(3) [OF assms]]])

text \<open>
  A valid transaction carries the hash of the very array of outputs that
  stands behind its inputs.
\<close>

theorem input_commitment_binds:
  assumes "Validate E R v = Inr records"
  shows "\<exists>bs. tread (tc_tree v) PathToConsumedOutputs = Inr bs
    \<and> tread (tc_tree v) PathToInputCommitment = Inr (Sum256 E bs)"
proof -
  have "validateInputCommitment E v = Inr ()" by (rule Validate_parts [OF assms])
  then show ?thesis by (auto simp: validateInputCommitment_def path_defs)
qed

section \<open>Array constraints\<close>

lemma fill_args_panics:
  assumes "arr_view arr = Inr xs" "length xs = n" "2 \<le> n"
  shows "fill_args arr n = Inl (Panic Index_out_of_range)"
proof -
  have at: "fst (At i arr) = nth_res xs i" for i using assms(1) by (simp add: At_eq)
  let ?f = "\<lambda>i args. rbind (fst (At i arr)) (\<lambda>d.
      if i < length args then Inr (args[i := d]) else Inl (Panic Index_out_of_range))"
  have run: "\<exists>t. rfold ?f [1..<k] (replicate (n - 1) []) = Inr t \<and> length t = n - 1" if "k \<le> n - 1" for k
    using that
  proof (induction k)
    case 0
    then show ?case by simp
  next
    case (Suc k)
    then obtain t where t: "rfold ?f [1..<k] (replicate (n - 1) []) = Inr t" "length t = n - 1" by auto
    show ?case
    proof (cases "1 \<le> k")
      case True
      then have "[1..<Suc k] = [1..<k] @ [k]" by simp
      then show ?thesis using t Suc.prems assms(2) by (simp add: rfold_append at)
    next
      case False
      then show ?thesis by simp
    qed
  qed
  obtain t where t: "rfold ?f [1..<n - 1] (replicate (n - 1) []) = Inr t" "length t = n - 1"
    using run [of "n - 1"] by auto
  have "[1..<n] = [1..<n - 1] @ [n - 1]"
    using assms(3) by (metis One_nat_def Suc_1 Suc_diff_1 Suc_le_eq diff_Suc_1 le_add_diff_inverse
        plus_1_eq_Suc upt_Suc_append zero_less_Suc add_leD1 not_less_eq_eq Suc_leI less_le_trans)
  then show ?thesis using t assms(2,3) by (simp add: fill_args_def rfold_append at)
qed

lemma array_constraint_arguments_panic_parts:
  assumes "parseArray bs 256 = Inr blocks" "2 \<le> length blocks"
  shows "evalConstraint E v (0 # bs) p = Inl (Panic Index_out_of_range)"
    and "checkConstraint E v (0 # bs) p = Inl (Error Index_out_of_range)"
proof -
  have view: "arr_view (ArrayFromBytesMax bs 256) = Inr blocks" using assms(1) by simp
  show "evalConstraint E v (0 # bs) p = Inl (Panic Index_out_of_range)"
    using fill_args_panics [OF view refl assms(2)] assms(2) view
    by (auto simp: evalConstraint_def Let_def NumElements_eq At_eq)
  then show "checkConstraint E v (0 # bs) p = Inl (Error Index_out_of_range)"
    by (simp add: checkConstraint_def)
qed

text \<open>
  A constraint in array form with at least one argument never
  evaluates. The loop that copies the arguments runs one past the end of the slice, so every output
  with such a constraint is unspendable and cannot be produced.
\<close>

theorem array_constraint_arguments_panic:
  assumes "parseArray bs 256 = Inr blocks" "2 \<le> length blocks"
  shows "(evalConstraint E v (0 # bs) p = Inl (Panic Index_out_of_range)) \<and>
    (checkConstraint E v (0 # bs) p = Inl (Error Index_out_of_range))"
  by (rule conjI [OF array_constraint_arguments_panic_parts(1) [OF assms] array_constraint_arguments_panic_parts(2) [OF assms]])

section \<open>Nothing is spent without a signature\<close>

definition locked_by_address :: "easyfl \<Rightarrow> bytes \<Rightarrow> AddressED25519 \<Rightarrow> bool" where
  \<comment> \<open>the bytecode is \<open>addressED25519(0x...)\<close> with the address as inline data\<close>
  "locked_by_address E code a \<longleftrightarrow> code \<noteq> [] \<and> hd code \<noteq> 0 \<and>
     (\<exists>pfx arg. ParseBytecodeOneLevel E code None = Inr (''addressED25519'', pfx, [arg])
        \<and> StripDataPrefix E arg = a \<and> length a < length arg)"

lemma context_at: "SetPath p (NewDataContext t) = ctx_at t p"
  by (simp add: SetPath_def NewDataContext_def ctx_at_def)

lemma call_passes:
  assumes "runs_library E" "block_passes E v p j code" "code \<noteq> []" "hd code \<noteq> 0"
    "ParseBytecodeOneLevel E code None = Inr (name, pfx, args)" "name \<in> set constraint_symbols"
  shows "holds (fl_call E (ctx_at (tc_tree v) (p @ [of_nat j])) name
    (map (\<lambda>a. EvalFromBinary E (ctx_at (tc_tree v) (p @ [of_nat j])) a []) args))"
proof -
  have "holds (EvalFromBinary E (ctx_at (tc_tree v) (p @ [of_nat j])) code [])"
    using assms(2-4) by (auto simp: block_passes_def evalConstraint_def context_at holds_iff)
  moreover have "tv (EvalFromBinary E c code []) = tv (fl_call E c name (map (\<lambda>a. EvalFromBinary E c a []) args))" for c
    using assms(1,5,6) unfolding runs_library_def by blast
  ultimately show ?thesis by (simp add: holds_def)
qed

lemma inline_data: "runs_library E \<Longrightarrow> length (StripDataPrefix E a) < length a
    \<Longrightarrow> EvalFromBinary E c a [] = Inr (StripDataPrefix E a)"
  by (simp add: runs_library_def)

lemma address_lock_passes:
  assumes "runs_library E" "block_passes E v p j code" "locked_by_address E code a"
  shows "holds (fl_addressED25519 E (ctx_at (tc_tree v) (p @ [of_nat j])) (Inr a))"
proof -
  obtain pfx arg where code: "code \<noteq> []" "hd code \<noteq> 0"
    "ParseBytecodeOneLevel E code None = Inr (''addressED25519'', pfx, [arg])"
    "StripDataPrefix E arg = a" "length a < length arg"
    using assms(3) unfolding locked_by_address_def by blast
  have "''addressED25519'' \<in> set constraint_symbols"
    by (simp add: constraint_symbols_def constraint_arity_def)
  from call_passes [OF assms(1,2) code(1-3) this] show ?thesis
    using inline_data [OF assms(1), of arg] code(4,5) by (simp add: fl_call_def)
qed

lemma elems_bound:
  assumes "tree_inv t" "elems_at t (p @ [i]) = Inr xs"
  shows "length xs \<le> 256"
  using assms by (auto simp: reads_tree tree_elements_at_snoc parse_node_256 dest: parseArray_length)

lemma nth_elem_read:
  assumes "tree_inv t" "elems_at t p = Inr xs"
  shows "tread t (p @ [i]) = nth_res xs (unat i)"
  using assms by (simp add: reads_tree tree_at_snoc)

lemma consumed_lock_at:
  assumes "tree_inv t" "elems_at t PathToConsumedOutputs = Inr ins" "i < length ins"
    "parseArray (ins ! i) 256 = Inr blocks"
  shows "tread t (consumed_path (of_nat i) j) = nth_res blocks (unat j)"
proof -
  have "length ins \<le> 256"
    using elems_bound [OF assms(1), of "[ConsumedBranch]" ConsumedOutputsBranch ins] assms(2)
    by (simp add: PathToConsumedOutputs_def)
  then have "unat (of_nat i :: byte) = i" using assms(3) by simp
  then have "tread t (PathToConsumedOutputs @ [of_nat i]) = Inr (ins ! i)"
    using nth_elem_read [OF assms(1,2), of "of_nat i"] assms(3) by simp
  from constraint_by_path(1) [OF assms(1) this assms(4), of j] show ?thesis
    by (simp add: consumed_path_def PathToConsumedOutputs_def)
qed

lemma address_lock_signed:
  assumes "easyfl_laws E" "runs_library E" "tree_inv (tc_tree v)" "Validate E R v = Inr records"
    "elems_at (tc_tree v) PathToConsumedOutputs = Inr ins"
    "i < length ins" "parseArray (ins ! i) 256 = Inr blocks" "2 < length blocks"
    "locked_by_address E (blocks ! 2) a"
  shows "signed_by E (tc_tree v) a"
  using assms(6-9)
proof (induction i arbitrary: blocks rule: less_induct)
  case (less i)
  let ?t = "tc_tree v"
  have passes: "\<forall>i < length ins. output_passes E v True i (ins ! i)"
    using validation_passes [OF assms(4)] assms(5) by auto
  have len: "length ins \<le> 256"
    using elems_bound [OF assms(3), of "[ConsumedBranch]" ConsumedOutputsBranch ins] assms(5)
    by (simp add: PathToConsumedOutputs_def)
  have path: "branch_path True @ [of_nat i, 2] = consumed_path (of_nat i) 2"
    by (simp add: branch_path_def PathToConsumedOutputs_def consumed_path_def)
  have "block_passes E v (branch_path True @ [of_nat i]) 2 (blocks ! 2)"
    using passes less.prems(1,2,3) by (auto simp: output_passes_def)
  then have "holds (fl_addressED25519 E (ctx_at ?t (consumed_path (of_nat i) 2)) (Inr a))"
    using address_lock_passes [OF assms(2) _ less.prems(4)] path by fastforce
  from address_consumed(2) [OF assms(1) this]
  show ?case
  proof
    assume "holds (unlockedByReference E (ctx_at ?t (consumed_path (of_nat i) 2)))"
    then obtain k out d where k: "k < of_nat i" "tread ?t (PathToConsumedOutputs @ [k]) = Inr out"
      "tread ?t (consumed_path (of_nat i) 2) = Inr d" "array8_at out ConstraintIndexLock = Inr d"
      by (rule reference_unlocks [OF assms(1)])
    have lt: "unat k < i"
      using k(1) less.prems(1) len by (simp add: word_less_nat_alt)
    have d: "d = blocks ! 2"
      using k(3) consumed_lock_at [OF assms(3,5) less.prems(1,2), of 2] less.prems(3) by simp
    have out: "out = ins ! unat k" "unat k < length ins"
      using k(2) nth_elem_read [OF assms(3,5), of k] by auto
    then obtain blocks' where b: "parseArray (ins ! unat k) 256 = Inr blocks'"
      using passes by (auto simp: output_passes_def)
    have "2 < length blocks'" "blocks' ! 2 = d"
      using k(4) array8_at_parsed [OF b] out(1) by (auto simp: ConstraintIndexLock_def)
    then show ?case using less.IH [OF lt out(2) b] less.prems(4) d by simp
  qed
qed

text \<open>
  C2 (no_spending_without_signature): if a valid transaction consumes an output that is locked with an
  ED25519 address, then it carries a valid signature of its essence (input ids, produced outputs and
  input commitment) under a public key that hashes to this address. Unlocking by reference does not
  weaken this: references point to strictly earlier outputs with the same lock, so they end at a
  signature.
\<close>

theorem no_spending_without_signature:
  assumes "easyfl_laws E" "runs_library E" "tree_inv (tc_tree v)" "Validate E R v = Inr records"
    "elems_at (tc_tree v) PathToConsumedOutputs = Inr ins"
    "i < length ins" "parseArray (ins ! i) 256 = Inr blocks" "2 < length blocks"
    "locked_by_address E (blocks ! 2) a"
  shows "signed_by E (tc_tree v) a"
  by (rule address_lock_signed [OF assms])

section \<open>The indexer is told about every lock\<close>

definition lock_command :: "easyfl \<Rightarrow> TransactionContext \<Rightarrow> bool \<Rightarrow> nat \<Rightarrow> Accountable \<Rightarrow> Command \<Rightarrow> bool" where
  \<comment> \<open>the command that a tag of the lock of output \<open>i\<close> calls for\<close>
  "lock_command E v c i tag cmd \<longleftrightarrow>
     (\<exists>acc oid. AccountID E tag = Inr acc
        \<and> (if c then InputID v (of_nat i) = Inr oid else oid = NewOutputID (tc_txid v) (of_nat i))
        \<and> cmd = \<lparr>cmd_ID = acc, cmd_OutputID = oid, cmd_Delete = c, cmd_Partition = PartitionAccount\<rparr>)"

definition lock_indexed :: "easyfl \<Rightarrow> registry \<Rightarrow> TransactionContext \<Rightarrow> bool \<Rightarrow> nat \<Rightarrow> bytes \<Rightarrow> Command list \<Rightarrow> bool" where
  "lock_indexed E R v c i data records \<longleftrightarrow>
     (\<exists>lockBin lock. fst (At ConstraintIndexLock (ArrayFromBytesMax data 256)) = Inr lockBin
        \<and> LockFromBytes E R lockBin = Inr lock
        \<and> (\<forall>tag \<in> set (IndexableTags lock). \<exists>cmd \<in> set records. lock_command E v c i tag cmd))"

lemma lock_indexed_mono: "lock_indexed E R v c i d r \<Longrightarrow> set r \<subseteq> set r' \<Longrightarrow> lock_indexed E R v c i d r'"
  unfolding lock_indexed_def by blast

lemma tags_loop:
  assumes "rfold (\<lambda>addr records. rbind (AccountID E addr) (\<lambda>acc.
         rbind (if c then InputID v (of_nat i) else Inr (NewOutputID (tc_txid v) (of_nat i))) (\<lambda>oid.
         Inr (records @ [\<lparr>cmd_ID = acc, cmd_OutputID = oid, cmd_Delete = c, cmd_Partition = PartitionAccount\<rparr>]))))
       tags records = Inr records'"
  shows "set records \<subseteq> set records' \<and> (\<forall>tag \<in> set tags. \<exists>cmd \<in> set records'. lock_command E v c i tag cmd)"
  using assms
proof (induction tags arbitrary: records)
  case Nil
  then show ?case by simp
next
  case (Cons tag tags)
  then obtain acc oid where step: "AccountID E tag = Inr acc"
    "(if c then InputID v (of_nat i) else Inr (NewOutputID (tc_txid v) (of_nat i))) = Inr oid"
    by auto
  let ?cmd = "\<lparr>cmd_ID = acc, cmd_OutputID = oid, cmd_Delete = c, cmd_Partition = PartitionAccount\<rparr>"
  have "lock_command E v c i tag ?cmd"
    using step by (auto simp: lock_command_def split: if_splits)
  moreover have "set (records @ [?cmd]) \<subseteq> set records'
      \<and> (\<forall>tag \<in> set tags. \<exists>cmd \<in> set records'. lock_command E v c i tag cmd)"
    by (rule Cons.IH) (use Cons.prems step in \<open>simp split: if_splits\<close>)
  ultimately show ?case by (metis (no_types, lifting) UnCI insertI1 list.simps(15) set_ConsD set_append subset_iff)
qed

lemma indexChain_loop_grows:
  "indexChain_loop E v idx c blocks records = Inr records' \<Longrightarrow> set records \<subseteq> set records'"
  by (induction E v idx c blocks records rule: indexChain_loop.induct)
    (auto simp: Let_def split: if_splits sum.splits error.splits)

lemma validate_output_indexes:
  assumes "validate_output E R v c p (i, data) (tot, records) = Inr (tot', records')"
  shows "set records \<subseteq> set records'" and "lock_indexed E R v c i data records'"
proof -
  let ?arr = "ArrayFromBytesMax data 256"
  obtain r1 where r1: "indexLock E R v (of_nat i) ?arr c records = Inr r1"
    "indexChainID E v (of_nat i) ?arr c r1 = Inr records'"
    using assms by (auto simp: validate_output_def Let_def createIndexEntries_def)
  have grows: "set r1 \<subseteq> set records'"
    using r1(2) unfolding indexChainID_def rbind_Inr_iff by (elim exE conjE) (rule indexChain_loop_grows)
  obtain lockBin lock where lock: "fst (At ConstraintIndexLock ?arr) = Inr lockBin"
    "LockFromBytes E R lockBin = Inr lock"
    "rfold (\<lambda>addr records. rbind (AccountID E addr) (\<lambda>acc.
         rbind (if c then InputID v (of_nat i) else Inr (NewOutputID (tc_txid v) (of_nat i))) (\<lambda>oid.
         Inr (records @ [\<lparr>cmd_ID = acc, cmd_OutputID = oid, cmd_Delete = c, cmd_Partition = PartitionAccount\<rparr>]))))
       (IndexableTags lock) records = Inr r1"
    using r1(1) by (auto simp: indexLock_def)
  note loop = tags_loop [OF lock(3)]
  show "set records \<subseteq> set records'" using loop grows by blast
  have "lock_indexed E R v c i data r1"
    using lock(1,2) loop unfolding lock_indexed_def by blast
  then show "lock_indexed E R v c i data records'" using grows by (rule lock_indexed_mono)
qed

lemma validateOutputs_indexes:
  assumes "rfold (validate_output E R v c p) (enumerate n outs) (tot, records) = Inr (tot', records')"
  shows "set records \<subseteq> set records' \<and> (\<forall>i < length outs. lock_indexed E R v c (n + i) (outs ! i) records')"
  using assms
proof (induction outs arbitrary: n tot records)
  case Nil
  then show ?case by simp
next
  case (Cons d outs)
  then obtain tot1 records1 where step: "validate_output E R v c p (n, d) (tot, records) = Inr (tot1, records1)"
    "rfold (validate_output E R v c p) (enumerate (Suc n) outs) (tot1, records1) = Inr (tot', records')"
    by auto
  note ih = Cons.IH [OF step(2)]
  have "lock_indexed E R v c (n + i) ((d # outs) ! i) records'" if "i < length (d # outs)" for i
  proof (cases i)
    case 0
    then show ?thesis using lock_indexed_mono [OF validate_output_indexes(2) [OF step(1)]] ih by simp
  next
    case (Suc k)
    then show ?thesis using ih that by auto
  qed
  then show ?case using validate_output_indexes(1) [OF step(1)] ih by blast
qed

lemma validation_indexes_every_lock_parts:
  assumes "Validate E R v = Inr records"
    "elems_at (tc_tree v) PathToConsumedOutputs = Inr ins"
    "elems_at (tc_tree v) PathToProducedOutputs = Inr outs"
  shows "\<forall>i < length ins. lock_indexed E R v True i (ins ! i) records"
    and "\<forall>i < length outs. lock_indexed E R v False i (outs ! i) records"
proof -
  obtain tot records1 where v: "validateOutputs E R v True [] = Inr (tot, records1)"
    "validateOutputs E R v False records1 = Inr (tot, records)"
    by (rule Validate_parts [OF assms(1)])
  have "rfold (validate_output E R v True PathToConsumedOutputs) (enumerate 0 ins) (0, []) = Inr (tot, records1)"
    by (rule validateOutputs_passes [OF v(1)]) (use assms(2) in \<open>simp add: branch_path_def\<close>)
  note i = validateOutputs_indexes [OF this]
  have "rfold (validate_output E R v False PathToProducedOutputs) (enumerate 0 outs) (0, records1) = Inr (tot, records)"
    by (rule validateOutputs_passes [OF v(2)]) (use assms(3) in \<open>simp add: branch_path_def\<close>)
  note o = validateOutputs_indexes [OF this]
  show "\<forall>i < length ins. lock_indexed E R v True i (ins ! i) records"
    using i o lock_indexed_mono [where r = records1 and r' = records] by auto
  show "\<forall>i < length outs. lock_indexed E R v False i (outs ! i) records"
    using o by simp
qed

text \<open>
  The commands that a valid transaction returns for the indexer add,
  for every account named by the lock of a produced output, an entry for the id of that output, and
  remove, for every account named by the lock of a consumed output, the entry for its input id.
\<close>

theorem validation_indexes_every_lock:
  assumes "Validate E R v = Inr records"
    "elems_at (tc_tree v) PathToConsumedOutputs = Inr ins"
    "elems_at (tc_tree v) PathToProducedOutputs = Inr outs"
  shows "(\<forall>i < length ins. lock_indexed E R v True i (ins ! i) records) \<and>
    (\<forall>i < length outs. lock_indexed E R v False i (outs ! i) records)"
  by (rule conjI [OF validation_indexes_every_lock_parts(1) [OF assms] validation_indexes_every_lock_parts(2) [OF assms]])

section \<open>Exactly which transactions are valid\<close>

lemma indexChain_loop_appends:
  "indexChain_loop E v idx c blocks r = rmap ((@) r) (indexChain_loop E v idx c blocks [])"
proof (induction blocks)
  case Nil
  then show ?case by simp
next
  case (Cons b blocks)
  obtain i data where b: "b = (i, data)" by (cases b)
  show ?case
  proof (cases "ChainConstraintFromBytes E data")
    case (Inl e)
    then show ?thesis using Cons b by (cases e) simp_all
  next
    case (Inr ch)
    then show ?thesis using Cons b
      by (cases "UnlockParams v idx (of_nat i)"; cases "InputID v idx") (simp_all add: Let_def)
  qed
qed

lemma createIndexEntries_appends:
  "createIndexEntries E R v idx arr c r = rmap ((@) r) (createIndexEntries E R v idx arr c [])"
proof -
  have lock: "indexLock E R v idx arr c r = rmap ((@) r) (indexLock E R v idx arr c [])"
    unfolding indexLock_def rmap_rbind
    by (intro arg_cong2 [where f = rbind] refl ext rfold_appends) (simp add: rmap_rbind)
  have chain: "indexChainID E v idx arr c s = rmap ((@) s) (indexChainID E v idx arr c [])" for s
    unfolding indexChainID_def rmap_rbind
    by (intro arg_cong2 [where f = rbind] refl ext indexChain_loop_appends)
  show ?thesis
  proof (cases "indexLock E R v idx arr c []")
    case (Inl e)
    then show ?thesis using lock by (simp add: createIndexEntries_def)
  next
    case (Inr y)
    have "createIndexEntries E R v idx arr c r = indexChainID E v idx arr c (r @ y)"
      using lock Inr by (simp add: createIndexEntries_def)
    also have "\<dots> = rmap ((@) r) (rmap ((@) y) (indexChainID E v idx arr c []))"
      unfolding chain [of "r @ y"] by (rule rmap_append)
    also have "\<dots> = rmap ((@) r) (createIndexEntries E R v idx arr c [])"
      using Inr chain [of y] by (simp add: createIndexEntries_def)
    finally show ?thesis .
  qed
qed

text \<open>
  What the loop over the outputs asks of one output, apart from the running total: its constraints
  hold, its amount reads and covers the storage deposit, and its lock and chain can be indexed.
\<close>

definition output_accepted :: "easyfl \<Rightarrow> registry \<Rightarrow> TransactionContext \<Rightarrow> bool \<Rightarrow> nat \<Rightarrow> bytes \<Rightarrow> bool" where
  "output_accepted E R v c i data \<longleftrightarrow>
     (let arr = ArrayFromBytesMax data 256 in
      is_ok (runOutput E v c arr (branch_path c @ [of_nat i]))
      \<and> is_ok (output_amount E data) \<and> length data mod 2 ^ 32 \<le> amount_nat E data
      \<and> is_ok (createIndexEntries E R v (of_nat i) arr c []))"

lemma deposit_nat: "unat (MinimumStorageDeposit (of_nat n) w) = n mod 2 ^ 32"
  by (simp add: MinimumStorageDeposit_def unsigned_ucast_eq unat_of_nat take_bit_eq_mod mod_mod_cancel)

lemma overflow_iff:
  fixes a b :: "64 word"
  shows "a > - 1 - b \<longleftrightarrow> 2 ^ 64 \<le> unat b + unat a"
proof -
  have "unat (- 1 - b) = unat (- 1 :: 64 word) - unat b"
    by (rule unat_sub) (rule word_order.extremum)
  moreover have "unat (- 1 :: 64 word) = 2 ^ 64 - 1"
    by (simp add: unsigned_minus_1_eq_mask mask_eq_exp_minus_1)
  ultimately show ?thesis using unat_word_less [of b] by (simp add: word_less_nat_alt) linarith
qed

lemma createIndexEntries_ok:
  "is_ok (createIndexEntries E R v idx arr c r) \<longleftrightarrow> is_ok (createIndexEntries E R v idx arr c [])"
  by (subst createIndexEntries_appends) (rule is_ok_rmap)

lemma validate_output_iff:
  "(\<exists>tot' r'. validate_output E R v c (branch_path c) (i, data) (tot, r) = Inr (tot', r') \<and> P (unat tot') r')
   \<longleftrightarrow> output_accepted E R v c i data \<and> unat tot + amount_nat E data < 2 ^ 64
     \<and> (\<exists>r'. createIndexEntries E R v (of_nat i) (ArrayFromBytesMax data 256) c r = Inr r'
          \<and> P (unat tot + amount_nat E data) r')"
proof (cases "output_amount E data")
  case (Inl e)
  then have "validate_output E R v c (branch_path c) (i, data) (tot, r) \<noteq> Inr (tot', r')" for tot' r'
    by (auto simp: validate_output_def Let_def output_amount_def)
  then show ?thesis using Inl by (simp add: output_accepted_def)
next
  case (Inr a)
  then have amt: "fst (At ConstraintIndexAmount (ArrayFromBytesMax data 256)) = Inr x
      \<Longrightarrow> AmountFromBytes E x = Inr a" for x
    by (auto simp: output_amount_def)
  obtain x where x: "fst (At ConstraintIndexAmount (ArrayFromBytesMax data 256)) = Inr x"
    using Inr by (auto simp: output_amount_def)
  have less: "a < MinimumStorageDeposit (of_nat (length data)) w \<longleftrightarrow> amount_nat E data < length data mod 2 ^ 32" for w
    using Inr by (simp add: word_less_nat_alt deposit_nat amount_nat_def)
  have over: "\<not> a > - 1 - tot \<longleftrightarrow> unat tot + amount_nat E data < 2 ^ 64"
    unfolding overflow_iff using Inr by (simp add: amount_nat_def not_le)
  have sum: "unat (tot + a) = unat tot + amount_nat E data" if "\<not> a > - 1 - tot"
    using add_no_overflow [OF that] Inr by (simp add: amount_nat_def)
  have "validate_output E R v c (branch_path c) (i, data) (tot, r) = Inr (tot', r')
      \<longleftrightarrow> is_ok (runOutput E v c (ArrayFromBytesMax data 256) (branch_path c @ [of_nat i]))
        \<and> \<not> amount_nat E data < length data mod 2 ^ 32 \<and> \<not> a > - 1 - tot
        \<and> createIndexEntries E R v (of_nat i) (ArrayFromBytesMax data 256) c r = Inr r' \<and> tot' = tot + a" for tot' r'
    unfolding validate_output_def case_prod_conv Let_def less x amt [OF x] rbind.simps rbind_Inr_iff guard_Inr_iff
    by (auto simp: is_ok_iff)
  then show ?thesis
    using Inr sum over createIndexEntries_ok [of E R v "of_nat i" "ArrayFromBytesMax data 256" c r]
    by (auto simp: output_accepted_def Let_def is_ok_iff not_less)
qed

lemma validate_outputs_iff:
  "(\<exists>tot' r'. rfold (validate_output E R v c (branch_path c)) (enumerate n outs) (tot, r) = Inr (tot', r') \<and> P (unat tot'))
   \<longleftrightarrow> (\<forall>i < length outs. output_accepted E R v c (n + i) (outs ! i))
     \<and> unat tot + total_amount E outs < 2 ^ 64 \<and> P (unat tot + total_amount E outs)"
proof (induction outs arbitrary: n tot r)
  case Nil
  then show ?case using unat_word_less [of tot] by (simp add: total_amount_def)
next
  case (Cons d outs)
  have indexed: "output_accepted E R v c n d
      \<Longrightarrow> \<exists>r'. createIndexEntries E R v (of_nat n) (ArrayFromBytesMax d 256) c r = Inr r'"
    unfolding output_accepted_def Let_def is_ok_iff [symmetric] createIndexEntries_ok [of E R v _ _ c r] by blast
  let ?rest = "(\<forall>i < length outs. output_accepted E R v c (Suc n + i) (outs ! i))"
  let ?Q = "\<lambda>k. ?rest \<and> k + total_amount E outs < 2 ^ 64 \<and> P (k + total_amount E outs)"
  have "(\<exists>tot' r'. rfold (validate_output E R v c (branch_path c)) (enumerate n (d # outs)) (tot, r) = Inr (tot', r') \<and> P (unat tot'))
    \<longleftrightarrow> (\<exists>tot1 r1. validate_output E R v c (branch_path c) (n, d) (tot, r) = Inr (tot1, r1)
          \<and> (\<exists>tot' r'. rfold (validate_output E R v c (branch_path c)) (enumerate (Suc n) outs) (tot1, r1) = Inr (tot', r') \<and> P (unat tot')))"
    by auto
  also have "\<dots> \<longleftrightarrow> (\<exists>tot1 r1. validate_output E R v c (branch_path c) (n, d) (tot, r) = Inr (tot1, r1) \<and> ?Q (unat tot1))"
    unfolding Cons.IH ..
  also have "\<dots> \<longleftrightarrow> output_accepted E R v c n d \<and> unat tot + amount_nat E d < 2 ^ 64
      \<and> (\<exists>r'. createIndexEntries E R v (of_nat n) (ArrayFromBytesMax d 256) c r = Inr r'
           \<and> ?Q (unat tot + amount_nat E d))"
    by (rule validate_output_iff [where P = "\<lambda>k r'. ?Q k"])
  also have "\<dots> \<longleftrightarrow> output_accepted E R v c n d \<and> unat tot + amount_nat E d < 2 ^ 64 \<and> ?Q (unat tot + amount_nat E d)"
    using indexed by blast
  also have "\<dots> \<longleftrightarrow> (\<forall>i < length (d # outs). output_accepted E R v c (n + i) ((d # outs) ! i))
     \<and> unat tot + total_amount E (d # outs) < 2 ^ 64 \<and> P (unat tot + total_amount E (d # outs))"
    by (auto simp: All_less_Suc2 total_amount_def ac_simps)
  finally show ?case .
qed

lemma validation_characterised:
  "(\<exists>records. Validate E R v = Inr records) \<longleftrightarrow>
     (\<exists>ins outs. elems_at (tc_tree v) PathToConsumedOutputs = Inr ins
        \<and> elems_at (tc_tree v) PathToProducedOutputs = Inr outs
        \<and> (\<forall>i < length ins. output_accepted E R v True i (ins ! i))
        \<and> (\<forall>i < length outs. output_accepted E R v False i (outs ! i))
        \<and> total_amount E ins = total_amount E outs \<and> total_amount E ins < 2 ^ 64
        \<and> validateInputCommitment E v = Inr ())"
  (is "?L \<longleftrightarrow> ?R")
proof -
  let ?Out = "\<lambda>k. \<exists>outs. elems_at (tc_tree v) (branch_path False) = Inr outs
    \<and> (\<forall>i < length outs. output_accepted E R v False i (outs ! i))
    \<and> total_amount E outs < 2 ^ 64 \<and> total_amount E outs = k"
  have branch: "(\<exists>tot r'. validateOutputs E R v c r = Inr (tot, r') \<and> P (unat tot)) \<longleftrightarrow>
      (\<exists>outs. elems_at (tc_tree v) (branch_path c) = Inr outs
        \<and> (\<forall>i < length outs. output_accepted E R v c i (outs ! i))
        \<and> total_amount E outs < 2 ^ 64 \<and> P (total_amount E outs))" for c r P
    using validate_outputs_iff [of E R v c 0 _ 0 r P]
    by (cases "elems_at (tc_tree v) (branch_path c)") (simp_all add: validateOutputs_def branch_path_eq Let_def)
  have "?L \<longleftrightarrow> (\<exists>tot r. validateOutputs E R v True [] = Inr (tot, r)
      \<and> (\<exists>tot' r'. validateOutputs E R v False r = Inr (tot', r') \<and> tot' = tot)) \<and> validateInputCommitment E v = Inr ()"
    by (auto simp: Validate_def split: if_splits)
  also have "\<dots> \<longleftrightarrow> (\<exists>tot r. validateOutputs E R v True [] = Inr (tot, r) \<and> ?Out (unat tot))
      \<and> validateInputCommitment E v = Inr ()"
    unfolding word_unat_eq_iff branch [of False _ "\<lambda>k. k = unat _"] ..
  also have "\<dots> \<longleftrightarrow> ?R"
    unfolding branch [of True "[]" ?Out] by (auto simp: branch_path_def)
  finally show ?thesis .
qed

text \<open>
  The same without the loops of the code: what an output has to be. \<open>lock_indexable\<close> and
  \<open>chain_indexable\<close> say when the commands for the indexer can be made. The search for a chain stops at
  the first block after the lock that parses as a chain constraint, so only that block matters; on the
  consumed side its unlock parameters have to be there, and the input id if the chain is an origin
  that is destroyed.
\<close>

definition lock_indexable :: "easyfl \<Rightarrow> registry \<Rightarrow> TransactionContext \<Rightarrow> bool \<Rightarrow> nat \<Rightarrow> bytes list \<Rightarrow> bool" where
  "lock_indexable E R v c i blocks \<longleftrightarrow>
     2 < length blocks \<and>
     (\<exists>lock. LockFromBytes E R (blocks ! 2) = Inr lock
        \<and> (\<forall>tag \<in> set (IndexableTags lock). is_ok (AccountID E tag) \<and> (c \<longrightarrow> is_ok (InputID v (of_nat i)))))"

definition no_chain :: "easyfl \<Rightarrow> bytes \<Rightarrow> bool" where
  "no_chain E block \<longleftrightarrow> (\<exists>e. ChainConstraintFromBytes E block = Inl (Error e))"

definition chain_entry_ok :: "easyfl \<Rightarrow> TransactionContext \<Rightarrow> bool \<Rightarrow> nat \<Rightarrow> nat \<Rightarrow> bytes \<Rightarrow> bool" where
  "chain_entry_ok E v c i j block \<longleftrightarrow>
     no_chain E block \<or>
     (\<exists>ch. ChainConstraintFromBytes E block = Inr ch
        \<and> (c \<longrightarrow> (\<exists>u. UnlockParams v (of_nat i) (of_nat j) = Inr u
              \<and> (u = [255, 255, 255] \<and> IsOrigin ch \<longrightarrow> is_ok (InputID v (of_nat i))))))"

definition chain_indexable :: "easyfl \<Rightarrow> TransactionContext \<Rightarrow> bool \<Rightarrow> nat \<Rightarrow> bytes list \<Rightarrow> bool" where
  "chain_indexable E v c i blocks \<longleftrightarrow>
     (\<forall>j < length blocks. 3 \<le> j \<and> (\<forall>k < j. 3 \<le> k \<longrightarrow> no_chain E (blocks ! k))
        \<longrightarrow> chain_entry_ok E v c i j (blocks ! j))"

definition output_valid :: "easyfl \<Rightarrow> registry \<Rightarrow> TransactionContext \<Rightarrow> bool \<Rightarrow> nat \<Rightarrow> bytes \<Rightarrow> bool" where
  "output_valid E R v c i data \<longleftrightarrow>
     (\<exists>blocks amount. parseArray data 256 = Inr blocks
        \<and> (\<forall>j < length blocks. block_passes E v (branch_path c @ [of_nat i]) j (blocks ! j))
        \<and> (c \<or> distinct blocks)
        \<and> AmountFromBytes E (blocks ! 0) = Inr amount \<and> length data mod 2 ^ 32 \<le> unat amount
        \<and> lock_indexable E R v c i blocks \<and> chain_indexable E v c i blocks)"

lemma run_blocks_ok:
  assumes "\<forall>j < length blocks. block_passes E v p (n + j) (blocks ! j)" "c \<or> distinct blocks \<and> set blocks \<inter> seen = {}"
  shows "is_ok (rfold (run_block E v c p) (enumerate n blocks) (seen, w))"
  using assms
proof (induction blocks arbitrary: n seen w)
  case Nil
  then show ?case by simp
next
  case (Cons b bs)
  have "block_passes E v p n b" using Cons.prems(1) by force
  then obtain res where res: "evalConstraint E v b (p @ [of_nat n]) = Inr res" "res \<noteq> []"
    by (auto simp: block_passes_def)
  obtain seen' w' where step: "run_block E v c p (n, b) (seen, w) = Inr (seen', w')"
    "c \<or> seen' = insert b seen"
    using res Cons.prems(2) by (auto simp: run_block_def checkConstraint_def)
  have "\<forall>j < length bs. block_passes E v p (Suc n + j) (bs ! j)" using Cons.prems(1) by force
  then have "is_ok (rfold (run_block E v c p) (enumerate (Suc n) bs) (seen', w'))"
    by (rule Cons.IH) (use Cons.prems(2) step(2) in auto)
  then show ?case using step(1) by simp
qed

lemma runOutput_iff:
  "is_ok (runOutput E v c (ArrayFromBytesMax data 256) p) \<longleftrightarrow>
     (\<exists>blocks. parseArray data 256 = Inr blocks \<and> (\<forall>j < length blocks. block_passes E v p j (blocks ! j))
        \<and> (c \<or> distinct blocks))" (is "?L \<longleftrightarrow> ?R")
proof
  assume ?L
  then obtain w where "runOutput E v c (ArrayFromBytesMax data 256) p = Inr w" by (auto simp: is_ok_iff)
  then show ?R by (rule runOutput_passes) blast
next
  assume ?R
  then obtain blocks where b: "parseArray data 256 = Inr blocks"
    "\<forall>j < length blocks. block_passes E v p (0 + j) (blocks ! j)" "c \<or> distinct blocks"
    by auto
  have "is_ok (rfold (run_block E v c p) (enumerate 0 blocks) ({}, 0))"
    by (rule run_blocks_ok [OF b(2)]) (use b(3) in simp)
  then show ?L by (simp add: runOutput_def Parsed_def ensureParsed_eq b(1) is_ok_rmap)
qed

lemma tags_loop_ok:
  "is_ok (rfold (\<lambda>addr records. rbind (AccountID E addr) (\<lambda>acc. rbind (if c then InputID v i else Inr oid)
      (\<lambda>oid. Inr (f acc oid records)))) tags records)
   \<longleftrightarrow> (\<forall>tag \<in> set tags. is_ok (AccountID E tag) \<and> (c \<longrightarrow> is_ok (InputID v i)))"
proof (induction tags arbitrary: records)
  case Nil
  then show ?case by simp
next
  case (Cons tag tags)
  then show ?case
    by (cases "AccountID E tag"; cases c; cases "InputID v i") auto
qed

lemma indexChain_loop_ok:
  "is_ok (indexChain_loop E v (of_nat i) c (enumerate n blocks) r) \<longleftrightarrow>
     (\<forall>j < length blocks. 3 \<le> n + j \<and> (\<forall>k < j. 3 \<le> n + k \<longrightarrow> no_chain E (blocks ! k))
        \<longrightarrow> chain_entry_ok E v c i (n + j) (blocks ! j))"
proof (induction blocks arbitrary: n)
  case Nil
  then show ?case by simp
next
  case (Cons b bs)
  have low: "n = ConstraintIndexAmount \<or> n = ConstraintIndexTimestamp \<or> n = ConstraintIndexLock \<longleftrightarrow> \<not> 3 \<le> n"
    by (auto simp: ConstraintIndex_defs)
  show ?case
  proof (cases "3 \<le> n \<and> \<not> no_chain E b")
    case True
    then have "is_ok (indexChain_loop E v (of_nat i) c (enumerate n (b # bs)) r) \<longleftrightarrow> chain_entry_ok E v c i n b"
      using low
      by (cases "ChainConstraintFromBytes E b"; cases "UnlockParams v (of_nat i) (of_nat n)"; cases "InputID v (of_nat i)")
        (auto simp: chain_entry_ok_def no_chain_def Let_def split: error.splits)
    then show ?thesis using True by (simp add: All_less_Suc2)
  next
    case False
    then have "indexChain_loop E v (of_nat i) c (enumerate n (b # bs)) r
        = indexChain_loop E v (of_nat i) c (enumerate (Suc n) bs) r"
      using low by (auto simp: no_chain_def)
    moreover have "3 \<le> n \<longrightarrow> no_chain E b" "3 \<le> n \<longrightarrow> chain_entry_ok E v c i n b"
      using False by (auto simp: chain_entry_ok_def)
    ultimately show ?thesis using Cons.IH [of "Suc n"] by (simp add: All_less_Suc2)
  qed
qed

lemma entries_iff:
  assumes "parseArray data 256 = Inr blocks"
  shows "is_ok (createIndexEntries E R v (of_nat i) (ArrayFromBytesMax data 256) c []) \<longleftrightarrow>
    lock_indexable E R v c i blocks \<and> chain_indexable E v c i blocks"
proof -
  have "is_ok (indexLock E R v (of_nat i) (ArrayFromBytesMax data 256) c []) \<longleftrightarrow> lock_indexable E R v c i blocks"
    by (cases "2 < length blocks"; cases "LockFromBytes E R (blocks ! 2)")
      (simp_all add: indexLock_def lock_indexable_def At_eq assms ConstraintIndexLock_def nth_res_def tags_loop_ok)
  moreover have "is_ok (indexChainID E v (of_nat i) (ArrayFromBytesMax data 256) c r) \<longleftrightarrow> chain_indexable E v c i blocks" for r
    unfolding chain_indexable_def
    using indexChain_loop_ok [of E v i c 0 blocks r] by (simp add: indexChainID_def Parsed_def ensureParsed_eq assms)
  ultimately show ?thesis
    by (cases "indexLock E R v (of_nat i) (ArrayFromBytesMax data 256) c []") (simp_all add: createIndexEntries_def)
qed

lemma output_accepted_valid: "output_accepted E R v c i data \<longleftrightarrow> output_valid E R v c i data"
proof (cases "parseArray data 256")
  case (Inl e)
  then show ?thesis by (simp add: output_accepted_def output_valid_def runOutput_iff)
next
  case (Inr blocks)
  have amt: "output_amount E data = (if blocks = [] then output_amount E data else AmountFromBytes E (blocks ! 0))"
    by (simp add: output_amount_def At_eq Inr ConstraintIndexAmount_def nth_res_def)
  have ne: "blocks \<noteq> []" if "lock_indexable E R v c i blocks" using that by (auto simp: lock_indexable_def)
  have "is_ok (output_amount E data) \<and> length data mod 2 ^ 32 \<le> amount_nat E data \<longleftrightarrow>
      (\<exists>a. AmountFromBytes E (blocks ! 0) = Inr a \<and> length data mod 2 ^ 32 \<le> unat a)" if "blocks \<noteq> []"
    using amt that by (auto simp: amount_nat_def is_ok_iff)
  then show ?thesis
    using ne by (auto simp: output_accepted_def output_valid_def Let_def runOutput_iff entries_iff [OF Inr] Inr)
qed

lemma validateInputCommitment_iff:
  "validateInputCommitment E v = Inr () \<longleftrightarrow>
     (\<exists>bs. tread (tc_tree v) PathToConsumedOutputs = Inr bs \<and> tread (tc_tree v) PathToInputCommitment = Inr (Sum256 E bs))"
  by (auto simp: validateInputCommitment_def path_defs)

text \<open>
  C17 (validation_iff): exactly the valid transactions. A transaction is valid if and only if every
  output that it consumes or produces is valid where it stands (it parses, each of its constraints
  evaluates there to a non-empty result, a produced output repeats none, the amount in block 0 covers
  the storage deposit, the lock in block 2 reads and its accounts and its chain can be indexed), the
  amounts balance below \<open>2^64\<close>, and the transaction carries the hash of the bytes of the consumed
  outputs: \<^verbatim>\<open>Validate\<close> refuses nothing else and lets nothing else through.
\<close>

theorem validation_iff:
  "(\<exists>records. Validate E R v = Inr records) \<longleftrightarrow>
     (\<exists>ins outs bs. elems_at (tc_tree v) PathToConsumedOutputs = Inr ins
        \<and> elems_at (tc_tree v) PathToProducedOutputs = Inr outs
        \<and> (\<forall>i < length ins. output_valid E R v True i (ins ! i))
        \<and> (\<forall>i < length outs. output_valid E R v False i (outs ! i))
        \<and> total_amount E ins = total_amount E outs \<and> total_amount E ins < 2 ^ 64
        \<and> tread (tc_tree v) PathToConsumedOutputs = Inr bs
        \<and> tread (tc_tree v) PathToInputCommitment = Inr (Sum256 E bs))"
  unfolding validation_characterised output_accepted_valid validateInputCommitment_iff by blast

end
