(* ===== verification/RefEngine.thy ===== *)
theory RefEngine
  imports Validation
begin

text \<open>
  A small concrete engine that satisfies every law the development assumes of EasyFL
  (\<open>easyfl_laws\<close>, \<open>compile_laws\<close>, \<open>runs_library\<close>). It stands for no code: it shows that the laws can
  hold together and lets the properties be applied to concrete transactions. Its hash keeps the
  first 32 bytes and its signature is a hash of message and key.

  A call is \<open>1\<close>, the number of the symbol and the arguments, each behind its 2-byte length; inline
  data is \<open>128\<close> followed by the data.
\<close>

section \<open>Bytecode\<close>

fun read_fields :: "nat \<Rightarrow> bytes \<Rightarrow> bytes list option" where
  "read_fields 0 bs = (if bs = [] then Some [] else None)"
| "read_fields (Suc n) bs =
     (let l = be_val (take 2 bs); rest = drop 2 bs in
      if length bs < 2 \<or> length rest < l then None
      else map_option ((#) (take l rest)) (read_fields n (drop l rest)))"

definition write_fields :: "bytes list \<Rightarrow> bytes" where
  "write_fields args = concat (map (\<lambda>a. be 2 (length a) @ a) args)"

definition ref_call :: "nat \<Rightarrow> bytes list \<Rightarrow> bytes" where
  "ref_call i args = 1 # of_nat i # write_fields args"

definition ref_parse :: "bytes \<Rightarrow> (string \<times> bytes \<times> bytes list) res" where
  "ref_parse code =
     (case code of
        k # i # rest \<Rightarrow>
          if k = 1 \<and> unat i < length constraint_arity
          then case read_fields (snd (constraint_arity ! unat i)) rest of
                 Some args \<Rightarrow> Inr (fst (constraint_arity ! unat i), [k, i], args)
               | None \<Rightarrow> Inl (Error (External_fault 1))
          else Inl (Error (External_fault 1))
      | _ \<Rightarrow> Inl (Error (External_fault 1)))"

definition ref_one_level :: "bytes \<Rightarrow> nat option \<Rightarrow> (string \<times> bytes \<times> bytes list) res" where
  "ref_one_level code n =
     rbind (ref_parse code) (\<lambda>r.
       if n = None \<or> n = Some (length (snd (snd r))) then Inr r else Inl (Error (External_fault 2)))"

definition ref_strip :: "bytes \<Rightarrow> bytes" where
  "ref_strip code = (case code of k # d \<Rightarrow> if k = 128 then d else code | [] \<Rightarrow> [])"

fun index_of :: "string \<Rightarrow> (string \<times> nat) list \<Rightarrow> nat" where
  "index_of name [] = 0"
| "index_of name ((s, n) # l) = (if s = name then 0 else Suc (index_of name l))"

definition ref_prefix :: "string \<Rightarrow> bytes" where
  "ref_prefix name = [1, of_nat (index_of name constraint_arity)]"

lemma read_write_fields:
  "\<forall>a \<in> set args. length a < 65536 \<Longrightarrow> read_fields (length args) (write_fields args) = Some args"
  by (induction args) (simp_all add: write_fields_def Let_def be_val_be)

lemma read_fields_shorter:
  "read_fields n bs = Some args \<Longrightarrow> a \<in> set args \<Longrightarrow> length a < length bs"
proof (induction n arbitrary: bs args)
  case 0
  then show ?case by (simp split: if_splits)
next
  case (Suc n)
  let ?l = "be_val (take 2 bs)"
  have len: "2 \<le> length bs" "?l \<le> length (drop 2 bs)" using Suc.prems(1) by (auto simp: Let_def split: if_splits)
  obtain as where as: "read_fields n (drop ?l (drop 2 bs)) = Some as" "args = take ?l (drop 2 bs) # as"
    using Suc.prems(1) by (auto simp: Let_def split: if_splits)
  then consider "a = take ?l (drop 2 bs)" | "a \<in> set as" using Suc.prems(2) by auto
  then show ?case
  proof cases
    case 1
    then show ?thesis using len by simp
  next
    case 2
    then show ?thesis using Suc.IH [OF as(1) 2] len by simp
  qed
qed

lemma read_fields_length: "read_fields n bs = Some args \<Longrightarrow> length args = n"
  by (induction n arbitrary: bs args) (auto simp: Let_def split: if_splits)

lemma ref_parse_Inr:
  "ref_parse code = Inr (name, pfx, args) \<longleftrightarrow>
     (\<exists>i rest. code = 1 # i # rest \<and> unat i < length constraint_arity \<and> pfx = [1, i]
        \<and> name = fst (constraint_arity ! unat i)
        \<and> read_fields (snd (constraint_arity ! unat i)) rest = Some args)"
  by (auto simp: ref_parse_def split: list.splits option.splits if_splits)

lemma ref_parse_args:
  "ref_parse code = Inr (name, pfx, args) \<Longrightarrow> a \<in> set args \<Longrightarrow> length a < length code"
  unfolding ref_parse_Inr using read_fields_shorter by fastforce

lemma ref_parse_strip: "ref_parse code = Inr r \<Longrightarrow> ref_strip code = code"
  by (cases r) (auto simp: ref_parse_Inr ref_strip_def)

section \<open>Source text\<close>

fun undec :: "string \<Rightarrow> nat" where
  "undec s = foldl (\<lambda>n c. 10 * n + (of_char c - 48)) 0 s"

fun digit_value :: "char \<Rightarrow> nat" where
  "digit_value c = (if of_char c < (58 :: nat) then of_char c - 48 else of_char c - 87)"

fun unhex :: "string \<Rightarrow> bytes" where
  "unhex (c # d # s) = of_nat (16 * digit_value c + digit_value d) # unhex s"
| "unhex _ = []"

fun split_args :: "string \<Rightarrow> string list" where
  "split_args [] = [[]]"
| "split_args (c # s) =
     (if c = CHR '','' then [] # split_args s
      else if c = CHR '' '' then split_args s
      else case split_args s of p # ps \<Rightarrow> (c # p) # ps | [] \<Rightarrow> [[c]])"

definition read_arg :: "string \<Rightarrow> bytes" where
  "read_arg s =
     (if take 4 s = ''u64/'' then 128 # be 8 (undec (drop 4 s))
      else if take 4 s = ''u32/'' then 128 # be 4 (undec (drop 4 s))
      else if take 2 s = ''0x'' then 128 # unhex (drop 2 s)
      else if take 2 s = ''x/'' then unhex (drop 2 s)
      else [128, of_nat (undec s)])"

definition ref_compile :: "string \<Rightarrow> bytes res" where
  "ref_compile src =
     (let name = takeWhile (\<lambda>c. c \<noteq> CHR ''('') src;
          args = split_args (butlast (drop (Suc (length name)) src)) in
      if map_of constraint_arity name = Some (length args)
      then Inr (ref_call (index_of name constraint_arity) (map read_arg args))
      else Inl (Error (External_fault 3)))"

lemma of_char_digit: "n < 10 \<Longrightarrow> (of_char (char_of (48 + n) :: char) :: nat) = 48 + n"
  by simp

lemma undec_snoc: "undec (s @ [c]) = 10 * undec s + (of_char c - 48)"
  by simp

lemma undec_dec: "undec (dec n) = n"
proof (induction n rule: dec.induct)
  case (1 n)
  show ?case
  proof (cases "n < 10")
    case True
    then show ?thesis by (subst dec.simps) simp
  next
    case False
    have "undec (dec n) = 10 * undec (dec (n div 10)) + n mod 10"
      using False by (subst dec.simps) (simp only: if_False undec_snoc, simp)
    then show ?thesis using 1 False by simp
  qed
qed

definition digit :: "char \<Rightarrow> bool" where
  "digit c \<longleftrightarrow> c \<in> set ''0123456789''"

definition hexdigit :: "char \<Rightarrow> bool" where
  "hexdigit c \<longleftrightarrow> c \<in> set ''0123456789abcdef''"

lemma digits_below: "[0..<10] = [0,1,2,3,4,5,6,7,8,9::nat]" "[0..<16] = [0,1,2,3,4,5,6,7,8,9,10,11,12,13,14,15::nat]"
  by (simp_all add: upt_rec)

lemma digit_chars: "\<forall>n \<in> set [0..<10]. digit (char_of (48 + n))"
  unfolding digits_below by code_simp

lemma hexdigit_chars: "\<forall>n \<in> set [0..<16]. hexdigit (hex_digit n) \<and> digit_value (hex_digit n) = n"
  unfolding digits_below by code_simp

lemma digit_char: "(n :: nat) < 10 \<Longrightarrow> digit (char_of (48 + n))"
  using digit_chars by simp

lemma hexdigit_char: "n < 16 \<Longrightarrow> hexdigit (hex_digit n) \<and> digit_value (hex_digit n) = n"
  using hexdigit_chars by (simp del: digit_value.simps)

lemma dec_step: "\<not> n < 10 \<Longrightarrow> dec n = dec (n div 10) @ [char_of (48 + n mod 10)]"
  by (simp only: dec.simps [of n] if_False)

lemma dec_base: "n < 10 \<Longrightarrow> dec n = [char_of (48 + n)]"
  by (simp only: dec.simps [of n] if_True)

lemma dec_digits: "\<forall>c \<in> set (dec n). digit c"
proof (induction n rule: dec.induct)
  case (1 n)
  show ?case
  proof (cases "n < 10")
    case True
    show ?thesis unfolding dec_base [OF True] using digit_char [OF True] by (metis empty_iff list.set(1) set_ConsD)
  next
    case False
    have "digit (char_of (48 + n mod 10))" by (rule digit_char) simp
    then show ?thesis unfolding dec_step [OF False] using 1 [OF False] by (metis Un_iff set_append empty_iff list.set(1) set_ConsD)
  qed
qed

lemma unhex_hex: "unhex (hex bs) = bs"
proof (induction bs)
  case (Cons b bs)
  have d: "unat b div 16 < 16" "unat b mod 16 < 16" by (simp_all add: less_mult_imp_div_less)
  have "(of_nat (16 * (unat b div 16) + unat b mod 16) :: byte) = b"
    unfolding mult_div_mod_eq by simp
  then have "unhex (hex_digit (unat b div 16) # hex_digit (unat b mod 16) # s) = b # unhex s" for s
    unfolding unhex.simps hexdigit_char [OF d(1), THEN conjunct2] hexdigit_char [OF d(2), THEN conjunct2] by (simp only:)
  then show ?case using Cons by (simp only: hex_def list.map concat.simps append_Cons append_Nil)
qed (simp add: hex_def)

lemma hex_hexdigits: "c \<in> set (hex bs) \<Longrightarrow> hexdigit c"
  using hexdigit_char [THEN conjunct1]
  by (auto simp: hex_def less_mult_imp_div_less simp del: digit_value.simps)

section \<open>The compiler reads what the package renders\<close>

definition plain :: "char \<Rightarrow> bool" where
  \<comment> \<open>the characters of names and literals\<close>
  "plain c \<longleftrightarrow> c \<notin> set '',( )''"

lemma plain_digits: "digit c \<Longrightarrow> plain c" "hexdigit c \<Longrightarrow> plain c"
  by (auto simp: digit_def hexdigit_def plain_def)

lemma lit_plain: "\<forall>c \<in> set (lit_source l). plain c"
proof (cases l)
  case (L_u64 w)
  have "\<forall>c \<in> set ''u64/''. plain c" by (simp add: plain_def)
  then show ?thesis using L_u64 dec_digits plain_digits(1) by (simp only: lit_source.simps set_append ball_Un) blast
next
  case (L_u32 w)
  have "\<forall>c \<in> set ''u32/''. plain c" by (simp add: plain_def)
  then show ?thesis using L_u32 dec_digits plain_digits(1) by (simp only: lit_source.simps set_append ball_Un) blast
next
  case (L_u8 b)
  then show ?thesis using dec_digits plain_digits(1) by (simp only: lit_source.simps) blast
next
  case (L_hex bs)
  have "\<forall>c \<in> set ''0x''. plain c" by (simp add: plain_def)
  then show ?thesis using L_hex hex_hexdigits plain_digits(2) by (simp only: lit_source.simps set_append ball_Un) blast
next
  case (L_code bs)
  have "\<forall>c \<in> set ''x/''. plain c" by (simp add: plain_def)
  then show ?thesis using L_code hex_hexdigits plain_digits(2) by (simp only: lit_source.simps set_append ball_Un) blast
qed

fun lit_arg :: "lit \<Rightarrow> bytes" where
  "lit_arg (L_code bs) = bs"
| "lit_arg l = 128 # lit_data l"

lemma digit_head: "digit c \<Longrightarrow> c \<noteq> CHR ''u'' \<and> c \<noteq> CHR ''x'' \<and> c \<noteq> CHR ''/''"
  by (auto simp: digit_def)

lemma take_prefix_digits:
  assumes "\<forall>c \<in> set s. digit c"
  shows "take 4 s \<noteq> ''u64/''" "take 4 s \<noteq> ''u32/''" "take 2 s \<noteq> ''0x''" "take 2 s \<noteq> ''x/''"
proof -
  have "\<forall>c \<in> set (take k s). c \<noteq> CHR ''u'' \<and> c \<noteq> CHR ''x''" for k
    using assms digit_head by (metis in_set_takeD)
  from this [of 4] this [of 2]
  show "take 4 s \<noteq> ''u64/''" "take 4 s \<noteq> ''u32/''" "take 2 s \<noteq> ''0x''" "take 2 s \<noteq> ''x/''"
    by (metis list.set_intros(1) list.set_intros(2))+
qed

lemma read_lit: "read_arg (lit_source l) = lit_arg l"
proof (cases l)
  case (L_u8 b)
  have "take 4 (dec (unat b)) \<noteq> ''u64/''" "take 4 (dec (unat b)) \<noteq> ''u32/''"
    "take 2 (dec (unat b)) \<noteq> ''0x''" "take 2 (dec (unat b)) \<noteq> ''x/''"
    using take_prefix_digits [OF dec_digits] by blast+
  then show ?thesis unfolding L_u8 read_arg_def lit_source.simps undec_dec by simp
qed (simp_all add: read_arg_def unhex_hex undec_dec put_u64_def put_u32_def del: undec.simps)

lemma split_plain: "\<forall>c \<in> set s. plain c \<Longrightarrow> split_args s = [s]"
  by (induction s) (auto simp: plain_def)

lemma split_comma: "\<forall>c \<in> set s. plain c \<Longrightarrow> split_args (s @ CHR '','' # r) = s # split_args r"
  by (induction s) (auto simp: plain_def)

lemma split_rest:
  "\<forall>p \<in> set sl. fst p \<in> {'','', '', ''} \<Longrightarrow> sl \<noteq> [] \<Longrightarrow> \<forall>c \<in> set s. plain c
   \<Longrightarrow> split_args (s @ args_source sl) = s # map (\<lambda>p. lit_source (snd p)) sl"
proof (induction sl arbitrary: s)
  case (Cons p sl)
  obtain sep l where p: "p = (sep, l)" by (cases p)
  have tail: "split_args (lit_source l @ args_source sl) = lit_source l # map (\<lambda>p. lit_source (snd p)) sl"
  proof (cases "sl = []")
    case True
    then show ?thesis using split_plain [OF lit_plain] by simp
  next
    case False
    then show ?thesis using Cons.IH [OF _ False lit_plain] Cons.prems(1) by simp
  qed
  consider "sep = '',''" | "sep = '', ''" using Cons.prems(1) p by auto
  then show ?case
    using tail split_comma [OF Cons.prems(3)] p by cases simp_all
qed simp

lemma index_of_bound: "map_of l name = Some n \<Longrightarrow> index_of name l < length l \<and> l ! index_of name l = (name, n)"
  by (induction l) (auto split: if_splits)

lemma arity_length: "length constraint_arity = 11"
  by (simp add: constraint_arity_def)

lemma arity_plain:
  assumes "map_of constraint_arity name = Some n"
  shows "\<forall>c \<in> set name. plain c"
proof -
  have "\<forall>p \<in> set constraint_arity. \<forall>c \<in> set (fst p). plain c"
    by (simp add: constraint_arity_def plain_def)
  then show ?thesis using map_of_SomeD [OF assms] by fastforce
qed

lemma ref_parse_call:
  assumes "map_of constraint_arity name = Some (length args)" "\<forall>a \<in> set args. length a < 65536"
  shows "ref_parse (ref_call (index_of name constraint_arity) args) = Inr (name, ref_prefix name, args)"
proof -
  have i: "index_of name constraint_arity < 11" "constraint_arity ! index_of name constraint_arity = (name, length args)"
    using index_of_bound [OF assms(1)] by (simp_all add: constraint_arity_def)
  then show ?thesis
    using read_write_fields [OF assms(2)]
    by (simp add: ref_parse_def ref_call_def ref_prefix_def arity_length unat_of_nat)
qed

lemma takeWhile_name:
  "\<forall>c \<in> set name. plain c \<Longrightarrow> takeWhile (\<lambda>c. c \<noteq> CHR ''('') (name @ CHR ''('' # r) = name"
  by (induction name) (auto simp: plain_def)

lemma split_source:
  assumes "seps_ok sl" "sl \<noteq> []"
  shows "split_args (args_source sl) = map (\<lambda>p. lit_source (snd p)) sl"
proof -
  obtain l rest where sl: "sl = ('''', l) # rest" "\<forall>p \<in> set rest. fst p \<in> {'','', '', ''}"
    using assms by (auto simp: seps_ok_def split: list.splits)
  show ?thesis
  proof (cases "rest = []")
    case True
    then show ?thesis using sl split_plain [OF lit_plain] by simp
  next
    case False
    then show ?thesis using sl split_rest [OF sl(2) False lit_plain] by simp
  qed
qed

lemma ref_compile_call:
  assumes "map_of constraint_arity name = Some (length sl)" "seps_ok sl"
  shows "ref_compile (call_source name sl) =
    Inr (ref_call (index_of name constraint_arity) (map (\<lambda>p. lit_arg (snd p)) sl))"
proof -
  have ne: "sl \<noteq> []" using assms(1) by (auto simp: constraint_arity_def split: if_splits)
  have pl: "\<forall>c \<in> set name. plain c" by (rule arity_plain [OF assms(1)])
  have name: "takeWhile (\<lambda>c. c \<noteq> CHR ''('') (call_source name sl) = name"
    using takeWhile_name [OF pl] by (simp add: call_source_def)
  have body: "butlast (drop (Suc (length name)) (call_source name sl)) = args_source sl"
    by (simp add: call_source_def butlast_append)
  show ?thesis
    unfolding ref_compile_def Let_def name body split_source [OF assms(2) ne]
    using assms(1) by (simp add: comp_def read_lit)
qed

lemma lit_arg_length: "length (lit_arg l) \<le> Suc (length (lit_data l))"
  by (cases l) simp_all

lemma length_write_fields: "length (write_fields args) = (\<Sum>a\<leftarrow>args. 2 + length a)"
  by (induction args) (simp_all add: write_fields_def)

section \<open>The engine\<close>

definition truth :: "bool option \<Rightarrow> val" where
  "truth b = (case b of None \<Rightarrow> Inl (Panic (External_fault 0)) | Some True \<Rightarrow> Inr [1] | Some False \<Rightarrow> Inr [])"

definition ref_sum :: "bytes \<Rightarrow> bytes" where
  "ref_sum x = take 32 (x @ replicate 32 0)"

definition ref_verify :: "bytes \<Rightarrow> bytes \<Rightarrow> bytes \<Rightarrow> bool" where
  "ref_verify key msg sig \<longleftrightarrow> sig = ref_sum msg @ ref_sum key"

definition ref_fail :: val where "ref_fail = Inl (Panic (External_fault 0))"

definition index_arg :: "bytes \<Rightarrow> (nat \<Rightarrow> val) \<Rightarrow> val" where
  "index_arg i f = (case i of [n] \<Rightarrow> f (unat n) | _ \<Rightarrow> ref_fail)"

definition ref_strict1 :: "builtin \<Rightarrow> bytes \<Rightarrow> val" where
  "ref_strict1 b x =
     (case b of
        B_not \<Rightarrow> truth (Some (x = []))
      | B_isZero \<Rightarrow> truth (Some (\<forall>b \<in> set x. b = 0))
      | B_len8 \<Rightarrow> if length x < 256 then Inr [of_nat (length x)] else ref_fail
      | B_len16 \<Rightarrow> if length x < 65536 then Inr (be 2 (length x)) else ref_fail
      | B_blake2b \<Rightarrow> Inr (ref_sum x)
      | B_parseBytecodePrefix \<Rightarrow> rmap (fst \<circ> snd) (ref_parse x)
      | _ \<Rightarrow> ref_fail)"

definition ref_strict2 :: "builtin \<Rightarrow> bytes \<Rightarrow> bytes \<Rightarrow> val" where
  "ref_strict2 b x y =
     (case b of
        B_equal \<Rightarrow> truth (Some (x = y))
      | B_hasPrefix \<Rightarrow> truth (Some (take (length y) x = y))
      | B_lessThan \<Rightarrow> truth (if length x = length y then Some (be_val x < be_val y) else None)
      | B_lessOrEqualThan \<Rightarrow> truth (if length x = length y then Some (be_val x \<le> be_val y) else None)
      | B_greaterOrEqualThan \<Rightarrow> truth (if length x = length y then Some (be_val x \<ge> be_val y) else None)
      | B_byte \<Rightarrow> index_arg y (\<lambda>i. if i < length x then Inr [x ! i] else ref_fail)
      | B_tail \<Rightarrow> index_arg y (\<lambda>i. if i < length x then Inr (drop i x) else ref_fail)
      | B_repeat \<Rightarrow> index_arg y (\<lambda>n. Inr (concat (replicate n x)))
      | B_mul16_32 \<Rightarrow> Inr (be 4 (be_val x * be_val y))
      | _ \<Rightarrow> ref_fail)"

definition ref_strict3 :: "builtin \<Rightarrow> bytes \<Rightarrow> bytes \<Rightarrow> bytes \<Rightarrow> val" where
  "ref_strict3 b x y z =
     (case b of
        B_slice \<Rightarrow> index_arg y (\<lambda>i. index_arg z (\<lambda>j.
          if i \<le> j \<and> j < length x then Inr (sub_bytes i j x) else ref_fail))
      | B_validSignatureED25519 \<Rightarrow> truth (Some (ref_verify z x y))
      | B_parseBytecodeArg \<Rightarrow> index_arg z (\<lambda>i. rbind (ref_parse x) (\<lambda>(sym, p, args).
          if p = y \<and> i < length args then Inr (ref_strip (args ! i)) else ref_fail))
      | _ \<Rightarrow> ref_fail)"

definition ref_strict :: "builtin \<Rightarrow> bytes list \<Rightarrow> val" where
  "ref_strict b xs =
     (if b = B_concat then Inr (concat xs)
      else case xs of
          [] \<Rightarrow> if b = B_true then Inr [1] else if b = B_nil then Inr [] else ref_fail
        | [x] \<Rightarrow> ref_strict1 b x
        | [x, y] \<Rightarrow> ref_strict2 b x y
        | [x, y, z] \<Rightarrow> ref_strict3 b x y z
        | _ \<Rightarrow> ref_fail)"

lemmas ref_strict_simps [simp] =
  ref_strict_def ref_strict1_def ref_strict2_def ref_strict3_def index_arg_def

definition ref_if :: "val list \<Rightarrow> val" where
  "ref_if rs = (case rs of [c, a, b] \<Rightarrow> rbind c (\<lambda>v. if v \<noteq> [] then a else b) | _ \<Rightarrow> ref_fail)"

definition ref_builtin :: "builtin \<Rightarrow> val list \<Rightarrow> val" where
  "ref_builtin b rs =
     (if b = B_and then truth (all_in_order rs)
      else if b = B_or then truth (any_in_order rs)
      else if b = B_if then ref_if rs
      else rbind (rmapM id rs) (ref_strict b))"

definition ref_base :: easyfl where
  "ref_base =
     \<lparr>ParseBytecodeOneLevel = ref_one_level,
      ParseBytecodePrefix = (\<lambda>code. rmap (fst \<circ> snd) (ref_parse code)),
      StripDataPrefix = ref_strip,
      CompileExpression = ref_compile,
      EvalFromBinary = (\<lambda>c code args. ref_fail),
      CallLocalLibrary = (\<lambda>c args lib i. ref_fail),
      PrefixOf = ref_prefix,
      Builtin = ref_builtin,
      Sum256 = ref_sum,
      VerifyED25519 = ref_verify\<rparr>"

function ref_eval :: "data_context \<Rightarrow> bytes \<Rightarrow> val" where
  "ref_eval c code =
     (if length (ref_strip code) < length code then Inr (ref_strip code)
      else case ref_parse code of
          Inl e \<Rightarrow> Inl e
        | Inr (name, pfx, args) \<Rightarrow> fl_call ref_base c name (map (ref_eval c) args))"
  by pat_completeness auto
termination
  by (relation "measure (\<lambda>(c, code). length code)") (auto dest: ref_parse_args)

declare ref_eval.simps [simp del]

definition ref_easyfl :: easyfl where
  "ref_easyfl = ref_base\<lparr>EvalFromBinary := \<lambda>c code args. ref_eval c code\<rparr>"

section \<open>It satisfies the laws\<close>

lemma truth_tv [simp]: "tv (truth b) = b"
  by (auto simp: truth_def split: option.splits bool.splits)

lemma ref_fail_tv [simp]: "tv ref_fail = None"
  by (simp add: ref_fail_def)

lemma strict_cases: "strict_builtin b \<Longrightarrow> ref_builtin b rs = rbind (rmapM id rs) (ref_strict b)"
  by (simp add: strict_builtin_def ref_builtin_def)

lemma logic_cases [simp]:
  "ref_builtin B_and rs = truth (all_in_order rs)"
  "ref_builtin B_or rs = truth (any_in_order rs)"
  "ref_builtin B_if [c, a, d] = rbind c (\<lambda>v. if v \<noteq> [] then a else d)"
  by (simp_all add: ref_builtin_def ref_if_def)

lemma value_cases:
  assumes "strict_builtin b"
  shows "ref_builtin b [] = ref_strict b []" "ref_builtin b [Inr x] = ref_strict b [x]"
    "ref_builtin b [Inr x, Inr y] = ref_strict b [x, y]"
    "ref_builtin b [Inr x, Inr y, Inr z] = ref_strict b [x, y, z]"
  using assms by (simp_all add: strict_cases)

lemmas call_values [simp] = value_cases [unfolded strict_builtin_def]

lemma rmapM_values [simp]: "rmapM id (map Inr xs) = Inr xs"
  by (induction xs) simp_all

lemma rmapM_fails: "\<exists>r \<in> set rs. tv r = None \<Longrightarrow> \<exists>e. rmapM id rs = Inl e"
proof (induction rs)
  case (Cons r rs)
  show ?case
  proof (cases r)
    case (Inr v)
    with Cons.prems have "\<exists>r \<in> set rs. tv r = None" by auto
    then obtain e where "rmapM id rs = Inl e" using Cons.IH by blast
    then show ?thesis using Inr by (simp add: id_def)
  qed (simp add: id_def)
qed simp

lemma ref_strict_fails: "strict_builtin b \<Longrightarrow> \<exists>r \<in> set rs. tv r = None \<Longrightarrow> tv (ref_builtin b rs) = None"
  using rmapM_fails [of rs] by (auto simp: strict_cases)

lemma ref_simps [simp]:
  "Builtin ref_easyfl = ref_builtin" "PrefixOf ref_easyfl = ref_prefix" "Sum256 ref_easyfl = ref_sum"
  "VerifyED25519 ref_easyfl = ref_verify" "ParseBytecodeOneLevel ref_easyfl = ref_one_level"
  "StripDataPrefix ref_easyfl = ref_strip" "CompileExpression ref_easyfl = ref_compile"
  "ParseBytecodePrefix ref_easyfl = (\<lambda>code. rmap (fst \<circ> snd) (ref_parse code))"
  "EvalFromBinary ref_easyfl = (\<lambda>c code args. ref_eval c code)"
  by (simp_all add: ref_easyfl_def ref_base_def)

lemma ref_logic: "logic_laws ref_easyfl"
  unfolding logic_laws_def
proof (intro conjI allI impI)
  fix r show "tv (fl ref_easyfl B_not [r]) = map_option Not (tv r)"
    by (cases r) (simp_all add: ref_builtin_def)
next
  fix c a b show "tv (fl ref_easyfl B_if [c, a, b])
      = (case tv c of None \<Rightarrow> None | Some True \<Rightarrow> tv a | Some False \<Rightarrow> tv b)"
    by (cases c) simp_all
next
  fix c a b assume "tv c = Some True"
  then show "fl ref_easyfl B_if [c, a, b] = a" by (auto simp: tv_Some_iff)
next
  fix c a b assume "tv c = Some False"
  then show "fl ref_easyfl B_if [c, a, b] = b" by (auto simp: tv_Some_iff)
next
  fix b rs assume "strict_builtin b" "\<exists>r \<in> set rs. tv r = None"
  then show "tv (fl ref_easyfl b rs) = None" by (simp add: ref_strict_fails)
qed simp_all

lemma ref_compare: "compare_laws ref_easyfl"
  by (simp add: compare_laws_def)

lemma ref_concat: "ref_builtin B_concat (map Inr xs) = Inr (concat xs)"
  by (simp add: strict_cases strict_builtin_def)

lemma ref_bytes: "bytes_laws ref_easyfl"
  unfolding bytes_laws_def ref_simps by (intro conjI allI impI) (simp_all only: ref_concat, auto)

lemma ref_sum_length [simp]: "length (ref_sum x) = 32"
  by (simp add: ref_sum_def)

lemma ref_crypto: "crypto_laws ref_easyfl"
  by (simp add: crypto_laws_def holds_def)

lemma one_level_None: "ref_one_level code None = ref_parse code"
  by (simp add: ref_one_level_def)

lemma one_level_Some:
  "ref_one_level code (Some n) = Inr r \<longleftrightarrow> ref_parse code = Inr r \<and> length (snd (snd r)) = n"
  by (cases r) (auto simp: ref_one_level_def split: if_splits)

lemma symbol_index:
  assumes "name \<in> set constraint_symbols"
  shows "index_of name constraint_arity < 11"
    and "fst (constraint_arity ! index_of name constraint_arity) = name"
proof -
  have "name \<in> fst ` set constraint_arity" using assms by (simp only: constraint_symbols_def set_map)
  then have "map_of constraint_arity name \<noteq> None" by (simp only: map_of_eq_None_iff not_not)
  then obtain n where "map_of constraint_arity name = Some n" by blast
  note index_of_bound [OF this]
  then show "index_of name constraint_arity < 11"
    "fst (constraint_arity ! index_of name constraint_arity) = name"
    by (simp_all only: arity_length fst_conv)
qed

lemma prefix_index:
  assumes "name \<in> set constraint_symbols" "i < 11"
  shows "ref_prefix name = [1, of_nat i] \<longleftrightarrow> fst (constraint_arity ! i) = name"
proof -
  have d: "distinct constraint_symbols" by (simp add: constraint_symbols_def constraint_arity_def)
  note k = symbol_index [OF assms(1)]
  have "(of_nat (index_of name constraint_arity) :: byte) = of_nat i \<longleftrightarrow> index_of name constraint_arity = i"
    using k(1) assms(2) by (simp add: word_unat_eq_iff)
  moreover have "fst (constraint_arity ! i) = constraint_symbols ! i"
    "constraint_symbols ! index_of name constraint_arity = name"
    using k assms(2) by (simp_all add: constraint_symbols_def arity_length)
  moreover have "constraint_symbols ! i = constraint_symbols ! index_of name constraint_arity
      \<longleftrightarrow> i = index_of name constraint_arity"
    by (rule nth_eq_iff_index_eq [OF d]) (use k(1) assms(2) in \<open>simp_all add: constraint_symbols_def arity_length\<close>)
  ultimately show ?thesis by (simp add: ref_prefix_def) metis
qed

lemma ref_prefix_inject: "inj_on ref_prefix (set constraint_symbols)"
proof (rule inj_onI)
  fix m n assume h: "m \<in> set constraint_symbols" "n \<in> set constraint_symbols" "ref_prefix m = ref_prefix n"
  let ?i = "index_of m constraint_arity"
  have "ref_prefix m = [1, of_nat ?i]" by (simp add: ref_prefix_def)
  then have "fst (constraint_arity ! ?i) = n"
    using prefix_index [OF h(2) symbol_index(1) [OF h(1)]] h(3) by metis
  then show "m = n" using symbol_index(2) [OF h(1)] by metis
qed

lemma ref_parse_symbol:
  assumes "ref_parse code = Inr (nm, pfx, args)" "name \<in> set constraint_symbols"
  shows "pfx = ref_prefix name \<longleftrightarrow> nm = name"
proof -
  obtain i where i: "unat i < 11" "pfx = [1, i]" "nm = fst (constraint_arity ! unat i)"
    using assms(1) unfolding ref_parse_Inr arity_length by blast
  have "ref_prefix name = [1, i] \<longleftrightarrow> nm = name"
    using prefix_index [OF assms(2) i(1)] i(3) by simp
  then show ?thesis using i(2) by metis
qed

lemma ref_parsing: "parse_laws ref_easyfl"
  unfolding parse_laws_def ref_simps one_level_None
proof (intro conjI allI impI ballI)
  fix code n r
  show "ref_one_level code (Some n) = Inr r \<longleftrightarrow> ref_parse code = Inr r \<and> length (snd (snd r)) = n"
    by (rule one_level_Some)
next
  fix code sym pfx args name
  assume "ref_parse code = Inr (sym, pfx, args)" "name \<in> set constraint_symbols"
  then show "pfx = ref_prefix name \<longleftrightarrow> sym = name" by (rule ref_parse_symbol)
next
  show "inj_on ref_prefix (set constraint_symbols)" by (rule ref_prefix_inject)
next
  fix code pfx v and i :: byte
  assume "ref_builtin B_parseBytecodeArg [Inr code, Inr pfx, Inr [i]] = Inr v"
  then show "\<exists>sym args. ref_parse code = Inr (sym, pfx, args) \<and> unat i < length args \<and> v = ref_strip (args ! unat i)"
    by (auto simp: ref_fail_def split: if_splits)
next
  fix code sym pfx args and i :: byte
  assume "ref_parse code = Inr (sym, pfx, args)" "unat i < length args"
  then show "ref_builtin B_parseBytecodeArg [Inr code, Inr pfx, Inr [i]] = Inr (ref_strip (args ! unat i))"
    by simp
qed (auto simp: ref_prefix_def)

lemma ref_laws: "easyfl_laws ref_easyfl"
  unfolding easyfl_laws_def using ref_logic ref_compare ref_bytes ref_crypto ref_parsing by blast

lemma lit_arg_is: "arg_is ref_easyfl l (lit_arg l)"
  by (cases l) (simp_all add: ref_strip_def)

lemma lit_data_short: "lit_ok ref_easyfl l \<Longrightarrow> length (lit_data l) \<le> 127"
  by (cases l) simp_all

lemma ref_compiles: "compile_laws ref_easyfl"
  unfolding compile_laws_def
proof (intro allI impI)
  fix name :: string and sl :: "(string \<times> lit) list"
  assume h: "map_of constraint_arity name = Some (length sl)" "seps_ok sl"
    "\<forall>p \<in> set sl. lit_ok ref_easyfl (snd p)"
  let ?args = "map (\<lambda>p. lit_arg (snd p)) sl"
  let ?code = "ref_call (index_of name constraint_arity) ?args"
  have "length (lit_arg (snd p)) < 65536" if "p \<in> set sl" for p
    using lit_arg_length [of "snd p"] lit_data_short h(3) that by fastforce
  then have parse: "ref_parse ?code = Inr (name, ref_prefix name, ?args)"
    using h(1) by (intro ref_parse_call) auto
  have reads: "reads_as ref_easyfl ?code name (map snd sl)"
    using parse lit_arg_is unfolding reads_as_def
    by (simp add: one_level_None list_all2_map1 list_all2_map2 list.rel_refl)
  have "length ?code = 2 + (\<Sum>p\<leftarrow>sl. 2 + length (lit_arg (snd p)))"
    by (simp add: ref_call_def length_write_fields comp_def)
  moreover have "(\<Sum>p\<leftarrow>sl. 2 + length (lit_arg (snd p))) \<le> (\<Sum>p\<leftarrow>sl. 8 + length (lit_data (snd p)))"
  proof (rule sum_list_mono)
    fix p
    show "2 + length (lit_arg (snd p)) \<le> 8 + length (lit_data (snd p))"
      using lit_arg_length [of "snd p"] by simp
  qed
  ultimately have "length ?code \<le> 8 + (\<Sum>p\<leftarrow>sl. 8 + length (lit_data (snd p)))" by linarith
  moreover have "?code \<noteq> []" "hd ?code \<noteq> 0" by (simp_all add: ref_call_def)
  ultimately show "\<exists>code. CompileExpression ref_easyfl (call_source name sl) = Inr code
      \<and> reads_as ref_easyfl code name (map snd sl)
      \<and> length code \<le> 8 + (\<Sum>p\<leftarrow>sl. 8 + length (lit_data (snd p))) \<and> code \<noteq> [] \<and> hd code \<noteq> 0"
    using reads ref_compile_call [OF h(1,2)] by auto
qed

lemmas script_defs =
  vbCost16_def amountBlockIndex_def timestampBlockIndex_def lockBlockIndex_def amountConstraint_def
  timestampConstraint_def lockConstraint_def isPathToConsumedOutput_def isPathToProducedOutput_def
  consumedOutputPathByIndex_def unlockParamsPathByIndex_def producedOutputPathByIndex_def
  consumedOutputByIndex_def unlockParamsByIndex_def producedOutputByIndex_def producedConstraintByIndex_def
  consumedConstraintByIndex_def unlockParamsByConstraintIndex_def consumedLockByOutputIndex_def
  inputIDByIndex_def txBytes_def txID_def txSignature_def txTimestampBytes_def txEssenceBytes_def
  selfOutputPath_def selfSiblingConstraint_def selfOutputBytes_def fl_self_def selfBytecodePrefix_def
  selfIsConsumedOutput_def selfIsProducedOutput_def selfOutputIndex_def selfBlockIndex_def selfBranch_def
  selfConstraintIndex_def constraintData_def selfConstraintData_def selfUnlockParameters_def
  selfReferencedPath_def selfSiblingUnlockBlock_def selfHashUnlock_def signatureED25519_def
  publicKeyED25519_def storageDepositEnough_def fl_amount_def amountValue_def fl_timestamp_def
  fl_timelock_def unlockedWithSigED25519_def unlockedByReference_def fl_addressED25519_def
  fl_deadlineLock_def fl_senderAddressED25519_def originChainData_def destroyUnlockParams_def chainID_def
  transitionMode_def predecessorConstraintIndex_def predecessorOutput_def predecessorInputID_def
  validPredecessorData_def chainPredecessorData_def validSuccessorData_def chainSuccessorData_def
  fl_chain_def selfReferencedChainData_def selfReferencedChainIDAdjusted_def validChainUnlock_def
  fl_chainLock_def fl_royaltiesED25519_def immutable_successor_def fl_immutable_def fl_commitToSibling_def

text \<open>No formula calls the evaluator: it sees its arguments already as outcomes.\<close>

lemma fl_call_base: "fl_call ref_easyfl = fl_call ref_base"
proof -
  have "Builtin ref_base = ref_builtin" "PrefixOf ref_base = ref_prefix"
    by (simp_all add: ref_base_def)
  then show ?thesis
    by (intro ext) (simp only: fl_call_def script_defs ref_simps)
qed

lemma ref_runs: "runs_library ref_easyfl"
  unfolding runs_library_def ref_simps one_level_None
proof (intro conjI allI impI)
  fix c code name pfx args
  assume "ref_parse code = Inr (name, pfx, args)"
  then have "ref_eval c code = fl_call ref_base c name (map (ref_eval c) args)"
    using ref_parse_strip by (subst ref_eval.simps) fastforce
  then show "tv (ref_eval c code) = tv (fl_call ref_easyfl c name (map (ref_eval c) args))"
    by (simp only: fl_call_base)
next
  fix c a assume "length (ref_strip a) < length a"
  then show "ref_eval c a = Inr (ref_strip a)" by (subst ref_eval.simps) simp
qed

end
