(* ===== verification/Outputs.thy ===== *)
theory Outputs
  imports Validation "HOL-Library.Multiset"
begin

text \<open>
  \<^verbatim>\<open>ledger/txbuilder/output.go\<close>: outputs as arrays of constraints, and the parsing and sorting of the
  outputs of an account. An \<^verbatim>\<open>*Output\<close> is the array it wraps, so its methods are operations on an
  \<open>array\<close>. \<^verbatim>\<open>ToString\<close> is in theory \<open>Rendering\<close>.
\<close>

type_synonym Output = array

definition call :: "'a res \<Rightarrow> ('a, 's) op" where
  \<comment> \<open>an argument that is evaluated before the object is touched\<close>
  "call r = (\<lambda>s. (r, s))"

definition exec :: "('a, 's) op \<Rightarrow> 's \<Rightarrow> 's res" where
  \<comment> \<open>the object after the call, when the call returns\<close>
  "exec m s = (case m s of (Inl e, _) \<Rightarrow> Inl e | (Inr _, t) \<Rightarrow> Inr t)"

section \<open>Building an output\<close>

definition NewOutput :: Output where
  "NewOutput = EmptyArrayMax 256"

definition WithAmount :: "easyfl \<Rightarrow> 64 word \<Rightarrow> (unit, Output) op" where
  "WithAmount E amount = sbind (call (Amount_Bytes E amount)) (PutAtIdxGrow ConstraintIndexAmount)"

definition WithTimestamp :: "easyfl \<Rightarrow> 32 word \<Rightarrow> (unit, Output) op" where
  "WithTimestamp E ts = sbind (call (Timestamp_Bytes E ts)) (PutAtIdxGrow ConstraintIndexTimestamp)"

definition PutConstraint :: "bytes \<Rightarrow> byte \<Rightarrow> (unit, Output) op" where
  "PutConstraint c idx = PutAtIdxGrow (unat idx) c"

definition WithLock :: "easyfl \<Rightarrow> Lock \<Rightarrow> (unit, Output) op" where
  "WithLock E lock = sbind (call (Lock_Bytes E lock)) (\<lambda>b. PutConstraint b (of_nat ConstraintIndexLock))"

definition OutputBasic :: "easyfl \<Rightarrow> 64 word \<Rightarrow> 32 word \<Rightarrow> Lock \<Rightarrow> Output res" where
  "OutputBasic E amount ts lock =
     exec (sbind (WithAmount E amount) (\<lambda>_. sbind (WithTimestamp E ts) (\<lambda>_. WithLock E lock))) NewOutput"

definition NumConstraints :: "(nat, Output) op" where
  "NumConstraints = NumElements"

definition PushConstraint :: "bytes \<Rightarrow> (byte, Output) op" where
  "PushConstraint c =
     sbind NumConstraints (\<lambda>n.
     if n \<ge> 256 then call (Inl (Error Too_many_constraints))
     else sbind (Push c) (\<lambda>_. sbind NumElements (\<lambda>n. ret (of_nat (n - 1)))))"

section \<open>Reading an output\<close>

definition Output_Constraint :: "byte \<Rightarrow> Output \<Rightarrow> bytes res" where
  "Output_Constraint idx o' = fst (At (unat idx) o')"

definition OutputFromBytes :: "easyfl \<Rightarrow> registry \<Rightarrow> bytes \<Rightarrow> Output res" where
  "OutputFromBytes E R data =
     (let arr = ArrayFromBytesMax data 256 in
      rbind (fst (NumElements arr)) (\<lambda>n.
      if n < 3 then Inl (Error Too_few_constraints)
      else rbind (fst (At ConstraintIndexAmount arr)) (\<lambda>amountBin.
        rbind (AmountFromBytes E amountBin) (\<lambda>_.
        rbind (fst (At ConstraintIndexTimestamp arr)) (\<lambda>tsBin.
        rbind (TimestampFromBytes E tsBin) (\<lambda>_.
        rbind (fst (At ConstraintIndexLock arr)) (\<lambda>lockBin.
        rbind (LockFromBytes E R lockBin) (\<lambda>_.
        Inr (snd (NumElements arr))))))))))"

definition Output_Amount :: "easyfl \<Rightarrow> Output \<Rightarrow> 64 word res" where
  "Output_Amount E o' = rbind (fst (At ConstraintIndexAmount o')) (\<lambda>b. as_panic (AmountFromBytes E b))"

definition Output_Timestamp :: "easyfl \<Rightarrow> Output \<Rightarrow> 32 word res" where
  "Output_Timestamp E o' = rbind (fst (At ConstraintIndexTimestamp o')) (\<lambda>b. as_panic (TimestampFromBytes E b))"

definition Output_Lock :: "easyfl \<Rightarrow> registry \<Rightarrow> Output \<Rightarrow> Lock res" where
  "Output_Lock E R o' = rbind (fst (At ConstraintIndexLock o')) (\<lambda>b. as_panic (LockFromBytes E R b))"

definition Output_Bytes :: "Output \<Rightarrow> bytes res" where
  "Output_Bytes o' = fst (Bytes o')"

definition Output_Clone :: "easyfl \<Rightarrow> registry \<Rightarrow> Output \<Rightarrow> Output res" where
  "Output_Clone E R o' = rbind (Output_Bytes o') (\<lambda>b. as_panic (OutputFromBytes E R b))"

text \<open>
  \<open>find_constraint f\<close> is the loop over the optional constraints that stops at the first one that \<open>f\<close>
  parses. An error of \<open>f\<close> goes on, a panic does not.
\<close>

fun find_constraint :: "(bytes \<Rightarrow> 'a res) \<Rightarrow> (nat \<times> bytes) list \<Rightarrow> ('a \<times> byte) option res" where
  "find_constraint f [] = Inr None"
| "find_constraint f ((i, constr) # rest) =
     (let idx = (of_nat i :: byte) in
      if unat idx = ConstraintIndexAmount \<or> unat idx = ConstraintIndexTimestamp \<or> unat idx = ConstraintIndexLock
      then find_constraint f rest
      else (case f constr of
          Inl (Panic p) \<Rightarrow> Inl (Panic p)
        | Inl (Error _) \<Rightarrow> find_constraint f rest
        | Inr x \<Rightarrow> Inr (Some (x, idx))))"

definition search_output :: "(bytes \<Rightarrow> 'a res) \<Rightarrow> Output \<Rightarrow> ('a \<times> byte) option res" where
  "search_output f o' = rbind (fst (Parsed o')) (\<lambda>blocks. find_constraint f (enumerate 0 blocks))"

definition Output_TimeLock :: "easyfl \<Rightarrow> Output \<Rightarrow> (32 word \<times> bool) res" where
  "Output_TimeLock E o' =
     rmap (\<lambda>r. case r of Some (t, _) \<Rightarrow> (t, True) | None \<Rightarrow> (0, False)) (search_output (TimelockFromBytes E) o')"

definition Output_Sender :: "easyfl \<Rightarrow> Output \<Rightarrow> AddressED25519 option res" where
  "Output_Sender E o' = rmap (map_option fst) (search_output (SenderFromBytes E) o')"

definition Output_ChainConstraint :: "easyfl \<Rightarrow> Output \<Rightarrow> (ChainConstraint option \<times> byte) res" where
  "Output_ChainConstraint E o' =
     rmap (\<lambda>r. case r of
         Some (ch, found) \<Rightarrow> if found \<noteq> 255 then (Some ch, found) else (None, 255)
       | None \<Rightarrow> (None, 255)) (search_output (ChainConstraintFromBytes E) o')"

section \<open>The outputs of an account\<close>

record OutputWithID =
  ow_ID :: OutputID
  ow_Output :: Output

text \<open>
  \<^verbatim>\<open>sort.Slice\<close> of the standard library is not stable and its result is not determined by its
  documentation when elements compare equal, so it is a parameter \<open>sort_Slice\<close>; \<open>sort_laws\<close> is what the
  documentation promises for a strict weak ordering.
\<close>

type_synonym 'a sorter = "('a \<Rightarrow> 'a \<Rightarrow> bool) \<Rightarrow> 'a list \<Rightarrow> 'a list"

definition sort_laws :: "'a sorter \<Rightarrow> bool" where
  "sort_laws srt \<longleftrightarrow>
     (\<forall>(key :: 'a \<Rightarrow> nat) xs. mset (srt (\<lambda>x y. key x < key y) xs) = mset xs
        \<and> sorted (map key (srt (\<lambda>x y. key x < key y) xs))) \<and>
     (\<forall>(key :: 'a \<Rightarrow> nat) xs. mset (srt (\<lambda>x y. key x > key y) xs) = mset xs
        \<and> sorted (rev (map key (srt (\<lambda>x y. key x > key y) xs))))"

definition amount_key :: "easyfl \<Rightarrow> OutputWithID \<Rightarrow> nat" where
  \<comment> \<open>\<open>ret[i].Output.Amount()\<close>; every element was parsed before, so that the amount reads\<close>
  "amount_key E ow = (case Output_Amount E (ow_Output ow) of Inl _ \<Rightarrow> 0 | Inr a \<Rightarrow> unat a)"

definition parse_output :: "easyfl \<Rightarrow> registry \<Rightarrow> (Output \<Rightarrow> bool res) option \<Rightarrow> OutputDataWithID
    \<Rightarrow> OutputWithID list \<Rightarrow> OutputWithID list res" where
  "parse_output E R f od acc =
     rbind (OutputFromBytes E R (od_OutputData od)) (\<lambda>out.
     rbind (case f of None \<Rightarrow> Inr True | Some g \<Rightarrow> g out) (\<lambda>keep.
     Inr (if keep then acc @ [\<lparr>ow_ID = od_ID od, ow_Output = out\<rparr>] else acc)))"

definition ParseAndSortOutputData :: "OutputWithID sorter \<Rightarrow> easyfl \<Rightarrow> registry \<Rightarrow> OutputDataWithID list
    \<Rightarrow> (Output \<Rightarrow> bool res) option \<Rightarrow> bool \<Rightarrow> OutputWithID list res" where
  "ParseAndSortOutputData srt E R outs f desc =
     rmap (\<lambda>parsed. if desc then srt (\<lambda>x y. amount_key E x > amount_key E y) parsed
                    else srt (\<lambda>x y. amount_key E x < amount_key E y) parsed)
       (rfold (parse_output E R f) outs [])"

section \<open>Outputs as lists of constraints\<close>

definition outp :: "Output \<Rightarrow> bytes list \<Rightarrow> bool" where
  "outp o' xs \<longleftrightarrow> arr_inv o' \<and> arr_view o' = Inr xs \<and> arr_max o' = 256"

lemma exec_call [simp]: "exec (sbind (call r) f) s = rbind r (\<lambda>x. exec (f x) s)"
  by (cases r) (simp_all add: exec_def call_def sbind_def)

lemma exec_sbind: "exec (sbind m (\<lambda>_. n)) s = rbind (exec m s) (exec n)"
  by (auto simp: exec_def sbind_def split: prod.splits sum.splits)

lemma outp_New: "outp NewOutput []"
  by (simp add: outp_def NewOutput_def)

lemma outp_At: "outp o' xs \<Longrightarrow> fst (At i o') = nth_res xs i"
  by (simp add: outp_def At_eq)

lemma exec_put:
  assumes "outp o' xs" "i < 256"
  shows "\<exists>o''. exec (PutAtIdxGrow i d) o' = Inr o'' \<and> outp o'' (put_grow i d xs)"
  using arr.put_law [of o' xs i d] assms by (fastforce simp: outp_def exec_def)

lemma outp_loaded: "outp o' xs \<Longrightarrow> outp (arr_loaded o') xs"
  by (simp add: outp_def)

lemma exec_push:
  assumes "outp o' xs" "length xs < 256"
  shows "\<exists>o''. PushConstraint c o' = (Inr (of_nat (length xs)), o'') \<and> outp o'' (xs @ [c])"
proof -
  have o1: "arr_inv (arr_loaded o')" "arr_view (arr_loaded o') = Inr xs" "arr_max (arr_loaded o') = 256"
    using assms(1) by (simp_all add: outp_def)
  obtain a where a: "Push c (arr_loaded o') = (Inr (length xs), a)" "arr_inv a" "arr_view a = Inr (xs @ [c])" "arr_max a = 256"
    using arr.push_law [OF o1(1,2), of c] assms(2) o1(3) by auto
  have "PushConstraint c o' = (Inr (of_nat (length xs)), arr_loaded a)"
    using assms(1,2) a(1,3)
    by (simp add: PushConstraint_def NumConstraints_def NumElements_eq outp_def sbind_def ret_def)
  moreover have "outp (arr_loaded a) (xs @ [c])" using a by (simp add: outp_def)
  ultimately show ?thesis by blast
qed

lemma push_full:
  "outp o' xs \<Longrightarrow> 256 \<le> length xs \<Longrightarrow> fst (PushConstraint c o') = Inl (Error Too_many_constraints)"
  by (simp add: PushConstraint_def NumConstraints_def NumElements_eq outp_def sbind_def call_def)

lemma put_grow_low:
  "put_grow 0 d [] = [d]" "put_grow (Suc 0) d [x] = [x, d]" "put_grow 2 d [x, y] = [x, y, d]"
  using put_grow_snoc [of "[]" d] put_grow_snoc [of "[x]" d] put_grow_snoc [of "[x, y]" d]
  by (simp_all add: numeral_2_eq_2)

lemma OutputBasic_ok:
  assumes "Amount_Bytes E n = Inr ca" "Timestamp_Bytes E ts = Inr ct" "Lock_Bytes E l = Inr cl"
  shows "\<exists>o'. OutputBasic E n ts l = Inr o' \<and> outp o' [ca, ct, cl]"
proof -
  obtain o1 where o1: "exec (PutAtIdxGrow 0 ca) NewOutput = Inr o1" "outp o1 [ca]"
    using exec_put [OF outp_New, of 0 ca] by (auto simp: put_grow_low)
  obtain o2 where o2: "exec (PutAtIdxGrow 1 ct) o1 = Inr o2" "outp o2 [ca, ct]"
    using exec_put [OF o1(2), of 1 ct] by (auto simp: put_grow_low)
  obtain o3 where o3: "exec (PutAtIdxGrow 2 cl) o2 = Inr o3" "outp o3 [ca, ct, cl]"
    using exec_put [OF o2(2), of 2 cl] by (auto simp: put_grow_low)
  show ?thesis
    using o1 o2 o3 assms
    by (simp add: OutputBasic_def exec_sbind WithAmount_def WithTimestamp_def WithLock_def PutConstraint_def
        ConstraintIndex_defs)
qed

lemma outp_Bytes:
  assumes "outp o' xs" "encodable xs" "length xs \<le> 256"
  shows "\<exists>b. Output_Bytes o' = Inr b \<and> parseArray b 256 = Inr xs"
proof -
  have a: "arr_inv o'" "arr_view o' = Inr xs" using assms(1) by (simp_all add: outp_def)
  then obtain b where "array_bytes o' = Inr b"
    using Bytes_result [OF a] assms(2) by (auto simp: array_bytes_def is_ok_iff)
  then show ?thesis using array_bytes_Inr [OF a] assms(3) by (auto simp: Output_Bytes_def array_bytes_def)
qed

lemma OutputFromBytes_Inr:
  "OutputFromBytes E R data = Inr o' \<longleftrightarrow>
     (\<exists>xs. parseArray data 256 = Inr xs \<and> 3 \<le> length xs \<and> o' = arr_loaded (ArrayFromBytesMax data 256)
        \<and> is_ok (AmountFromBytes E (xs ! 0)) \<and> is_ok (TimestampFromBytes E (xs ! 1)) \<and> is_ok (LockFromBytes E R (xs ! 2)))"
proof (cases "parseArray data 256")
  case (Inr xs)
  show ?thesis
  proof (cases "3 \<le> length xs")
    case True
    then have "0 < length xs" "1 < length xs" "2 < length xs" by linarith+
    then show ?thesis using Inr True
      by (auto simp: OutputFromBytes_def Let_def NumElements_eq At_eq ConstraintIndex_defs is_ok_iff)
  qed (use Inr in \<open>simp add: OutputFromBytes_def NumElements_eq\<close>)
next
  case (Inl e)
  then have "arr_view (ArrayFromBytesMax data 256) = as_panic (Inl e)" by simp
  then have "arr_view (ArrayFromBytesMax data 256) \<noteq> Inr xs" for xs by simp
  then obtain f where "arr_view (ArrayFromBytesMax data 256) = Inl f" by (metis obj_sumE)
  then show ?thesis using Inl by (simp add: OutputFromBytes_def Let_def NumElements_eq)
qed

lemma OutputFromBytes_outp:
  assumes "OutputFromBytes E R data = Inr o'"
  obtains xs where "parseArray data 256 = Inr xs" "outp o' xs" "3 \<le> length xs"
    "is_ok (AmountFromBytes E (xs ! 0))" "is_ok (TimestampFromBytes E (xs ! 1))" "is_ok (LockFromBytes E R (xs ! 2))"
  using assms unfolding OutputFromBytes_Inr by (auto simp: outp_def)

lemma outp_getters:
  assumes "outp o' xs" "3 \<le> length xs"
  shows "Output_Amount E o' = as_panic (AmountFromBytes E (xs ! 0))"
    and "Output_Timestamp E o' = as_panic (TimestampFromBytes E (xs ! 1))"
    and "Output_Lock E R o' = as_panic (LockFromBytes E R (xs ! 2))"
proof -
  have "0 < length xs" "1 < length xs" "2 < length xs" using assms(2) by linarith+
  then show "Output_Amount E o' = as_panic (AmountFromBytes E (xs ! 0))"
    "Output_Timestamp E o' = as_panic (TimestampFromBytes E (xs ! 1))"
    "Output_Lock E R o' = as_panic (LockFromBytes E R (xs ! 2))"
  by (simp_all add: Output_Amount_def Output_Timestamp_def Output_Lock_def outp_At [OF assms(1)]
      ConstraintIndex_defs)
qed

lemma basic_output_written:
  assumes "easyfl_laws E" "compile_laws E" "lock_sized lock" "Lock_Bytes E lock = Inr cl"
  obtains ca ct o' data where "AmountFromBytes E ca = Inr amount" "TimestampFromBytes E ct = Inr ts"
    "OutputBasic E amount ts lock = Inr o'" "Output_Bytes o' = Inr data" "parseArray data 256 = Inr [ca, ct, cl]"
proof -
  obtain ca where ca: "Amount_Bytes E amount = Inr ca" "reads_as E ca ''amount'' [L_u64 amount]" "length ca \<le> 400"
    using Amount_compiles [OF assms(2), of amount] by (auto simp: compiles_to_def)
  obtain ct where ct: "Timestamp_Bytes E ts = Inr ct" "reads_as E ct ''timestamp'' [L_u32 ts]" "length ct \<le> 400"
    using Timestamp_compiles [OF assms(2), of ts] by (auto simp: compiles_to_def)
  have "length cl \<le> 400" using lock_code_size [OF assms] by simp
  then have enc: "encodable [ca, ct, cl]"
    using ca(3) ct(3) by (simp add: encodable_def maxArrayLen_eq MaxUint32_def)
  obtain o' where o': "OutputBasic E amount ts lock = Inr o'" "outp o' [ca, ct, cl]"
    using OutputBasic_ok [OF ca(1) ct(1) assms(4)] by blast
  obtain data where "Output_Bytes o' = Inr data" "parseArray data 256 = Inr [ca, ct, cl]"
    using outp_Bytes [OF o'(2) enc] by auto
  then show ?thesis
    using that [OF Amount_reads [OF assms(1) ca(2)] Timestamp_reads [OF assms(1) ct(2)] o'(1)] by blast
qed

lemma output_reads_back:
  assumes "parseArray data 256 = Inr [ca, ct, cl]" "AmountFromBytes E ca = Inr amount"
    "TimestampFromBytes E ct = Inr ts" "LockFromBytes E R cl = Inr lock"
  shows "\<exists>o''. OutputFromBytes E R data = Inr o'' \<and> Output_Amount E o'' = Inr amount
    \<and> Output_Timestamp E o'' = Inr ts \<and> Output_Lock E R o'' = Inr lock"
proof -
  obtain o'' where o'': "OutputFromBytes E R data = Inr o''"
    using assms unfolding OutputFromBytes_Inr by simp
  then have "outp o'' [ca, ct, cl]"
    by (rule OutputFromBytes_outp) (use assms(1) in simp)
  then show ?thesis using o'' outp_getters [of o'' "[ca, ct, cl]"] assms(2-4) by simp
qed

text \<open>
  C28 (output_roundtrip): an output built from any amount, time stamp and lock serialises, and reading
  the bytes back gives an output with the same amount, time stamp and lock, with exactly one
  exception: when the lock is a deadline lock that names a chain lock, the bytes are refused with an
  error.
\<close>

theorem output_roundtrip:
  assumes "easyfl_laws E" "compile_laws E" "init_constraints E = Inr R" "lock_sized lock"
  shows "\<exists>o' data. OutputBasic E amount ts lock = Inr o' \<and> Output_Bytes o' = Inr data
    \<and> (if lock_readable lock
       then \<exists>o''. OutputFromBytes E R data = Inr o'' \<and> Output_Amount E o'' = Inr amount
              \<and> Output_Timestamp E o'' = Inr ts \<and> Output_Lock E R o'' = Inr lock
       else \<exists>f. OutputFromBytes E R data = Inl (Error f))"
proof (cases "lock_readable lock")
  case True
  have R: "R = registry_of E std_entries" using init_constraints_std [OF assms(1,2)] assms(3) by simp
  have "lock_ok lock" using True assms(4) by (simp add: lock_ok_def)
  then obtain cl where cl: "Lock_Bytes E lock = Inr cl" "LockFromBytes E R cl = Inr lock"
    unfolding R by (rule lock_reads_back [OF assms(1,2)])
  show ?thesis
    by (rule basic_output_written [OF assms(1,2,4) cl(1), of amount ts])
      (use output_reads_back cl(2) True in force)
next
  case False
  then obtain dl where dl: "lock = Lock_DeadlineLock dl" by (cases lock) auto
  obtain cl f where cl: "Lock_Bytes E lock = Inr cl" "LockFromBytes E R cl = Inl (Error f)"
    using deadline_chain_lock_not_readable [OF assms(1-3), of dl] assms(4) False unfolding dl by blast
  obtain ca ct o' data where o': "AmountFromBytes E ca = Inr amount" "TimestampFromBytes E ct = Inr ts"
    "OutputBasic E amount ts lock = Inr o'" "Output_Bytes o' = Inr data" "parseArray data 256 = Inr [ca, ct, cl]"
    by (rule basic_output_written [OF assms(1,2,4) cl(1)])
  have "OutputFromBytes E R data = Inl (Error f)"
    using o'(1,2,5) cl(2) by (simp add: OutputFromBytes_def NumElements_eq At_eq ConstraintIndex_defs)
  then show ?thesis using o'(3,4) False by auto
qed

section \<open>The optional constraints\<close>

definition optional_at :: "(bytes \<Rightarrow> 'a res) \<Rightarrow> bytes list \<Rightarrow> nat \<Rightarrow> 'a \<Rightarrow> bool" where
  "optional_at f xs i x \<longleftrightarrow> 3 \<le> i \<and> i < length xs \<and> f (xs ! i) = Inr x"

lemma find_constraint_Inr:
  assumes "find_constraint f (enumerate n xs) = Inr r" "n + length xs \<le> 256"
  shows "case r of
      None \<Rightarrow> \<forall>i < length xs. 3 \<le> n + i \<longrightarrow> \<not> is_ok (f (xs ! i))
    | Some (x, k) \<Rightarrow> \<exists>i < length xs. k = of_nat (n + i) \<and> 3 \<le> n + i \<and> f (xs ! i) = Inr x
        \<and> (\<forall>j < i. 3 \<le> n + j \<longrightarrow> \<not> is_ok (f (xs ! j)))"
  using assms
proof (induction xs arbitrary: n)
  case Nil
  then show ?case by simp
next
  case (Cons d xs)
  have n: "unat (of_nat n :: byte) = n" using Cons.prems(2) by simp
  have step: "case r of
      None \<Rightarrow> \<forall>i < length (d # xs). 3 \<le> n + i \<longrightarrow> \<not> is_ok (f ((d # xs) ! i))
    | Some (x, k) \<Rightarrow> \<exists>i < length (d # xs). k = of_nat (n + i) \<and> 3 \<le> n + i \<and> f ((d # xs) ! i) = Inr x
        \<and> (\<forall>j < i. 3 \<le> n + j \<longrightarrow> \<not> is_ok (f ((d # xs) ! j)))"
    if rest: "find_constraint f (enumerate (Suc n) xs) = Inr r" and skip: "3 \<le> n \<longrightarrow> \<not> is_ok (f d)"
  proof -
    have ih: "case r of
        None \<Rightarrow> \<forall>i < length xs. 3 \<le> Suc n + i \<longrightarrow> \<not> is_ok (f (xs ! i))
      | Some (x, k) \<Rightarrow> \<exists>i < length xs. k = of_nat (Suc n + i) \<and> 3 \<le> Suc n + i \<and> f (xs ! i) = Inr x
          \<and> (\<forall>j < i. 3 \<le> Suc n + j \<longrightarrow> \<not> is_ok (f (xs ! j)))"
      using Cons.IH [OF rest] Cons.prems(2) by simp
    show ?thesis
    proof (cases r)
      case None
      then show ?thesis using ih skip by (auto simp: less_Suc_eq_0_disj)
    next
      case (Some p)
      obtain x k where p: "p = (x, k)" by (cases p)
      then obtain i where i: "i < length xs" "k = of_nat (Suc n + i)" "3 \<le> Suc n + i" "f (xs ! i) = Inr x"
        "\<forall>j < i. 3 \<le> Suc n + j \<longrightarrow> \<not> is_ok (f (xs ! j))"
        using ih Some by auto
      have "\<forall>j < Suc i. 3 \<le> n + j \<longrightarrow> \<not> is_ok (f ((d # xs) ! j))"
        using i(5) skip by (auto simp: less_Suc_eq_0_disj)
      then show ?thesis
        using i Some p by (intro option.split [THEN iffD2]) (auto intro!: exI [of _ "Suc i"])
    qed
  qed
  consider "n < 3" | f' where "3 \<le> n" "f d = Inl (Error f')" | x where "3 \<le> n" "f d = Inr x" "r = Some (x, of_nat n)"
    using Cons.prems(1) n
    by (cases "f d") (auto simp: Let_def ConstraintIndex_defs split: error.splits if_splits)
  then show ?case
  proof cases
    case 1
    then have "n = 0 \<or> n = 1 \<or> n = 2" by linarith
    then show ?thesis
      using step 1 Cons.prems(1) n by (auto simp: Let_def ConstraintIndex_defs)
  next
    case 2
    then show ?thesis
      using step Cons.prems(1) n by (auto simp: Let_def ConstraintIndex_defs)
  next
    case 3
    then show ?thesis by (auto intro!: exI [of _ 0])
  qed
qed

lemma chain_search:
  assumes "outp o' xs" "length xs \<le> 256" "Output_ChainConstraint E o' = Inr (r, k)"
  shows "case r of
      Some ch \<Rightarrow> k \<noteq> 255 \<and> optional_at (ChainConstraintFromBytes E) xs (unat k) ch
        \<and> (\<forall>j < unat k. 3 \<le> j \<longrightarrow> \<not> is_ok (ChainConstraintFromBytes E (xs ! j)))
    | None \<Rightarrow> k = 255 \<and> (\<forall>j < min 255 (length xs). 3 \<le> j \<longrightarrow> \<not> is_ok (ChainConstraintFromBytes E (xs ! j)))"
proof -
  let ?f = "ChainConstraintFromBytes E"
  obtain q where q: "find_constraint ?f (enumerate 0 xs) = Inr q"
    "(r, k) = (case q of Some (ch, found) \<Rightarrow> if found \<noteq> 255 then (Some ch, found) else (None, 255) | None \<Rightarrow> (None, 255))"
    using assms(1,3) by (auto simp: Output_ChainConstraint_def search_output_def Parsed_def ensureParsed_eq outp_def)
  note found = find_constraint_Inr [OF q(1)]
  show ?thesis
  proof (cases q)
    case None
    then show ?thesis using found assms(2) q(2) by simp
  next
    case (Some p)
    obtain x b where p: "p = (x, b)" by (cases p)
    obtain i where i: "i < length xs" "b = of_nat i" "3 \<le> i" "?f (xs ! i) = Inr x"
      "\<forall>j < i. 3 \<le> j \<longrightarrow> \<not> is_ok (?f (xs ! j))"
      using found assms(2) Some p by auto
    have b: "unat b = i" using i(1,2) assms(2) by simp
    show ?thesis
    proof (cases "b = 255")
      case True
      then have "i = 255" using b by simp
      then show ?thesis using q(2) Some p i(5) True by simp
    next
      case False
      then show ?thesis using q(2) Some p b i by (simp add: optional_at_def)
    qed
  qed
qed

text \<open>
  \<^verbatim>\<open>ChainConstraint\<close> returns the first block from index 3 on that reads as a
  chain constraint, with its index, or \<^verbatim>\<open>0xff\<close> when there is none. The value \<^verbatim>\<open>0xff\<close> stands for two cases:
  a chain constraint at block 255 is reported as missing.
\<close>

theorem chain_constraint_found:
  assumes "outp o' xs" "length xs \<le> 256" "Output_ChainConstraint E o' = Inr (r, k)"
  shows "case r of
      Some ch \<Rightarrow> k \<noteq> 255 \<and> optional_at (ChainConstraintFromBytes E) xs (unat k) ch
        \<and> (\<forall>j < unat k. 3 \<le> j \<longrightarrow> \<not> is_ok (ChainConstraintFromBytes E (xs ! j)))
    | None \<Rightarrow> k = 255 \<and> (\<forall>j < min 255 (length xs). 3 \<le> j \<longrightarrow> \<not> is_ok (ChainConstraintFromBytes E (xs ! j)))"
  using assms by (rule chain_search)

section \<open>Parsing and sorting\<close>

lemma parse_outputs:
  assumes "rfold (parse_output E R f) outs acc = Inr res"
  shows "\<exists>kept. res = acc @ kept
    \<and> (\<forall>ow. ow \<in> set kept \<longleftrightarrow> (\<exists>od \<in> set outs. ow_ID ow = od_ID od \<and> OutputFromBytes E R (od_OutputData od) = Inr (ow_Output ow)
         \<and> (case f of None \<Rightarrow> True | Some g \<Rightarrow> g (ow_Output ow) = Inr True)))
    \<and> length kept \<le> length outs"
  using assms
proof (induction outs arbitrary: acc)
  case Nil
  then show ?case by simp
next
  case (Cons od outs)
  obtain out keep where out: "OutputFromBytes E R (od_OutputData od) = Inr out"
    "(case f of None \<Rightarrow> Inr True | Some g \<Rightarrow> g out) = Inr keep"
    "rfold (parse_output E R f) outs (if keep then acc @ [\<lparr>ow_ID = od_ID od, ow_Output = out\<rparr>] else acc) = Inr res"
  proof -
    obtain u where "parse_output E R f od acc = Inr u" "rfold (parse_output E R f) outs u = Inr res"
      using Cons.prems by auto
    then show ?thesis using that unfolding parse_output_def rbind_Inr_iff by blast
  qed
  have keep: "keep \<longleftrightarrow> (case f of None \<Rightarrow> True | Some g \<Rightarrow> g out = Inr True)"
    using out(2) by (cases f) auto
  obtain kept where kept: "res = (if keep then acc @ [\<lparr>ow_ID = od_ID od, ow_Output = out\<rparr>] else acc) @ kept"
    "\<forall>ow. ow \<in> set kept \<longleftrightarrow> (\<exists>od \<in> set outs. ow_ID ow = od_ID od \<and> OutputFromBytes E R (od_OutputData od) = Inr (ow_Output ow)
         \<and> (case f of None \<Rightarrow> True | Some g \<Rightarrow> g (ow_Output ow) = Inr True))" "length kept \<le> length outs"
    using Cons.IH [OF out(3)] by blast
  have this_one: "ow = \<lparr>ow_ID = od_ID od, ow_Output = out\<rparr> \<longleftrightarrow> ow_ID ow = od_ID od \<and> ow_Output ow = out" for ow :: OutputWithID
    by (cases ow) simp
  show ?case
    using kept out(1) keep this_one
    by (intro exI [of _ "(if keep then [\<lparr>ow_ID = od_ID od, ow_Output = out\<rparr>] else []) @ kept"]) auto
qed

lemma parse_and_sort_parts:
  assumes "sort_laws srt" "ParseAndSortOutputData srt E R outs f desc = Inr res"
  shows "if desc then sorted (rev (map (amount_key E) res)) else sorted (map (amount_key E) res)"
    and "ow \<in> set res \<longleftrightarrow> (\<exists>od \<in> set outs. ow_ID ow = od_ID od
        \<and> OutputFromBytes E R (od_OutputData od) = Inr (ow_Output ow)
        \<and> (case f of None \<Rightarrow> True | Some g \<Rightarrow> g (ow_Output ow) = Inr True))"
    and "\<forall>od \<in> set outs. is_ok (OutputFromBytes E R (od_OutputData od))"
proof -
  obtain parsed where parsed: "rfold (parse_output E R f) outs [] = Inr parsed"
    "res = (if desc then srt (\<lambda>x y. amount_key E x > amount_key E y) parsed
            else srt (\<lambda>x y. amount_key E x < amount_key E y) parsed)"
    using assms(2) by (auto simp: ParseAndSortOutputData_def)
  show "if desc then sorted (rev (map (amount_key E) res)) else sorted (map (amount_key E) res)"
    using assms(1) parsed(2) unfolding sort_laws_def by (cases desc) simp_all
  have "mset res = mset parsed"
    using assms(1) parsed(2) unfolding sort_laws_def by (cases desc) simp_all
  then have "set res = set parsed" by (rule mset_eq_setD)
  then show "ow \<in> set res \<longleftrightarrow> (\<exists>od \<in> set outs. ow_ID ow = od_ID od
        \<and> OutputFromBytes E R (od_OutputData od) = Inr (ow_Output ow)
        \<and> (case f of None \<Rightarrow> True | Some g \<Rightarrow> g (ow_Output ow) = Inr True))"
    using parse_outputs [OF parsed(1)] by auto
  show "\<forall>od \<in> set outs. is_ok (OutputFromBytes E R (od_OutputData od))"
    using rfold_each [OF parsed(1)] by (fastforce simp: parse_output_def is_ok_iff)
qed

text \<open>
  The outputs of an account are returned sorted by amount, in the direction asked
  for, and they are exactly those that the filter keeps; one output that does not parse fails the
  whole query.
\<close>

theorem parse_and_sort:
  assumes "sort_laws srt" "ParseAndSortOutputData srt E R outs f desc = Inr res"
  shows "(if desc then sorted (rev (map (amount_key E) res)) else sorted (map (amount_key E) res)) \<and>
    (ow \<in> set res \<longleftrightarrow> (\<exists>od \<in> set outs. ow_ID ow = od_ID od
        \<and> OutputFromBytes E R (od_OutputData od) = Inr (ow_Output ow)
        \<and> (case f of None \<Rightarrow> True | Some g \<Rightarrow> g (ow_Output ow) = Inr True))) \<and>
    (\<forall>od \<in> set outs. is_ok (OutputFromBytes E R (od_OutputData od)))"
  by (rule conjI [OF parse_and_sort_parts(1) [OF assms] conjI [OF parse_and_sort_parts(2) [OF assms] parse_and_sort_parts(3) [OF assms]]])

end
