(* ===== verification/TxBuilder.thy ===== *)
theory TxBuilder
  imports Outputs
begin

text \<open>
  \<^verbatim>\<open>ledger/txbuilder/txbuilder.go\<close>: the transaction builder and the transfers made with it. The builder
  is a record that its methods update. The ED25519 key pair of the standard library is a parameter
  \<open>S\<close> (\<open>signer\<close>), the wall clock a parameter \<open>now\<close>. Go shares \<^verbatim>\<open>*Output\<close> pointers between the caller
  and the builder; no output is written after it has been handed over, so the builder keeps values.
\<close>

section \<open>The builder\<close>

record 'k signer =
  sg_Sign :: "'k \<Rightarrow> bytes \<Rightarrow> bytes"
  sg_Public :: "'k \<Rightarrow> bytes"

record tx_data =
  \<comment> \<open>\<open>transaction\<close>\<close>
  td_InputIDs :: "OutputID list"
  td_Outputs :: "Output list"
  td_UnlockBlocks :: "array list"
  td_Signature :: bytes
  td_Timestamp :: "32 word"
  td_InputCommitment :: bytes
  td_Endorsements :: "TransactionID list"
  td_LocalLibraries :: "bytes list"

record TransactionBuilder =
  tb_ConsumedOutputs :: "Output list"
  tb_Transaction :: tx_data

definition NewTransactionBuilder :: TransactionBuilder where
  "NewTransactionBuilder =
     \<lparr>tb_ConsumedOutputs = [],
      tb_Transaction = \<lparr>td_InputIDs = [], td_Outputs = [], td_UnlockBlocks = [], td_Signature = [],
        td_Timestamp = 0, td_InputCommitment = replicate 32 0, td_Endorsements = [], td_LocalLibraries = []\<rparr>\<rparr>"

definition NewUnlockBlock :: array where
  "NewUnlockBlock = EmptyArrayMax 256"

definition tb_NumInputs :: "TransactionBuilder \<Rightarrow> nat res" where
  "tb_NumInputs txb =
     rbind (guard (length (tb_ConsumedOutputs txb) = length (td_InputIDs (tb_Transaction txb))) (Panic Inconsistency))
       (\<lambda>_. Inr (length (tb_ConsumedOutputs txb)))"

definition tb_NumOutputs :: "TransactionBuilder \<Rightarrow> nat" where
  "tb_NumOutputs txb = length (td_Outputs (tb_Transaction txb))"

definition ConsumeOutput :: "Output \<Rightarrow> OutputID \<Rightarrow> (byte, TransactionBuilder) op" where
  "ConsumeOutput out oid txb =
     (case tb_NumInputs txb of
        Inl e \<Rightarrow> (Inl e, txb)
      | Inr n \<Rightarrow>
          if n \<ge> 256 then (Inl (Error Too_many_outputs), txb)
          else let tx = tb_Transaction txb;
                   txb' = txb\<lparr>tb_ConsumedOutputs := tb_ConsumedOutputs txb @ [out],
                     tb_Transaction := tx\<lparr>td_InputIDs := td_InputIDs tx @ [oid],
                       td_UnlockBlocks := td_UnlockBlocks tx @ [NewUnlockBlock]\<rparr>\<rparr> in
            (Inr (of_nat (length (tb_ConsumedOutputs txb') - 1)), txb'))"

definition PutUnlockParams :: "byte \<Rightarrow> byte \<Rightarrow> bytes \<Rightarrow> (unit, TransactionBuilder) op" where
  "PutUnlockParams outputIndex constraintIndex unlockParamData txb =
     (let tx = tb_Transaction txb in
      case nth_res (td_UnlockBlocks tx) (unat outputIndex) of
        Inl e \<Rightarrow> (Inl e, txb)
      | Inr block \<Rightarrow>
          (case PutAtIdxGrow (unat constraintIndex) unlockParamData block of
             (r, block') \<Rightarrow>
               (r, txb\<lparr>tb_Transaction := tx\<lparr>td_UnlockBlocks := (td_UnlockBlocks tx)[unat outputIndex := block']\<rparr>\<rparr>)))"

definition PutSignatureUnlock :: "byte \<Rightarrow> byte \<Rightarrow> (unit, TransactionBuilder) op" where
  "PutSignatureUnlock outputIndex constraintIndex = PutUnlockParams outputIndex constraintIndex [255]"

definition PutUnlockReference :: "byte \<Rightarrow> byte \<Rightarrow> byte \<Rightarrow> (unit, TransactionBuilder) op" where
  "PutUnlockReference outputIndex constraintIndex referencedOutputIndex =
     (if referencedOutputIndex \<ge> outputIndex then call (Inl (Error Wrong_reference))
      else PutUnlockParams outputIndex constraintIndex [referencedOutputIndex])"

definition PushEndorsement :: "TransactionID \<Rightarrow> TransactionBuilder \<Rightarrow> TransactionBuilder" where
  "PushEndorsement txid txb =
     (let tx = tb_Transaction txb in
      txb\<lparr>tb_Transaction := tx\<lparr>td_Endorsements := td_Endorsements tx @ [txid]\<rparr>\<rparr>)"

definition ProduceOutput :: "Output \<Rightarrow> (byte, TransactionBuilder) op" where
  "ProduceOutput out txb =
     (if tb_NumOutputs txb \<ge> 256 then (Inl (Error Too_many_outputs), txb)
      else let tx = tb_Transaction txb;
               txb' = txb\<lparr>tb_Transaction := tx\<lparr>td_Outputs := td_Outputs tx @ [out]\<rparr>\<rparr> in
        (Inr (of_nat (tb_NumOutputs txb' - 1)), txb'))"

section \<open>Serialisation\<close>

definition push_arrays :: "array list \<Rightarrow> (unit, array) op" where
  \<comment> \<open>\<open>for _, o := range xs { arr.Push(o.Bytes()) }\<close>\<close>
  "push_arrays xs = op_all (\<lambda>x. sbind (call (array_bytes x)) Push) xs"

definition tb_InputCommitment :: "easyfl \<Rightarrow> TransactionBuilder \<Rightarrow> bytes res" where
  "tb_InputCommitment E txb =
     rbind (exec (push_arrays (tb_ConsumedOutputs txb)) (EmptyArrayMax 256)) (\<lambda>arr.
     rmap (Sum256 E) (array_bytes arr))"

definition tx_ToArray :: "tx_data \<Rightarrow> array res" where
  "tx_ToArray tx =
     rbind (exec (push_arrays (td_UnlockBlocks tx)) (EmptyArrayMax 256)) (\<lambda>unlockParams.
     rbind (exec (op_all Push (td_InputIDs tx)) (EmptyArrayMax 256)) (\<lambda>inputIDs.
     rbind (exec (push_arrays (td_Outputs tx)) (EmptyArrayMax 256)) (\<lambda>outputs.
     rbind (exec (op_all Push (td_Endorsements tx)) (EmptyArrayMax 256)) (\<lambda>endorsements.
     rbind (MakeArray (td_LocalLibraries tx)) (\<lambda>localLibraries.
     rbind (array_bytes unlockParams) (\<lambda>unlockParamsBin.
     rbind (array_bytes inputIDs) (\<lambda>inputIDsBin.
     rbind (array_bytes outputs) (\<lambda>outputsBin.
     rbind (array_bytes endorsements) (\<lambda>endorsementsBin.
     rbind (array_bytes localLibraries) (\<lambda>localLibrariesBin.
     MakeArray [unlockParamsBin, inputIDsBin, outputsBin, td_Signature tx, put_u32 (td_Timestamp tx),
       td_InputCommitment tx, endorsementsBin, localLibrariesBin]))))))))))"

definition tx_Bytes :: "tx_data \<Rightarrow> bytes res" where
  "tx_Bytes tx = rbind (tx_ToArray tx) array_bytes"

definition tx_EssenceBytes :: "tx_data \<Rightarrow> bytes res" where
  "tx_EssenceBytes tx =
     rbind (tx_ToArray tx) (\<lambda>arr.
     rbind (fst (At (unat TxInputIDs) arr)) (\<lambda>ids.
     rbind (fst (At (unat TxOutputs) arr)) (\<lambda>outs.
     rbind (fst (At (unat TxInputCommitment) arr)) (\<lambda>com.
     Inr (ids @ outs @ com)))))"

definition SignED25519 :: "'k signer \<Rightarrow> 'k \<Rightarrow> (unit, TransactionBuilder) op" where
  "SignED25519 S privKey txb =
     (case tx_EssenceBytes (tb_Transaction txb) of
        Inl e \<Rightarrow> (Inl e, txb)
      | Inr essenceBytes \<Rightarrow>
          (Inr (), txb\<lparr>tb_Transaction := (tb_Transaction txb)
             \<lparr>td_Signature := sg_Sign S privKey essenceBytes @ sg_Public S privKey\<rparr>\<rparr>))"

section \<open>Transfer parameters\<close>

record OutputWithChainID =
  wc_ID :: OutputID
  wc_Output :: Output
  wc_ChainID :: bytes
  wc_PredecessorConstraintIndex :: byte

record UnlockDataItem =
  \<comment> \<open>\<open>UnlockData\<close>\<close>
  un_OutputIndex :: byte
  un_ConstraintIndex :: byte
  un_Data :: bytes

record 'k TransferData =
  tf_SenderPrivateKey :: 'k
  tf_SenderPublicKey :: bytes
  tf_SourceAccount :: Accountable
  tf_Outputs :: "OutputWithID list"
  tf_ChainOutput :: "OutputWithChainID option"
  tf_Timestamp :: "32 word"
  tf_Lock :: "Lock option"
  tf_Amount :: "64 word"
  tf_AdjustToMinimum :: bool
  tf_AddSender :: bool
  tf_AddConstraints :: "bytes list"
  tf_UnlockData :: "UnlockDataItem list"

text \<open>A nil interface (\<^verbatim>\<open>Lock\<close>, \<^verbatim>\<open>ChainOutput\<close>, \<^verbatim>\<open>sourceAccount\<close>) is \<open>None\<close>.\<close>

definition NewTransferData :: "easyfl \<Rightarrow> 'k signer \<Rightarrow> 'k \<Rightarrow> Accountable option \<Rightarrow> 32 word \<Rightarrow> 'k TransferData" where
  "NewTransferData E S senderKey sourceAccount ts =
     (let sourcePubKey = sg_Public S senderKey in
      \<lparr>tf_SenderPrivateKey = senderKey, tf_SenderPublicKey = sourcePubKey,
       tf_SourceAccount = (case sourceAccount of Some acc \<Rightarrow> acc
         | None \<Rightarrow> Acc_AddressED25519 (AddressED25519FromPublicKey E sourcePubKey)),
       tf_Outputs = [], tf_ChainOutput = None, tf_Timestamp = ts, tf_Lock = None, tf_Amount = 0,
       tf_AdjustToMinimum = False, tf_AddSender = False, tf_AddConstraints = [], tf_UnlockData = []\<rparr>)"

definition WithTargetLock :: "Lock \<Rightarrow> 'k TransferData \<Rightarrow> 'k TransferData" where
  "WithTargetLock lock t = t\<lparr>tf_Lock := Some lock\<rparr>"

definition TransferWithAmount :: "64 word \<Rightarrow> bool \<Rightarrow> 'k TransferData \<Rightarrow> 'k TransferData" where
  "TransferWithAmount amount adjustToMinimum t = t\<lparr>tf_Amount := amount, tf_AdjustToMinimum := adjustToMinimum\<rparr>"

definition WithConstraintBinary :: "bytes \<Rightarrow> byte option \<Rightarrow> 'k TransferData \<Rightarrow> 'k TransferData res" where
  "WithConstraintBinary constr idx t =
     (case idx of
        None \<Rightarrow> Inr (t\<lparr>tf_AddConstraints := tf_AddConstraints t @ [constr]\<rparr>)
      | Some i \<Rightarrow>
          rbind (guard (i = 255 \<or> i \<le> 2) (Panic Wrong_arguments)) (\<lambda>_.
          rbind (nth_res (tf_AddConstraints t) (unat i)) (\<lambda>_.
          Inr (t\<lparr>tf_AddConstraints := (tf_AddConstraints t)[unat i := constr]\<rparr>))))"

definition WithConstraint :: "easyfl \<Rightarrow> Constraint \<Rightarrow> byte option \<Rightarrow> 'k TransferData \<Rightarrow> 'k TransferData res" where
  "WithConstraint E constr idx t = rbind (Constraint_Bytes E constr) (\<lambda>b. WithConstraintBinary b idx t)"

definition WithConstraintAtIndex :: "easyfl \<Rightarrow> Constraint \<Rightarrow> 'k TransferData \<Rightarrow> 'k TransferData res" where
  "WithConstraintAtIndex E constr t = rbind (Constraint_Bytes E constr) (\<lambda>b. WithConstraintBinary b None t)"

definition WithOutputs :: "OutputWithID list \<Rightarrow> 'k TransferData \<Rightarrow> 'k TransferData" where
  "WithOutputs outs t = t\<lparr>tf_Outputs := outs\<rparr>"

definition WithChainOutput :: "OutputWithChainID option \<Rightarrow> 'k TransferData \<Rightarrow> 'k TransferData" where
  "WithChainOutput out t = t\<lparr>tf_ChainOutput := out\<rparr>"

definition WithSender :: "'k TransferData \<Rightarrow> 'k TransferData" where
  "WithSender t = t\<lparr>tf_AddSender := True\<rparr>"

definition WithUnlockData :: "byte \<Rightarrow> byte \<Rightarrow> bytes \<Rightarrow> 'k TransferData \<Rightarrow> 'k TransferData" where
  "WithUnlockData consumedOutputIndex constraintIndex d t =
     t\<lparr>tf_UnlockData := tf_UnlockData t @
        [\<lparr>un_OutputIndex = consumedOutputIndex, un_ConstraintIndex = constraintIndex, un_Data = d\<rparr>]\<rparr>"

definition with_lock :: "easyfl \<Rightarrow> Lock option \<Rightarrow> (unit, Output) op" where
  \<comment> \<open>\<open>WithLock(par.Lock)\<close>: a nil lock is dereferenced by \<open>lock.Bytes()\<close>\<close>
  "with_lock E lock = (case lock of None \<Rightarrow> call (Inl (Panic Nil_pointer)) | Some l \<Rightarrow> WithLock E l)"

definition AdjustedAmount :: "easyfl \<Rightarrow> 'k TransferData \<Rightarrow> 64 word res" where
  "AdjustedAmount E t =
     (if \<not> tf_AdjustToMinimum t then Inr (tf_Amount t)
      else rbind (exec (sbind (WithAmount E (tf_Amount t)) (\<lambda>_.
                        sbind (WithTimestamp E 0) (\<lambda>_.
                        sbind (with_lock E (tf_Lock t)) (\<lambda>_ o'.
                          case op_all PushConstraint (tf_AddConstraints t) o' of (r, o'') \<Rightarrow> (as_panic r, o'')))))
                  NewOutput) (\<lambda>outTentative.
        rbind (Output_Bytes outTentative) (\<lambda>b.
        let minimumDeposit = MinimumStorageDeposit (of_nat (length b)) 0 in
        Inr (if tf_Amount t < minimumDeposit then minimumDeposit else tf_Amount t))))"

section \<open>Choosing the inputs\<close>

fun consume_simple :: "easyfl \<Rightarrow> 64 word \<Rightarrow> OutputWithID list \<Rightarrow> nat \<times> 64 word \<times> 32 word \<times> OutputWithID list
    \<Rightarrow> (64 word \<times> 32 word \<times> OutputWithID list) res" where
  \<comment> \<open>the loop of \<open>outputsToConsumeSimple\<close>: \<open>(numConsumedOutputs, availableTokens, ts, consumedOuts)\<close>\<close>
  "consume_simple E amount [] (n, available, ts, consumed) = Inr (available, ts, consumed)"
| "consume_simple E amount (ow # rest) (n, available, ts, consumed) =
     (if n \<ge> 256 then Inl (Error Too_many_outputs)
      else rbind (Output_Timestamp E (ow_Output ow)) (\<lambda>ots.
        let ts' = (if ots \<ge> ts then ots + 1 else ts) in
        rbind (Output_Amount E (ow_Output ow)) (\<lambda>a.
        let available' = available + a in
        if available' \<ge> amount then Inr (available', ts', consumed @ [ow])
        else consume_simple E amount rest (n + 1, available', ts', consumed @ [ow]))))"

definition outputsToConsumeSimple :: "easyfl \<Rightarrow> 32 word \<Rightarrow> 'k TransferData \<Rightarrow> 64 word
    \<Rightarrow> (64 word \<times> 32 word \<times> OutputWithID list) res" where
  \<comment> \<open>\<open>par.Outputs[:0]\<close> shares the array that is iterated; every append rewrites a slot with the value it has\<close>
  "outputsToConsumeSimple E now par amount =
     consume_simple E amount (tf_Outputs par)
       (0, 0, (if tf_Timestamp par > 0 then tf_Timestamp par else now), [])"

section \<open>Transfers\<close>

definition main_output :: "easyfl \<Rightarrow> 'k TransferData \<Rightarrow> 64 word \<Rightarrow> 32 word \<Rightarrow> Output res" where
  "main_output E par amount ts =
     exec (sbind (WithAmount E amount) (\<lambda>_.
           sbind (WithTimestamp E ts) (\<lambda>_.
           sbind (with_lock E (tf_Lock par)) (\<lambda>_.
           sbind (if tf_AddSender par
                  then sbind (call (Sender_Bytes E (AddressED25519FromPublicKey E (tf_SenderPublicKey par))))
                         (\<lambda>b. sbind (PushConstraint b) (\<lambda>_. ret ()))
                  else ret ()) (\<lambda>_.
           op_all PushConstraint (tf_AddConstraints par)))))) NewOutput"

definition put_unlock_data :: "UnlockDataItem list \<Rightarrow> (unit, TransactionBuilder) op" where
  "put_unlock_data = op_all (\<lambda>un. PutUnlockParams (un_OutputIndex un) (un_ConstraintIndex un) (un_Data un))"

definition consume_all :: "OutputWithID list \<Rightarrow> (unit, TransactionBuilder) op" where
  "consume_all = op_all (\<lambda>ow. ConsumeOutput (ow_Output ow) (ow_ID ow))"

definition finish_tx :: "easyfl \<Rightarrow> 'k signer \<Rightarrow> 'k TransferData \<Rightarrow> 32 word \<Rightarrow> TransactionBuilder
    \<Rightarrow> (bytes \<times> OutputDataWithID list) res" where
  \<comment> \<open>the common end of both transfers: time stamp, input commitment, signature and the produced outputs\<close>
  "finish_tx E S par ts txb =
     (let txb = txb\<lparr>tb_Transaction := (tb_Transaction txb)\<lparr>td_Timestamp := ts\<rparr>\<rparr> in
      rbind (tb_InputCommitment E txb) (\<lambda>commitment.
      let txb = txb\<lparr>tb_Transaction := (tb_Transaction txb)\<lparr>td_InputCommitment := commitment\<rparr>\<rparr> in
      rbind (exec (SignED25519 S (tf_SenderPrivateKey par)) txb) (\<lambda>txb.
      rbind (tx_Bytes (tb_Transaction txb)) (\<lambda>txBytes.
      let txid = Sum256 E txBytes in
      rbind (rmapM (\<lambda>(i, o'). rmap (\<lambda>b. \<lparr>od_ID = NewOutputID txid (of_nat i), od_OutputData = b\<rparr>) (Output_Bytes o'))
               (enumerate 0 (td_Outputs (tb_Transaction txb)))) (\<lambda>retOut.
      Inr (txBytes, retOut))))))"

definition unlock_simple :: "nat \<Rightarrow> (unit, TransactionBuilder) op" where
  "unlock_simple n =
     op_all (\<lambda>i. if i = 0 then PutSignatureUnlock 0 (of_nat ConstraintIndexLock)
                 else (\<lambda>txb. case PutUnlockReference (of_nat i) (of_nat ConstraintIndexLock) 0 txb of
                         (r, txb') \<Rightarrow> (as_panic r, txb'))) [0..<n]"

definition produce_all :: "Output list \<Rightarrow> (unit, TransactionBuilder) op" where
  "produce_all = op_all ProduceOutput"

definition reminder_output :: "easyfl \<Rightarrow> 'k TransferData \<Rightarrow> 64 word \<Rightarrow> 32 word \<Rightarrow> 64 word \<Rightarrow> Output list res" where
  "reminder_output E par amount ts availableTokens =
     (if availableTokens > amount
      then rmap (\<lambda>o'. [o']) (exec (sbind (WithAmount E (availableTokens - amount)) (\<lambda>_.
             sbind (WithTimestamp E ts) (\<lambda>_. WithLock E (AsLock (tf_SourceAccount par))))) NewOutput)
      else Inr [])"

definition MakeSimpleTransferTransactionOutputs :: "easyfl \<Rightarrow> 'k signer \<Rightarrow> 32 word \<Rightarrow> 'k TransferData
    \<Rightarrow> (bytes \<times> OutputDataWithID list) res" where
  "MakeSimpleTransferTransactionOutputs E S now par =
     (if tf_ChainOutput par \<noteq> None then Inl (Error Wrong_arguments)
      else rbind (AdjustedAmount E par) (\<lambda>amount.
        rbind (outputsToConsumeSimple E now par amount) (\<lambda>(availableTokens, ts, consumedOuts).
        if availableTokens < amount then Inl (Error Not_enough_tokens)
        else rbind (exec (consume_all consumedOuts) NewTransactionBuilder) (\<lambda>txb.
          rbind (main_output E par amount ts) (\<lambda>mainOutput.
          rbind (reminder_output E par amount ts availableTokens) (\<lambda>reminderOut.
          rbind (exec (sbind (produce_all (reminderOut @ [mainOutput])) (\<lambda>_.
                       sbind (unlock_simple (length consumedOuts)) (\<lambda>_.
                       put_unlock_data (tf_UnlockData par)))) txb)
            (finish_tx E S par ts)))))))"

definition unlock_chain :: "byte \<Rightarrow> nat \<Rightarrow> (unit, TransactionBuilder) op" where
  "unlock_chain predIdx n =
     sbind (PutSignatureUnlock 0 (of_nat ConstraintIndexLock)) (\<lambda>_.
     sbind (PutUnlockParams 0 predIdx [0, predIdx, 0]) (\<lambda>_.
     op_all (\<lambda>i. PutUnlockParams (of_nat (i + 1)) (of_nat ConstraintIndexLock) (NewChainLockUnlockParams 0 predIdx))
       [0..<n]))"

definition chain_successor :: "easyfl \<Rightarrow> registry \<Rightarrow> OutputWithChainID \<Rightarrow> 64 word \<Rightarrow> 32 word \<Rightarrow> Output res" where
  "chain_successor E R co amount ts =
     rbind (Output_Clone E R (wc_Output co)) (\<lambda>clone.
     rbind (exec (sbind (WithAmount E amount) (\<lambda>_. WithTimestamp E ts)) clone) (\<lambda>o'.
     rbind (ChainConstraint_Bytes E (NewChainConstraint (wc_ChainID co) 0 (wc_PredecessorConstraintIndex co) 0)) (\<lambda>c.
     exec (PutConstraint c (wc_PredecessorConstraintIndex co)) o')))"

definition MakeChainTransferTransactionOutputs :: "easyfl \<Rightarrow> registry \<Rightarrow> 'k signer \<Rightarrow> 32 word \<Rightarrow> 'k TransferData
    \<Rightarrow> (bytes \<times> OutputDataWithID list) res" where
  "MakeChainTransferTransactionOutputs E R S now par =
     (case tf_ChainOutput par of
        None \<Rightarrow> Inl (Error Wrong_arguments)
      | Some co \<Rightarrow>
        rbind (AdjustedAmount E par) (\<lambda>amount.
        rbind (outputsToConsumeSimple E now par amount) (\<lambda>(available, ts, consumedOuts).
        rbind (Output_Amount E (wc_Output co)) (\<lambda>chainAmount.
        let availableTokens = available + chainAmount in
        if availableTokens \<le> amount then Inl (Error Not_enough_tokens)
        else
          rbind (exec (sbind (ConsumeOutput (wc_Output co) (wc_ID co)) (\<lambda>_. consume_all consumedOuts))
                   NewTransactionBuilder) (\<lambda>txb.
          rbind (chain_successor E R co (availableTokens - amount) ts) (\<lambda>chainSuccessorOutput.
          rbind (exec (ProduceOutput chainSuccessorOutput) txb) (\<lambda>txb.
          rbind (main_output E par amount ts) (\<lambda>mainOutput.
          rbind (exec (sbind (ProduceOutput mainOutput) (\<lambda>_.
                       unlock_chain (wc_PredecessorConstraintIndex co) (length consumedOuts))) txb)
            (finish_tx E S par ts)))))))))"

definition MakeTransferTransaction :: "easyfl \<Rightarrow> registry \<Rightarrow> 'k signer \<Rightarrow> 32 word \<Rightarrow> 'k TransferData \<Rightarrow> bytes res" where
  "MakeTransferTransaction E R S now par =
     rmap fst (if tf_ChainOutput par = None then MakeSimpleTransferTransactionOutputs E S now par
               else MakeChainTransferTransactionOutputs E R S now par)"

section \<open>Chains\<close>

record OutputDataWithChainID =
  oc_ID :: OutputID
  oc_OutputData :: bytes
  oc_ChainID :: bytes
  oc_PredecessorConstraintIndex :: byte

text \<open>\<^verbatim>\<open>ForEachOutput\<close> parses and hands over one output after the other; its callbacks never stop it early.\<close>

definition ForEachOutput :: "easyfl \<Rightarrow> registry \<Rightarrow> (Output \<Rightarrow> OutputDataWithID \<Rightarrow> 's \<Rightarrow> 's res) \<Rightarrow> OutputDataWithID list \<Rightarrow> 's \<Rightarrow> 's res" where
  "ForEachOutput E R f =
     rfold (\<lambda>odata s. rbind (OutputFromBytes E R (od_OutputData odata)) (\<lambda>o'. f o' odata s))"

definition ParseChainConstraints :: "easyfl \<Rightarrow> registry \<Rightarrow> OutputDataWithID list \<Rightarrow> OutputWithChainID list res" where
  "ParseChainConstraints E R outs =
     ForEachOutput E R (\<lambda>o' odata acc.
       rbind (Output_ChainConstraint E o') (\<lambda>(ch, constraintIndex).
       case ch of
         None \<Rightarrow> Inr acc
       | Some ch \<Rightarrow>
           Inr (acc @ [\<lparr>wc_ID = od_ID odata, wc_Output = o',
             wc_ChainID = (if IsOrigin ch then Sum256 E (od_ID odata) else ch_ID ch),
             wc_PredecessorConstraintIndex = constraintIndex\<rparr>]))) outs []"

definition GetChainAccount :: "OutputWithID sorter \<Rightarrow> easyfl \<Rightarrow> registry \<Rightarrow> 's kv_store \<Rightarrow> bytes
    \<Rightarrow> (OutputID \<Rightarrow> bytes option) \<Rightarrow> 's \<Rightarrow> bool \<Rightarrow> (OutputWithChainID \<times> OutputWithID list) res" where
  "GetChainAccount srt E R K cid getUTXO s desc =
     rbind (ChainLockFromChainID cid) (\<lambda>chainLock.
     rbind (GetUTXOForChainID K cid getUTXO s) (\<lambda>chainOutData.
     rbind (ParseChainConstraints E R [chainOutData]) (\<lambda>chainData.
     if length chainData \<noteq> 1 then Inl (Error Inconsistency)
     else rbind (GetUTXOsLockedInAccount E K (Acc_ChainLock chainLock) getUTXO s) (\<lambda>retData.
       rbind (ParseAndSortOutputData srt E R retData None desc) (\<lambda>outs.
       rbind (nth_res chainData 0) (\<lambda>c. Inr (c, outs)))))))"

definition transition_output :: "easyfl \<Rightarrow> registry \<Rightarrow> Output \<Rightarrow> 32 word \<Rightarrow> ChainConstraint \<Rightarrow> byte \<Rightarrow> Output res" where
  "transition_output E R chainIN ts successor idx =
     rbind (Output_Clone E R chainIN) (\<lambda>clone.
     rbind (exec (WithTimestamp E ts) clone) (\<lambda>chainOut.
     rbind (ChainConstraint_Bytes E successor) (\<lambda>c. exec (PutConstraint c idx) chainOut)))"

definition InsertSimpleChainTransition :: "easyfl \<Rightarrow> registry \<Rightarrow> OutputDataWithChainID \<Rightarrow> 32 word
    \<Rightarrow> (unit, TransactionBuilder) op" where
  "InsertSimpleChainTransition E R inChainData ts =
     sbind (call (OutputFromBytes E R (oc_OutputData inChainData))) (\<lambda>chainIN.
     sbind (call (Output_ChainConstraint E chainIN)) (\<lambda>(_, predecessorConstraintIndex).
     if predecessorConstraintIndex = 255 then call (Inl (Error Not_the_constraint))
     else sbind (ConsumeOutput chainIN (oc_ID inChainData)) (\<lambda>predecessorOutputIndex.
       sbind (call (transition_output E R chainIN ts
          (NewChainConstraint (oc_ChainID inChainData) predecessorOutputIndex predecessorConstraintIndex 0)
          predecessorConstraintIndex)) (\<lambda>chainOut.
       sbind (ProduceOutput chainOut) (\<lambda>successorOutputIndex.
       sbind (PutUnlockParams predecessorOutputIndex predecessorConstraintIndex
                [successorOutputIndex, predecessorConstraintIndex, 0]) (\<lambda>_.
       PutSignatureUnlock successorOutputIndex (of_nat ConstraintIndexLock)))))))"

section \<open>A transition that unlocks the wrong input\<close>

definition unlock_block :: "TransactionBuilder \<Rightarrow> nat \<Rightarrow> array" where
  "unlock_block txb i = td_UnlockBlocks (tb_Transaction txb) ! i"

definition builder_ok :: "TransactionBuilder \<Rightarrow> bool" where
  \<comment> \<open>the three lists about inputs have the same length, and every unlock block can be read\<close>
  "builder_ok txb \<longleftrightarrow>
     length (td_InputIDs (tb_Transaction txb)) = length (tb_ConsumedOutputs txb) \<and>
     length (td_UnlockBlocks (tb_Transaction txb)) = length (tb_ConsumedOutputs txb) \<and>
     length (tb_ConsumedOutputs txb) \<le> 256 \<and> tb_NumOutputs txb \<le> 256 \<and>
     (\<forall>b \<in> set (td_UnlockBlocks (tb_Transaction txb)). \<exists>xs. outp b xs)"

lemma outp_NewUnlockBlock: "outp NewUnlockBlock []"
  using outp_New by (simp add: NewUnlockBlock_def NewOutput_def)

lemma ConsumeOutput_ok:
  assumes "builder_ok txb" "length (tb_ConsumedOutputs txb) < 256"
  shows "\<exists>txb'. ConsumeOutput out oid txb = (Inr (of_nat (length (tb_ConsumedOutputs txb))), txb') \<and> builder_ok txb'
    \<and> tb_ConsumedOutputs txb' = tb_ConsumedOutputs txb @ [out]
    \<and> tb_Transaction txb' = (tb_Transaction txb)
        \<lparr>td_InputIDs := td_InputIDs (tb_Transaction txb) @ [oid],
         td_UnlockBlocks := td_UnlockBlocks (tb_Transaction txb) @ [NewUnlockBlock]\<rparr>"
  using assms outp_NewUnlockBlock
  by (auto simp: ConsumeOutput_def tb_NumInputs_def builder_ok_def Let_def tb_NumOutputs_def)

lemma ProduceOutput_ok:
  assumes "builder_ok txb" "tb_NumOutputs txb < 256"
  shows "\<exists>txb'. ProduceOutput out txb = (Inr (of_nat (tb_NumOutputs txb)), txb') \<and> builder_ok txb'
    \<and> tb_ConsumedOutputs txb' = tb_ConsumedOutputs txb
    \<and> tb_Transaction txb' = (tb_Transaction txb)\<lparr>td_Outputs := td_Outputs (tb_Transaction txb) @ [out]\<rparr>"
  using assms by (auto simp: ProduceOutput_def builder_ok_def Let_def tb_NumOutputs_def)

lemma PutUnlockParams_ok:
  assumes "builder_ok txb" "unat i < length (tb_ConsumedOutputs txb)"
    "outp (unlock_block txb (unat i)) xs"
  shows "\<exists>txb'. PutUnlockParams i k d txb = (Inr (), txb') \<and> builder_ok txb'
    \<and> tb_ConsumedOutputs txb' = tb_ConsumedOutputs txb
    \<and> outp (unlock_block txb' (unat i)) (put_grow (unat k) d xs)
    \<and> (\<exists>b. tb_Transaction txb' = (tb_Transaction txb)
          \<lparr>td_UnlockBlocks := (td_UnlockBlocks (tb_Transaction txb))[unat i := b]\<rparr>)"
proof -
  have i: "unat i < length (td_UnlockBlocks (tb_Transaction txb))" using assms(1,2) by (simp add: builder_ok_def)
  have "unat k < 256" by simp
  then obtain b where b: "PutAtIdxGrow (unat k) d (unlock_block txb (unat i)) = (Inr (), b)"
    "outp b (put_grow (unat k) d xs)"
    using exec_put [OF assms(3), of "unat k" d] by (auto simp: exec_def split: prod.splits sum.splits)
  let ?blocks = "(td_UnlockBlocks (tb_Transaction txb))[unat i := b]"
  have "\<forall>a \<in> set ?blocks. \<exists>xs. outp a xs"
    using assms(1) b(2) set_update_subset_insert [of "td_UnlockBlocks (tb_Transaction txb)" "unat i" b]
    unfolding builder_ok_def by blast
  then show ?thesis
    using i b assms(1) by (auto simp: PutUnlockParams_def Let_def unlock_block_def builder_ok_def tb_NumOutputs_def)
qed

lemma ConsumeOutput_Inr:
  assumes "builder_ok txb" "ConsumeOutput out oid txb = (Inr i, txb')"
  shows "unat i = length (tb_ConsumedOutputs txb) \<and> builder_ok txb'
    \<and> tb_ConsumedOutputs txb' = tb_ConsumedOutputs txb @ [out]
    \<and> tb_Transaction txb' = (tb_Transaction txb)
        \<lparr>td_InputIDs := td_InputIDs (tb_Transaction txb) @ [oid],
         td_UnlockBlocks := td_UnlockBlocks (tb_Transaction txb) @ [NewUnlockBlock]\<rparr>"
proof -
  have less: "length (tb_ConsumedOutputs txb) < 256"
    using assms by (auto simp: ConsumeOutput_def tb_NumInputs_def builder_ok_def split: if_splits)
  then show ?thesis using ConsumeOutput_ok [OF assms(1) less, of out oid] assms(2) by auto
qed

lemma ProduceOutput_Inr:
  assumes "builder_ok txb" "ProduceOutput out txb = (Inr i, txb')"
  shows "unat i = tb_NumOutputs txb \<and> builder_ok txb'
    \<and> tb_ConsumedOutputs txb' = tb_ConsumedOutputs txb
    \<and> tb_Transaction txb' = (tb_Transaction txb)\<lparr>td_Outputs := td_Outputs (tb_Transaction txb) @ [out]\<rparr>"
proof -
  have less: "tb_NumOutputs txb < 256"
    using assms by (auto simp: ProduceOutput_def split: if_splits)
  then show ?thesis using ProduceOutput_ok [OF assms(1) less, of out] assms(2) by auto
qed

lemma unlock_block_other:
  "j \<noteq> i \<Longrightarrow> tb_Transaction txb' = (tb_Transaction txb)\<lparr>td_UnlockBlocks := (td_UnlockBlocks (tb_Transaction txb))[i := b]\<rparr>
   \<Longrightarrow> unlock_block txb' j = unlock_block txb j"
  by (simp add: unlock_block_def)

text \<open>
  C37 (transition_signature_misplaced): \<^verbatim>\<open>InsertSimpleChainTransition\<close> puts the signature mark into the unlock
  block numbered like the produced output, not like the consumed one. Called on a builder that has
  consumed \<open>n\<close> and produced \<open>m\<close> outputs with \<open>m \<noteq> n\<close>, it can only return when \<open>m < n\<close>; then it marks the
  earlier input \<open>m\<close>, and the lock of the chain output that it consumes stays without unlock parameters.
\<close>

theorem transition_signature_misplaced:
  assumes "builder_ok txb" "n = length (tb_ConsumedOutputs txb)" "m = tb_NumOutputs txb" "m \<noteq> n"
    "InsertSimpleChainTransition E R inChainData ts txb = (Inr (), txb')"
  shows "m < n \<and> (\<exists>xs. outp (unlock_block txb' m) xs \<and> xs ! 2 = [255])
    \<and> (\<exists>xs. outp (unlock_block txb' n) xs \<and> 2 < length xs \<and> xs ! 2 = [])"
proof -
  obtain chainIN ch pidx i tx1 chainOut k tx2 tx3 where step:
    "OutputFromBytes E R (oc_OutputData inChainData) = Inr chainIN"
    "Output_ChainConstraint E chainIN = Inr (ch, pidx)" "pidx \<noteq> 255"
    "ConsumeOutput chainIN (oc_ID inChainData) txb = (Inr i, tx1)"
    "ProduceOutput chainOut tx1 = (Inr k, tx2)"
    "PutUnlockParams i pidx [k, pidx, 0] tx2 = (Inr (), tx3)"
    "PutSignatureUnlock k (of_nat ConstraintIndexLock) tx3 = (Inr (), txb')"
    using assms(5) unfolding InsertSimpleChainTransition_def
    by (auto simp: sbind_Inr_iff call_def split: if_splits)
  obtain xs where "outp chainIN xs" "length xs \<le> 256"
    using OutputFromBytes_outp [OF step(1)] parseArray_length by metis
  from chain_search [OF this step(2)] step(3) have pidx: "3 \<le> unat pidx"
    by (auto simp: optional_at_def split: option.splits)
  have c: "unat i = n" "builder_ok tx1" "length (tb_ConsumedOutputs tx1) = Suc n"
    "unlock_block tx1 n = NewUnlockBlock" "tb_NumOutputs tx1 = m"
    using ConsumeOutput_Inr [OF assms(1) step(4)] assms(1-3)
    by (auto simp: unlock_block_def builder_ok_def nth_append tb_NumOutputs_def)
  have p: "unat k = m" "builder_ok tx2" "length (tb_ConsumedOutputs tx2) = Suc n" "unlock_block tx2 = unlock_block tx1"
    using ProduceOutput_Inr [OF c(2) step(5)] c(3,5) by (auto simp: unlock_block_def)
  have q: "builder_ok tx3" "length (tb_ConsumedOutputs tx3) = Suc n"
    "outp (unlock_block tx3 n) (put_grow (unat pidx) [k, pidx, 0] [])"
    using PutUnlockParams_ok [OF p(2), of i "[]" pidx "[k, pidx, 0]"] c(1,4) p(3,4) step(6) outp_NewUnlockBlock
    by auto
  have "m < length (td_UnlockBlocks (tb_Transaction tx3))"
    using step(7) p(1) by (auto simp: PutSignatureUnlock_def PutUnlockParams_def Let_def split: sum.splits)
  then have less: "m < n" using q(1,2) assms(4) by (simp add: builder_ok_def)
  then have "unlock_block tx3 m \<in> set (td_UnlockBlocks (tb_Transaction tx3))"
    using q(1,2) by (simp add: builder_ok_def unlock_block_def)
  then obtain zs where "outp (unlock_block tx3 m) zs" using q(1) unfolding builder_ok_def by blast
  then obtain b' where r: "outp (unlock_block txb' m) (put_grow 2 [255] zs)"
    "tb_Transaction txb' = (tb_Transaction tx3)\<lparr>td_UnlockBlocks := (td_UnlockBlocks (tb_Transaction tx3))[m := b']\<rparr>"
    using PutUnlockParams_ok [OF q(1), of k zs "of_nat ConstraintIndexLock" "[255]"] step(7) p(1) less q(2)
    by (auto simp: PutSignatureUnlock_def ConstraintIndexLock_def)
  have "unlock_block txb' n = unlock_block tx3 n"
    by (rule unlock_block_other [OF _ r(2)]) (use less in simp)
  moreover have "put_grow (unat pidx) [k, pidx, 0] [] ! 2 = ([] :: bytes)"
    using pidx by (simp add: put_grow_def nth_list_update del: replicate_Suc list_update.simps)
  moreover have "2 < length (put_grow (unat pidx) [k, pidx, 0] ([] :: bytes list))"
    using pidx by simp
  ultimately show ?thesis using less r(1) q(3) by (metis put_grow_nth_same)
qed

end
