(* ===== verification/TokenLedger.thy ===== *)
theory TokenLedger
  imports Transaction
begin

text \<open>
  What any ledger of outputs guarantees over its whole history, as a locale: a state holds outputs under
  ids, an accepted transaction moves some of them, and runs conserve the amounts and never bring back
  a spent output. \<^verbatim>\<open>LedgerState\<close> interprets the locale on the ledger of the program.
\<close>

section \<open>Token ledgers and their runs\<close>

text \<open>
  The abstract view of the ledger: a partial map from output ids to outputs. An accepted transaction
  \<open>x\<close> takes out the outputs at its inputs and puts in new ones under the ids \<open>hash x @ [i]\<close>, with the
  same sum. The locale says what follows for whole histories, whatever keeps the map.
\<close>

definition produced :: "TransactionID \<Rightarrow> bytes list \<Rightarrow> OutputID \<Rightarrow> bytes option" where
  "produced txid outs = map_of (map (\<lambda>(i, d). (NewOutputID txid (of_nat i), d)) (enumerate 0 outs))"

definition moves :: "(bytes \<Rightarrow> nat) \<Rightarrow> OutputID list \<Rightarrow> TransactionID
    \<Rightarrow> (OutputID \<Rightarrow> bytes option) \<Rightarrow> (OutputID \<Rightarrow> bytes option) \<Rightarrow> bool" where
  "moves amt ids txid m m' \<longleftrightarrow>
     (\<exists>ins outs. distinct ids \<and> map m ids = map Some ins
        \<and> length outs \<le> 256 \<and> (\<forall>d \<in> set outs. 0 < amt d)
        \<and> sum_list (map amt ins) = sum_list (map amt outs)
        \<and> m' = (m |` (- set ids)) ++ produced txid outs)"

definition holdings :: "(bytes \<Rightarrow> nat) \<Rightarrow> (OutputID \<Rightarrow> bytes option) \<Rightarrow> nat" where
  "holdings amt m = (\<Sum>k \<in> dom m. amt (the (m k)))"

inductive ledger_run :: "(bytes \<Rightarrow> 's \<Rightarrow> 's \<Rightarrow> bool) \<Rightarrow> 's \<Rightarrow> bytes list \<Rightarrow> 's \<Rightarrow> bool" for step s0 where
  \<comment> \<open>the history has the latest transaction first\<close>
  run_start: "ledger_run step s0 [] s0"
| run_step: "ledger_run step s0 H s \<Longrightarrow> step x s s' \<Longrightarrow> ledger_run step s0 (x # H) s'"

inductive_cases run_NilE: "ledger_run step s0 [] s"
inductive_cases run_ConsE: "ledger_run step s0 (x # H) s"

lemma map_Some_mem: "map f xs = map Some ys \<Longrightarrow> x \<in> set xs \<Longrightarrow> \<exists>d. f x = Some d"
proof (induction xs arbitrary: ys)
  case (Cons y xs)
  then show ?case by (cases ys) auto
qed simp

lemma output_keys_distinct:
  assumes "length outs \<le> 256"
  shows "distinct (map fst (map (\<lambda>(i, d). (NewOutputID txid (of_nat i), d)) (enumerate 0 outs)))"
proof -
  have "map fst (map (\<lambda>(i, d). (NewOutputID txid (of_nat i), d)) (enumerate 0 outs))
      = map (\<lambda>i. NewOutputID txid (of_nat i)) (map fst (enumerate 0 outs))"
    by (simp add: comp_def case_prod_beta del: map_fst_enumerate)
  moreover have "inj_on (\<lambda>i. NewOutputID txid (of_nat i)) (set [0..<length outs])"
    using assms by (auto simp: inj_on_def NewOutputID_def word_unat_eq_iff unat_of_nat)
  ultimately show ?thesis by (simp add: distinct_map)
qed

lemma produced_Some:
  assumes "length outs \<le> 256"
  shows "produced txid outs oid = Some d \<longleftrightarrow> (\<exists>i < length outs. oid = NewOutputID txid (of_nat i) \<and> outs ! i = d)"
proof -
  have "produced txid outs oid = Some d \<longleftrightarrow>
      (oid, d) \<in> set (map (\<lambda>(i, d). (NewOutputID txid (of_nat i), d)) (enumerate 0 outs))"
    unfolding produced_def using output_keys_distinct [OF assms] by (rule map_of_eq_Some_iff)
  also have "\<dots> \<longleftrightarrow> (\<exists>i < length outs. oid = NewOutputID txid (of_nat i) \<and> outs ! i = d)"
    by (auto simp: in_set_enumerate_eq image_iff intro!: rev_bexI [OF enumerate_mem])
  finally show ?thesis .
qed

lemma produced_prefix:
  assumes "produced txid outs oid = Some d" "length outs \<le> 256" "length txid = 32"
  shows "OutputID_TransactionID oid = txid"
  using assms(1) NewOutputID_parts [OF assms(3)] by (auto simp: produced_Some [OF assms(2)])

lemma holdings_map_of:
  "distinct (map fst kvs) \<Longrightarrow> holdings amt (map_of kvs) = sum_list (map (amt \<circ> snd) kvs)"
proof (induction kvs)
  case Nil
  then show ?case by (simp add: holdings_def)
next
  case (Cons kv kvs)
  obtain k v where kv: "kv = (k, v)" by (cases kv)
  have k: "k \<notin> dom (map_of kvs)" using Cons.prems kv by (simp add: dom_map_of_conv_image_fst)
  have "holdings amt (map_of (kv # kvs)) = amt v + (\<Sum>x \<in> dom (map_of kvs). amt (the (((map_of kvs)(k \<mapsto> v)) x)))"
    using k finite_dom_map_of [of kvs] by (simp add: holdings_def kv)
  also have "(\<Sum>x \<in> dom (map_of kvs). amt (the (((map_of kvs)(k \<mapsto> v)) x))) = holdings amt (map_of kvs)"
    unfolding holdings_def using k by (intro sum.cong) auto
  finally show ?case using Cons kv by simp
qed

lemma holdings_produced:
  assumes "length outs \<le> 256"
  shows "holdings amt (produced txid outs) = sum_list (map amt outs)"
proof -
  have "map (amt \<circ> snd) (map (\<lambda>(i, d). (NewOutputID txid (of_nat i), d)) (enumerate n outs)) = map amt outs" for n
    by (induction outs arbitrary: n) simp_all
  then show ?thesis
    unfolding produced_def holdings_map_of [OF output_keys_distinct [OF assms]] by metis
qed

lemma holdings_split:
  assumes "finite (dom m)" "distinct ids" "map m ids = map Some ins"
  shows "holdings amt m = sum_list (map amt ins) + holdings amt (m |` (- set ids))"
proof -
  have sub: "set ids \<subseteq> dom m" using map_Some_mem [OF assms(3)] by blast
  have ins: "map (\<lambda>k. amt (the (m k))) ids = map amt ins"
  proof (rule nth_equalityI)
    show l: "length (map (\<lambda>k. amt (the (m k))) ids) = length (map amt ins)"
      using assms(3) by (metis length_map)
    fix i assume "i < length (map (\<lambda>k. amt (the (m k))) ids)"
    then show "map (\<lambda>k. amt (the (m k))) ids ! i = map amt ins ! i"
      using assms(3) l by (metis length_map nth_map option.sel)
  qed
  have "holdings amt m = (\<Sum>k \<in> set ids. amt (the (m k))) + (\<Sum>k \<in> dom m - set ids. amt (the (m k)))"
    unfolding holdings_def using sub assms(1) by (simp add: sum.subset_diff add.commute)
  also have "(\<Sum>k \<in> set ids. amt (the (m k))) = sum_list (map amt ins)"
    unfolding ins [symmetric] by (simp add: sum_list_distinct_conv_sum_set [OF assms(2)])
  also have "(\<Sum>k \<in> dom m - set ids. amt (the (m k))) = holdings amt (m |` (- set ids))"
    unfolding holdings_def by (intro sum.cong) (auto simp: restrict_map_def dom_def)
  finally show ?thesis .
qed

lemma holdings_add:
  assumes "finite (dom m)" "finite (dom p)" "dom m \<inter> dom p = {}"
  shows "holdings amt (m ++ p) = holdings amt m + holdings amt p"
proof -
  have "holdings amt (m ++ p) = (\<Sum>k \<in> dom m. amt (the ((m ++ p) k))) + (\<Sum>k \<in> dom p. amt (the ((m ++ p) k)))"
    unfolding holdings_def dom_map_add using assms by (simp add: sum.union_disjoint Int_commute Un_commute add.commute)
  moreover have "(\<Sum>k \<in> dom m. amt (the ((m ++ p) k))) = holdings amt m"
    unfolding holdings_def
  proof (rule sum.cong [OF refl])
    fix k assume "k \<in> dom m"
    then have "k \<notin> dom p" using assms(3) by blast
    then show "amt (the ((m ++ p) k)) = amt (the (m k))" using map_add_dom_app_simps(3) [of k p m] by simp
  qed
  moreover have "(\<Sum>k \<in> dom p. amt (the ((m ++ p) k))) = holdings amt p"
    unfolding holdings_def by (intro sum.cong refl) (auto simp: map_add_dom_app_simps)
  ultimately show ?thesis by simp
qed

lemma moves_holdings:
  assumes "moves amt ids txid m m'" "finite (dom m)" "length txid = 32"
    "\<forall>oid \<in> dom m. OutputID_TransactionID oid \<noteq> txid"
  shows "holdings amt m' = holdings amt m" and "finite (dom m')"
proof -
  obtain ins outs where mv: "distinct ids" "map m ids = map Some ins" "length outs \<le> 256"
    "sum_list (map amt ins) = sum_list (map amt outs)" "m' = (m |` (- set ids)) ++ produced txid outs"
    using assms(1) by (auto simp: moves_def)
  have fin: "finite (dom (produced txid outs))" by (simp add: produced_def finite_dom_map_of)
  have fin': "finite (dom (m |` (- set ids)))" using assms(2) by simp
  have "dom m \<inter> dom (produced txid outs) = {}"
    using assms(4) produced_prefix [OF _ mv(3) assms(3)] by (fastforce simp: dom_def)
  then have disj: "dom (m |` (- set ids)) \<inter> dom (produced txid outs) = {}" by auto
  show "holdings amt m' = holdings amt m"
    unfolding mv(5) holdings_add [OF fin' fin disj] holdings_produced [OF mv(3)]
    using holdings_split [OF assms(2) mv(1,2), of amt] mv(4) by simp
  show "finite (dom m')" using fin fin' mv(5) by simp
qed

locale token_ledger =
  fixes ok :: "'s \<Rightarrow> bool"
    and held :: "'s \<Rightarrow> OutputID \<Rightarrow> bytes option"
    and amt :: "'s \<Rightarrow> bytes \<Rightarrow> nat"
    and hash :: "'s \<Rightarrow> bytes \<Rightarrow> TransactionID"
    and inputs :: "bytes \<Rightarrow> OutputID list"
    and step :: "bytes \<Rightarrow> 's \<Rightarrow> 's \<Rightarrow> bool"
  assumes step_ok: "ok s \<Longrightarrow> step x s s' \<Longrightarrow> ok s'"
    and step_fixed: "step x s s' \<Longrightarrow> amt s' = amt s \<and> hash s' = hash s"
    and step_moves: "ok s \<Longrightarrow> step x s s' \<Longrightarrow> moves (amt s) (inputs x) (hash s x) (held s) (held s')"
    and held_finite: "ok s \<Longrightarrow> finite (dom (held s))"
    and hash_length: "ok s \<Longrightarrow> length (hash s x) = 32"
begin

text \<open>
  What every state of a run satisfies: every output that is held was there at the start or belongs to
  an accepted transaction, and an input of an accepted transaction is spent for good.
\<close>

definition accounted :: "'s \<Rightarrow> bytes list \<Rightarrow> 's \<Rightarrow> bool" where
  "accounted s0 H s \<longleftrightarrow>
     (\<forall>oid \<in> dom (held s). oid \<in> dom (held s0) \<or> (\<exists>x \<in> set H. OutputID_TransactionID oid = hash s0 x))
     \<and> (\<forall>x \<in> set H. \<forall>oid \<in> set (inputs x). held s oid = None
          \<and> (oid \<in> dom (held s0) \<or> (\<exists>z \<in> set H. OutputID_TransactionID oid = hash s0 z)))"

lemma replay_changes_nothing:
  assumes "accounted s0 H s" "x \<in> set H" "moves a (inputs x) h (held s) (held s')"
  shows "held s' = held s \<and> inputs x = []"
proof -
  obtain ins outs where mv: "map (held s) (inputs x) = map Some ins" "\<forall>d \<in> set outs. 0 < a d"
    "sum_list (map a ins) = sum_list (map a outs)" "held s' = (held s |` (- set (inputs x))) ++ produced h outs"
    using assms(3) by (auto simp: moves_def)
  have "inputs x = []"
  proof (cases "inputs x")
    case (Cons oid rest)
    then have "held s oid = None" using assms(1,2) by (simp add: accounted_def)
    then show ?thesis using mv(1) Cons by (cases ins) simp_all
  qed
  moreover then have "ins = []" using mv(1) by simp
  then have "outs = []" using mv(2,3) by (cases outs) auto
  ultimately show ?thesis using mv(4) by (simp add: produced_def restrict_map_def)
qed

lemma fresh_transaction:
  assumes "accounted s0 H s" "x \<notin> set H" "inj_on (hash s0) (set (x # H))"
    "\<forall>oid \<in> dom (held s0). OutputID_TransactionID oid \<notin> hash s0 ` set (x # H)"
    "oid \<in> dom (held s0) \<or> (\<exists>z \<in> set H. OutputID_TransactionID oid = hash s0 z)"
  shows "OutputID_TransactionID oid \<noteq> hash s0 x"
  using assms(2-5) by (auto simp: inj_on_def)

theorem run_accounts:
  assumes "ledger_run step s0 H s" "ok s0" "inj_on (hash s0) (set H)"
    "\<forall>oid \<in> dom (held s0). OutputID_TransactionID oid \<notin> hash s0 ` set H"
  shows "ok s \<and> amt s = amt s0 \<and> hash s = hash s0 \<and> accounted s0 H s
    \<and> holdings (amt s0) (held s) = holdings (amt s0) (held s0)
    \<and> distinct (concat (map inputs H))"
  using assms
proof (induction rule: ledger_run.induct)
  case run_start
  then show ?case by (auto simp: accounted_def)
next
  case (run_step H s x s')
  have ih: "ok s" "amt s = amt s0" "hash s = hash s0" "accounted s0 H s"
    "holdings (amt s0) (held s) = holdings (amt s0) (held s0)"
    "distinct (concat (map inputs H))"
    using run_step.IH run_step.prems by (auto intro: inj_on_subset)
  have now: "ok s'" "amt s' = amt s0" "hash s' = hash s0"
    using step_ok [OF ih(1) run_step.hyps(2)] step_fixed [OF run_step.hyps(2)] ih by simp_all
  have mv: "moves (amt s0) (inputs x) (hash s0 x) (held s) (held s')"
    using step_moves [OF ih(1) run_step.hyps(2)] ih(2,3) by simp
  show ?case
  proof (cases "x \<in> set H")
    case True
    then have same: "held s' = held s" "inputs x = []"
      using replay_changes_nothing [OF ih(4) True mv] by blast+
    then have "accounted s0 (x # H) s'" using ih(4) by (auto simp: accounted_def)
    then show ?thesis using now same ih by simp
  next
    case False
    note fresh = fresh_transaction [OF ih(4) False run_step.prems(2,3)]
    have len: "length (hash s0 x) = 32" by (rule hash_length [OF run_step.prems(1)])
    have held: "\<forall>oid \<in> dom (held s). OutputID_TransactionID oid \<noteq> hash s0 x"
      using ih(4) fresh by (auto simp: accounted_def)
    obtain ins outs where io: "map (held s) (inputs x) = map Some ins" "length outs \<le> 256"
      "held s' = (held s |` (- set (inputs x))) ++ produced (hash s0 x) outs"
      using mv by (auto simp: moves_def)
    have dom_in: "set (inputs x) \<subseteq> dom (held s)"
      using map_Some_mem [OF io(1)] by blast
    have new: "OutputID_TransactionID oid = hash s0 x" if "produced (hash s0 x) outs oid = Some d" for oid d
      using produced_prefix [OF that io(2) len] .
    have "accounted s0 (x # H) s'"
      unfolding accounted_def
    proof (intro conjI ballI)
      fix oid assume "oid \<in> dom (held s')"
      then consider d where "produced (hash s0 x) outs oid = Some d" | "oid \<in> dom (held s)"
        unfolding io(3) by (fastforce simp: restrict_map_def split: if_splits)
      then show "oid \<in> dom (held s0) \<or> (\<exists>y \<in> set (x # H). OutputID_TransactionID oid = hash s0 y)"
        by cases (use new ih(4) in \<open>auto simp: accounted_def\<close>)
    next
      fix y oid assume y: "y \<in> set (x # H)" "oid \<in> set (inputs y)"
      have old: "oid \<in> dom (held s0) \<or> (\<exists>z \<in> set H. OutputID_TransactionID oid = hash s0 z)"
        using y ih(4) dom_in by (auto simp: accounted_def)
      then show "oid \<in> dom (held s0) \<or> (\<exists>z \<in> set (x # H). OutputID_TransactionID oid = hash s0 z)"
        by auto
      have "produced (hash s0 x) outs oid = None"
        using fresh [OF old] new by (metis option.exhaust)
      moreover have "(held s |` (- set (inputs x))) oid = None"
        using y ih(4) by (auto simp: accounted_def restrict_map_def)
      ultimately show "held s' oid = None" unfolding io(3) by (simp add: map_add_None)
    qed
    moreover have "holdings (amt s0) (held s') = holdings (amt s0) (held s0)"
      using moves_holdings(1) [OF mv held_finite [OF ih(1)] len held] ih(5) by simp
    moreover have "distinct (concat (map inputs (x # H)))"
    proof -
      have "distinct (inputs x)" using mv by (auto simp: moves_def)
      moreover have "oid \<notin> set (inputs y)" if "oid \<in> set (inputs x)" "y \<in> set H" for oid y
        using that dom_in ih(4) by (auto simp: accounted_def)
      ultimately show ?thesis using ih(6) by auto
    qed
    ultimately show ?thesis using now by simp
  qed
qed

end

section \<open>Ledgers with an index\<close>

text \<open>
  An index by tag: \<open>tags d\<close> are the tags of an output, and the index is a set of pairs of tag and output
  id that every step brings up to date with what it takes out and puts in.
\<close>

definition tagged :: "(bytes \<Rightarrow> bytes set) \<Rightarrow> (OutputID \<Rightarrow> bytes option) \<Rightarrow> (bytes \<times> OutputID) set" where
  "tagged tags m = {(acc, oid). \<exists>d. m oid = Some d \<and> acc \<in> tags d}"

definition reindexes :: "(bytes \<Rightarrow> bytes set) \<Rightarrow> OutputID list \<Rightarrow> TransactionID
    \<Rightarrow> (OutputID \<Rightarrow> bytes option) \<Rightarrow> (OutputID \<Rightarrow> bytes option)
    \<Rightarrow> (bytes \<times> OutputID) set \<Rightarrow> (bytes \<times> OutputID) set \<Rightarrow> bool" where
  "reindexes tags ids txid m m' X X' \<longleftrightarrow>
     (\<exists>outs. length outs \<le> 256
        \<and> m' = (m |` (- set ids)) ++ produced txid outs
        \<and> X' = (X - tagged tags (m |` set ids)) \<union> tagged tags (produced txid outs))"

lemma reindexes_exact:
  assumes "reindexes tags ids txid m m' (tagged tags m) X'" "length txid = 32"
    "\<forall>oid \<in> dom m. OutputID_TransactionID oid \<noteq> txid"
  shows "X' = tagged tags m'"
proof -
  obtain outs where o: "length outs \<le> 256" "m' = (m |` (- set ids)) ++ produced txid outs"
    "X' = (tagged tags m - tagged tags (m |` set ids)) \<union> tagged tags (produced txid outs)"
    using assms(1) by (auto simp: reindexes_def)
  have new: "m oid = None" if "produced txid outs oid = Some d" for oid d
  proof -
    have "OutputID_TransactionID oid = txid" by (rule produced_prefix [OF that o(1) assms(2)])
    then show ?thesis using assms(3) by (metis domI not_None_eq)
  qed
  have "(acc, oid) \<in> X' \<longleftrightarrow> (acc, oid) \<in> tagged tags m'" for acc oid
    using new [of oid] unfolding o(2,3)
    by (cases "produced txid outs oid") (auto simp: tagged_def map_add_def restrict_map_def)
  then show ?thesis by auto
qed

lemma reindexes_nothing:
  assumes "reindexes tags [] txid m m (tagged tags m) X'"
  shows "X' = tagged tags m"
proof -
  obtain outs where o: "m = m ++ produced txid outs" "X' = tagged tags m \<union> tagged tags (produced txid outs)"
    using assms by (auto simp: reindexes_def tagged_def restrict_map_def)
  have "m oid = Some d" if "produced txid outs oid = Some d" for oid d
    using that by (subst o(1)) simp
  then show ?thesis using o(2) by (auto simp: tagged_def)
qed

locale indexed_ledger = token_ledger ok held amt hash inputs step
  for ok :: "'s \<Rightarrow> bool" and held amt hash inputs step +
  fixes index :: "'s \<Rightarrow> (bytes \<times> OutputID) set"
    and tags :: "'s \<Rightarrow> bytes \<Rightarrow> bytes set"
  assumes tags_fixed: "step x s s' \<Longrightarrow> tags s' = tags s"
    and step_index: "ok s \<Longrightarrow> step x s s' \<Longrightarrow>
      reindexes (tags s) (inputs x) (hash s x) (held s) (held s') (index s) (index s')"
begin

theorem run_index:
  assumes "ledger_run step s0 H s" "ok s0" "inj_on (hash s0) (set H)"
    "\<forall>oid \<in> dom (held s0). OutputID_TransactionID oid \<notin> hash s0 ` set H"
    "index s0 = tagged (tags s0) (held s0)"
  shows "index s = tagged (tags s0) (held s) \<and> tags s = tags s0"
  using assms
proof (induction rule: ledger_run.induct)
  case run_start
  then show ?case by simp
next
  case (run_step H s x s')
  have sub: "inj_on (hash s0) (set H)" "\<forall>oid \<in> dom (held s0). OutputID_TransactionID oid \<notin> hash s0 ` set H"
    using run_step.prems by (auto intro: inj_on_subset)
  note acc = run_accounts [OF run_step.hyps(1) run_step.prems(1) sub]
  have ih: "index s = tagged (tags s0) (held s)" "tags s = tags s0"
    using run_step.IH run_step.prems sub by auto
  have re: "reindexes (tags s0) (inputs x) (hash s0 x) (held s) (held s') (tagged (tags s0) (held s)) (index s')"
    using step_index [OF _ run_step.hyps(2)] acc ih by simp
  have "index s' = tagged (tags s0) (held s')"
  proof (cases "x \<in> set H")
    case True
    have "moves (amt s) (inputs x) (hash s x) (held s) (held s')"
      using step_moves [OF _ run_step.hyps(2)] acc by blast
    then have same: "held s' = held s \<and> inputs x = []"
      using replay_changes_nothing True acc by blast
    then show ?thesis using reindexes_nothing re by metis
  next
    case False
    note fresh = fresh_transaction [OF _ False run_step.prems(2,3)]
    have "\<forall>oid \<in> dom (held s). OutputID_TransactionID oid \<noteq> hash s0 x"
      using acc fresh unfolding accounted_def by blast
    then show ?thesis by (rule reindexes_exact [OF re hash_length [OF run_step.prems(1)]])
  qed
  then show ?case using tags_fixed [OF run_step.hyps(2)] ih by simp
qed

end

end
