(* ===== verification/LedgerState.thy ===== *)
theory LedgerState
  imports TxBuilder TokenLedger
begin

text \<open>
  \<^verbatim>\<open>ledger/state/state.go\<close>: the ledger state, a map from output ids to serialised outputs kept in a
  Merkle trie over a key/value store. The trie and the store belong to package unitrie; they are a
  parameter \<open>T\<close>, and \<open>trie_laws\<close> says what the ledger relies on.
\<close>

section \<open>The trie\<close>

text \<open>
  \<open>'s\<close> is a store, \<open>'r\<close> a root (\<^verbatim>\<open>VCommitment\<close>), \<open>'t\<close> a trie opened at a root. A batch is the list of its
  writes, as in the indexer. An empty value deletes a key, and an absent key reads as the empty value.
\<close>

record ('s, 'r, 't) trie_model =
  tm_NewStore :: "'s"
  tm_MustInitRoot :: "'s \<Rightarrow> bytes \<Rightarrow> 'r \<times> 's"
  tm_NewReader :: "'s \<Rightarrow> 'r \<Rightarrow> 't res"
  tm_Get :: "'t \<Rightarrow> bytes \<Rightarrow> bytes"
  tm_Keys :: "'t \<Rightarrow> bytes \<Rightarrow> bytes list"
  tm_NewUpdatable :: "'s \<Rightarrow> 'r \<Rightarrow> 't res"
  tm_Update :: "bytes \<Rightarrow> bytes \<Rightarrow> 't \<Rightarrow> 't"
  tm_Commit :: "'t \<Rightarrow> 'r \<times> (bytes \<times> bytes) list"
  tm_BatchCommit :: "(bytes \<times> bytes) list \<Rightarrow> 's \<Rightarrow> unit res \<times> 's"
  tm_NewChained :: "'s \<Rightarrow> 'r \<Rightarrow> 't res"
  tm_CommitChained :: "'t \<Rightarrow> 's \<Rightarrow> 'r \<times> 's"
  tm_CopyAll :: "'s \<Rightarrow> 's \<Rightarrow> 's"

fun trie_writes :: "('s, 'r, 't) trie_model \<Rightarrow> (bytes \<times> bytes) list \<Rightarrow> 't \<Rightarrow> 't" where
  "trie_writes T [] t = t"
| "trie_writes T ((k, v) # kvs) t = trie_writes T kvs (tm_Update T k v t)"

definition opened_as :: "('s, 'r, 't) trie_model \<Rightarrow> 't res \<Rightarrow> (bytes \<Rightarrow> bytes) \<Rightarrow> bool" where
  "opened_as T r f \<longleftrightarrow> (\<exists>t. r = Inr t \<and> tm_Get T t = f)"

definition trie_laws :: "('s, 'r, 't) trie_model \<Rightarrow> bool" where
  "trie_laws T \<longleftrightarrow>
     \<comment> \<open>a trie opened for writing reads as the one opened for reading\<close>
     (\<forall>s r t. tm_NewReader T s r = Inr t \<longrightarrow> opened_as T (tm_NewUpdatable T s r) (tm_Get T t)) \<and>
     \<comment> \<open>an update changes one key\<close>
     (\<forall>t k v. tm_Get T (tm_Update T k v t) = (tm_Get T t)(k := v)) \<and>
     \<comment> \<open>the iterator visits the keys that are present\<close>
     (\<forall>t p. set (tm_Keys T t p) = {k. is_prefix p k \<and> tm_Get T t k \<noteq> []}) \<and>
     (\<forall>t. finite {k. tm_Get T t k \<noteq> []}) \<and>
     \<comment> \<open>what was committed is read back at the new root\<close>
     (\<forall>s r t kvs root ws s'. tm_NewUpdatable T s r = Inr t \<longrightarrow> tm_Commit T (trie_writes T kvs t) = (root, ws) \<longrightarrow>
        tm_BatchCommit T ws s = (Inr (), s') \<longrightarrow>
        opened_as T (tm_NewReader T s' root) (tm_Get T (trie_writes T kvs t))) \<and>
     \<comment> \<open>a new trie holds its identity under the empty key only; a chained trie commits to its own store\<close>
     (\<forall>identity root s. tm_MustInitRoot T (tm_NewStore T) identity = (root, s) \<longrightarrow>
        (\<exists>t. tm_NewChained T s root = Inr t \<and> (\<forall>k. k \<noteq> [] \<longrightarrow> tm_Get T t k = []))) \<and>
     (\<forall>s r t kvs root s'. tm_NewChained T s r = Inr t \<longrightarrow> tm_CommitChained T (trie_writes T kvs t) s = (root, s') \<longrightarrow>
        opened_as T (tm_NewReader T (tm_CopyAll T (tm_NewStore T) s') root) (tm_Get T (trie_writes T kvs t)))"

lemma trie_lawsD:
  assumes "trie_laws T"
  shows "tm_NewReader T s r = Inr t \<Longrightarrow> opened_as T (tm_NewUpdatable T s r) (tm_Get T t)"
    and "tm_Get T (tm_Update T k v u) = (tm_Get T u)(k := v)"
    and "set (tm_Keys T u p) = {k. is_prefix p k \<and> tm_Get T u k \<noteq> []}"
    and "finite {k. tm_Get T u k \<noteq> []}"
    and "tm_NewUpdatable T s r = Inr t \<Longrightarrow> tm_Commit T (trie_writes T kvs t) = (root, ws) \<Longrightarrow>
        tm_BatchCommit T ws s = (Inr (), s') \<Longrightarrow>
        opened_as T (tm_NewReader T s' root) (tm_Get T (trie_writes T kvs t))"
    and "tm_MustInitRoot T (tm_NewStore T) identity = (root, s) \<Longrightarrow>
        \<exists>t. tm_NewChained T s root = Inr t \<and> (\<forall>k. k \<noteq> [] \<longrightarrow> tm_Get T t k = [])"
    and "tm_NewChained T s r = Inr t \<Longrightarrow> tm_CommitChained T (trie_writes T kvs t) s = (root, s') \<Longrightarrow>
        opened_as T (tm_NewReader T (tm_CopyAll T (tm_NewStore T) s') root) (tm_Get T (trie_writes T kvs t))"
  using assms unfolding trie_laws_def by simp_all

definition store_reliable :: "('s, 'r, 't) trie_model \<Rightarrow> bool" where
  \<comment> \<open>committing a batch never fails, as with the in-memory store\<close>
  "store_reliable T \<longleftrightarrow> (\<forall>ws s. is_ok (fst (tm_BatchCommit T ws s)))"

section \<open>The ledger state\<close>

record ('s, 'r) Updatable =
  up_store :: 's
  up_root :: 'r

record 't Readable =
  rd_trie :: 't

definition genesisOutput :: "easyfl \<Rightarrow> 64 word \<Rightarrow> AddressED25519 \<Rightarrow> 32 word \<Rightarrow> bytes res" where
  "genesisOutput E initialSupply address ts =
     rbind (exec (sbind (call (Amount_Bytes E initialSupply)) (\<lambda>b.
                  sbind (Push b) (\<lambda>_.
                  sbind (call (Timestamp_Bytes E ts)) (\<lambda>b.
                  sbind (Push b) (\<lambda>_.
                  sbind (call (AddressED25519_Bytes E address)) Push))))) EmptyArray) array_bytes"

definition InitLedgerState :: "('s, 'r, 't) trie_model \<Rightarrow> easyfl \<Rightarrow> 's \<Rightarrow> bytes \<Rightarrow> 64 word \<Rightarrow> AddressED25519
    \<Rightarrow> 32 word \<Rightarrow> ('r \<times> 's) res" where
  "InitLedgerState T E store identity initialSupply genesisAddress ts =
     (let (emptyRoot, storeTmp) = tm_MustInitRoot T (tm_NewStore T) identity in
      rbind (as_panic (tm_NewChained T storeTmp emptyRoot)) (\<lambda>trie.
      rbind (genesisOutput E initialSupply genesisAddress ts) (\<lambda>out.
      let (root, storeTmp) = tm_CommitChained T (tm_Update T GenesisOutputID out trie) storeTmp in
      Inr (root, tm_CopyAll T store storeTmp))))"

definition NewReadable :: "('s, 'r, 't) trie_model \<Rightarrow> 's \<Rightarrow> 'r \<Rightarrow> 't Readable res" where
  "NewReadable T store root = rmap (\<lambda>trie. \<lparr>rd_trie = trie\<rparr>) (tm_NewReader T store root)"

definition NewUpdatable :: "('s, 'r, 't) trie_model \<Rightarrow> 's \<Rightarrow> 'r \<Rightarrow> ('s, 'r) Updatable res" where
  "NewUpdatable T store root = rmap (\<lambda>_. \<lparr>up_store = store, up_root = root\<rparr>) (tm_NewReader T store root)"

definition Updatable_Readable :: "('s, 'r, 't) trie_model \<Rightarrow> ('s, 'r) Updatable \<Rightarrow> 't Readable res" where
  "Updatable_Readable T u = rmap (\<lambda>trie. \<lparr>rd_trie = trie\<rparr>) (as_panic (tm_NewReader T (up_store u) (up_root u)))"

definition GetUTXO :: "('s, 'r, 't) trie_model \<Rightarrow> 't Readable \<Rightarrow> OutputID \<Rightarrow> bytes option" where
  "GetUTXO T r oid = (let d = tm_Get T (rd_trie r) oid in if d = [] then None else Some d)"

definition HasTransaction :: "('s, 'r, 't) trie_model \<Rightarrow> 't Readable \<Rightarrow> TransactionID \<Rightarrow> bool" where
  "HasTransaction T r txid = (tm_Keys T (rd_trie r) txid \<noteq> [])"

definition trie_put :: "('s, 'r, 't) trie_model \<Rightarrow> bytes \<Rightarrow> bytes \<Rightarrow> (unit, 't) op" where
  "trie_put T k v = (\<lambda>t. (Inr (), tm_Update T k v t))"

definition updateTrie :: "('s, 'r, 't) trie_model \<Rightarrow> easyfl \<Rightarrow> registry \<Rightarrow> TransactionContext \<Rightarrow> (Command list, 't) op" where
  "updateTrie T E R v =
     sbind (call (Validate E R v)) (\<lambda>indexerUpdate.
     sbind (call (elems_at (tc_tree v) PathToInputIDs)) (\<lambda>ids.
     sbind (op_all (\<lambda>d. sbind (call (as_panic (OutputIDFromBytes d))) (\<lambda>oid. trie_put T oid [])) ids) (\<lambda>_.
     sbind (call (elems_at (tc_tree v) [TransactionBranch, TxOutputs])) (\<lambda>outs.
     sbind (op_all (\<lambda>(idx, outputData). trie_put T (NewOutputID (tc_txid v) (of_nat idx)) outputData)
        (enumerate 0 outs)) (\<lambda>_.
     ret indexerUpdate)))))"

fun updateTrieMulti :: "('s, 'r, 't) trie_model \<Rightarrow> easyfl \<Rightarrow> registry \<Rightarrow> TransactionContext list \<Rightarrow> Command list
    \<Rightarrow> (Command list, 't) op" where
  "updateTrieMulti T E R [] indexerUpdate = ret indexerUpdate"
| "updateTrieMulti T E R (v # rest) indexerUpdate =
     sbind (updateTrie T E R v) (\<lambda>iu. updateTrieMulti T E R rest (indexerUpdate @ iu))"

definition Update :: "('s, 'r, 't) trie_model \<Rightarrow> easyfl \<Rightarrow> registry \<Rightarrow> bytes \<Rightarrow> (Command list, ('s, 'r) Updatable) op" where
  "Update T E R txb u =
     (case rbind (Updatable_Readable T u) (\<lambda>rd. TransactionContextFromTransferableBytes E (GetUTXO T rd) txb) of
        Inl e \<Rightarrow> (Inl e, u)
      | Inr v \<Rightarrow>
     (case tm_NewUpdatable T (up_store u) (up_root u) of
        Inl e \<Rightarrow> (Inl e, u)
      | Inr trie \<Rightarrow>
     (case updateTrieMulti T E R [v] [] trie of
        (Inl e, _) \<Rightarrow> (Inl e, u)
      | (Inr indexerUpdate, trie') \<Rightarrow>
     (case tm_Commit T trie' of (root, batch) \<Rightarrow>
     (case tm_BatchCommit T batch (up_store u) of (r, store) \<Rightarrow>
        (rmap (\<lambda>_. indexerUpdate) r, \<lparr>up_store = store, up_root = root\<rparr>))))))"

section \<open>An update as a change of the set of outputs\<close>

definition utxos :: "('s, 'r, 't) trie_model \<Rightarrow> ('s, 'r) Updatable \<Rightarrow> OutputID \<Rightarrow> bytes option" where
  \<comment> \<open>the outputs that the ledger state holds at its current root; an \<open>OutputID\<close> has 33 bytes\<close>
  "utxos T u = (case Updatable_Readable T u of Inl _ \<Rightarrow> \<lambda>_. None
     | Inr rd \<Rightarrow> GetUTXO T rd |` {oid. length oid = OutputIDLength})"

definition ledger_ok :: "('s, 'r, 't) trie_model \<Rightarrow> ('s, 'r) Updatable \<Rightarrow> bool" where
  \<comment> \<open>the current root is in the store\<close>
  "ledger_ok T u \<longleftrightarrow> is_ok (Updatable_Readable T u)"

definition tx_writes :: "OutputID list \<Rightarrow> TransactionID \<Rightarrow> bytes list \<Rightarrow> (bytes \<times> bytes) list" where
  "tx_writes ids txid outs =
     map (\<lambda>oid. (oid, [])) ids @ map (\<lambda>(i, d). (NewOutputID txid (of_nat i), d)) (enumerate 0 outs)"

lemma trie_writes_get:
  assumes "trie_laws T"
  shows "tm_Get T (trie_writes T kvs t) = apply_writes kvs (tm_Get T t)"
proof (induction kvs arbitrary: t)
  case Nil
  then show ?case by simp
next
  case (Cons kv kvs)
  have "tm_Get T (tm_Update T k v t) = (tm_Get T t)(k := v)" for k v
    by (rule trie_lawsD(2) [OF assms])
  then show ?case using Cons by (cases kv) (simp del: fun_upd_apply)
qed

lemma trie_writes_append: "trie_writes T (xs @ ys) t = trie_writes T ys (trie_writes T xs t)"
  by (induction xs arbitrary: t) auto

lemma op_all_puts:
  assumes "\<And>x. x \<in> set xs \<Longrightarrow> f x = trie_put T (fst (g x)) (snd (g x))"
  shows "op_all f xs t = (Inr (), trie_writes T (map g xs) t)"
  using assms
proof (induction xs arbitrary: t)
  case Nil
  then show ?case by (simp add: ret_def)
next
  case (Cons x xs)
  then show ?case by (cases "g x") (simp add: sbind_def trie_put_def)
qed

lemma call_pair [simp]: "call r s = (r, s)"
  by (simp add: call_def)

lemma updateTrie_runs:
  assumes "Validate E R v = Inr cmds" "elems_at (tc_tree v) PathToInputIDs = Inr ids"
    "\<forall>oid \<in> set ids. length oid = 33" "elems_at (tc_tree v) PathToProducedOutputs = Inr outs"
  shows "updateTrie T E R v t = (Inr cmds, trie_writes T (tx_writes ids (tc_txid v) outs) t)"
proof -
  have "op_all (\<lambda>d. sbind (call (as_panic (OutputIDFromBytes d))) (\<lambda>oid. trie_put T oid [])) ids t
      = (Inr (), trie_writes T (map (\<lambda>oid. (oid, [])) ids) t)" for t
    by (rule op_all_puts) (use assms(3) in \<open>auto simp: OutputIDFromBytes_def id_lengths sbind_def\<close>)
  moreover have "op_all (\<lambda>(idx, d). trie_put T (NewOutputID (tc_txid v) (of_nat idx)) d) (enumerate 0 outs) t
      = (Inr (), trie_writes T (map (\<lambda>(i, d). (NewOutputID (tc_txid v) (of_nat i), d)) (enumerate 0 outs)) t)" for t
    by (rule op_all_puts) auto
  moreover have "[TransactionBranch, TxOutputs] = PathToProducedOutputs" by (simp add: path_defs)
  ultimately show ?thesis
    using assms(1,2,4)
    by (simp add: updateTrie_def sbind_def ret_def tx_writes_def trie_writes_append)
qed

lemma updateTrie_validates:
  assumes "updateTrie T E R v t = (Inr cmds, t')"
  shows "Validate E R v = Inr cmds"
  using assms by (auto simp: updateTrie_def sbind_Inr_iff ret_def)

lemma apply_deletes: "apply_writes (map (\<lambda>k. (k, [])) ks @ ws) f = apply_writes ws (\<lambda>k. if k \<in> set ks then [] else f k)"
proof (induction ks arbitrary: f)
  case Nil
  then show ?case by simp
next
  case (Cons k ks)
  have "(\<lambda>x. if x \<in> set ks then [] else (f(k := [])) x) = (\<lambda>x. if x \<in> set (k # ks) then [] else f x)"
    by auto
  then show ?case using Cons by (simp del: fun_upd_apply)
qed

lemma apply_distinct_writes:
  assumes "distinct (map fst ws)"
  shows "apply_writes ws f k = (case map_of ws k of None \<Rightarrow> f k | Some v \<Rightarrow> v)"
  using assms
proof (induction ws arbitrary: f)
  case Nil
  then show ?case by simp
next
  case (Cons kv ws)
  obtain a b where kv: "kv = (a, b)" by (cases kv)
  have ih: "apply_writes ws g k = (case map_of ws k of None \<Rightarrow> g k | Some v \<Rightarrow> v)" for g
    using Cons by simp
  show ?case
  proof (cases "k = a")
    case True
    then have "map_of ws k = None" using Cons.prems kv by (simp add: map_of_eq_None_iff)
    then show ?thesis using ih [of "f(a := b)"] kv True by simp
  next
    case False
    then show ?thesis using ih [of "f(a := b)"] kv by (simp split: option.splits)
  qed
qed

lemma no_amount_in_nothing: "\<not> is_ok (output_amount E [])"
proof -
  have "\<not> is_ok (parseArray [] 256)" by (simp add: parseArray_def)
  then show ?thesis
    by (auto simp: output_amount_def At_eq is_ok_iff)
qed

lemma valid_context_outputs:
  assumes "context_of v txb ids ins" "Validate E R v = Inr cmds"
  obtains outs where "elems_at (tc_tree v) PathToProducedOutputs = Inr outs" "length outs \<le> 256" "[] \<notin> set outs"
    "total_amount E ins = total_amount E outs" "\<forall>d \<in> set outs. 0 < amount_nat E d"
proof -
  obtain outs where outs: "elems_at (tc_tree v) PathToConsumedOutputs = Inr ins"
    "elems_at (tc_tree v) PathToProducedOutputs = Inr outs"
    using validation_passes [OF assms(2)] assms(1) by (auto simp: context_of_def)
  note sums = validation_conserves_amounts_parts [OF assms(2) outs]
  have ne: "[] \<notin> set outs" using sums(3) no_amount_in_nothing by blast
  have inv: "tree_inv (tc_tree v)" using assms(1) by (simp add: context_of_def)
  have "tree_elements_at (tc_tree v) ([TransactionBranch] @ [TxOutputs]) = Inr outs"
    using outs(2) by (simp add: reads_tree [OF inv] path_defs)
  then obtain b where "parseArray b 256 = Inr outs"
    unfolding tree_elements_at_snoc by (auto simp: parse_node_256)
  then have len: "length outs \<le> 256" "\<forall>d \<in> set outs. length d < 2 ^ 32"
    using parseArray_length parseArray_sizes by blast+
  have "0 < amount_nat E d" if d: "d \<in> set outs" for d
  proof -
    have "length d mod 2 ^ 32 = length d" using len(2) d by simp
    moreover have "length d mod 2 ^ 32 \<le> amount_nat E d" using sums(3) d by blast
    moreover have "0 < length d" using ne d by auto
    ultimately show ?thesis by linarith
  qed
  then show ?thesis using that [OF outs(2) len(1) ne] sums by blast
qed

text \<open>The input ids and the outputs of a transaction can be read off its bytes.\<close>

definition tx_elements :: "byte \<Rightarrow> bytes \<Rightarrow> bytes list" where
  "tx_elements part txb =
     (case rbind (parse_node txb) (\<lambda>parts. rbind (nth_res parts (unat part)) parse_node) of
        Inl _ \<Rightarrow> [] | Inr ds \<Rightarrow> ds)"

definition tx_inputs :: "bytes \<Rightarrow> OutputID list" where
  "tx_inputs = tx_elements TxInputIDs"

definition tx_outputs :: "bytes \<Rightarrow> bytes list" where
  "tx_outputs = tx_elements TxOutputs"

lemma context_elements:
  assumes "context_of v txb ids ins" "elems_at (tc_tree v) [TransactionBranch, part] = Inr ds"
  shows "tx_elements part txb = ds"
proof -
  have inv: "tree_inv (tc_tree v)" using assms(1) by (simp add: context_of_def)
  have root: "tree_at (tc_tree v) ([] @ [TransactionBranch]) = Inr txb"
    using assms(1) by (simp add: context_of_def reads_tree [OF inv])
  have "tree_elements_at (tc_tree v) ([TransactionBranch] @ [part]) = Inr ds"
    using assms(2) by (simp add: reads_tree [OF inv])
  then show ?thesis
    using root unfolding tree_elements_at_snoc [of _ "[TransactionBranch]"] tree_at_snoc [of _ "[TransactionBranch]"]
      tree_elements_at_snoc [of _ "[]", simplified append_Nil]
    by (auto simp: tx_elements_def)
qed

lemma context_inputs: "context_of v txb ids ins \<Longrightarrow> tx_inputs txb = ids"
  using context_elements [of v txb ids ins TxInputIDs ids] by (simp add: tx_inputs_def context_of_def path_defs)

lemma context_tx_outputs:
  "context_of v txb ids ins \<Longrightarrow> elems_at (tc_tree v) PathToProducedOutputs = Inr outs \<Longrightarrow> tx_outputs txb = outs"
  unfolding tx_outputs_def by (rule context_elements) (simp_all add: path_defs)

lemma Update_parts:
  assumes "Update T E R txb u = (Inr cmds, u')"
  obtains rd v t t' root batch store where
    "Updatable_Readable T u = Inr rd" "TransactionContextFromTransferableBytes E (GetUTXO T rd) txb = Inr v"
    "tm_NewUpdatable T (up_store u) (up_root u) = Inr t" "updateTrie T E R v t = (Inr cmds, t')"
    "tm_Commit T t' = (root, batch)" "tm_BatchCommit T batch (up_store u) = (Inr (), store)"
    "u' = \<lparr>up_store = store, up_root = root\<rparr>"
  using assms
  by (auto simp: Update_def sbind_Inr_iff ret_def split: sum.splits prod.splits)

lemma Update_context:
  assumes "trie_laws T" "Update T E R txb u = (Inr cmds, u')" "easyfl_laws E"
  obtains v ins outs where "ledger_ok T u'" "context_of v txb (tx_inputs txb) ins" "tc_txid v = Sum256 E txb"
    "map (utxos T u) (tx_inputs txb) = map Some ins" "Validate E R v = Inr cmds"
    "elems_at (tc_tree v) PathToProducedOutputs = Inr outs" "length outs \<le> 256"
    "total_amount E ins = total_amount E outs" "\<forall>d \<in> set outs. 0 < amount_nat E d"
    "utxos T u' = (utxos T u |` (- set (tx_inputs txb))) ++ produced (Sum256 E txb) outs"
proof -
  obtain rd v t t' root batch store where up:
    "Updatable_Readable T u = Inr rd" "TransactionContextFromTransferableBytes E (GetUTXO T rd) txb = Inr v"
    "tm_NewUpdatable T (up_store u) (up_root u) = Inr t" "updateTrie T E R v t = (Inr cmds, t')"
    "tm_Commit T t' = (root, batch)" "tm_BatchCommit T batch (up_store u) = (Inr (), store)"
    "u' = \<lparr>up_store = store, up_root = root\<rparr>"
    by (rule Update_parts [OF assms(2)])
  obtain ids ins where ctx: "context_of v txb ids ins" "map (GetUTXO T rd) ids = map Some ins"
    "tc_txid v = Sum256 E txb"
    using context_from_bytes [OF up(2)] by blast
  have valid: "Validate E R v = Inr cmds" by (rule updateTrie_validates [OF up(4)])
  obtain outs where outs: "elems_at (tc_tree v) PathToProducedOutputs = Inr outs" "length outs \<le> 256"
    "[] \<notin> set outs" "total_amount E ins = total_amount E outs" "\<forall>d \<in> set outs. 0 < amount_nat E d"
    by (rule valid_context_outputs [OF ctx(1) valid])
  have ids: "elems_at (tc_tree v) PathToInputIDs = Inr ids" "distinct ids" "\<forall>oid \<in> set ids. length oid = 33"
    using ctx(1) by (simp_all add: context_of_def)
  have t': "t' = trie_writes T (tx_writes ids (Sum256 E txb) outs) t"
    using updateTrie_runs [OF valid ids(1,3) outs(1), of T t] up(4) ctx(3) by simp
  have rd: "tm_NewReader T (up_store u) (up_root u) = Inr (rd_trie rd)"
    using up(1) by (auto simp: Updatable_Readable_def)
  then have "opened_as T (tm_NewUpdatable T (up_store u) (up_root u)) (tm_Get T (rd_trie rd))"
    by (rule trie_lawsD(1) [OF assms(1)])
  then have get: "tm_Get T t = tm_Get T (rd_trie rd)" using up(3) by (simp add: opened_as_def)
  have "opened_as T (tm_NewReader T store root) (tm_Get T t')"
    using trie_lawsD(5) [OF assms(1) up(3) _ up(6)] up(5) t' by simp
  then obtain t2 where t2: "tm_NewReader T store root = Inr t2" "tm_Get T t2 = tm_Get T t'"
    by (auto simp: opened_as_def)
  have u': "Updatable_Readable T u' = Inr \<lparr>rd_trie = t2\<rparr>"
    using t2(1) by (simp add: up(7) Updatable_Readable_def)
  let ?f = "tm_Get T (rd_trie rd)"
  let ?p = "produced (Sum256 E txb) outs"
  have "tm_Get T t2 oid = (case ?p oid of None \<Rightarrow> if oid \<in> set ids then [] else ?f oid | Some d \<Rightarrow> d)" for oid
    unfolding t2(2) t' trie_writes_get [OF assms(1)] get tx_writes_def apply_deletes produced_def
    by (rule apply_distinct_writes [OF output_keys_distinct [OF outs(2)]])
  moreover have "d \<noteq> []" if "?p oid = Some d" for oid d
    using that outs(3) unfolding produced_Some [OF outs(2)] by (metis nth_mem)
  ultimately have "GetUTXO T \<lparr>rd_trie = t2\<rparr> = (GetUTXO T rd |` (- set ids)) ++ ?p"
    by (intro ext) (auto simp: GetUTXO_def Let_def map_add_def restrict_map_def split: option.splits)
  moreover have "length (Sum256 E txb) = 32" using assms(3) by (simp add: easyfl_laws_def crypto_laws_def)
  then have "length oid = OutputIDLength" if "?p oid = Some d" for oid d
    using that NewOutputID_parts by (auto simp: produced_Some [OF outs(2)] id_lengths)
  ultimately have "utxos T u' = (utxos T u |` (- set ids)) ++ ?p"
    unfolding utxos_def up(1) u' by (intro ext) (auto simp: map_add_def restrict_map_def split: option.splits)
  moreover have "map (utxos T u) ids = map Some ins"
    using ctx(2) ids(3) map_eq_conv [of "utxos T u" ids "GetUTXO T rd"]
    by (simp add: utxos_def up(1) restrict_map_def id_lengths)
  moreover have "tx_inputs txb = ids" by (rule context_inputs [OF ctx(1)])
  ultimately show ?thesis
    using that u' ctx(1,3) valid outs by (simp add: ledger_ok_def)
qed

lemma Update_applies:
  assumes "trie_laws T" "Update T E R txb u = (Inr cmds, u')" "easyfl_laws E"
  shows "ledger_ok T u' \<and> moves (amount_nat E) (tx_inputs txb) (Sum256 E txb) (utxos T u) (utxos T u')"
  by (rule Update_context [OF assms]) (auto simp: moves_def total_amount_def context_of_def)

lemma produced_exact:
  assumes "length outs \<le> 256" "length txid = 32"
  shows "produced txid outs oid =
    (if \<exists>i < length outs. oid = txid @ [of_nat i] then Some (outs ! unat (last oid)) else None)"
proof (cases "produced txid outs oid")
  case None
  then have "\<not> (\<exists>i < length outs. oid = txid @ [of_nat i])"
    using produced_Some [OF assms(1), of txid oid] by (auto simp: NewOutputID_def)
  then show ?thesis using None by simp
next
  case (Some d)
  then obtain i where "i < length outs" "oid = txid @ [of_nat i]" "outs ! i = d"
    unfolding produced_Some [OF assms(1)] by (auto simp: NewOutputID_def)
  moreover have "unat (of_nat i :: byte) = i" using calculation(1) assms(1) by (simp add: unat_of_nat)
  ultimately show ?thesis using Some by auto
qed

lemma update_exact:
  assumes "trie_laws T" "Update T E R txb u = (Inr cmds, u')" "easyfl_laws E"
  shows "ledger_ok T u'" "distinct (tx_inputs txb)"
    "\<exists>ins. map (utxos T u) (tx_inputs txb) = map Some ins \<and> total_amount E ins = total_amount E (tx_outputs txb)"
    "\<forall>oid. utxos T u' oid =
        (if \<exists>i < length (tx_outputs txb). oid = Sum256 E txb @ [of_nat i]
         then Some (tx_outputs txb ! unat (last oid))
         else if oid \<in> set (tx_inputs txb) then None else utxos T u oid)"
proof -
  obtain v ins outs where up: "ledger_ok T u'" "context_of v txb (tx_inputs txb) ins"
    "map (utxos T u) (tx_inputs txb) = map Some ins" "elems_at (tc_tree v) PathToProducedOutputs = Inr outs"
    "length outs \<le> 256" "total_amount E ins = total_amount E outs"
    "utxos T u' = (utxos T u |` (- set (tx_inputs txb))) ++ produced (Sum256 E txb) outs"
    by (rule Update_context [OF assms])
  have outs: "tx_outputs txb = outs" by (rule context_tx_outputs [OF up(2,4)])
  have len: "length (Sum256 E txb) = 32" using assms(3) by (simp add: easyfl_laws_def crypto_laws_def)
  show "ledger_ok T u'" "distinct (tx_inputs txb)" using up(1,2) by (simp_all add: context_of_def)
  show "\<exists>ins. map (utxos T u) (tx_inputs txb) = map Some ins \<and> total_amount E ins = total_amount E (tx_outputs txb)"
    using up(3,6) outs by blast
  show "\<forall>oid. utxos T u' oid =
        (if \<exists>i < length (tx_outputs txb). oid = Sum256 E txb @ [of_nat i]
         then Some (tx_outputs txb ! unat (last oid))
         else if oid \<in> set (tx_inputs txb) then None else utxos T u oid)"
    unfolding up(7) outs by (auto simp: map_add_def produced_exact [OF up(5) len] restrict_map_def)
qed

section \<open>Histories of the ledger\<close>

definition ledger_step :: "('s, 'r, 't) trie_model \<Rightarrow> easyfl \<Rightarrow> registry \<Rightarrow> bytes
    \<Rightarrow> ('s, 'r) Updatable \<Rightarrow> ('s, 'r) Updatable \<Rightarrow> bool" where
  "ledger_step T E R txb u u' \<longleftrightarrow> (\<exists>cmds. Update T E R txb u = (Inr cmds, u'))"

definition total_supply :: "('s, 'r, 't) trie_model \<Rightarrow> easyfl \<Rightarrow> ('s, 'r) Updatable \<Rightarrow> nat" where
  "total_supply T E u = holdings (amount_nat E) (utxos T u)"

text \<open>The ledger as an instance: the parameters travel with the state.\<close>

type_synonym ('s, 'r, 't) world = "easyfl \<times> registry \<times> ('s, 'r, 't) trie_model \<times> ('s, 'r) Updatable"

definition world_ok :: "('s, 'r, 't) world \<Rightarrow> bool" where
  "world_ok = (\<lambda>(E, R, T, u). easyfl_laws E \<and> trie_laws T \<and> ledger_ok T u)"

definition world_step :: "bytes \<Rightarrow> ('s, 'r, 't) world \<Rightarrow> ('s, 'r, 't) world \<Rightarrow> bool" where
  "world_step txb = (\<lambda>(E, R, T, u) (E', R', T', u'). E' = E \<and> R' = R \<and> T' = T \<and> ledger_step T E R txb u u')"

lemma utxos_finite: "trie_laws T \<Longrightarrow> finite (dom (utxos T u))"
proof -
  assume T: "trie_laws T"
  have "finite (dom (GetUTXO T rd))" for rd
    by (rule finite_subset [OF _ trie_lawsD(4) [OF T, of "rd_trie rd"]]) (auto simp: GetUTXO_def Let_def split: if_splits)
  then show ?thesis by (simp add: utxos_def finite_Int split: sum.splits)
qed

interpretation lg: token_ledger world_ok "\<lambda>(E, R, T, u). utxos T u" "\<lambda>(E, R, T, u). amount_nat E"
    "\<lambda>(E, R, T, u). Sum256 E" tx_inputs world_step
proof unfold_locales
  fix w w' :: "('a, 'b, 'c) world" and x
  obtain E R T u where w: "w = (E, R, T, u)" by (cases w)
  obtain E' R' T' u' where w': "w' = (E', R', T', u')" by (cases w')
  show "length ((case w of (E, R, T, u) \<Rightarrow> Sum256 E) x) = 32" if "world_ok w"
    using that by (simp add: w world_ok_def easyfl_laws_def crypto_laws_def)
  show "finite (dom (case w of (E, R, T, u) \<Rightarrow> utxos T u))" if "world_ok w"
    using that by (auto simp: w world_ok_def intro: utxos_finite)
  assume step: "world_step x w w'"
  then obtain cmds where up: "Update T E R x u = (Inr cmds, u')" and same: "E' = E" "T' = T"
    by (auto simp: w w' world_step_def ledger_step_def)
  show "(case w' of (E, R, T, u) \<Rightarrow> amount_nat E) = (case w of (E, R, T, u) \<Rightarrow> amount_nat E)
      \<and> (case w' of (E, R, T, u) \<Rightarrow> Sum256 E) = (case w of (E, R, T, u) \<Rightarrow> Sum256 E)"
    by (simp add: w w' same)
  assume ok: "world_ok w"
  then have T: "trie_laws T" and E: "easyfl_laws E" by (simp_all add: w world_ok_def)
  show "world_ok w'" using Update_applies [OF T up E] ok by (simp add: w w' world_ok_def same)
  show "moves (case w of (E, R, T, u) \<Rightarrow> amount_nat E) (tx_inputs x) ((case w of (E, R, T, u) \<Rightarrow> Sum256 E) x)
      (case w of (E, R, T, u) \<Rightarrow> utxos T u) (case w' of (E, R, T, u) \<Rightarrow> utxos T u)"
    using Update_applies [OF T up E] by (simp add: w w' same)
qed

lemma run_world:
  "ledger_run (ledger_step T E R) u0 H u \<Longrightarrow> ledger_run world_step (E, R, T, u0) H (E, R, T, u)"
proof (induction rule: ledger_run.induct)
  case run_start
  then show ?case by (rule ledger_run.run_start)
next
  case (run_step H s x s')
  then show ?case by (auto intro!: ledger_run.run_step simp: world_step_def)
qed

lemma run_of_ledger:
  assumes "easyfl_laws E" "trie_laws T" "ledger_ok T u0" "ledger_run (ledger_step T E R) u0 H u"
    "inj_on (Sum256 E) (set H)" "\<forall>oid \<in> dom (utxos T u0). OutputID_TransactionID oid \<notin> Sum256 E ` set H"
  shows "ledger_ok T u" and "total_supply T E u = total_supply T E u0"
    and "distinct (concat (map tx_inputs H))"
    and "\<forall>x \<in> set H. \<forall>oid \<in> set (tx_inputs x). utxos T u oid = None"
  using lg.run_accounts [OF run_world [OF assms(4)]] assms(1-3,5,6)
  by (auto simp: world_ok_def total_supply_def lg.accounted_def)

text \<open>
  C10 (update_moves_outputs): a successful update of the ledger state removes exactly the outputs at the
  inputs of the transaction and adds exactly the outputs that the transaction lists, each under the id
  made of the hash of the transaction and its index in the list; the inputs were all present and
  pairwise different, the two sums are equal, and the new root can be read. Inputs and outputs are
  those that the bytes of the transaction hold.
\<close>

theorem update_moves_outputs:
  assumes "trie_laws T" "Update T E R txb u = (Inr cmds, u')" "easyfl_laws E"
  shows "ledger_ok T u' \<and> distinct (tx_inputs txb)
    \<and> (\<exists>ins. map (utxos T u) (tx_inputs txb) = map Some ins
        \<and> total_amount E ins = total_amount E (tx_outputs txb))
    \<and> (\<forall>oid. utxos T u' oid =
        (if \<exists>i < length (tx_outputs txb). oid = Sum256 E txb @ [of_nat i]
         then Some (tx_outputs txb ! unat (last oid))
         else if oid \<in> set (tx_inputs txb) then None else utxos T u oid))"
  using update_exact [OF assms] by blast

lemma rmap_Inl_iff: "rmap f r = Inl e \<longleftrightarrow> r = Inl e"
  by (cases r) simp_all

lemma failed_update_cases:
  assumes "Update T E R txb u = (Inl e, u')"
  shows "u' = u \<or>
    (\<exists>rd v cmds t t' root batch store. Updatable_Readable T u = Inr rd
      \<and> TransactionContextFromTransferableBytes E (GetUTXO T rd) txb = Inr v
      \<and> Validate E R v = Inr cmds
      \<and> tm_NewUpdatable T (up_store u) (up_root u) = Inr t \<and> updateTrie T E R v t = (Inr cmds, t')
      \<and> tm_Commit T t' = (root, batch) \<and> tm_BatchCommit T batch (up_store u) = (Inl e, store)
      \<and> u' = \<lparr>up_store = store, up_root = root\<rparr>)"
proof (cases "u' = u")
  case changed: False
  then obtain v where v: "rbind (Updatable_Readable T u)
      (\<lambda>rd. TransactionContextFromTransferableBytes E (GetUTXO T rd) txb) = Inr v"
    using assms by (auto simp: Update_def split: sum.splits)
  then obtain rd where rd: "Updatable_Readable T u = Inr rd"
    "TransactionContextFromTransferableBytes E (GetUTXO T rd) txb = Inr v"
    by auto
  obtain t where t: "tm_NewUpdatable T (up_store u) (up_root u) = Inr t"
    using assms changed v by (auto simp: Update_def split: sum.splits)
  have multi: "updateTrieMulti T E R [v] [] t = updateTrie T E R v t"
    by (simp add: sbind_def ret_def split: prod.split sum.split)
  obtain cmds t' where run: "updateTrie T E R v t = (Inr cmds, t')"
    using assms changed v t multi by (auto simp: Update_def split: sum.splits prod.splits)
  obtain root batch where com: "tm_Commit T t' = (root, batch)" by fastforce
  obtain r store where st: "tm_BatchCommit T batch (up_store u) = (r, store)" by fastforce
  have "rmap (\<lambda>_. cmds) r = Inl e \<and> u' = \<lparr>up_store = store, up_root = root\<rparr>"
    using assms unfolding Update_def v multi [unfolded t]
    by (simp add: t multi run com st del: updateTrieMulti.simps)
  then show ?thesis
    using rd t run updateTrie_validates [OF run] com st by (auto simp: rmap_Inl_iff)
qed simp

lemma failed_update_same:
  assumes "store_reliable T" "Update T E R txb u = (Inl e, u')"
  shows "u' = u"
proof -
  have "tm_BatchCommit T ws s \<noteq> (Inl e', s')" for ws s e' s'
    using assms(1) unfolding store_reliable_def by (metis fst_conv is_ok_simps(2))
  then show ?thesis using failed_update_cases [OF assms(2)] by blast
qed

text \<open>
  C21 (failed_update_changes_nothing): an update that returns an error or panics leaves the ledger state
  as it was, with one exception, described to the letter: the transaction was validated, the trie was
  updated, and the commit of its batch to the store is what failed. A store whose commits do not fail
  never gets there.
\<close>

theorem failed_update_changes_nothing:
  assumes "Update T E R txb u = (Inl e, u')"
  shows "u' = u \<or>
    (\<exists>rd v cmds t t' root batch store. Updatable_Readable T u = Inr rd
      \<and> TransactionContextFromTransferableBytes E (GetUTXO T rd) txb = Inr v
      \<and> Validate E R v = Inr cmds
      \<and> tm_NewUpdatable T (up_store u) (up_root u) = Inr t \<and> updateTrie T E R v t = (Inr cmds, t')
      \<and> tm_Commit T t' = (root, batch) \<and> tm_BatchCommit T batch (up_store u) = (Inl e, store)
      \<and> u' = \<lparr>up_store = store, up_root = root\<rparr>)"
  using failed_update_cases [OF assms] .

text \<open>
  C22 (failed_commit_loses_ledger): when the commit of the batch fails, the root of the ledger state has
  already been replaced by the root of a trie that is not in the store. The error is returned, but
  from then on every update panics.
\<close>

theorem failed_commit_loses_ledger:
  assumes "rbind (Updatable_Readable T u) (\<lambda>rd. TransactionContextFromTransferableBytes E (GetUTXO T rd) txb) = Inr v"
    "tm_NewUpdatable T (up_store u) (up_root u) = Inr t" "updateTrie T E R v t = (Inr cmds, t')"
    "tm_Commit T t' = (root, batch)" "tm_BatchCommit T batch (up_store u) = (Inl e, up_store u)"
    "tm_NewReader T (up_store u) root = Inl (Error f)"
  shows "\<exists>u'. Update T E R txb u = (Inl e, u') \<and> (\<forall>txb'. Update T E R txb' u' = (Inl (Panic f), u'))"
proof -
  let ?u = "\<lparr>up_store = up_store u, up_root = root\<rparr>"
  have "Update T E R txb u = (Inl e, ?u)"
    unfolding Update_def assms(1) using assms(2-5) by (simp add: sbind_def ret_def)
  moreover have "Updatable_Readable T ?u = Inl (Panic f)"
    using assms(6) by (simp add: Updatable_Readable_def)
  ultimately show ?thesis by (auto simp: Update_def)
qed

text \<open>
  C8 (double_spend_refused): once a transaction has been accepted, no transaction that shares an input
  with it is accepted, and the attempt changes nothing. Only a state that already held an output under
  the id of the accepted transaction is excluded.
\<close>

theorem double_spend_refused:
  assumes "trie_laws T" "easyfl_laws E" "Update T E R tx1 u = (Inr cmds, u1)"
    "\<forall>rd. Updatable_Readable T u = Inr rd \<longrightarrow> \<not> HasTransaction T rd (Sum256 E tx1)"
    "oid \<in> set (tx_inputs tx1)" "oid \<in> set (tx_inputs tx2)"
  shows "\<exists>e. Update T E R tx2 u1 = (Inl e, u1)"
proof -
  have len: "length (Sum256 E tx1) = 32" using assms(2) by (simp add: easyfl_laws_def crypto_laws_def)
  obtain ins outs where mv: "map (utxos T u) (tx_inputs tx1) = map Some ins" "length outs \<le> 256"
    "utxos T u1 = (utxos T u |` (- set (tx_inputs tx1))) ++ produced (Sum256 E tx1) outs"
    using Update_applies [OF assms(1,3,2)] by (auto simp: moves_def)
  obtain d where d: "utxos T u oid = Some d"
    using map_Some_mem [OF mv(1) assms(5)] by blast
  then obtain rd where rd: "Updatable_Readable T u = Inr rd" "GetUTXO T rd oid = Some d" "length oid = OutputIDLength"
    by (auto simp: utxos_def restrict_map_def split: sum.splits if_splits)
  have "tm_Get T (rd_trie rd) oid \<noteq> []" using rd(2) by (auto simp: GetUTXO_def Let_def split: if_splits)
  moreover have "\<not> HasTransaction T rd (Sum256 E tx1)" using assms(4) rd(1) by blast
  ultimately have "\<not> is_prefix (Sum256 E tx1) oid"
    using trie_lawsD(3) [OF assms(1), of "rd_trie rd" "Sum256 E tx1"] by (auto simp: HasTransaction_def)
  then have "OutputID_TransactionID oid \<noteq> Sum256 E tx1"
    using len by (simp add: is_prefix_def OutputID_TransactionID_def id_lengths)
  then have "produced (Sum256 E tx1) outs oid = None"
    using produced_prefix [OF _ mv(2) len] by (metis option.exhaust)
  then have gone: "utxos T u1 oid = None"
    unfolding mv(3) using assms(5) by (simp add: map_add_None restrict_map_def)
  obtain rd1 where rd1: "Updatable_Readable T u1 = Inr rd1"
    using Update_applies [OF assms(1,3,2)] by (auto simp: ledger_ok_def is_ok_iff)
  have "TransactionContextFromTransferableBytes E (GetUTXO T rd1) tx2 \<noteq> Inr v" for v
  proof
    assume "TransactionContextFromTransferableBytes E (GetUTXO T rd1) tx2 = Inr v"
    then obtain ids outs2 where ctx: "context_of v tx2 ids outs2" "map (GetUTXO T rd1) ids = map Some outs2"
      using context_from_bytes by blast
    have "oid \<in> set ids" using assms(6) unfolding context_inputs [OF ctx(1)] .
    then obtain d where "GetUTXO T rd1 oid = Some d" using map_Some_mem [OF ctx(2)] by blast
    then show False using gone rd1 rd(3) by (simp add: utxos_def)
  qed
  then obtain e where "TransactionContextFromTransferableBytes E (GetUTXO T rd1) tx2 = Inl e"
    by (metis obj_sumE)
  then show ?thesis using rd1 by (simp add: Update_def)
qed

section \<open>From genesis\<close>

lemma exec_sbind_call: "r = Inr x \<Longrightarrow> exec (sbind (call r) f) s = exec (f x) s"
  by simp

lemma genesisOutput_ok:
  assumes "easyfl_laws E" "compile_laws E" "length a = 32"
  shows "\<exists>out ca ct cl. genesisOutput E n a ts = Inr out \<and> out \<noteq> [] \<and> amount_nat E out = unat n
    \<and> parseArray out 256 = Inr [ca, ct, cl] \<and> Amount_Bytes E n = Inr ca \<and> Timestamp_Bytes E ts = Inr ct
    \<and> AddressED25519_Bytes E a = Inr cl \<and> length cl \<le> 255"
proof -
  obtain ca where ca: "Amount_Bytes E n = Inr ca" "reads_as E ca ''amount'' [L_u64 n]" "length ca \<le> 400"
    using Amount_compiles [OF assms(2), of n] by (auto simp: compiles_to_def)
  obtain ct where ct: "Timestamp_Bytes E ts = Inr ct" "length ct \<le> 400"
    using Timestamp_compiles [OF assms(2), of ts] by (auto simp: compiles_to_def)
  have "a \<noteq> []" "length a \<le> 127" using assms(3) by auto
  then obtain cl where cl: "AddressED25519_Bytes E a = Inr cl" "length cl \<le> 255"
    using AddressED25519_compiles [OF assms(2), of a] assms(3) by (auto simp: compiles_to_def)
  obtain o1 where o1: "Push ca EmptyArray = (Inr 0, o1)" "arr_inv o1" "arr_view o1 = Inr [ca]" "arr_max o1 = maxArrayLen"
    using arr.push_law [of EmptyArray "[]" ca] by (auto simp: EmptyArray_def maxArrayLen_eq)
  obtain o2 where o2: "Push ct o1 = (Inr 1, o2)" "arr_inv o2" "arr_view o2 = Inr [ca, ct]" "arr_max o2 = maxArrayLen"
    using arr.push_law [OF o1(2,3), of ct] o1(4) by (auto simp: maxArrayLen_eq)
  obtain o3 where o3: "Push cl o2 = (Inr 2, o3)" "arr_inv o3" "arr_view o3 = Inr [ca, ct, cl]"
    using arr.push_law [OF o2(2,3), of cl] o2(4) by (auto simp: maxArrayLen_eq numeral_2_eq_2)
  have gen: "genesisOutput E n a ts = array_bytes o3"
    by (simp add: genesisOutput_def exec_def sbind_def ca(1) ct(1) cl(1) o1(1) o2(1) o3(1))
  have "encodable [ca, ct, cl]"
    using ca(3) ct(2) cl(2) by (simp add: encodable_def maxArrayLen_eq MaxUint32_def)
  then obtain out where out: "array_bytes o3 = Inr out"
    using Bytes_result [OF o3(2,3)] by (auto simp: array_bytes_def is_ok_iff)
  have p: "parseArray out 256 = Inr [ca, ct, cl]" by (rule array_bytes_Inr [OF o3(2,3) out]) simp
  have amt: "output_amount E out = Inr n"
    using p Amount_reads [OF assms(1) ca(2)] by (simp add: output_amount_def At_eq ConstraintIndexAmount_def)
  then have "out \<noteq> []" using no_amount_in_nothing [of E] by (metis is_ok_simps(1))
  then show ?thesis using gen out amt p ca ct cl by (simp add: amount_nat_def)
qed

lemma genesis_state:
  assumes "easyfl_laws E" "compile_laws E" "trie_laws T" "length a = 32"
    "InitLedgerState T E (tm_NewStore T) identity n a ts = Inr (root, s)"
    "NewUpdatable T s root = Inr u"
  shows "ledger_ok T u" and "\<exists>out. genesisOutput E n a ts = Inr out \<and> utxos T u = [GenesisOutputID \<mapsto> out] \<and> amount_nat E out = unat n"
proof -
  obtain out where out: "genesisOutput E n a ts = Inr out" "out \<noteq> []" "amount_nat E out = unat n"
    using genesisOutput_ok [OF assms(1,2,4)] by blast
  obtain root0 s0 where s0: "tm_MustInitRoot T (tm_NewStore T) identity = (root0, s0)" by fastforce
  obtain t where t: "tm_NewChained T s0 root0 = Inr t" "\<forall>k. k \<noteq> [] \<longrightarrow> tm_Get T t k = []"
    using trie_lawsD(6) [OF assms(3) s0] by blast
  obtain s1 where s1: "tm_CommitChained T (trie_writes T [(GenesisOutputID, out)] t) s0 = (root, s1)"
    "s = tm_CopyAll T (tm_NewStore T) s1"
    using assms(5) s0 t(1) out(1) by (auto simp: InitLedgerState_def split: prod.splits)
  obtain t2 where t2: "tm_NewReader T s root = Inr t2"
    "tm_Get T t2 = tm_Get T (trie_writes T [(GenesisOutputID, out)] t)"
    using trie_lawsD(7) [OF assms(3) t(1) s1(1)] s1(2) by (auto simp: opened_as_def)
  have get: "tm_Get T t2 = (tm_Get T t)(GenesisOutputID := out)"
    using t2(2) trie_lawsD(2) [OF assms(3)] by simp
  have u: "Updatable_Readable T u = Inr \<lparr>rd_trie = t2\<rparr>"
    using assms(6) t2(1) by (auto simp: NewUpdatable_def Updatable_Readable_def)
  then show "ledger_ok T u" by (simp add: ledger_ok_def)
  have "utxos T u oid = [GenesisOutputID \<mapsto> out] oid" for oid
  proof (cases "length oid = 33")
    case True
    then have "oid \<noteq> []" by auto
    then show ?thesis using u get t(2) out(2) True by (simp add: utxos_def GetUTXO_def id_lengths)
  next
    case False
    then show ?thesis using u by (auto simp: utxos_def id_lengths GenesisOutputID_def)
  qed
  then have "utxos T u = [GenesisOutputID \<mapsto> out]" by blast
  then show "\<exists>out. genesisOutput E n a ts = Inr out \<and> utxos T u = [GenesisOutputID \<mapsto> out] \<and> amount_nat E out = unat n"
    using out(1,3) by blast
qed

lemma genesis_foreign:
  assumes "utxos T u0 = [GenesisOutputID \<mapsto> out]" "replicate TransactionIDLength 0 \<notin> Sum256 E ` set H"
  shows "\<forall>oid \<in> dom (utxos T u0). OutputID_TransactionID oid \<notin> Sum256 E ` set H"
  using assms by (simp add: GenesisOutputID_def OutputID_TransactionID_def id_lengths)

text \<open>
  C1 (supply_is_conserved): whatever transactions a ledger accepts after genesis, in whatever order, the
  amounts of the outputs it holds sum up to the initial supply. The two conditions on the hash are
  those of a collision-free one: it tells the accepted transactions apart, and none of them hashes to
  the id of the genesis transaction.
\<close>

theorem supply_is_conserved:
  assumes "easyfl_laws E" "compile_laws E" "trie_laws T" "length genesisAddress = 32"
    "InitLedgerState T E (tm_NewStore T) identity initialSupply genesisAddress ts = Inr (root, s)"
    "NewUpdatable T s root = Inr u0" "ledger_run (ledger_step T E R) u0 H u"
    "inj_on (Sum256 E) (set H)" "replicate TransactionIDLength 0 \<notin> Sum256 E ` set H"
  shows "total_supply T E u = unat initialSupply"
proof -
  obtain out where out: "utxos T u0 = [GenesisOutputID \<mapsto> out]" "amount_nat E out = unat initialSupply"
    using genesis_state(2) [OF assms(1-6)] by blast
  have "total_supply T E u = total_supply T E u0"
    using run_of_ledger(2) [OF assms(1,3) genesis_state(1) [OF assms(1-6)] assms(7,8)]
      genesis_foreign [OF out(1) assms(9)] by blast
  then show ?thesis using out by (simp add: total_supply_def holdings_def)
qed

text \<open>
  C9 (spent_outputs_stay_spent): in a history of the ledger no output is consumed twice. The inputs of
  all accepted transactions, strung together, are pairwise different, so no two transactions share an
  input and none lists one twice; and an input of an accepted transaction never comes back.
\<close>

theorem spent_outputs_stay_spent:
  assumes "easyfl_laws E" "compile_laws E" "trie_laws T" "length genesisAddress = 32"
    "InitLedgerState T E (tm_NewStore T) identity initialSupply genesisAddress ts = Inr (root, s)"
    "NewUpdatable T s root = Inr u0" "ledger_run (ledger_step T E R) u0 H u"
    "inj_on (Sum256 E) (set H)" "replicate TransactionIDLength 0 \<notin> Sum256 E ` set H"
  shows "distinct (concat (map tx_inputs H))
    \<and> (\<forall>txb \<in> set H. \<forall>oid \<in> set (tx_inputs txb). utxos T u oid = None)"
proof -
  obtain out where out: "utxos T u0 = [GenesisOutputID \<mapsto> out]"
    using genesis_state(2) [OF assms(1-6)] by blast
  note run = run_of_ledger(3,4) [OF assms(1,3) genesis_state(1) [OF assms(1-6)] assms(7,8)
      genesis_foreign [OF out assms(9)]]
  show ?thesis using run by blast
qed

section \<open>A ledger in memory\<close>

text \<open>
  The parameter \<open>T\<close> instantiated: a root is the association list it commits to, and a store is the list
  of the contents that were committed to it. A batch is the content itself.
\<close>

type_synonym contents = "(bytes \<times> bytes) list"

definition assoc_get :: "contents \<Rightarrow> bytes \<Rightarrow> bytes" where
  "assoc_get t k = (case map_of t k of None \<Rightarrow> [] | Some v \<Rightarrow> v)"

definition open_contents :: "contents list \<Rightarrow> contents \<Rightarrow> contents res" where
  "open_contents s r = (if r \<in> set s then Inr r else Inl (Error Inconsistency))"

definition mem_trie :: "(contents list, contents, contents) trie_model" where
  "mem_trie =
     \<lparr>tm_NewStore = [],
      tm_MustInitRoot = (\<lambda>s identity. ([([], identity)], [([], identity)] # s)),
      tm_NewReader = open_contents,
      tm_Get = assoc_get,
      tm_Keys = (\<lambda>t p. filter (\<lambda>k. is_prefix p k \<and> assoc_get t k \<noteq> []) (map fst t)),
      tm_NewUpdatable = open_contents,
      tm_Update = (\<lambda>k v t. (k, v) # filter (\<lambda>(k', _). k' \<noteq> k) t),
      tm_Commit = (\<lambda>t. (t, t)),
      tm_BatchCommit = (\<lambda>ws s. (Inr (), ws # s)),
      tm_NewChained = open_contents,
      tm_CommitChained = (\<lambda>t s. (t, t # s)),
      tm_CopyAll = (\<lambda>dest src. src @ dest)\<rparr>"

lemma assoc_get_Cons: "assoc_get ((k, v) # t) x = (if x = k then v else assoc_get t x)"
  by (simp add: assoc_get_def)

lemma assoc_get_filter: "k' \<noteq> k \<Longrightarrow> assoc_get (filter (\<lambda>(x, _). x \<noteq> k) t) k' = assoc_get t k'"
  unfolding assoc_get_def by (induction t) auto

lemma assoc_get_present: "assoc_get t k \<noteq> [] \<Longrightarrow> k \<in> set (map fst t)"
  unfolding assoc_get_def by (force split: option.splits dest: map_of_SomeD)

lemma mem_trie_laws: "trie_laws mem_trie"
proof -
  have upd: "assoc_get ((k, v) # filter (\<lambda>(x, _). x \<noteq> k) t) = (assoc_get t)(k := v)" for k v t
    by (intro ext) (simp add: assoc_get_Cons assoc_get_filter)
  have keys: "{k. is_prefix p k \<and> assoc_get t k \<noteq> []} = set (filter (\<lambda>k. is_prefix p k \<and> assoc_get t k \<noteq> []) (map fst t))" for p t
    using assoc_get_present by (auto simp del: set_map)
  have fin: "finite {k. assoc_get t k \<noteq> []}" for t
    by (rule finite_subset [OF _ finite_set [of "map fst t"]]) (use assoc_get_present in blast)
  show ?thesis
    unfolding trie_laws_def mem_trie_def
    using keys by (simp add: upd fin opened_as_def open_contents_def) (simp add: assoc_get_def)
qed

lemma mem_trie_reliable: "store_reliable mem_trie"
  by (simp add: store_reliable_def mem_trie_def)

end
