(* ===== verification/IndexSync.thy ===== *)
theory IndexSync
  imports LedgerState
begin

text \<open>
  The commands that validation hands to the indexer (\<^verbatim>\<open>createIndexEntries\<close> of \<^verbatim>\<open>validate.go\<close>), read as a change
  of the index by account: exactly the pairs of account and output that leave and enter the ledger.
\<close>

section \<open>The accounts of an output\<close>

definition output_lock :: "easyfl \<Rightarrow> registry \<Rightarrow> bytes \<Rightarrow> Lock res" where
  "output_lock E R data = rbind (fst (At ConstraintIndexLock (ArrayFromBytesMax data 256))) (LockFromBytes E R)"

definition lock_accounts :: "easyfl \<Rightarrow> registry \<Rightarrow> bytes \<Rightarrow> bytes set" where
  \<comment> \<open>the ids of the accounts that the lock of an output names\<close>
  "lock_accounts E R data =
     (case output_lock E R data of
        Inl _ \<Rightarrow> {}
      | Inr lock \<Rightarrow> {acc. \<exists>tag \<in> set (IndexableTags lock). AccountID E tag = Inr acc})"

definition account_pairs :: "Command list \<Rightarrow> (bytes \<times> OutputID) set" where
  "account_pairs cmds = {(cmd_ID c, cmd_OutputID c) |c. c \<in> set cmds \<and> cmd_Partition c = PartitionAccount}"

lemma account_pairs_simps [simp]:
  "account_pairs [] = {}"
  "account_pairs (xs @ ys) = account_pairs xs \<union> account_pairs ys"
  "account_pairs (concat css) = (\<Union>cs \<in> set css. account_pairs cs)"
  by (auto simp: account_pairs_def)

lemma account_pairs_Cons:
  "account_pairs (c # cs) = (if cmd_Partition c = PartitionAccount then insert (cmd_ID c, cmd_OutputID c) (account_pairs cs)
     else account_pairs cs)"
  by (auto simp: account_pairs_def)

lemma fold_deletes: "\<forall>c \<in> set cmds. cmd_Delete c \<Longrightarrow> fold account_step cmds X = X - account_pairs cmds"
proof (induction cmds arbitrary: X)
  case (Cons c cs)
  then show ?case by (auto simp: account_step_def account_pairs_Cons)
qed simp

lemma fold_adds: "\<forall>c \<in> set cmds. \<not> cmd_Delete c \<Longrightarrow> fold account_step cmds X = X \<union> account_pairs cmds"
proof (induction cmds arbitrary: X)
  case (Cons c cs)
  then show ?case by (auto simp: account_step_def account_pairs_Cons)
qed simp

section \<open>The entries of one output\<close>

definition entries_for :: "bytes set \<Rightarrow> OutputID \<Rightarrow> bool \<Rightarrow> Command list \<Rightarrow> bool" where
  "entries_for accs oid c cmds \<longleftrightarrow>
     account_pairs cmds = (\<lambda>acc. (acc, oid)) ` accs
     \<and> (\<forall>cmd \<in> set cmds. cmd_Delete cmd = c \<and> length (cmd_OutputID cmd) = OutputIDLength)"

lemma lock_entries:
  assumes "rfold (\<lambda>addr records. rbind (AccountID E addr) (\<lambda>acc. rbind r (\<lambda>oid.
         Inr (records @ [\<lparr>cmd_ID = acc, cmd_OutputID = oid, cmd_Delete = c, cmd_Partition = PartitionAccount\<rparr>]))))
       tags r0 = Inr cmds" "r = Inr oid" "length oid = OutputIDLength" "entries_for A oid c r0"
  shows "entries_for (A \<union> {acc. \<exists>tag \<in> set tags. AccountID E tag = Inr acc}) oid c cmds"
  using assms
proof (induction tags arbitrary: r0 A)
  case Nil
  then show ?case by simp
next
  case (Cons tag tags)
  then obtain acc where acc: "AccountID E tag = Inr acc" by auto
  let ?cmd = "\<lparr>cmd_ID = acc, cmd_OutputID = oid, cmd_Delete = c, cmd_Partition = PartitionAccount\<rparr>"
  have "entries_for (insert acc A) oid c (r0 @ [?cmd])"
    using Cons.prems(3,4) by (auto simp: entries_for_def account_pairs_Cons)
  then have "entries_for (insert acc A \<union> {acc. \<exists>tag \<in> set tags. AccountID E tag = Inr acc}) oid c cmds"
    using Cons.IH [of "r0 @ [?cmd]" "insert acc A"] Cons.prems acc by simp
  moreover have "insert acc A \<union> {acc. \<exists>tag \<in> set tags. AccountID E tag = Inr acc}
      = A \<union> {acc. \<exists>tag \<in> set (tag # tags). AccountID E tag = Inr acc}"
    using acc by auto
  ultimately show ?case by simp
qed

lemma chain_entries:
  assumes "indexChain_loop E v idx c blocks [] = Inr cmds" "length (tc_txid v) = TransactionIDLength"
  shows "\<forall>cmd \<in> set cmds. cmd_Partition cmd = PartitionChainID \<and> cmd_Delete cmd = c
    \<and> length (cmd_OutputID cmd) = OutputIDLength"
  using assms
  by (induction E v idx c blocks "[] :: Command list" rule: indexChain_loop.induct)
    (auto simp: Let_def ZeroOutputID_def NewOutputID_def id_lengths split: if_splits sum.splits error.splits)

lemma entries_of_output:
  assumes "createIndexEntries E R v idx (ArrayFromBytesMax data 256) c [] = Inr cmds"
    "if c then InputID v idx = Inr oid else oid = NewOutputID (tc_txid v) idx"
    "length (tc_txid v) = TransactionIDLength" "length oid = OutputIDLength"
  shows "entries_for (lock_accounts E R data) oid c cmds"
proof -
  let ?arr = "ArrayFromBytesMax data 256"
  obtain r1 where r1: "indexLock E R v idx ?arr c [] = Inr r1" "indexChainID E v idx ?arr c r1 = Inr cmds"
    using assms(1) by (auto simp: createIndexEntries_def)
  obtain lock where lock: "output_lock E R data = Inr lock"
    "rfold (\<lambda>addr records. rbind (AccountID E addr) (\<lambda>acc.
         rbind (if c then InputID v idx else Inr (NewOutputID (tc_txid v) idx)) (\<lambda>oid.
         Inr (records @ [\<lparr>cmd_ID = acc, cmd_OutputID = oid, cmd_Delete = c, cmd_Partition = PartitionAccount\<rparr>]))))
       (IndexableTags lock) [] = Inr r1"
    using r1(1) by (auto simp: indexLock_def output_lock_def)
  have "(if c then InputID v idx else Inr (NewOutputID (tc_txid v) idx)) = Inr oid"
    using assms(2) by simp
  from lock_entries [OF lock(2) this assms(4), of "{}"]
  have l: "entries_for (lock_accounts E R data) oid c r1"
    using lock(1) by (simp add: entries_for_def lock_accounts_def)
  obtain blocks where "indexChain_loop E v idx c blocks r1 = Inr cmds"
    using r1(2) by (auto simp: indexChainID_def)
  then obtain ch where ch: "indexChain_loop E v idx c blocks [] = Inr ch" "cmds = r1 @ ch"
    by (subst (asm) indexChain_loop_appends) auto
  have "account_pairs ch = {}"
    using chain_entries [OF ch(1) assms(3)] by (auto simp: account_pairs_def)
  then show ?thesis
    using l chain_entries [OF ch(1) assms(3)] by (auto simp: entries_for_def ch(2))
qed

section \<open>The entries of a transaction\<close>

lemma validate_outputs_records:
  assumes "rfold (validate_output E R v c p) (enumerate n outs) (tot, r) = Inr (tot', r')"
  shows "\<exists>css. length css = length outs \<and> r' = r @ concat css
    \<and> (\<forall>i < length outs. createIndexEntries E R v (of_nat (n + i)) (ArrayFromBytesMax (outs ! i) 256) c [] = Inr (css ! i))"
  using assms
proof (induction outs arbitrary: n tot r)
  case Nil
  then show ?case by simp
next
  case (Cons d outs)
  then obtain tot1 r1 where step: "validate_output E R v c p (n, d) (tot, r) = Inr (tot1, r1)"
    "rfold (validate_output E R v c p) (enumerate (Suc n) outs) (tot1, r1) = Inr (tot', r')"
    by auto
  obtain css where css: "length css = length outs" "r' = r1 @ concat css"
    "\<forall>i < length outs. createIndexEntries E R v (of_nat (Suc n + i)) (ArrayFromBytesMax (outs ! i) 256) c [] = Inr (css ! i)"
    using Cons.IH [OF step(2)] by blast
  have "createIndexEntries E R v (of_nat n) (ArrayFromBytesMax d 256) c r = Inr r1"
    using step(1) by (auto simp: validate_output_def Let_def)
  then obtain cs where cs: "createIndexEntries E R v (of_nat n) (ArrayFromBytesMax d 256) c [] = Inr cs" "r1 = r @ cs"
    by (subst (asm) createIndexEntries_appends) auto
  have "createIndexEntries E R v (of_nat (n + i)) (ArrayFromBytesMax ((d # outs) ! i) 256) c [] = Inr ((cs # css) ! i)"
    if "i < length (d # outs)" for i
    using that cs(1) css(3) by (cases i) auto
  then show ?case using css(1,2) cs(2) by (intro exI [of _ "cs # css"]) auto
qed

lemma branch_entries:
  assumes "validateOutputs E R v c r = Inr (tot, r')" "elems_at (tc_tree v) (branch_path c) = Inr outs"
    "length (tc_txid v) = TransactionIDLength"
    "\<And>i. i < length outs \<Longrightarrow> (if c then InputID v (of_nat i) = Inr (ids i) else ids i = NewOutputID (tc_txid v) (of_nat i))
       \<and> length (ids i) = OutputIDLength"
  shows "\<exists>cmds. r' = r @ cmds \<and> account_pairs cmds = (\<Union>i < length outs. (\<lambda>acc. (acc, ids i)) ` lock_accounts E R (outs ! i))
    \<and> (\<forall>cmd \<in> set cmds. cmd_Delete cmd = c \<and> length (cmd_OutputID cmd) = OutputIDLength)"
proof -
  have "rfold (validate_output E R v c (branch_path c)) (enumerate 0 outs) (0, r) = Inr (tot, r')"
    using assms(1,2) by (simp add: validateOutputs_def branch_path_eq Let_def)
  from validate_outputs_records [OF this] obtain css where css: "length css = length outs" "r' = r @ concat css"
    "\<And>i. i < length outs \<Longrightarrow> createIndexEntries E R v (of_nat i) (ArrayFromBytesMax (outs ! i) 256) c [] = Inr (css ! i)"
    by auto
  have each: "entries_for (lock_accounts E R (outs ! i)) (ids i) c (css ! i)" if "i < length outs" for i
    using entries_of_output [OF css(3) _ assms(3)] assms(4) that by blast
  have set: "set css = (!) css ` {..<length outs}"
    unfolding css(1) [symmetric] by (auto simp: set_conv_nth)
  show ?thesis
    using each by (intro exI [of _ "concat css"]) (auto simp: css(2) set entries_for_def)
qed

lemma validate_reindexes:
  assumes "Validate E R v = Inr cmds" "context_of v txb ids ins" "length (tc_txid v) = 32"
    "elems_at (tc_tree v) PathToProducedOutputs = Inr outs" "length outs \<le> 256"
    "map m ids = map Some ins"
  shows "fold account_step cmds X = (X - tagged (lock_accounts E R) (m |` set ids))
      \<union> tagged (lock_accounts E R) (produced (tc_txid v) outs)
    \<and> (\<forall>cmd \<in> set cmds. length (cmd_OutputID cmd) = OutputIDLength)"
proof -
  have ctx: "tree_inv (tc_tree v)" "elems_at (tc_tree v) PathToInputIDs = Inr ids"
    "elems_at (tc_tree v) PathToConsumedOutputs = Inr ins" "length ins = length ids" "length ids \<le> 256"
    "\<forall>oid \<in> set ids. length oid = 33"
    using assms(2) by (simp_all add: context_of_def)
  have txid: "length (tc_txid v) = TransactionIDLength" using assms(3) by (simp add: id_lengths)
  obtain tot r1 where v: "validateOutputs E R v True [] = Inr (tot, r1)"
    "validateOutputs E R v False r1 = Inr (tot, cmds)"
    by (rule Validate_parts [OF assms(1)])
  have input: "InputID v (of_nat i) = Inr (ids ! i) \<and> length (ids ! i) = OutputIDLength" if "i < length ins" for i
  proof -
    have i: "i < length ids" "unat (of_nat i :: byte) = i" using that ctx(4,5) by simp_all
    then have "tread (tc_tree v) (PathToInputIDs @ [of_nat i]) = Inr (ids ! i)"
      using nth_elem_read [OF ctx(1,2), of "of_nat i"] by simp
    then show ?thesis using ctx(6) i by (simp add: InputID_def id_lengths)
  qed
  obtain rc where rc: "r1 = rc" "account_pairs rc = (\<Union>i < length ins. (\<lambda>acc. (acc, ids ! i)) ` lock_accounts E R (ins ! i))"
    "\<forall>cmd \<in> set rc. cmd_Delete cmd \<and> length (cmd_OutputID cmd) = OutputIDLength"
    using branch_entries [OF v(1) _ txid, of ins "(!) ids"] ctx(3) input by (auto simp: branch_path_def)
  obtain rp where rp: "cmds = r1 @ rp"
    "account_pairs rp = (\<Union>i < length outs. (\<lambda>acc. (acc, NewOutputID (tc_txid v) (of_nat i))) ` lock_accounts E R (outs ! i))"
    "\<forall>cmd \<in> set rp. \<not> cmd_Delete cmd \<and> length (cmd_OutputID cmd) = OutputIDLength"
    using branch_entries [OF v(2) _ txid, of outs "\<lambda>i. NewOutputID (tc_txid v) (of_nat i)"] assms(4) txid
    by (auto simp: branch_path_def NewOutputID_def id_lengths)
  have m: "m (ids ! i) = Some (ins ! i)" if "i < length ins" for i
    using arg_cong [OF assms(6), of "\<lambda>xs. xs ! i"] that ctx(4) by simp
  have "account_pairs rc = tagged (lock_accounts E R) (m |` set ids)"
    unfolding rc(2) using m ctx(4)
    by (fastforce simp: tagged_def restrict_map_def in_set_conv_nth split: if_splits)
  moreover have "account_pairs rp = tagged (lock_accounts E R) (produced (tc_txid v) outs)"
    unfolding rp(2) by (force simp: tagged_def produced_Some [OF assms(5)])
  ultimately show ?thesis
    using rc rp fold_deletes [of rc X] fold_adds [of rp] by auto
qed

lemma update_reindexes:
  assumes "trie_laws T" "easyfl_laws E" "Update T E R txb u = (Inr cmds, u')"
  shows "reindexes (lock_accounts E R) (tx_inputs txb) (Sum256 E txb) (utxos T u) (utxos T u')
      X (fold account_step cmds X)
    \<and> (\<forall>cmd \<in> set cmds. length (cmd_OutputID cmd) = OutputIDLength)"
proof (rule Update_context [OF assms(1,3,2)])
  fix v ins outs
  assume v: "context_of v txb (tx_inputs txb) ins" "tc_txid v = Sum256 E txb"
    "map (utxos T u) (tx_inputs txb) = map Some ins" "Validate E R v = Inr cmds"
    "elems_at (tc_tree v) PathToProducedOutputs = Inr outs" "length outs \<le> 256"
    "utxos T u' = (utxos T u |` (- set (tx_inputs txb))) ++ produced (Sum256 E txb) outs"
  have "length (tc_txid v) = 32" using assms(2) v(2) by (simp add: easyfl_laws_def crypto_laws_def)
  from validate_reindexes [OF v(4,1) this v(5,6,3), of X] show ?thesis
    using v(2,6,7) by (auto simp: reindexes_def)
qed

text \<open>
  C19 (update_commands_reindex): the commands that a successful update of the ledger state returns change
  the index by account exactly as the set of outputs changes: they remove the outputs that were spent
  from the accounts their locks name and add the produced ones, and touch nothing else.
\<close>

theorem update_commands_reindex:
  assumes "trie_laws T" "easyfl_laws E" "Update T E R txb u = (Inr cmds, u')"
  shows "reindexes (lock_accounts E R) (tx_inputs txb) (Sum256 E txb) (utxos T u) (utxos T u')
      X (fold account_step cmds X)
    \<and> (\<forall>cmd \<in> set cmds. length (cmd_OutputID cmd) = OutputIDLength)"
  by (rule update_reindexes [OF assms])

end
