(* ===== verification/UtxoDB.thy ===== *)
theory UtxoDB
  imports IndexSync
begin

text \<open>
  \<^verbatim>\<open>ledger/utxodb/utxodb.go\<close>: the centralised ledger used by the tests and tools, a ledger state with its
  indexer and a faucet. \<open>environment\<close> collects what belongs to other packages: EasyFL, the trie, the
  indexer's store, ED25519 and sorting. The wall clock is a parameter \<open>now\<close>. Tracing is left out;
  \<^verbatim>\<open>TxToString\<close> is in theory \<open>Rendering\<close>.
\<close>

section \<open>The database\<close>

record ('s, 'r, 't, 'i) environment =
  su_easyfl :: easyfl
  su_registry :: registry
  su_trie :: "('s, 'r, 't) trie_model"
  su_kv :: "'i kv_store"
  su_newKV :: 'i
  su_signer :: "bytes signer"
  su_NewKeyFromSeed :: "bytes \<Rightarrow> bytes"
  su_sort :: "OutputWithID sorter"

record ('s, 'r, 'i) UTXODB =
  db_state :: "('s, 'r) Updatable"
  db_indexer :: 'i
  db_root :: 'r
  db_supply :: "64 word"
  db_genesisPrivateKey :: bytes
  db_genesisPublicKey :: bytes
  db_genesisAddress :: AddressED25519

definition ascii :: "string \<Rightarrow> bytes" where
  \<comment> \<open>\<open>[]byte(s)\<close>\<close>
  "ascii s = map (\<lambda>c. of_nat (of_char c)) s"

fun hex_value :: "char \<Rightarrow> nat option" where
  "hex_value c =
     (let n = of_char c :: nat in
      if 48 \<le> n \<and> n \<le> 57 then Some (n - 48)
      else if 97 \<le> n \<and> n \<le> 102 then Some (n - 87)
      else if 65 \<le> n \<and> n \<le> 70 then Some (n - 55) else None)"

fun DecodeString :: "string \<Rightarrow> bytes res" where
  \<comment> \<open>\<open>hex.DecodeString\<close>\<close>
  "DecodeString [] = Inr []"
| "DecodeString [c] = Inl (Error Wrong_data_length)"
| "DecodeString (c # d # s) =
     (case (hex_value c, hex_value d) of
        (Some m, Some n) \<Rightarrow> rmap ((#) (of_nat (16 * m + n))) (DecodeString s)
      | _ \<Rightarrow> Inl (Error Wrong_arguments))"

definition originPrivateKey :: string where
  "originPrivateKey = ''8ec47313c15c3a4443c41619735109b56bc818f4a6b71d6a1f186ec96d15f28f14117899305d99fb4775de9223ce9886cfaa3195da1e40c5db47c61266f04dd2''"

definition deterministicSeed :: string where "deterministicSeed = ''1234567890987654321''"
definition supplyForTesting :: "64 word" where "supplyForTesting = 1000000000000"
definition TokensFromFaucetDefault :: "64 word" where "TokensFromFaucetDefault = 1000000"
definition utxodbIdentity :: string where "utxodbIdentity = ''utxodb''"

definition NewUTXODB :: "('s, 'r, 't, 'i) environment \<Rightarrow> 32 word \<Rightarrow> ('s, 'r, 'i) UTXODB res" where
  "NewUTXODB W now =
     (let E = su_easyfl W; T = su_trie W in
      rbind (as_panic (DecodeString originPrivateKey)) (\<lambda>genesisPrivateKey.
      let genesisPubKey = sg_Public (su_signer W) genesisPrivateKey;
          genesisAddr = AddressED25519FromPublicKey E genesisPubKey in
      rbind (InitLedgerState T E (tm_NewStore T) (ascii utxodbIdentity) supplyForTesting genesisAddr now)
        (\<lambda>(root, stateStore).
      rbind (as_panic (NewUpdatable T stateStore root)) (\<lambda>stateObj.
      case InitIndexer E (su_kv W) genesisAddr (su_newKV W) of
        (Inl e, _) \<Rightarrow> Inl e
      | (Inr _, indexer) \<Rightarrow>
          Inr \<lparr>db_state = stateObj, db_indexer = indexer, db_root = root, db_supply = supplyForTesting,
            db_genesisPrivateKey = genesisPrivateKey, db_genesisPublicKey = genesisPubKey,
            db_genesisAddress = genesisAddr\<rparr>))))"

definition Supply :: "('s, 'r, 'i) UTXODB \<Rightarrow> 64 word" where
  "Supply u = db_supply u"

definition Root :: "('s, 'r, 'i) UTXODB \<Rightarrow> 'r" where
  "Root u = db_root u"

definition GenesisKeys :: "('s, 'r, 'i) UTXODB \<Rightarrow> bytes \<times> bytes" where
  "GenesisKeys u = (db_genesisPrivateKey u, db_genesisPublicKey u)"

definition GenesisAddress :: "('s, 'r, 'i) UTXODB \<Rightarrow> AddressED25519" where
  "GenesisAddress u = db_genesisAddress u"

definition StateReader :: "('s, 'r, 't, 'i) environment \<Rightarrow> ('s, 'r, 'i) UTXODB \<Rightarrow> (OutputID \<Rightarrow> bytes option) res" where
  \<comment> \<open>\<open>u.state.Readable()\<close>, seen through its \<open>GetUTXO\<close>\<close>
  "StateReader W u = rmap (GetUTXO (su_trie W)) (Updatable_Readable (su_trie W) (db_state u))"

definition AddTransaction :: "('s, 'r, 't, 'i) environment \<Rightarrow> bytes \<Rightarrow> (unit, ('s, 'r, 'i) UTXODB) op" where
  "AddTransaction W txb u =
     (case Update (su_trie W) (su_easyfl W) (su_registry W) txb (db_state u) of
        (Inl e, st) \<Rightarrow> (Inl e, u\<lparr>db_state := st\<rparr>)
      | (Inr indexerUpdate, st) \<Rightarrow>
          (case indexer_Update (su_kv W) indexerUpdate (db_indexer u) of
             (r, ind) \<Rightarrow> (r, u\<lparr>db_state := st, db_indexer := ind\<rparr>)))"

section \<open>Accounts\<close>

definition account_outputs :: "('s, 'r, 't, 'i) environment \<Rightarrow> Accountable \<Rightarrow> (Output \<Rightarrow> bool res) option \<Rightarrow> bool
    \<Rightarrow> ('s, 'r, 'i) UTXODB \<Rightarrow> OutputWithID list res" where
  \<comment> \<open>the query by account and the sorting of what it returns\<close>
  "account_outputs W addr f desc u =
     rbind (StateReader W u) (\<lambda>getUTXO.
     rbind (GetUTXOsLockedInAccount (su_easyfl W) (su_kv W) addr getUTXO (db_indexer u)) (\<lambda>outs.
     ParseAndSortOutputData (su_sort W) (su_easyfl W) (su_registry W) outs f desc))"

definition unlockable_by :: "('s, 'r, 't, 'i) environment \<Rightarrow> Accountable \<Rightarrow> 32 word \<Rightarrow> Output \<Rightarrow> bool res" where
  \<comment> \<open>\<open>o.Lock().UnlockableWith(addr.AccountID(), ts)\<close>\<close>
  "unlockable_by W addr ts o' =
     rbind (Output_Lock (su_easyfl W) (su_registry W) o') (\<lambda>lock.
     rbind (AccountID (su_easyfl W) addr) (\<lambda>acc. UnlockableWith (su_easyfl W) lock acc ts))"

definition sum_amounts :: "easyfl \<Rightarrow> OutputWithID list \<Rightarrow> 64 word res" where
  "sum_amounts E outs = rfold (\<lambda>ow balance. rmap ((+) balance) (Output_Amount E (ow_Output ow))) outs 0"

definition account :: "('s, 'r, 't, 'i) environment \<Rightarrow> Accountable \<Rightarrow> 32 word option \<Rightarrow> ('s, 'r, 'i) UTXODB
    \<Rightarrow> (64 word \<times> nat) res" where
  "account W addr ts u =
     rbind (as_panic (account_outputs W addr (map_option (unlockable_by W addr) ts) False u)) (\<lambda>outs.
     rbind (sum_amounts (su_easyfl W) outs) (\<lambda>balance. Inr (balance, length outs)))"

definition Balance :: "('s, 'r, 't, 'i) environment \<Rightarrow> Accountable \<Rightarrow> 32 word option \<Rightarrow> ('s, 'r, 'i) UTXODB \<Rightarrow> 64 word res" where
  "Balance W addr ts u = rmap fst (account W addr ts u)"

definition NumUTXOs :: "('s, 'r, 't, 'i) environment \<Rightarrow> Accountable \<Rightarrow> 32 word option \<Rightarrow> ('s, 'r, 'i) UTXODB \<Rightarrow> nat res" where
  "NumUTXOs W addr ts u = rmap snd (account W addr ts u)"

definition chain_account :: "('s, 'r, 't, 'i) environment \<Rightarrow> bytes \<Rightarrow> bool \<Rightarrow> ('s, 'r, 'i) UTXODB
    \<Rightarrow> (OutputWithChainID \<times> OutputWithID list) res" where
  \<comment> \<open>\<open>GetChainAccount(chainID, u.IndexerAccess(), u.state.Readable(), desc...)\<close>\<close>
  "chain_account W cid desc u =
     rbind (StateReader W u) (\<lambda>getUTXO.
     GetChainAccount (su_sort W) (su_easyfl W) (su_registry W) (su_kv W) cid getUTXO (db_indexer u) desc)"

definition BalanceOnChain :: "('s, 'r, 't, 'i) environment \<Rightarrow> bytes \<Rightarrow> ('s, 'r, 'i) UTXODB \<Rightarrow> (64 word \<times> 64 word) res" where
  "BalanceOnChain W cid u =
     rbind (chain_account W cid False u) (\<lambda>(outChain, outs).
     rbind (sum_amounts (su_easyfl W) outs) (\<lambda>amount.
     rbind (Output_Amount (su_easyfl W) (wc_Output outChain)) (\<lambda>onChain. Inr (amount, onChain))))"

section \<open>Transfers\<close>

definition makeTransferInputsED25519 :: "('s, 'r, 't, 'i) environment \<Rightarrow> bytes TransferData \<Rightarrow> bool \<Rightarrow> ('s, 'r, 'i) UTXODB
    \<Rightarrow> bytes TransferData res" where
  "makeTransferInputsED25519 W par desc u =
     rmap (\<lambda>outs. WithOutputs outs par)
       (account_outputs W (tf_SourceAccount par) (Some (unlockable_by W (tf_SourceAccount par) (tf_Timestamp par))) desc u)"

definition makeTransferDataChainLock :: "('s, 'r, 't, 'i) environment \<Rightarrow> bytes TransferData \<Rightarrow> ChainLock \<Rightarrow> bool
    \<Rightarrow> ('s, 'r, 'i) UTXODB \<Rightarrow> bytes TransferData res" where
  "makeTransferDataChainLock W par chainLock desc u =
     rmap (\<lambda>(outChain, outs). WithChainOutput (Some outChain) (WithOutputs outs par)) (chain_account W chainLock desc u)"

definition MakeTransferData :: "('s, 'r, 't, 'i) environment \<Rightarrow> 32 word \<Rightarrow> bytes \<Rightarrow> Accountable option \<Rightarrow> 32 word \<Rightarrow> bool
    \<Rightarrow> ('s, 'r, 'i) UTXODB \<Rightarrow> bytes TransferData res" where
  "MakeTransferData W now privKey sourceAccount ts desc u =
     (let par = NewTransferData (su_easyfl W) (su_signer W) privKey sourceAccount (if ts = 0 then now else ts) in
      case tf_SourceAccount par of
        Acc_AddressED25519 _ \<Rightarrow> makeTransferInputsED25519 W par desc u
      | Acc_ChainLock cl \<Rightarrow> makeTransferDataChainLock W par cl desc u)"

definition make_transfer :: "('s, 'r, 't, 'i) environment \<Rightarrow> 32 word \<Rightarrow> bytes TransferData \<Rightarrow> bytes res" where
  "make_transfer W now par = MakeTransferTransaction (su_easyfl W) (su_registry W) (su_signer W) now par"

definition TokensFromFaucet :: "('s, 'r, 't, 'i) environment \<Rightarrow> 32 word \<Rightarrow> AddressED25519 \<Rightarrow> 64 word option
    \<Rightarrow> (unit, ('s, 'r, 'i) UTXODB) op" where
  "TokensFromFaucet W now addr howMany u =
     (let amount = (case howMany of Some n \<Rightarrow> if n > 0 then n else TokensFromFaucetDefault
                    | None \<Rightarrow> TokensFromFaucetDefault) in
      sbind (call (account_outputs W (Acc_AddressED25519 (db_genesisAddress u)) None False u)) (\<lambda>outs.
      let par = WithOutputs outs (WithTargetLock (Lock_AddressED25519 addr) (TransferWithAmount amount True
                  (NewTransferData (su_easyfl W) (su_signer W) (db_genesisPrivateKey u) None now))) in
      sbind (call (make_transfer W now par)) (AddTransaction W)) u)"

definition GenerateAddress :: "('s, 'r, 't, 'i) environment \<Rightarrow> 16 word \<Rightarrow> bytes \<times> bytes \<times> AddressED25519" where
  "GenerateAddress W n =
     (let seed = Sum256 (su_easyfl W) (ascii deterministicSeed @ put_u16 n);
          priv = su_NewKeyFromSeed W seed;
          pub = sg_Public (su_signer W) priv in
      (priv, pub, AddressED25519FromPublicKey (su_easyfl W) pub))"

definition TransferTokens :: "('s, 'r, 't, 'i) environment \<Rightarrow> 32 word \<Rightarrow> bytes \<Rightarrow> Lock \<Rightarrow> 64 word
    \<Rightarrow> (unit, ('s, 'r, 'i) UTXODB) op" where
  "TransferTokens W now privKey targetLock amount u =
     sbind (call (MakeTransferData W now privKey None 0 False u)) (\<lambda>par.
     sbind (call (make_transfer W now (WithTargetLock targetLock (TransferWithAmount amount False par))))
       (AddTransaction W)) u"

definition DoTransferTx :: "('s, 'r, 't, 'i) environment \<Rightarrow> 32 word \<Rightarrow> bytes TransferData \<Rightarrow> (bytes, ('s, 'r, 'i) UTXODB) op" where
  "DoTransferTx W now par =
     sbind (call (make_transfer W now par)) (\<lambda>txb. sbind (AddTransaction W txb) (\<lambda>_. ret txb))"

definition DoTransferOutputs :: "('s, 'r, 't, 'i) environment \<Rightarrow> 32 word \<Rightarrow> bytes TransferData
    \<Rightarrow> (OutputDataWithID list, ('s, 'r, 'i) UTXODB) op" where
  "DoTransferOutputs W now par =
     sbind (call (MakeSimpleTransferTransactionOutputs (su_easyfl W) (su_signer W) now par)) (\<lambda>(txb, retOuts).
     sbind (AddTransaction W txb) (\<lambda>_. ret retOuts))"

definition DoTransfer :: "('s, 'r, 't, 'i) environment \<Rightarrow> 32 word \<Rightarrow> bytes TransferData \<Rightarrow> (unit, ('s, 'r, 'i) UTXODB) op" where
  "DoTransfer W now par = sbind (DoTransferTx W now par) (\<lambda>_. ret ())"

definition ValidationContextFromTransaction :: "('s, 'r, 't, 'i) environment \<Rightarrow> bytes \<Rightarrow> ('s, 'r, 'i) UTXODB
    \<Rightarrow> TransactionContext res" where
  "ValidationContextFromTransaction W txb u =
     rbind (StateReader W u) (\<lambda>getUTXO. TransactionContextFromTransferableBytes (su_easyfl W) getUTXO txb)"

section \<open>The books of the database\<close>

definition db_step :: "('s, 'r, 't, 'i) environment \<Rightarrow> bytes \<Rightarrow> ('s, 'r, 'i) UTXODB \<Rightarrow> ('s, 'r, 'i) UTXODB \<Rightarrow> bool" where
  "db_step W txb u u' \<longleftrightarrow> AddTransaction W txb u = (Inr (), u')"

definition env_laws :: "('s, 'r, 't, 'i) environment \<Rightarrow> bool" where
  "env_laws W \<longleftrightarrow> easyfl_laws (su_easyfl W) \<and> compile_laws (su_easyfl W)
     \<and> init_constraints (su_easyfl W) = Inr (su_registry W)
     \<and> trie_laws (su_trie W) \<and> kv_laws (su_kv W) \<and> kv_Get (su_kv W) (su_newKV W) = (\<lambda>_. [])
     \<and> sort_laws (su_sort W)"

definition db_utxos :: "('s, 'r, 't, 'i) environment \<Rightarrow> ('s, 'r, 'i) UTXODB \<Rightarrow> OutputID \<Rightarrow> bytes option" where
  "db_utxos W u = utxos (su_trie W) (db_state u)"

definition db_accounts :: "('s, 'r, 't, 'i) environment \<Rightarrow> ('s, 'r, 'i) UTXODB \<Rightarrow> (bytes \<times> OutputID) set" where
  "db_accounts W u = account_index (su_kv W) (db_indexer u)"

type_synonym ('s, 'r, 't, 'i) db_world = "('s, 'r, 't, 'i) environment \<times> ('s, 'r, 'i) UTXODB"

definition db_ok :: "('s, 'r, 't, 'i) db_world \<Rightarrow> bool" where
  "db_ok = (\<lambda>(W, u). env_laws W \<and> ledger_ok (su_trie W) (db_state u))"

definition db_world_step :: "bytes \<Rightarrow> ('s, 'r, 't, 'i) db_world \<Rightarrow> ('s, 'r, 't, 'i) db_world \<Rightarrow> bool" where
  "db_world_step txb = (\<lambda>(W, u) (W', u'). W' = W \<and> db_step W txb u u')"

lemma AddTransaction_parts:
  assumes "AddTransaction W txb u = (Inr (), u')"
  obtains cmds st ind where "Update (su_trie W) (su_easyfl W) (su_registry W) txb (db_state u) = (Inr cmds, st)"
    "indexer_Update (su_kv W) cmds (db_indexer u) = (Inr (), ind)"
    "u' = u\<lparr>db_state := st, db_indexer := ind\<rparr>"
  using assms by (auto simp: AddTransaction_def split: prod.splits sum.splits)

interpretation db: indexed_ledger db_ok "\<lambda>(W, u). db_utxos W u" "\<lambda>(W, u). amount_nat (su_easyfl W)"
    "\<lambda>(W, u). Sum256 (su_easyfl W)" tx_inputs db_world_step "\<lambda>(W, u). db_accounts W u"
    "\<lambda>(W, u). lock_accounts (su_easyfl W) (su_registry W)"
proof unfold_locales
  fix w w' :: "('a, 'b, 'c, 'd) db_world" and x
  obtain W u where w: "w = (W, u)" by (cases w)
  obtain W' u' where w': "w' = (W', u')" by (cases w')
  let ?E = "su_easyfl W"
  show "length ((case w of (W, u) \<Rightarrow> Sum256 (su_easyfl W)) x) = 32" if "db_ok w"
    using that by (simp add: w db_ok_def env_laws_def easyfl_laws_def crypto_laws_def)
  show "finite (dom (case w of (W, u) \<Rightarrow> db_utxos W u))" if "db_ok w"
    using that by (auto simp: w db_ok_def env_laws_def db_utxos_def intro: utxos_finite)
  assume step: "db_world_step x w w'"
  then have same: "W' = W" by (simp add: w w' db_world_step_def)
  show "(case w' of (W, u) \<Rightarrow> amount_nat (su_easyfl W)) = (case w of (W, u) \<Rightarrow> amount_nat (su_easyfl W))
      \<and> (case w' of (W, u) \<Rightarrow> Sum256 (su_easyfl W)) = (case w of (W, u) \<Rightarrow> Sum256 (su_easyfl W))"
    "(case w' of (W, u) \<Rightarrow> lock_accounts (su_easyfl W) (su_registry W))
      = (case w of (W, u) \<Rightarrow> lock_accounts (su_easyfl W) (su_registry W))"
    by (simp_all add: w w' same)
  assume ok: "db_ok w"
  then have laws: "trie_laws (su_trie W)" "easyfl_laws ?E" "kv_laws (su_kv W)"
    by (simp_all add: w db_ok_def env_laws_def)
  obtain cmds st ind where up: "Update (su_trie W) ?E (su_registry W) x (db_state u) = (Inr cmds, st)"
    "indexer_Update (su_kv W) cmds (db_indexer u) = (Inr (), ind)" "u' = u\<lparr>db_state := st, db_indexer := ind\<rparr>"
    using step AddTransaction_parts [of W x u u'] by (auto simp: w w' db_world_step_def db_step_def)
  have st: "ledger_ok (su_trie W) st"
    "moves (amount_nat ?E) (tx_inputs x) (Sum256 ?E x) (utxos (su_trie W) (db_state u)) (utxos (su_trie W) st)"
    using Update_applies [OF laws(1) up(1) laws(2)] by simp_all
  show "db_ok w'" using ok st(1) by (simp add: w w' same db_ok_def up(3))
  show "moves (case w of (W, u) \<Rightarrow> amount_nat (su_easyfl W)) (tx_inputs x)
      ((case w of (W, u) \<Rightarrow> Sum256 (su_easyfl W)) x)
      (case w of (W, u) \<Rightarrow> db_utxos W u) (case w' of (W, u) \<Rightarrow> db_utxos W u)"
    using st(2) by (simp add: w w' same db_utxos_def up(3))
  have re: "reindexes (lock_accounts ?E (su_registry W)) (tx_inputs x) (Sum256 ?E x) (utxos (su_trie W) (db_state u))
      (utxos (su_trie W) st) X (fold account_step cmds X)" and len: "\<forall>c \<in> set cmds. length (cmd_OutputID c) = 33" for X
    using update_reindexes [OF laws(1,2) up(1)] by (simp_all add: id_lengths)
  show "reindexes ((case w of (W, u) \<Rightarrow> lock_accounts (su_easyfl W) (su_registry W))) (tx_inputs x)
      ((case w of (W, u) \<Rightarrow> Sum256 (su_easyfl W)) x) (case w of (W, u) \<Rightarrow> db_utxos W u)
      (case w' of (W, u) \<Rightarrow> db_utxos W u) (case w of (W, u) \<Rightarrow> db_accounts W u) (case w' of (W, u) \<Rightarrow> db_accounts W u)"
    using re indexer_update_refines_parts(1) [OF laws(3) up(2) len]
    by (simp add: w w' same db_utxos_def db_accounts_def up(3))
qed

section \<open>From genesis\<close>

lemma account_of_genesis:
  assumes "kv_laws K" "kv_Get K s = (\<lambda>_. [])" "length acc \<le> 255"
    "kv_Commit K [([PartitionAccount, of_nat (length acc)] @ acc @ GenesisOutputID, [255])] s = (Inr (), s')"
  shows "account_index K s' = {(acc, GenesisOutputID)}"
proof -
  let ?k = "account_key acc GenesisOutputID"
  have "kv_Get K s' = (\<lambda>_. [])(?k := [255])"
    using assms(1,2,4) by (simp add: kv_laws_def account_key_def)
  moreover have "length GenesisOutputID = 33" by (simp add: GenesisOutputID_def id_lengths)
  ultimately show ?thesis
    using assms(3) by (auto simp: account_index_def accounts_of_def account_key_inject)
qed

lemma NewUTXODB_parts:
  assumes "NewUTXODB W now = Inr u"
  obtains genesisPrivateKey root store st ind where
    "InitLedgerState (su_trie W) (su_easyfl W) (tm_NewStore (su_trie W)) (ascii utxodbIdentity) supplyForTesting
       (Sum256 (su_easyfl W) (sg_Public (su_signer W) genesisPrivateKey)) now = Inr (root, store)"
    "NewUpdatable (su_trie W) store root = Inr st"
    "InitIndexer (su_easyfl W) (su_kv W) (Sum256 (su_easyfl W) (sg_Public (su_signer W) genesisPrivateKey)) (su_newKV W)
       = (Inr (), ind)"
    "db_state u = st" "db_indexer u = ind" "db_root u = root" "db_supply u = supplyForTesting"
proof -
  obtain key where key: "DecodeString originPrivateKey = Inr key" using assms by (auto simp: NewUTXODB_def Let_def)
  define a where "a = Sum256 (su_easyfl W) (sg_Public (su_signer W) key)"
  obtain r ind where ii: "InitIndexer (su_easyfl W) (su_kv W) a (su_newKV W) = (r, ind)" by fastforce
  obtain root store st where st:
    "InitLedgerState (su_trie W) (su_easyfl W) (tm_NewStore (su_trie W)) (ascii utxodbIdentity) supplyForTesting a now
       = Inr (root, store)" "NewUpdatable (su_trie W) store root = Inr st"
    using assms by (auto simp: NewUTXODB_def Let_def key AddressED25519FromPublicKey_def simp flip: a_def)
  have "(case r of Inl e \<Rightarrow> Inl e | Inr _ \<Rightarrow>
      Inr \<lparr>db_state = st, db_indexer = ind, db_root = root, db_supply = supplyForTesting,
        db_genesisPrivateKey = key, db_genesisPublicKey = sg_Public (su_signer W) key, db_genesisAddress = a\<rparr>) = Inr u"
    using assms st ii unfolding a_def by (simp add: NewUTXODB_def Let_def key AddressED25519FromPublicKey_def)
  then obtain x where r: "r = Inr x" by (cases r) simp_all
  then show ?thesis
    using that [OF st [unfolded a_def], of ind] ii [unfolded a_def]
      \<open>(case r of Inl e \<Rightarrow> Inl e | Inr _ \<Rightarrow> _) = Inr u\<close> by auto
qed

lemma genesis_books:
  assumes "env_laws W" "NewUTXODB W now = Inr u"
  shows "db_ok (W, u)"
    and "db_accounts W u = tagged (lock_accounts (su_easyfl W) (su_registry W)) (db_utxos W u)"
    and "\<exists>out. db_utxos W u = [GenesisOutputID \<mapsto> out] \<and> amount_nat (su_easyfl W) out = unat (db_supply u)"
proof -
  let ?E = "su_easyfl W" let ?T = "su_trie W" let ?K = "su_kv W"
  have laws: "easyfl_laws ?E" "compile_laws ?E" "trie_laws ?T" "kv_laws ?K" "kv_Get ?K (su_newKV W) = (\<lambda>_. [])"
    "su_registry W = registry_of ?E std_entries"
    using assms(1) init_constraints_std [of ?E] by (auto simp: env_laws_def)
  obtain key root store st ind where u:
    "InitLedgerState ?T ?E (tm_NewStore ?T) (ascii utxodbIdentity) supplyForTesting (Sum256 ?E (sg_Public (su_signer W) key)) now
       = Inr (root, store)"
    "NewUpdatable ?T store root = Inr st" "InitIndexer ?E ?K (Sum256 ?E (sg_Public (su_signer W) key)) (su_newKV W) = (Inr (), ind)"
    "db_state u = st" "db_indexer u = ind" "db_root u = root" "db_supply u = supplyForTesting"
    by (rule NewUTXODB_parts [OF assms(2)])
  define a where "a = Sum256 ?E (sg_Public (su_signer W) key)"
  have len: "length a = 32" using laws(1) by (simp add: a_def easyfl_laws_def crypto_laws_def)
  note gs = genesis_state [OF laws(1-3) len u(1,2) [folded a_def]]
  show "db_ok (W, u)" using gs(1) assms(1) u(4) by (simp add: db_ok_def)
  obtain out ca ct cl where out: "genesisOutput ?E supplyForTesting a now = Inr out"
    "amount_nat ?E out = unat supplyForTesting" "parseArray out 256 = Inr [ca, ct, cl]"
    "AddressED25519_Bytes ?E a = Inr cl" "length cl \<le> 255"
    using genesisOutput_ok [OF laws(1,2) len] by blast
  have ut: "db_utxos W u = [GenesisOutputID \<mapsto> out]"
    using gs(2) out(1) u(4) by (auto simp: db_utxos_def)
  then show "\<exists>out. db_utxos W u = [GenesisOutputID \<mapsto> out] \<and> amount_nat ?E out = unat (db_supply u)"
    using out(2) u(7) by auto
  obtain code where "AddressED25519_Bytes ?E a = Inr code"
    "LockFromBytes ?E (su_registry W) code = Inr (Lock_AddressED25519 a)"
    using lock_reads_back [OF laws(1,2), of "Lock_AddressED25519 a"] len laws(6) by (auto simp: laws(6))
  then have "output_lock ?E (su_registry W) out = Inr (Lock_AddressED25519 a)"
    using out(3,4) by (simp add: output_lock_def At_eq ConstraintIndexLock_def)
  then have accs: "lock_accounts ?E (su_registry W) out = {cl}"
    using out(4) by (simp add: lock_accounts_def)
  have "kv_Commit ?K [([PartitionAccount, of_nat (length cl)] @ cl @ GenesisOutputID, [255])] (su_newKV W) = (Inr (), ind)"
    using u(3) out(4) by (auto simp: InitIndexer_def simp flip: a_def split: prod.splits)
  then have "account_index ?K ind = {(cl, GenesisOutputID)}"
    by (rule account_of_genesis [OF laws(4,5) out(5)])
  then show "db_accounts W u = tagged (lock_accounts ?E (su_registry W)) (db_utxos W u)"
    using accs u(5) by (auto simp: db_accounts_def ut tagged_def)
qed

lemma run_db_world: "ledger_run (db_step W) u0 H u \<Longrightarrow> ledger_run db_world_step (W, u0) H (W, u)"
proof (induction rule: ledger_run.induct)
  case run_start
  then show ?case by (rule ledger_run.run_start)
next
  case (run_step H s x s')
  then show ?case by (auto intro!: ledger_run.run_step simp: db_world_step_def)
qed

lemma run_keeps_fields:
  "ledger_run (db_step W) u0 H u \<Longrightarrow> db_supply u = db_supply u0 \<and> db_root u = db_root u0"
  by (induction rule: ledger_run.induct) (auto simp: db_step_def elim!: AddTransaction_parts)

lemma books_of_run:
  assumes "env_laws W" "NewUTXODB W now = Inr u0" "ledger_run (db_step W) u0 H u"
    "inj_on (Sum256 (su_easyfl W)) (set H)" "replicate TransactionIDLength 0 \<notin> Sum256 (su_easyfl W) ` set H"
  shows "db_ok (W, u)" and "holdings (amount_nat (su_easyfl W)) (db_utxos W u) = unat (Supply u)"
    and "db_accounts W u = tagged (lock_accounts (su_easyfl W) (su_registry W)) (db_utxos W u)"
proof -
  note gen = genesis_books [OF assms(1,2)]
  obtain out where out: "db_utxos W u0 = [GenesisOutputID \<mapsto> out]"
    "amount_nat (su_easyfl W) out = unat (db_supply u0)"
    using gen(3) by blast
  have foreign: "\<forall>oid \<in> dom (db_utxos W u0). OutputID_TransactionID oid \<notin> Sum256 (su_easyfl W) ` set H"
    using genesis_foreign [of "su_trie W" "db_state u0" out "su_easyfl W" H] out(1) assms(5)
    by (simp add: db_utxos_def)
  note run = run_db_world [OF assms(3)]
  note acc = db.run_accounts [OF run gen(1)] db.run_index [OF run gen(1)]
  show "db_ok (W, u)" using acc(1) assms(4) foreign by simp
  show "holdings (amount_nat (su_easyfl W)) (db_utxos W u) = unat (Supply u)"
    using acc(1) assms(4) foreign out run_keeps_fields [OF assms(3)]
    by (simp add: holdings_def [of _ "[GenesisOutputID \<mapsto> out]"] Supply_def)
  show "db_accounts W u = tagged (lock_accounts (su_easyfl W) (su_registry W)) (db_utxos W u)"
    using acc(2) assms(4) foreign gen(2) by simp
qed

text \<open>
  C12 (books_are_right): after any history of accepted transactions, the amounts of all outputs in the
  ledger state of the database sum up to \<^verbatim>\<open>Supply()\<close>, and the index by account holds exactly the outputs in
  the state, each under every account that its lock names.
\<close>

theorem books_are_right:
  assumes "env_laws W" "NewUTXODB W now = Inr u0" "ledger_run (db_step W) u0 H u"
    "inj_on (Sum256 (su_easyfl W)) (set H)" "replicate TransactionIDLength 0 \<notin> Sum256 (su_easyfl W) ` set H"
  shows "holdings (amount_nat (su_easyfl W)) (db_utxos W u) = unat (Supply u)
    \<and> db_accounts W u = tagged (lock_accounts (su_easyfl W) (su_registry W)) (db_utxos W u)"
  using books_of_run(2,3) [OF assms] by blast

text \<open>
  \<^verbatim>\<open>Root()\<close> returns the root of the genesis state after any history, whatever
  the root of the ledger state has become: \<^verbatim>\<open>AddTransaction\<close> does not update the field.
\<close>

theorem root_is_never_updated:
  assumes "NewUTXODB W now = Inr u0" "ledger_run (db_step W) u0 H u"
  shows "Root u = up_root (db_state u0)"
proof -
  have "up_root (db_state u0) = Root u0"
    by (rule NewUTXODB_parts [OF assms(1)]) (auto simp: NewUpdatable_def Root_def)
  then show ?thesis using run_keeps_fields [OF assms(2)] by (simp add: Root_def)
qed

text \<open>
  A transaction that the ledger state rejects leaves the whole
  database as it was.
\<close>

theorem rejected_transaction_changes_nothing:
  assumes "store_reliable (su_trie W)"
    "fst (Update (su_trie W) (su_easyfl W) (su_registry W) txb (db_state u)) = Inl e"
  shows "AddTransaction W txb u = (Inl e, u)"
proof -
  obtain st where up: "Update (su_trie W) (su_easyfl W) (su_registry W) txb (db_state u) = (Inl e, st)"
    using assms(2) by (metis prod.collapse)
  then have "st = db_state u" by (rule failed_update_same [OF assms(1)])
  then show ?thesis using up by (simp add: AddTransaction_def)
qed

section \<open>Balances\<close>

lemma parsed_ids:
  assumes "rfold (parse_output E R f) outs acc = Inr res" "distinct (map ow_ID acc @ map od_ID outs)"
  shows "distinct (map ow_ID res)"
  using assms
proof (induction outs arbitrary: acc)
  case Nil
  then show ?case by simp
next
  case (Cons od outs)
  obtain acc' where step: "parse_output E R f od acc = Inr acc'" "rfold (parse_output E R f) outs acc' = Inr res"
    using Cons.prems(1) by auto
  then have "acc' = acc \<or> (\<exists>out. acc' = acc @ [\<lparr>ow_ID = od_ID od, ow_Output = out\<rparr>])"
    by (auto simp: parse_output_def split: if_splits)
  then have "distinct (map ow_ID acc' @ map od_ID outs)"
    using Cons.prems(2) by (fastforce simp: disjoint_iff)
  then show ?case by (rule Cons.IH [OF step(2)])
qed

lemma sorted_outputs_distinct:
  assumes "sort_laws srt" "ParseAndSortOutputData srt E R outs f desc = Inr res" "distinct (map od_ID outs)"
  shows "distinct (map ow_ID res)"
proof -
  obtain parsed where parsed: "rfold (parse_output E R f) outs [] = Inr parsed"
    "res = (if desc then srt (\<lambda>x y. amount_key E x > amount_key E y) parsed
            else srt (\<lambda>x y. amount_key E x < amount_key E y) parsed)"
    using assms(2) by (auto simp: ParseAndSortOutputData_def)
  have "mset res = mset parsed"
    using assms(1) parsed(2) unfolding sort_laws_def by (cases desc) simp_all
  then have "mset (map ow_ID res) = mset (map ow_ID parsed)" by simp
  moreover have "distinct (map ow_ID parsed)" by (rule parsed_ids [OF parsed(1)]) (use assms(3) in simp)
  ultimately show ?thesis using mset_eq_imp_distinct_iff by blast
qed

lemma account_outputs_exact:
  assumes "env_laws W" "AccountID (su_easyfl W) addr = Inr acc" "ledger_ok (su_trie W) (db_state u)"
    "account_outputs W addr f desc u = Inr res"
  shows "distinct (map ow_ID res)"
    and "ow \<in> set res \<longleftrightarrow> (\<exists>d. db_utxos W u (ow_ID ow) = Some d \<and> (acc, ow_ID ow) \<in> db_accounts W u
        \<and> OutputFromBytes (su_easyfl W) (su_registry W) d = Inr (ow_Output ow)
        \<and> (case f of None \<Rightarrow> True | Some g \<Rightarrow> g (ow_Output ow) = Inr True))"
    and "(acc, oid) \<in> db_accounts W u \<Longrightarrow> db_utxos W u oid = Some d \<Longrightarrow> is_ok (OutputFromBytes (su_easyfl W) (su_registry W) d)"
proof -
  have laws: "kv_laws (su_kv W)" "sort_laws (su_sort W)" using assms(1) by (simp_all add: env_laws_def)
  obtain rd where rd: "Updatable_Readable (su_trie W) (db_state u) = Inr rd"
    using assms(3) by (auto simp: ledger_ok_def is_ok_iff)
  let ?get = "GetUTXO (su_trie W) rd"
  obtain outs where outs: "GetUTXOsLockedInAccount (su_easyfl W) (su_kv W) addr ?get (db_indexer u) = Inr outs"
    "ParseAndSortOutputData (su_sort W) (su_easyfl W) (su_registry W) outs f desc = Inr res"
    using assms(4) by (auto simp: account_outputs_def StateReader_def rd)
  note look = account_lookup_exact_parts [OF laws(1) assms(2) outs(1)]
  show "distinct (map ow_ID res)" by (rule sorted_outputs_distinct [OF laws(2) outs(2) look(2)])
  have get: "db_utxos W u oid = ?get oid" if "(acc, oid) \<in> db_accounts W u" for oid
    using that by (auto simp: db_utxos_def utxos_def rd db_accounts_def account_index_def accounts_of_def id_lengths)
  show "ow \<in> set res \<longleftrightarrow> (\<exists>d. db_utxos W u (ow_ID ow) = Some d \<and> (acc, ow_ID ow) \<in> db_accounts W u
        \<and> OutputFromBytes (su_easyfl W) (su_registry W) d = Inr (ow_Output ow)
        \<and> (case f of None \<Rightarrow> True | Some g \<Rightarrow> g (ow_Output ow) = Inr True))"
    unfolding parse_and_sort_parts(2) [OF laws(2) outs(2)] look(1) using get by (fastforce simp: db_accounts_def)
  show "is_ok (OutputFromBytes (su_easyfl W) (su_registry W) d)"
    if "(acc, oid) \<in> db_accounts W u" "db_utxos W u oid = Some d"
  proof -
    have "\<lparr>od_ID = oid, od_OutputData = d\<rparr> \<in> set outs"
      unfolding look(1) using that get by (auto simp: db_accounts_def)
    then show ?thesis using parse_and_sort_parts(3) [OF laws(2) outs(2)] by fastforce
  qed
qed

lemma parsed_amount:
  assumes "OutputFromBytes E R d = Inr o'" "Output_Amount E o' = Inr a"
  shows "amount_nat E d = unat a"
proof -
  obtain xs where xs: "parseArray d 256 = Inr xs" "outp o' xs" "3 \<le> length xs" "is_ok (AmountFromBytes E (xs ! 0))"
    by (rule OutputFromBytes_outp [OF assms(1)])
  have "0 < length xs" using xs(3) by linarith
  then have "output_amount E d = AmountFromBytes E (xs ! 0)"
    using xs(1) by (simp add: output_amount_def At_eq ConstraintIndexAmount_def)
  then have "output_amount E d = Inr a"
    using outp_getters(1) [OF xs(2,3)] assms(2) xs(4) by (auto simp: is_ok_iff)
  then show ?thesis by (simp add: amount_nat_def)
qed

lemma sum_amounts_exact:
  assumes "rfold (\<lambda>ow balance. rmap ((+) balance) (Output_Amount E (ow_Output ow))) outs b0 = Inr b"
    "\<forall>ow \<in> set outs. \<exists>d. m (ow_ID ow) = Some d \<and> OutputFromBytes E R d = Inr (ow_Output ow)"
    "unat b0 + (\<Sum>ow\<leftarrow>outs. amount_nat E (the (m (ow_ID ow)))) < 2 ^ 64"
  shows "unat b = unat b0 + (\<Sum>ow\<leftarrow>outs. amount_nat E (the (m (ow_ID ow))))"
  using assms
proof (induction outs arbitrary: b0)
  case Nil
  then show ?case by simp
next
  case (Cons ow outs)
  obtain a where a: "Output_Amount E (ow_Output ow) = Inr a"
    "rfold (\<lambda>ow balance. rmap ((+) balance) (Output_Amount E (ow_Output ow))) outs (b0 + a) = Inr b"
    using Cons.prems(1) by auto
  obtain d where d: "m (ow_ID ow) = Some d" "OutputFromBytes E R d = Inr (ow_Output ow)"
    using Cons.prems(2) by auto
  have amt: "amount_nat E (the (m (ow_ID ow))) = unat a"
    using parsed_amount [OF d(2) a(1)] d(1) by simp
  then have "unat b0 + unat a < 2 ^ 64" using Cons.prems(3) by simp
  then have "unat (b0 + a) = unat b0 + unat a" by (simp add: unat_word_ariths)
  then show ?case using Cons.IH [OF a(2)] Cons.prems(2,3) amt by simp
qed

text \<open>
  C13 (balance_is_exact): after any history of accepted transactions, the balance and the number of outputs
  reported for an account are the sum of the amounts and the number of the outputs in the state whose
  lock names the account; the 64-bit sum does not wrap around.
\<close>

theorem balance_is_exact:
  assumes "env_laws W" "NewUTXODB W now = Inr u0" "ledger_run (db_step W) u0 H u"
    "inj_on (Sum256 (su_easyfl W)) (set H)" "replicate TransactionIDLength 0 \<notin> Sum256 (su_easyfl W) ` set H"
    "AccountID (su_easyfl W) addr = Inr acc" "account W addr None u = Inr (balance, n)"
  shows "unat balance = holdings (amount_nat (su_easyfl W))
      (db_utxos W u |` {oid. (acc, oid) \<in> tagged (lock_accounts (su_easyfl W) (su_registry W)) (db_utxos W u)})
    \<and> n = card {oid. (acc, oid) \<in> tagged (lock_accounts (su_easyfl W) (su_registry W)) (db_utxos W u)}"
proof -
  let ?E = "su_easyfl W" let ?m = "db_utxos W u"
  let ?amt = "\<lambda>oid. amount_nat ?E (the (?m oid))"
  note books = books_of_run [OF assms(1-5)]
  have ok: "ledger_ok (su_trie W) (db_state u)" using books(1) by (simp add: db_ok_def)
  obtain outs where outs: "account_outputs W addr None False u = Inr outs" "sum_amounts ?E outs = Inr balance"
    "n = length outs"
    using assms(7) by (auto simp: account_def)
  note ex = account_outputs_exact [OF assms(1,6) ok outs(1)]
  let ?S = "{oid. (acc, oid) \<in> tagged (lock_accounts ?E (su_registry W)) ?m}"
  have ids: "set (map ow_ID outs) = ?S"
  proof (intro set_eqI iffI)
    fix oid assume "oid \<in> set (map ow_ID outs)"
    then show "oid \<in> ?S" using ex(2) books(3) by auto
  next
    fix oid assume "oid \<in> ?S"
    then obtain d where d: "?m oid = Some d" "(acc, oid) \<in> db_accounts W u"
      unfolding books(3) by (auto simp: tagged_def)
    then obtain o' where "OutputFromBytes ?E (su_registry W) d = Inr o'"
      using ex(3) by (auto simp: is_ok_iff)
    then have "\<lparr>ow_ID = oid, ow_Output = o'\<rparr> \<in> set outs" using d ex(2) by simp
    then show "oid \<in> set (map ow_ID outs)" by (force intro: rev_image_eqI)
  qed
  have sub: "?S \<subseteq> dom ?m" by (auto simp: tagged_def)
  have fin: "finite (dom ?m)"
    using assms(1) by (auto simp: db_utxos_def env_laws_def intro: utxos_finite)
  have sum: "(\<Sum>ow\<leftarrow>outs. ?amt (ow_ID ow)) = (\<Sum>oid \<in> ?S. ?amt oid)"
    using sum_list_distinct_conv_sum_set [OF ex(1), of ?amt] ids by (simp add: comp_def)
  also have "\<dots> \<le> (\<Sum>oid \<in> dom ?m. ?amt oid)"
    by (rule sum_mono2 [OF fin sub]) simp
  also have "\<dots> = unat (Supply u)" using books(2) by (simp add: holdings_def)
  finally have "(\<Sum>ow\<leftarrow>outs. ?amt (ow_ID ow)) < 2 ^ 64"
    using unat_word_less [of "Supply u"] by simp
  moreover have "\<forall>ow \<in> set outs. \<exists>d. ?m (ow_ID ow) = Some d \<and> OutputFromBytes ?E (su_registry W) d = Inr (ow_Output ow)"
    using ex(2) by auto
  ultimately have "unat balance = (\<Sum>ow\<leftarrow>outs. ?amt (ow_ID ow))"
    using sum_amounts_exact [of ?E outs 0 balance ?m "su_registry W"] outs(2) by (simp add: sum_amounts_def)
  then have "unat balance = holdings (amount_nat ?E) (?m |` ?S)"
    unfolding sum holdings_def using sub by (auto simp: Int_absorb1 intro!: sum.cong)
  moreover have "n = card ?S"
    using distinct_card [OF ex(1)] ids outs(3) by simp
  ultimately show ?thesis by blast
qed

end
