(* ===== verification/TransferValid.thy ===== *)
theory TransferValid
  imports TxBuilder
begin

text \<open>
  The builder against the validator: a simple transfer made with \<^verbatim>\<open>MakeSimpleTransferTransactionOutputs\<close> from
  outputs of the sender's address passes \<^verbatim>\<open>Validate\<close>.
\<close>

section \<open>Outputs made of an amount, a time stamp and a lock\<close>

definition simple_lock :: "Lock \<Rightarrow> bool" where
  "simple_lock lk \<longleftrightarrow> (\<exists>a. length a = 32 \<and> (lk = Lock_AddressED25519 a \<or> lk = Lock_ChainLock a))"

definition basic_output :: "easyfl \<Rightarrow> 64 word \<Rightarrow> 32 word \<Rightarrow> Lock \<Rightarrow> Output \<Rightarrow> bytes \<Rightarrow> bool" where
  \<comment> \<open>the output and its bytes\<close>
  "basic_output E n ts lk o' d \<longleftrightarrow>
     (\<exists>ca ct cl. Amount_Bytes E n = Inr ca \<and> Timestamp_Bytes E ts = Inr ct \<and> Lock_Bytes E lk = Inr cl
        \<and> outp o' [ca, ct, cl] \<and> Output_Bytes o' = Inr d \<and> parseArray d 256 = Inr [ca, ct, cl])"

lemma loaded_bytes: "parseArray d mx = Inr xs \<Longrightarrow> array_bytes (arr_loaded (ArrayFromBytesMax d mx)) = Inr d"
proof -
  assume p: "parseArray d mx = Inr xs"
  then have "arr_loaded (ArrayFromBytesMax d mx) = \<lparr>arr_bytes = Some d, arr_parsed = Some xs, arr_max = mx\<rparr>"
    by (simp add: arr_loaded_def) (simp add: ArrayFromBytesMax_def)
  moreover have "d \<noteq> []" using p by (auto simp: parseArray_def)
  ultimately show ?thesis by (simp add: array_bytes_def Bytes_def ensureBytes_def nil_len_def sbind_def ret_def)
qed

lemma reread_basic:
  assumes "Amount_Bytes E n = Inr ca" "Timestamp_Bytes E ts = Inr ct" "Lock_Bytes E lk = Inr cl"
    "parseArray d 256 = Inr [ca, ct, cl]"
  shows "basic_output E n ts lk (arr_loaded (ArrayFromBytesMax d 256)) d"
  using assms loaded_bytes [OF assms(4)] by (auto simp: basic_output_def outp_def Output_Bytes_def array_bytes_def)

definition minTransferAmount :: nat where
  \<comment> \<open>no output of the three constraints is longer\<close>
  "minTransferAmount = 106"

definition maxBlockSize :: nat where
  \<comment> \<open>a bound for the elements of the arrays of a transaction: outputs, unlock blocks and input ids\<close>
  "maxBlockSize = 200"

lemma small_blocks: "n \<le> minTransferAmount \<Longrightarrow> n \<le> maxBlockSize"
  by (simp add: minTransferAmount_def maxBlockSize_def)

lemma simple_lock_compiles:
  assumes "compile_laws E" "simple_lock lk"
  obtains name a where "compiles_to E (Lock_Bytes E lk) name [L_hex a]" "length a = 32"
    "name = ''addressED25519'' \<and> lk = Lock_AddressED25519 a \<or> name = ''chainLock'' \<and> lk = Lock_ChainLock a"
proof -
  obtain a where a: "length a = 32" "lk = Lock_AddressED25519 a \<or> lk = Lock_ChainLock a"
    using assms(2) by (auto simp: simple_lock_def)
  then have "a \<noteq> []" "length a \<le> 127" by auto
  then show ?thesis
    using that a AddressED25519_compiles [OF assms(1), of a] ChainLock_compiles [OF assms(1), of a] by auto
qed

lemma wire_width: "w \<in> widths \<Longrightarrow> w \<le> 4"
  by (auto simp: widths_def)

lemma basic_output_exists:
  assumes "compile_laws E" "simple_lock lk"
  shows "\<exists>o' d. OutputBasic E n ts lk = Inr o' \<and> basic_output E n ts lk o' d \<and> length d \<le> minTransferAmount"
proof -
  obtain ca where ca: "Amount_Bytes E n = Inr ca" "length ca \<le> 24"
    using Amount_compiles [OF assms(1), of n] by (auto simp: compiles_to_def)
  obtain ct where ct: "Timestamp_Bytes E ts = Inr ct" "length ct \<le> 20"
    using Timestamp_compiles [OF assms(1), of ts] by (auto simp: compiles_to_def)
  obtain cl where cl: "Lock_Bytes E lk = Inr cl" "length cl \<le> 48"
    by (rule simple_lock_compiles [OF assms]) (auto simp: compiles_to_def)
  obtain o' where o': "OutputBasic E n ts lk = Inr o'" "outp o' [ca, ct, cl]"
    using OutputBasic_ok [OF ca(1) ct(1) cl(1)] by blast
  have "encodable [ca, ct, cl]"
    using ca(2) ct(2) cl(2) by (simp add: encodable_def maxArrayLen_eq MaxUint32_def)
  then obtain d where d: "Output_Bytes o' = Inr d" "parseArray d 256 = Inr [ca, ct, cl]"
    using outp_Bytes [OF o'(2)] by auto
  then obtain w where w: "wire_ok w [ca, ct, cl]" "d = wire w [ca, ct, cl]" by (auto elim: parseArray_Inr)
  then have "w \<in> widths" by (simp add: wire_ok_def)
  then have "length d \<le> 106"
    using length_wire [of w "[ca, ct, cl]"] wire_width [of w] w(2) ca(2) ct(2) cl(2) by simp
  then show ?thesis
    using o' d ca(1) ct(1) cl(1) by (auto simp: basic_output_def minTransferAmount_def)
qed

lemma basic_output_reads:
  assumes "easyfl_laws E" "compile_laws E" "simple_lock lk" "basic_output E n ts lk o' d"
  shows "Output_Amount E o' = Inr n" and "Output_Timestamp E o' = Inr ts"
    and "output_amount E d = Inr n" and "amount_nat E d = unat n"
    and "\<exists>cl. Lock_Bytes E lk = Inr cl \<and> fst (At 2 (ArrayFromBytesMax d 256)) = Inr cl
      \<and> LockFromBytes E (registry_of E std_entries) cl = Inr lk"
proof -
  obtain ca ct cl where b: "Amount_Bytes E n = Inr ca" "Timestamp_Bytes E ts = Inr ct" "Lock_Bytes E lk = Inr cl"
    "outp o' [ca, ct, cl]" "parseArray d 256 = Inr [ca, ct, cl]"
    using assms(4) by (auto simp: basic_output_def)
  have ra: "reads_as E ca ''amount'' [L_u64 n]" and rt: "reads_as E ct ''timestamp'' [L_u32 ts]"
    using Amount_compiles [OF assms(2), of n] Timestamp_compiles [OF assms(2), of ts] b(1,2)
    by (auto simp: compiles_to_def)
  have "lock_ok lk" using assms(3) by (auto simp: simple_lock_def)
  then obtain code where "Lock_Bytes E lk = Inr code" "LockFromBytes E (registry_of E std_entries) code = Inr lk"
    by (rule lock_reads_back [OF assms(1,2)])
  then show "\<exists>cl. Lock_Bytes E lk = Inr cl \<and> fst (At 2 (ArrayFromBytesMax d 256)) = Inr cl
      \<and> LockFromBytes E (registry_of E std_entries) cl = Inr lk"
    using b(3,5) by (simp add: At_eq)
  note reads = Amount_reads [OF assms(1) ra] Timestamp_reads [OF assms(1) rt]
  show "Output_Amount E o' = Inr n" "Output_Timestamp E o' = Inr ts"
    using outp_getters [OF b(4)] reads by simp_all
  show "output_amount E d = Inr n" "amount_nat E d = unat n"
    using b(5) reads by (simp_all add: amount_nat_def output_amount_def At_eq ConstraintIndexAmount_def)
qed

section \<open>The chosen inputs\<close>

text \<open>An output of the account that a transfer can draw on.\<close>

definition spendable :: "easyfl \<Rightarrow> (OutputID \<Rightarrow> bytes option) \<Rightarrow> Lock \<Rightarrow> OutputWithID \<Rightarrow> bool" where
  "spendable E getUTXO lk ow \<longleftrightarrow>
     length (ow_ID ow) = OutputIDLength
     \<and> (\<exists>n ts d. basic_output E n ts lk (ow_Output ow) d \<and> getUTXO (ow_ID ow) = Some d
          \<and> length d \<le> unat n \<and> ts < - 1)"

definition ow_amount :: "easyfl \<Rightarrow> OutputWithID \<Rightarrow> 64 word" where
  "ow_amount E ow = projr (Output_Amount E (ow_Output ow))"

definition ow_time :: "easyfl \<Rightarrow> OutputWithID \<Rightarrow> 32 word" where
  "ow_time E ow = projr (Output_Timestamp E (ow_Output ow))"

definition ows_total :: "easyfl \<Rightarrow> OutputWithID list \<Rightarrow> nat" where
  "ows_total E ows = (\<Sum>ow\<leftarrow>ows. unat (ow_amount E ow))"

lemma spendableE:
  assumes "easyfl_laws E" "compile_laws E" "simple_lock lk" "spendable E getUTXO lk ow"
  obtains d where "basic_output E (ow_amount E ow) (ow_time E ow) lk (ow_Output ow) d"
    "getUTXO (ow_ID ow) = Some d" "length d \<le> unat (ow_amount E ow)" "ow_time E ow < - 1"
    "Output_Amount E (ow_Output ow) = Inr (ow_amount E ow)" "Output_Timestamp E (ow_Output ow) = Inr (ow_time E ow)"
proof -
  obtain n ts d where b: "basic_output E n ts lk (ow_Output ow) d" "getUTXO (ow_ID ow) = Some d"
    "length d \<le> unat n" "ts < - 1"
    using assms(4) by (auto simp: spendable_def)
  note r = basic_output_reads(1,2) [OF assms(1-3) b(1)]
  then show ?thesis using that b by (simp add: ow_amount_def ow_time_def)
qed

lemma consume_simple_run:
  assumes "easyfl_laws E" "compile_laws E" "simple_lock lk" "\<forall>ow \<in> set ows. spendable E getUTXO lk ow"
    "n + length ows \<le> 256" "unat available + ows_total E ows < 2 ^ 64"
  shows "\<exists>k ts' available'. consume_simple E amount ows (n, available, ts, consumed) = Inr (available', ts', consumed @ take k ows)
    \<and> (ows \<noteq> [] \<longrightarrow> 0 < k) \<and> k \<le> length ows \<and> ts \<le> ts' \<and> (\<forall>ow \<in> set (take k ows). ow_time E ow < ts')
    \<and> unat available' = unat available + ows_total E (take k ows)
    \<and> (k = length ows \<or> amount \<le> available')"
  using assms(4-6)
proof (induction ows arbitrary: n available ts consumed)
  case Nil
  then show ?case by (simp add: ows_total_def)
next
  case (Cons ow ows)
  obtain d where ow: "Output_Amount E (ow_Output ow) = Inr (ow_amount E ow)"
    "Output_Timestamp E (ow_Output ow) = Inr (ow_time E ow)" "ow_time E ow < - 1"
    by (rule spendableE [OF assms(1-3), of getUTXO ow]) (use Cons.prems(1) in auto)
  define ts1 where "ts1 = (if ow_time E ow \<ge> ts then ow_time E ow + 1 else ts)"
  have up: "ow_time E ow < ow_time E ow + 1"
    using ow(3) by (simp add: word_less_nat_alt unat_word_ariths unsigned_minus_1_eq_mask mask_eq_exp_minus_1)
  have ts1: "ts \<le> ts1" "ow_time E ow < ts1"
    using up by (auto simp: ts1_def)
  define av1 where "av1 = available + ow_amount E ow"
  have av1: "unat av1 = unat available + unat (ow_amount E ow)"
    using Cons.prems(3) by (simp add: av1_def ows_total_def unat_word_ariths)
  have n: "n < 256" using Cons.prems(2) by simp
  have step: "consume_simple E amount (ow # ows) (n, available, ts, consumed) =
      (if amount \<le> av1 then Inr (av1, ts1, consumed @ [ow])
       else consume_simple E amount ows (n + 1, av1, ts1, consumed @ [ow]))"
    using n ow(1,2) by (simp add: ts1_def av1_def Let_def)
  show ?case
  proof (cases "amount \<le> av1")
    case True
    then show ?thesis
      using step ts1 av1
      by (intro exI [of _ "1 :: nat"] exI [of _ ts1] exI [of _ av1]) (simp add: ows_total_def del: consume_simple.simps)
  next
    case False
    have "\<exists>k ts' available'. consume_simple E amount ows (n + 1, av1, ts1, consumed @ [ow])
        = Inr (available', ts', (consumed @ [ow]) @ take k ows)
      \<and> (ows \<noteq> [] \<longrightarrow> 0 < k) \<and> k \<le> length ows \<and> ts1 \<le> ts' \<and> (\<forall>ow \<in> set (take k ows). ow_time E ow < ts')
      \<and> unat available' = unat av1 + ows_total E (take k ows) \<and> (k = length ows \<or> amount \<le> available')"
      using Cons.prems av1 by (intro Cons.IH) (auto simp: ows_total_def)
    then obtain k ts' av' where k: "consume_simple E amount ows (n + 1, av1, ts1, consumed @ [ow])
        = Inr (av', ts', (consumed @ [ow]) @ take k ows)" "k \<le> length ows" "ts1 \<le> ts'"
      "\<forall>ow \<in> set (take k ows). ow_time E ow < ts'" "unat av' = unat av1 + ows_total E (take k ows)"
      "k = length ows \<or> amount \<le> av'"
      by blast
    show ?thesis
      using step False k ts1 av1
      by (intro exI [of _ "Suc k"] exI [of _ ts'] exI [of _ av']) (auto simp: ows_total_def simp del: consume_simple.simps intro: order.trans less_le_trans)
  qed
qed

lemma consume_simple_ok:
  assumes "easyfl_laws E" "compile_laws E" "simple_lock lk" "\<forall>ow \<in> set ows. spendable E getUTXO lk ow"
    "n + length ows \<le> 256" "unat available + ows_total E ows < 2 ^ 64" "unat amount \<le> unat available + ows_total E ows"
    "ows \<noteq> []"
  shows "\<exists>k ts' available'. consume_simple E amount ows (n, available, ts, consumed) = Inr (available', ts', consumed @ take k ows)
    \<and> 0 < k \<and> k \<le> length ows \<and> ts \<le> ts' \<and> (\<forall>ow \<in> set (take k ows). ow_time E ow < ts')
    \<and> unat available' = unat available + ows_total E (take k ows) \<and> amount \<le> available'"
  using consume_simple_run [OF assms(1-6), of amount ts consumed] assms(7,8) by (fastforce simp: word_le_nat_alt)

section \<open>Arrays of serialised elements\<close>

lemma basic_output_size:
  assumes "compile_laws E" "simple_lock lk" "basic_output E n ts lk o' d"
  shows "length d \<le> minTransferAmount"
proof -
  obtain ca ct cl where b: "Amount_Bytes E n = Inr ca" "Timestamp_Bytes E ts = Inr ct" "Lock_Bytes E lk = Inr cl"
    "parseArray d 256 = Inr [ca, ct, cl]"
    using assms(3) by (auto simp: basic_output_def)
  have "length ca \<le> 24" "length ct \<le> 20"
    using Amount_compiles [OF assms(1), of n] Timestamp_compiles [OF assms(1), of ts] b(1,2)
    by (auto simp: compiles_to_def)
  moreover have "length cl \<le> 48"
    by (rule simple_lock_compiles [OF assms(1,2)]) (use b(3) in \<open>auto simp: compiles_to_def\<close>)
  moreover obtain w where w: "wire_ok w [ca, ct, cl]" "d = wire w [ca, ct, cl]" using b(4) by (auto elim: parseArray_Inr)
  moreover have "w \<in> widths" using w(1) by (simp add: wire_ok_def)
  ultimately show ?thesis
    using length_wire [of w "[ca, ct, cl]"] wire_width [of w] by (simp add: minTransferAmount_def)
qed

lemma array_bytes_ok:
  assumes "arr_inv a" "arr_view a = Inr ds" "length ds \<le> 256" "\<forall>d \<in> set ds. length d \<le> n" "n \<le> 100000"
  shows "\<exists>b. array_bytes a = Inr b \<and> parseArray b 256 = Inr ds \<and> length b \<le> 2 + length ds * (4 + n)"
proof -
  have "encodable ds" using assms(3-5) by (fastforce simp: encodable_def maxArrayLen_eq MaxUint32_def)
  then obtain b where b: "array_bytes a = Inr b"
    using Bytes_result [OF assms(1,2)] by (auto simp: array_bytes_def is_ok_iff)
  have p: "parseArray b 256 = Inr ds" by (rule array_bytes_Inr [OF assms(1,2) b assms(3)])
  then obtain w where w: "wire_ok w ds" "b = wire w ds" by (auto elim: parseArray_Inr)
  have "w \<in> widths" using w(1) by (simp add: wire_ok_def)
  have "(\<Sum>d\<leftarrow>ds. w + length d) \<le> (\<Sum>d\<leftarrow>ds. 4 + n)"
    using wire_width [OF \<open>w \<in> widths\<close>] assms(4) by (intro sum_list_mono) (meson add_mono)
  also have "\<dots> = length ds * (4 + n)" by (simp add: sum_list_triv)
  finally show ?thesis using b p length_wire [OF \<open>w \<in> widths\<close>, of ds] w(2) by auto
qed

definition pushed :: "bytes list \<Rightarrow> array" where
  "pushed ds = snd (op_all Push ds (EmptyArrayMax 256))"

lemma pushed_ok:
  assumes "length ds \<le> 256"
  shows "op_all Push ds (EmptyArrayMax 256) = (Inr (), pushed ds)" and "arr_inv (pushed ds)"
    and "arr_view (pushed ds) = Inr ds" and "outp (pushed ds) ds"
  using arr.push_all [of "EmptyArrayMax 256" "[]" ds] assms
  by (auto simp: pushed_def outp_def)

lemma sbind_call_Inr: "sbind (call (Inr x)) f = f x"
  by (simp add: sbind_def call_def fun_eq_iff)

lemma push_arrays_eq:
  assumes "list_all2 (\<lambda>a d. array_bytes a = Inr d) as ds"
  shows "push_arrays as s = op_all Push ds s"
  using assms unfolding push_arrays_def
proof (induction as ds arbitrary: s rule: list_all2_induct)
  case Nil
  then show ?case by simp
next
  case (Cons a as d ds)
  show ?case
    by (cases "Push d s"; cases "fst (Push d s)") (auto simp: Cons sbind_call_Inr)
qed

lemma exec_push_arrays:
  assumes "list_all2 (\<lambda>a d. array_bytes a = Inr d) as ds" "length ds \<le> 256"
  shows "exec (push_arrays as) (EmptyArrayMax 256) = Inr (pushed ds)"
  by (simp add: exec_def push_arrays_eq [OF assms(1)] pushed_ok(1) [OF assms(2)])

lemma exec_pushes: "length ds \<le> 256 \<Longrightarrow> exec (op_all Push ds) (EmptyArrayMax 256) = Inr (pushed ds)"
  by (simp add: exec_def pushed_ok(1))

lemma MakeArray_ok:
  assumes "length ds \<le> maxArrayLen"
  shows "\<exists>a. MakeArray ds = Inr a \<and> arr_inv a \<and> arr_view a = Inr ds"
  using MakeArrayFromData_ok [of ds] assms by (auto simp: MakeArray_def)

section \<open>The context of a transaction\<close>

lemma consume_inputs_run:
  assumes "map getUTXO ids = map Some outs" "distinct ids" "\<forall>oid \<in> set ids. length oid = 33"
    "set ids \<inter> seen = {}" "arr_inv a" "arr_view a = Inr xs" "arr_max a = 256" "length xs + length outs \<le> 256"
  shows "rfold (consume_input getUTXO) ids (seen, a) = Inr (seen \<union> set ids, snd (op_all Push outs a))"
  using assms
proof (induction ids arbitrary: seen a xs outs)
  case Nil
  then show ?case by (simp add: ret_def)
next
  case (Cons oid ids)
  obtain d outs' where o: "outs = d # outs'" "getUTXO oid = Some d" "map getUTXO ids = map Some outs'"
    using Cons.prems(1) by (cases outs) auto
  obtain b where b: "Push d a = (Inr (length xs), b)" "arr_inv b" "arr_view b = Inr (xs @ [d])" "arr_max b = 256"
    using arr.push_law [OF Cons.prems(5,6), of d] Cons.prems(7,8) o(1) by auto
  have "OutputIDFromBytes oid = Inr oid" using Cons.prems(3) by simp
  then have "consume_input getUTXO oid (seen, a) = Inr (insert oid seen, b)"
    using Cons.prems(4) o(2) b(1) by (simp add: consume_input_def)
  moreover have "rfold (consume_input getUTXO) ids (insert oid seen, b)
      = Inr (insert oid seen \<union> set ids, snd (op_all Push outs' b))"
    using Cons.prems o b by (intro Cons.IH [of outs' "insert oid seen" b "xs @ [d]"]) auto
  ultimately show ?case using b(1) o(1) by simp
qed

lemma context_builds:
  assumes "parseArray txb 8 = Inr parts" "1 < length parts" "parseArray (parts ! 1) 256 = Inr ids"
    "map getUTXO ids = map Some outs" "distinct ids" "\<forall>oid \<in> set ids. length oid = 33"
    "\<forall>d \<in> set outs. length d \<le> maxBlockSize"
  obtains v cb where "TransactionContextFromTransferableBytes E getUTXO txb = Inr v"
    "context_of v txb ids outs" "tc_txid v = Sum256 E txb"
    "array_bytes (pushed outs) = Inr cb" "tread (tc_tree v) PathToConsumedOutputs = Inr cb"
    "\<And>i. tread (tc_tree v) [TransactionBranch, i] = nth_res parts (unat i)"
proof -
  have len: "length ids \<le> 256" "length outs = length ids"
    using parseArray_length [OF assms(3)] arg_cong [OF assms(4), of length] by simp_all
  have view: "arr_view (ArrayFromBytesMax txb (unat TxTreeIndexMax)) = Inr parts"
    using assms(1) by (simp add: path_defs)
  have ids: "fst (Parsed (ArrayFromBytesMax (parts ! 1) 256)) = Inr ids"
    using assms(3) by (simp add: Parsed_def ensureParsed_eq)
  have run: "rfold (consume_input getUTXO) ids ({}, EmptyArrayMax 256) = Inr (set ids, pushed outs)"
    using consume_inputs_run [OF assms(4,5,6), of "{}" "EmptyArrayMax 256" "[]"] len by (simp add: pushed_def)
  obtain cb where cb: "array_bytes (pushed outs) = Inr cb" "length cb \<le> 60000"
    using array_bytes_ok [OF pushed_ok(2,3), of outs maxBlockSize] len assms(7) by (auto simp: maxBlockSize_def)
  obtain branch where branch: "MakeArray [cb] = Inr branch" "arr_inv branch" "arr_view branch = Inr [cb]"
    using MakeArray_ok [of "[cb]"] by (auto simp: maxArrayLen_eq)
  obtain bb where bb: "array_bytes branch = Inr bb"
    using array_bytes_ok [OF branch(2,3), of 60000] cb(2) by auto
  obtain ctx where ctx: "MakeArray [txb, bb] = Inr ctx" "arr_inv ctx" "arr_view ctx = Inr [txb, bb]"
    using MakeArray_ok [of "[txb, bb]"] by (auto simp: maxArrayLen_eq)
  let ?v = "\<lparr>tc_tree = AsTree ctx, tc_txid = Sum256 E txb\<rparr>"
  have v: "TransactionContextFromTransferableBytes E getUTXO txb = Inr ?v"
    using assms(1,2) ids run cb(1) branch(1) bb ctx(1)
    by (simp add: TransactionContextFromTransferableBytes_def At_eq path_defs)
  obtain ids' outs' where of: "context_of ?v txb ids' outs'" "map getUTXO ids' = map Some outs'"
    using context_from_bytes [OF v] by blast
  have inv: "tree_inv (AsTree ctx)" using ctx(2) by simp
  have node: "parse_node txb = Inr parts"
    using parseArray_max_mono [OF assms(1), of 256] by (simp add: parse_node_256)
  have parts: "tread (AsTree ctx) [TransactionBranch, i] = nth_res parts (unat i)" for i
    using ctx(3) by (simp add: reads_tree [OF inv] tree_at_def path_defs node)
  have "elems_at (AsTree ctx) PathToInputIDs = Inr ids"
    using ctx(3) node assms(2,3)
    by (simp add: reads_tree [OF inv] tree_elements_at_def path_defs parse_node_256)
  then have "ids' = ids" using of(1) by (simp add: context_of_def)
  moreover then have "outs' = outs" using of(2) assms(4) by (auto simp: inj_map_eq_map dest: sym)
  moreover have "tread (AsTree ctx) PathToConsumedOutputs = Inr cb"
    using ctx(3) array_bytes_Inr [OF branch(2,3) bb, of 256]
    by (simp add: reads_tree [OF inv] tree_at_def path_defs parse_node_256)
  ultimately show ?thesis using that [OF v] of(1) cb(1) parts by simp
qed

section \<open>What the builder puts together\<close>

lemma op_all_append: "op_all f (xs @ ys) s = sbind (op_all f xs) (\<lambda>_. op_all f ys) s"
proof (induction xs arbitrary: s)
  case Nil
  then show ?case by (simp add: sbind_def ret_def)
next
  case (Cons x xs)
  show ?case
    by (cases "f x s"; cases "fst (f x s)") (auto simp: sbind_def Cons split: prod.splits sum.splits)
qed

lemma consume_all_ok:
  assumes "builder_ok txb" "length (tb_ConsumedOutputs txb) + length ows \<le> 256"
  shows "\<exists>txb'. consume_all ows txb = (Inr (), txb') \<and> builder_ok txb'
    \<and> tb_ConsumedOutputs txb' = tb_ConsumedOutputs txb @ map ow_Output ows
    \<and> tb_Transaction txb' = (tb_Transaction txb)
        \<lparr>td_InputIDs := td_InputIDs (tb_Transaction txb) @ map ow_ID ows,
         td_UnlockBlocks := td_UnlockBlocks (tb_Transaction txb) @ replicate (length ows) NewUnlockBlock\<rparr>"
  using assms unfolding consume_all_def
proof (induction ows arbitrary: txb)
  case Nil
  then show ?case by (simp add: ret_def)
next
  case (Cons ow ows)
  obtain t1 where t1: "ConsumeOutput (ow_Output ow) (ow_ID ow) txb = (Inr (of_nat (length (tb_ConsumedOutputs txb))), t1)"
    "builder_ok t1" "tb_ConsumedOutputs t1 = tb_ConsumedOutputs txb @ [ow_Output ow]"
    "tb_Transaction t1 = (tb_Transaction txb)
        \<lparr>td_InputIDs := td_InputIDs (tb_Transaction txb) @ [ow_ID ow],
         td_UnlockBlocks := td_UnlockBlocks (tb_Transaction txb) @ [NewUnlockBlock]\<rparr>"
    using ConsumeOutput_ok [OF Cons.prems(1), of "ow_Output ow" "ow_ID ow"] Cons.prems(2) by auto
  show ?case
    using Cons.IH [OF t1(2)] Cons.prems(2) t1 by auto
qed

lemma produce_all_ok:
  assumes "builder_ok txb" "tb_NumOutputs txb + length outs \<le> 256"
  shows "\<exists>txb'. produce_all outs txb = (Inr (), txb') \<and> builder_ok txb'
    \<and> tb_ConsumedOutputs txb' = tb_ConsumedOutputs txb
    \<and> tb_Transaction txb' = (tb_Transaction txb)\<lparr>td_Outputs := td_Outputs (tb_Transaction txb) @ outs\<rparr>"
  using assms unfolding produce_all_def
proof (induction outs arbitrary: txb)
  case Nil
  then show ?case by (simp add: ret_def)
next
  case (Cons out outs)
  obtain t1 where t1: "ProduceOutput out txb = (Inr (of_nat (tb_NumOutputs txb)), t1)" "builder_ok t1"
    "tb_ConsumedOutputs t1 = tb_ConsumedOutputs txb"
    "tb_Transaction t1 = (tb_Transaction txb)\<lparr>td_Outputs := td_Outputs (tb_Transaction txb) @ [out]\<rparr>"
    using ProduceOutput_ok [OF Cons.prems(1), of out] Cons.prems(2) by auto
  then have "tb_NumOutputs t1 + length outs \<le> 256" using Cons.prems(2) by (simp add: tb_NumOutputs_def)
  then show ?case using Cons.IH [OF t1(2)] t1 by auto
qed

text \<open>Input 0 is unlocked by the signature, every other one by a reference to input 0.\<close>

definition unlock_mark :: "nat \<Rightarrow> bytes" where
  "unlock_mark i = (if i = 0 then [255] else [0])"

lemma unlock_step:
  assumes "builder_ok txb" "i < length (tb_ConsumedOutputs txb)" "outp (unlock_block txb i) []"
  shows "\<exists>txb'. (if i = 0 then PutSignatureUnlock 0 (of_nat ConstraintIndexLock)
                 else (\<lambda>txb. case PutUnlockReference (of_nat i) (of_nat ConstraintIndexLock) 0 txb of
                         (r, txb') \<Rightarrow> (as_panic r, txb'))) txb = (Inr (), txb') \<and> builder_ok txb'
    \<and> tb_ConsumedOutputs txb' = tb_ConsumedOutputs txb
    \<and> outp (unlock_block txb' i) [[], [], unlock_mark i]
    \<and> (\<exists>b. tb_Transaction txb' = (tb_Transaction txb)
          \<lparr>td_UnlockBlocks := (td_UnlockBlocks (tb_Transaction txb))[i := b]\<rparr>)"
proof -
  have "length (tb_ConsumedOutputs txb) \<le> 256" using assms(1) by (simp add: builder_ok_def)
  then have i: "unat (of_nat i :: byte) = i" using assms(2) by simp
  have pos: "\<not> (of_nat i :: byte) \<le> 0" if "i \<noteq> 0"
    using that i by (metis unat_0 word_le_0_iff)
  have grow: "put_grow 2 d [] = [[], [], d]" for d
    by (simp add: put_grow_def numeral_2_eq_2)
  show ?thesis
    using PutUnlockParams_ok [OF assms(1), of "of_nat i" "[]" 2 "unlock_mark i"] assms(2,3) i pos
    by (auto simp: PutSignatureUnlock_def PutUnlockReference_def ConstraintIndexLock_def unlock_mark_def grow)
qed

lemma unlock_simple_ok:
  assumes "builder_ok txb" "length (tb_ConsumedOutputs txb) = k" "\<forall>i < k. outp (unlock_block txb i) []" "m \<le> k"
  shows "\<exists>txb' blocks. unlock_simple m txb = (Inr (), txb') \<and> builder_ok txb'
    \<and> tb_ConsumedOutputs txb' = tb_ConsumedOutputs txb
    \<and> tb_Transaction txb' = (tb_Transaction txb)\<lparr>td_UnlockBlocks := blocks\<rparr>
    \<and> (\<forall>i < k. outp (blocks ! i) (if i < m then [[], [], unlock_mark i] else []))"
  using assms(4)
proof (induction m)
  case 0
  then show ?case
    using assms by (intro exI [of _ txb] exI [of _ "td_UnlockBlocks (tb_Transaction txb)"])
      (simp add: unlock_simple_def ret_def unlock_block_def)
next
  case (Suc m)
  then obtain t1 blocks where t1: "unlock_simple m txb = (Inr (), t1)" "builder_ok t1"
    "tb_ConsumedOutputs t1 = tb_ConsumedOutputs txb"
    "tb_Transaction t1 = (tb_Transaction txb)\<lparr>td_UnlockBlocks := blocks\<rparr>"
    "\<forall>i < k. outp (blocks ! i) (if i < m then [[], [], unlock_mark i] else [])"
    by auto
  have m: "m < length (tb_ConsumedOutputs t1)" using Suc.prems t1(3) assms(2) by simp
  have "outp (unlock_block t1 m) []"
    using t1(4) t1(5) [rule_format, of m] Suc.prems by (simp add: unlock_block_def)
  from unlock_step [OF t1(2) m this] obtain t2 b where t2:
    "(if m = 0 then PutSignatureUnlock 0 (of_nat ConstraintIndexLock)
                 else (\<lambda>txb. case PutUnlockReference (of_nat m) (of_nat ConstraintIndexLock) 0 txb of
                         (r, txb') \<Rightarrow> (as_panic r, txb'))) t1 = (Inr (), t2)" "builder_ok t2"
    "tb_ConsumedOutputs t2 = tb_ConsumedOutputs t1" "outp (unlock_block t2 m) [[], [], unlock_mark m]"
    "tb_Transaction t2 = (tb_Transaction t1)\<lparr>td_UnlockBlocks := (td_UnlockBlocks (tb_Transaction t1))[m := b]\<rparr>"
    by blast
  have len: "length blocks = k"
    using t1(2,3,4) assms(2) by (simp add: builder_ok_def)
  have "unlock_simple (Suc m) txb = (Inr (), t2)"
    using t1(1) t2(1) unfolding unlock_simple_def upt_Suc_append [OF le0] op_all_append
    by (simp add: sbind_def ret_def)
  moreover have "outp (blocks[m := b] ! i) (if i < Suc m then [[], [], unlock_mark i] else [])" if "i < k" for i
    using that t1(4,5) t2(4,5) len Suc.prems by (cases "i = m") (auto simp: unlock_block_def less_Suc_eq)
  ultimately show ?case
    using t1(3,4) t2(2,3,5) by (intro exI [of _ t2] exI [of _ "blocks[m := b]"]) simp
qed

section \<open>The finished transaction\<close>

definition signer_laws :: "easyfl \<Rightarrow> 'k signer \<Rightarrow> bool" where
  \<comment> \<open>ED25519: a signature has 64 bytes and verifies under the public key of its private key, which has 32\<close>
  "signer_laws E S \<longleftrightarrow>
     (\<forall>k m. length (sg_Sign S k m) = 64 \<and> length (sg_Public S k) = 32
        \<and> VerifyED25519 E (sg_Public S k) m (sg_Sign S k m))"

lemma finish_tx_ok:
  assumes "easyfl_laws E" "signer_laws E S"
    "list_all2 (\<lambda>a d. array_bytes a = Inr d) (tb_ConsumedOutputs txb) ins" "length ins \<le> 256"
    "list_all2 (\<lambda>a d. array_bytes a = Inr d) (td_Outputs (tb_Transaction txb)) outs" "length outs \<le> 256"
    "list_all2 (\<lambda>a d. array_bytes a = Inr d) (td_UnlockBlocks (tb_Transaction txb)) unlocks" "length unlocks \<le> 256"
    "length (td_InputIDs (tb_Transaction txb)) \<le> 256" "td_Endorsements (tb_Transaction txb) = []"
    "td_LocalLibraries (tb_Transaction txb) = []"
    "\<forall>d \<in> set ins \<union> set outs \<union> set unlocks \<union> set (td_InputIDs (tb_Transaction txb)). length d \<le> maxBlockSize"
  shows "\<exists>b ub idb ob cb eb lb. finish_tx E S par ts txb =
      Inr (b, map (\<lambda>(i, d). \<lparr>od_ID = NewOutputID (Sum256 E b) (of_nat i), od_OutputData = d\<rparr>) (enumerate 0 outs))
    \<and> parseArray b 8 = Inr [ub, idb, ob, sg_Sign S (tf_SenderPrivateKey par) (idb @ ob @ Sum256 E cb)
        @ sg_Public S (tf_SenderPrivateKey par), put_u32 ts, Sum256 E cb, eb, lb]
    \<and> parseArray ub 256 = Inr unlocks \<and> parseArray idb 256 = Inr (td_InputIDs (tb_Transaction txb))
    \<and> parseArray ob 256 = Inr outs \<and> array_bytes (pushed ins) = Inr cb"
proof -
  let ?tx = "tb_Transaction txb"
  let ?ids = "td_InputIDs ?tx"
  have bytes: "\<exists>b. array_bytes (pushed ds) = Inr b \<and> parseArray b 256 = Inr ds \<and> length b \<le> 60000"
    if "length ds \<le> 256" "\<forall>d \<in> set ds. length d \<le> maxBlockSize" for ds
    using array_bytes_ok [OF pushed_ok(2,3), of ds maxBlockSize] that by (auto simp: maxBlockSize_def)
  obtain cb where cb: "array_bytes (pushed ins) = Inr cb" using bytes [of ins] assms(4,12) by auto
  obtain ub where ub: "array_bytes (pushed unlocks) = Inr ub" "parseArray ub 256 = Inr unlocks" "length ub \<le> 60000"
    using bytes [of unlocks] assms(8,12) by auto
  obtain idb where idb: "array_bytes (pushed ?ids) = Inr idb" "parseArray idb 256 = Inr ?ids" "length idb \<le> 60000"
    using bytes [of ?ids] assms(9,12) by auto
  obtain ob where ob: "array_bytes (pushed outs) = Inr ob" "parseArray ob 256 = Inr outs" "length ob \<le> 60000"
    using bytes [of outs] assms(6,12) by auto
  obtain eb where eb: "array_bytes (pushed []) = Inr eb" "length eb \<le> 60000" using bytes [of "[]"] by auto
  obtain la where la: "MakeArray [] = Inr la" "arr_inv la" "arr_view la = Inr []"
    using MakeArray_ok [of "[]"] by auto
  obtain lb where lb: "MakeArray [] = Inr la" "array_bytes la = Inr lb" "length lb \<le> 60000"
    using array_bytes_ok [OF la(2,3), of 10] la(1) by auto
  let ?parts = "\<lambda>sig com. [ub, idb, ob, sig, put_u32 ts, com, eb, lb]"
  have arr: "tx_ToArray (?tx\<lparr>td_Timestamp := ts, td_InputCommitment := com, td_Signature := sig\<rparr>)
      = MakeArray (?parts sig com)" for sig com
    using exec_push_arrays [OF assms(7,8)] exec_push_arrays [OF assms(5,6)] exec_pushes [OF assms(9)]
      exec_pushes [of "[]"] assms(10,11) ub(1) idb(1) ob(1) eb(1) lb(1,2)
    by (simp add: tx_ToArray_def)
  have mk: "\<exists>a. MakeArray (?parts sig com) = Inr a \<and> arr_inv a \<and> arr_view a = Inr (?parts sig com)" for sig com
    by (rule MakeArray_ok) (simp add: maxArrayLen_eq)
  have com: "tb_InputCommitment E (txb\<lparr>tb_Transaction := ?tx\<lparr>td_Timestamp := ts\<rparr>\<rparr>) = Inr (Sum256 E cb)"
    using exec_push_arrays [OF assms(3,4)] cb by (simp add: tb_InputCommitment_def)
  have same: "?tx\<lparr>td_Timestamp := ts, td_InputCommitment := Sum256 E cb\<rparr>
      = ?tx\<lparr>td_Timestamp := ts, td_InputCommitment := Sum256 E cb, td_Signature := td_Signature ?tx\<rparr>"
    by simp
  have ess: "tx_EssenceBytes (?tx\<lparr>td_Timestamp := ts, td_InputCommitment := Sum256 E cb\<rparr>)
      = Inr (idb @ ob @ Sum256 E cb)"
  proof -
    have "tx_ToArray (?tx\<lparr>td_Timestamp := ts, td_InputCommitment := Sum256 E cb\<rparr>)
        = MakeArray (?parts (td_Signature ?tx) (Sum256 E cb))"
      using arr [of "td_Signature ?tx" "Sum256 E cb"] by (simp only: same [symmetric])
    then show ?thesis
      using mk [of "td_Signature ?tx" "Sum256 E cb"] by (auto simp: tx_EssenceBytes_def At_eq path_defs)
  qed
  let ?sig = "sg_Sign S (tf_SenderPrivateKey par) (idb @ ob @ Sum256 E cb) @ sg_Public S (tf_SenderPrivateKey par)"
  obtain a where a: "MakeArray (?parts ?sig (Sum256 E cb)) = Inr a" "arr_inv a" "arr_view a = Inr (?parts ?sig (Sum256 E cb))"
    using mk by blast
  have "length ?sig \<le> 100000" "length (Sum256 E cb) \<le> 100000"
    using assms(1,2) by (simp_all add: signer_laws_def easyfl_laws_def crypto_laws_def)
  then obtain b where b: "array_bytes a = Inr b"
    using array_bytes_ok [OF a(2,3), of 100000] ub(3) idb(3) ob(3) eb(2) lb(3) by auto
  have p: "parseArray b 8 = Inr (?parts ?sig (Sum256 E cb))" by (rule array_bytes_Inr [OF a(2,3) b]) simp
  have sign: "exec (SignED25519 S (tf_SenderPrivateKey par))
        (txb\<lparr>tb_Transaction := ?tx\<lparr>td_Timestamp := ts, td_InputCommitment := Sum256 E cb\<rparr>\<rparr>)
      = Inr (txb\<lparr>tb_Transaction := ?tx\<lparr>td_Timestamp := ts, td_InputCommitment := Sum256 E cb, td_Signature := ?sig\<rparr>\<rparr>)"
    using ess by (simp add: SignED25519_def exec_def)
  have outb: "rmapM (\<lambda>(i, o'). rmap (\<lambda>b. \<lparr>od_ID = NewOutputID h (of_nat i), od_OutputData = b\<rparr>) (Output_Bytes o'))
      (enumerate n os) = Inr (map (\<lambda>(i, d). \<lparr>od_ID = NewOutputID h (of_nat i), od_OutputData = d\<rparr>) (enumerate n ds))"
    if "list_all2 (\<lambda>a d. array_bytes a = Inr d) os ds" for h n os ds
    using that
    by (induction os ds arbitrary: n rule: list_all2_induct) (simp_all add: Output_Bytes_def array_bytes_def)
  show ?thesis
    using com sign a(1) b p ub(2) idb(2) ob(2) cb outb [OF assms(5)]
    by (simp add: finish_tx_def tx_Bytes_def arr Let_def)
qed

section \<open>Blocks that pass\<close>

lemma literal_block_passes:
  assumes "runs_library E" "compiles_to E r name [l]" "r = Inr code" "\<forall>bs. l \<noteq> L_code bs"
    "name \<in> set constraint_symbols"
    "holds (fl_call E (ctx_at (tc_tree v) (p @ [of_nat j])) name [Inr (lit_data l)])"
  shows "block_passes E v p j code"
proof -
  let ?c = "ctx_at (tc_tree v) (p @ [of_nat j])"
  have code: "reads_as E code name [l]" "code \<noteq> []" "hd code \<noteq> 0"
    using assms(2,3) by (auto simp: compiles_to_def)
  then obtain arg where arg: "ParseBytecodeOneLevel E code None = Inr (name, PrefixOf E name, [arg])" "arg_is E l arg"
    by (auto simp: reads_as_def list_all2_Cons1)
  have "StripDataPrefix E arg = lit_data l \<and> length (lit_data l) < length arg"
    using arg(2) assms(4) by (cases l) auto
  then have "EvalFromBinary E ?c arg [] = Inr (lit_data l)"
    using inline_data [OF assms(1), of arg] by simp
  then have "tv (EvalFromBinary E ?c code []) = Some True"
    using assms(1,5,6) arg(1) by (simp add: runs_library_def holds_def)
  then have "holds (EvalFromBinary E ?c code [])" by (simp add: holds_def)
  then show ?thesis
    using code(2,3) by (auto simp: block_passes_def evalConstraint_def context_at holds_iff)
qed

lemma runOutput_ok:
  assumes "parseArray data 256 = Inr blocks" "\<And>j. j < length blocks \<Longrightarrow> block_passes E v p j (blocks ! j)"
    "c \<or> distinct blocks"
  shows "is_ok (runOutput E v c (ArrayFromBytesMax data 256) p)"
  unfolding runOutput_iff using assms by blast

lemma all_less_three: "(\<forall>j < length [a, b, c]. P j) \<longleftrightarrow> P 0 \<and> P (Suc 0) \<and> P 2"
  by (auto simp: less_Suc_eq numeral_2_eq_2)

lemma reads_as_name: "reads_as E code n l \<Longrightarrow> reads_as E code n' l' \<Longrightarrow> n = n'"
  by (auto simp: reads_as_def)

lemma simple_entries_ok:
  assumes "easyfl_laws E" "compile_laws E" "init_constraints E = Inr R" "simple_lock lk" "basic_output E n ts lk o' d"
    "c \<Longrightarrow> is_ok (InputID v idx)"
  shows "is_ok (createIndexEntries E R v idx (ArrayFromBytesMax d 256) c [])"
proof -
  obtain ca ct cl where b: "Lock_Bytes E lk = Inr cl" "parseArray d 256 = Inr [ca, ct, cl]"
    using assms(5) by (auto simp: basic_output_def)
  have "R = registry_of E std_entries" using init_constraints_std [OF assms(1,2)] assms(3) by simp
  then have lock: "LockFromBytes E R cl = Inr lk"
    using basic_output_reads(5) [OF assms(1,2,4,5)] b(1) by auto
  obtain tag where tag: "IndexableTags lk = [tag]" "AccountID E tag = Inr cl"
    using assms(4) b(1) by (auto simp: simple_lock_def)
  obtain oid where oid: "(if c then InputID v idx else Inr (NewOutputID (tc_txid v) idx)) = Inr oid"
    using assms(6) by (cases c) (auto simp: is_ok_iff)
  have "is_ok (indexLock E R v idx (ArrayFromBytesMax d 256) c [])"
    by (simp add: indexLock_def At_eq b(2) ConstraintIndex_defs lock tag oid)
  moreover have "indexChainID E v idx (ArrayFromBytesMax d 256) c r = Inr r" for r
    by (simp add: indexChainID_def Parsed_def ensureParsed_eq b(2) ConstraintIndex_defs)
  ultimately show ?thesis by (auto simp: createIndexEntries_def is_ok_iff)
qed

text \<open>When the output of a transfer is accepted, in terms of the scripts of its three constraints.\<close>

lemma basic_output_accepted:
  assumes "easyfl_laws E" "compile_laws E" "runs_library E" "init_constraints E = Inr R" "simple_lock lk"
    "basic_output E n ts lk o' d" "length d \<le> unat n"
    "holds (fl_amount E (ctx_at (tc_tree v) (branch_path c @ [of_nat i, 0])) (Inr (put_u64 n)))"
    "holds (fl_timestamp E (ctx_at (tc_tree v) (branch_path c @ [of_nat i, 1])) (Inr (put_u32 ts)))"
    "\<And>a. lk = Lock_AddressED25519 a \<Longrightarrow>
       holds (fl_addressED25519 E (ctx_at (tc_tree v) (branch_path c @ [of_nat i, 2])) (Inr a))"
    "\<And>a. lk = Lock_ChainLock a \<Longrightarrow> holds (fl_chainLock E (ctx_at (tc_tree v) (branch_path c @ [of_nat i, 2])) (Inr a))"
    "c \<Longrightarrow> is_ok (InputID v (of_nat i))"
  shows "output_accepted E R v c i d"
proof -
  obtain ca ct cl where b: "Amount_Bytes E n = Inr ca" "Timestamp_Bytes E ts = Inr ct" "Lock_Bytes E lk = Inr cl"
    "parseArray d 256 = Inr [ca, ct, cl]"
    using assms(6) by (auto simp: basic_output_def)
  obtain name a where lock: "compiles_to E (Lock_Bytes E lk) name [L_hex a]"
    "name = ''addressED25519'' \<and> lk = Lock_AddressED25519 a \<or> name = ''chainLock'' \<and> lk = Lock_ChainLock a"
    by (rule simple_lock_compiles [OF assms(2,5)])
  let ?p = "branch_path c @ [of_nat i]"
  have syms: "''amount'' \<in> set constraint_symbols" "''timestamp'' \<in> set constraint_symbols"
    "''addressED25519'' \<in> set constraint_symbols" "''chainLock'' \<in> set constraint_symbols"
    by (simp_all add: constraint_symbols_def constraint_arity_def)
  have blocks: "block_passes E v ?p 0 ca" "block_passes E v ?p (Suc 0) ct" "block_passes E v ?p 2 cl"
  proof -
    show "block_passes E v ?p 0 ca"
    by (rule literal_block_passes [OF assms(3) Amount_compiles [OF assms(2)] b(1) _ syms(1)])
      (use assms(8) in \<open>simp_all add: fl_call_def\<close>)
    show "block_passes E v ?p (Suc 0) ct"
    by (rule literal_block_passes [OF assms(3) Timestamp_compiles [OF assms(2)] b(2) _ syms(2)])
      (use assms(9) in \<open>simp_all add: fl_call_def\<close>)
    show "block_passes E v ?p 2 cl"
    proof (rule literal_block_passes [OF assms(3) lock(1) b(3)])
      show "name \<in> set constraint_symbols" using lock(2) syms(3,4) by blast
      show "\<forall>bs. L_hex a \<noteq> L_code bs" by simp
      show "holds (fl_call E (ctx_at (tc_tree v) (?p @ [of_nat 2])) name [Inr (lit_data (L_hex a))])"
        using lock(2)
      proof (elim disjE conjE)
        assume "name = ''addressED25519''" "lk = Lock_AddressED25519 a"
        then show ?thesis using assms(10) [of a] by (simp add: fl_call_def)
      next
        assume "name = ''chainLock''" "lk = Lock_ChainLock a"
        then show ?thesis using assms(11) [of a] by (simp add: fl_call_def)
      qed
    qed
  qed
  have "distinct [ca, ct, cl]"
  proof -
    have "reads_as E ca ''amount'' [L_u64 n]" "reads_as E ct ''timestamp'' [L_u32 ts]" "reads_as E cl name [L_hex a]"
      using Amount_compiles [OF assms(2), of n] Timestamp_compiles [OF assms(2), of ts] lock(1) b(1-3)
      by (auto simp: compiles_to_def)
    then have "ca \<noteq> ct" "ca \<noteq> cl" "ct \<noteq> cl" using lock(2) by (auto dest: reads_as_name)
    then show ?thesis by simp
  qed
  moreover have "\<forall>j < length [ca, ct, cl]. block_passes E v ?p j ([ca, ct, cl] ! j)"
    unfolding all_less_three using blocks by simp
  ultimately have "is_ok (runOutput E v c (ArrayFromBytesMax d 256) ?p)"
    using runOutput_ok [OF b(4), of E v ?p c] by blast
  moreover have "is_ok (output_amount E d)" "length d mod 2 ^ 32 \<le> amount_nat E d"
    using basic_output_reads(3,4) [OF assms(1,2,5,6)] assms(7) mod_less_eq_dividend [of "length d" "2 ^ 32"]
    by simp_all
  moreover have "is_ok (createIndexEntries E R v (of_nat i) (ArrayFromBytesMax d 256) c [])"
    by (rule simple_entries_ok [OF assms(1,2,4,5,6,12)])
  ultimately show ?thesis by (simp add: output_accepted_def Let_def)
qed

section \<open>A transfer is valid\<close>

lemma elems_by_bytes:
  assumes "tree_inv t" "tread t (p @ [i]) = Inr d" "parseArray d 256 = Inr xs"
  shows "elems_at t (p @ [i]) = Inr xs"
  using assms(2,3) by (simp add: reads_tree [OF assms(1)] tree_elements_at_snoc parse_node_256)

text \<open>What the tree of a transfer reads: the parts that the validator looks at.\<close>

definition transfer_tree :: "easyfl \<Rightarrow> tree \<Rightarrow> AddressED25519 \<Rightarrow> 32 word \<Rightarrow> OutputWithID list \<Rightarrow> bytes list
    \<Rightarrow> (64 word \<times> Lock) list \<Rightarrow> bytes list \<Rightarrow> bool" where
  "transfer_tree E t a ts ows ins specs outs \<longleftrightarrow>
     tree_inv t \<and> tread t PathToTimestamp = Inr (put_u32 ts) \<and> signed_by E t a
     \<and> elems_at t PathToConsumedOutputs = Inr ins \<and> length ins = length ows \<and> length ins \<le> 256
     \<and> (\<forall>i < length ows. basic_output E (ow_amount E (ows ! i)) (ow_time E (ows ! i)) (Lock_AddressED25519 a)
            (ow_Output (ows ! i)) (ins ! i)
          \<and> length (ins ! i) \<le> unat (ow_amount E (ows ! i)) \<and> ow_time E (ows ! i) < ts
          \<and> tread t (PathToUnlockParams @ [of_nat i, 2]) = Inr (unlock_mark i))
     \<and> elems_at t PathToProducedOutputs = Inr outs \<and> length outs = length specs \<and> length outs \<le> 256
     \<and> (\<forall>j < length specs. simple_lock (snd (specs ! j)) \<and> length (outs ! j) \<le> unat (fst (specs ! j))
          \<and> (\<exists>o'. basic_output E (fst (specs ! j)) ts (snd (specs ! j)) o' (outs ! j)))"

lemma transfer_input_accepted:
  assumes "easyfl_laws E" "compile_laws E" "runs_library E" "init_constraints E = Inr R" "length a = 32"
    "transfer_tree E (tc_tree v) a ts ows ins specs outs" "i < length ows" "is_ok (InputID v (of_nat i))"
  shows "output_accepted E R v True i (ins ! i)"
proof -
  let ?t = "tc_tree v" and ?i = "of_nat i :: byte"
  have t: "tree_inv ?t" "tread ?t PathToTimestamp = Inr (put_u32 ts)" "signed_by E ?t a"
    "elems_at ?t PathToConsumedOutputs = Inr ins" "length ins = length ows" "length ins \<le> 256"
    using assms(6) by (simp_all add: transfer_tree_def)
  have each: "basic_output E (ow_amount E (ows ! k)) (ow_time E (ows ! k)) (Lock_AddressED25519 a) (ow_Output (ows ! k)) (ins ! k)
      \<and> length (ins ! k) \<le> unat (ow_amount E (ows ! k)) \<and> ow_time E (ows ! k) < ts
      \<and> tread ?t (PathToUnlockParams @ [of_nat k, 2]) = Inr (unlock_mark k)" if "k < length ows" for k
    using assms(6) that by (simp add: transfer_tree_def)
  obtain cl where cl: "AddressED25519_Bytes E a = Inr cl"
    using each [OF assms(7)] by (auto simp: basic_output_def)
  have lock_at: "tread ?t (consumed_path (of_nat k) 2) = Inr cl \<and> constraint_at ?t PathToConsumedOutputs (of_nat k) 2 cl"
    if k: "k < length ows" for k
  proof -
    obtain ca ct where p: "parseArray (ins ! k) 256 = Inr [ca, ct, cl]"
      using each [OF k] cl by (auto simp: basic_output_def)
    have "unat (of_nat k :: byte) = k" using k t(5,6) by simp
    then have "tread ?t (PathToConsumedOutputs @ [of_nat k]) = Inr (ins ! k)"
      using nth_elem_read [OF t(1,4), of "of_nat k"] k t(5) by simp
    from constraint_by_path [OF t(1) this p, of 2] show ?thesis
      by (simp add: consumed_path_def PathToConsumedOutputs_def)
  qed
  have path: "branch_path True @ [?i, j] = consumed_path ?i j" for j
    by (simp add: branch_path_def consumed_path_def PathToConsumedOutputs_def)
  have idx: "unat ?i = i" using assms(7) t(5,6) by simp
  have lock: "holds (fl_addressED25519 E (ctx_at ?t (consumed_path ?i 2)) (Inr a))"
  proof (cases "i = 0")
    case True
    then show ?thesis using address_signed [OF assms(1) t(3), of ?i] each [OF assms(7)] by (simp add: unlock_mark_def)
  next
    case False
    then have "0 < ?i" using idx by (simp add: word_less_nat_alt)
    moreover have "0 < length ows" using assms(7) by linarith
    ultimately show ?thesis
      using address_referenced [OF assms(1), of ?t ?i 0 cl a] each [OF assms(7)] lock_at [OF assms(7)] lock_at [of 0] False
      by (simp add: unlock_mark_def)
  qed
  have am: "holds (fl_amount E (ctx_at ?t (branch_path True @ [?i, 0])) (Inr x))" for x
    unfolding path amount_enforced_parts(2) [OF assms(1)] by simp
  have "unat (ow_time E (ows ! i)) < unat ts" using each [OF assms(7)] by (simp add: word_less_nat_alt)
  then have tm: "holds (fl_timestamp E (ctx_at ?t (branch_path True @ [?i, 1])) (Inr (put_u32 (ow_time E (ows ! i)))))"
    unfolding path timestamp_enforced_parts(2) [OF assms(1)] using t(2) by simp
  have simple: "simple_lock (Lock_AddressED25519 a)" using assms(5) by (auto simp: simple_lock_def)
  note one = each [OF assms(7)]
  show ?thesis
    by (rule basic_output_accepted [OF assms(1-4) simple one [THEN conjunct1] _ am tm])
      (use one lock assms(8) in \<open>auto simp: path\<close>)
qed

lemma transfer_output_accepted:
  assumes "easyfl_laws E" "compile_laws E" "runs_library E" "init_constraints E = Inr R"
    "transfer_tree E (tc_tree v) a ts ows ins specs outs" "j < length specs"
  shows "output_accepted E R v False j (outs ! j)"
proof -
  let ?t = "tc_tree v" and ?j = "of_nat j :: byte"
  obtain n lk where spec: "specs ! j = (n, lk)" by (cases "specs ! j")
  have t: "tree_inv ?t" "tread ?t PathToTimestamp = Inr (put_u32 ts)"
    "elems_at ?t PathToProducedOutputs = Inr outs" "length outs = length specs" "length outs \<le> 256"
    using assms(5) by (simp_all add: transfer_tree_def)
  obtain o' where o': "simple_lock lk" "length (outs ! j) \<le> unat n" "basic_output E n ts lk o' (outs ! j)"
    using assms(5,6) spec by (auto simp: transfer_tree_def)
  have path: "branch_path False @ [?j, k] = produced_path ?j k" for k
    by (simp add: branch_path_def produced_path_def PathToProducedOutputs_def)
  have "unat ?j = j" using assms(6) t(4,5) by simp
  then have read: "tread ?t (PathToProducedOutputs @ [?j]) = Inr (outs ! j)"
    using nth_elem_read [OF t(1,3), of ?j] assms(6) t(4) by simp
  have "length (outs ! j) \<le> minTransferAmount" by (rule basic_output_size [OF assms(2) o'(1,3)])
  then have am: "holds (fl_amount E (ctx_at ?t (branch_path False @ [?j, 0])) (Inr (put_u64 n)))"
    unfolding path amount_enforced_parts(1) [OF assms(1)] using read o'(2) by (simp add: minTransferAmount_def)
  have tm: "holds (fl_timestamp E (ctx_at ?t (branch_path False @ [?j, 1])) (Inr (put_u32 ts)))"
    unfolding path timestamp_enforced_parts(1) [OF assms(1)] using t(2) by simp
  show ?thesis
  proof (rule basic_output_accepted [OF assms(1-4) o'(1,3,2) am tm])
    fix b assume "lk = Lock_AddressED25519 b"
    then show "holds (fl_addressED25519 E (ctx_at ?t (branch_path False @ [?j, 2])) (Inr b))"
      unfolding path using o'(1) by (intro address_produced [OF assms(1)]) (auto simp: simple_lock_def)
  next
    fix b assume "lk = Lock_ChainLock b"
    then show "holds (fl_chainLock E (ctx_at ?t (branch_path False @ [?j, 2])) (Inr b))"
      unfolding path using o'(1) by (intro chainLock_produced [OF assms(1)]) (auto simp: simple_lock_def)
  qed simp
qed

lemma transfer_tree_valid:
  assumes "easyfl_laws E" "compile_laws E" "runs_library E" "init_constraints E = Inr R" "length a = 32"
    "transfer_tree E (tc_tree v) a ts ows ins specs outs" "context_of v txb ids ins"
    "tread (tc_tree v) PathToConsumedOutputs = Inr cb" "tread (tc_tree v) PathToInputCommitment = Inr (Sum256 E cb)"
    "ows_total E ows = (\<Sum>(n, lk)\<leftarrow>specs. unat n)" "ows_total E ows < 2 ^ 64"
  shows "\<exists>records. Validate E R v = Inr records"
proof -
  let ?t = "tc_tree v"
  have t: "elems_at ?t PathToConsumedOutputs = Inr ins" "length ins = length ows"
    "elems_at ?t PathToProducedOutputs = Inr outs" "length outs = length specs"
    using assms(6) by (simp_all add: transfer_tree_def)
  have ctx: "tree_inv ?t" "elems_at ?t PathToInputIDs = Inr ids" "length ins = length ids" "length ids \<le> 256"
    "\<forall>oid \<in> set ids. length oid = 33"
    using assms(7) by (simp_all add: context_of_def)
  have "is_ok (InputID v (of_nat i))" if "i < length ins" for i
  proof -
    have "unat (of_nat i :: byte) = i" using that ctx(3,4) by simp
    then show ?thesis
      using nth_elem_read [OF ctx(1,2), of "of_nat i"] that ctx(3,5) by (simp add: InputID_def is_ok_iff)
  qed
  then have ins: "\<forall>i < length ins. output_accepted E R v True i (ins ! i)"
    using transfer_input_accepted [OF assms(1-6)] t(2) by auto
  have outs: "\<forall>j < length outs. output_accepted E R v False j (outs ! j)"
    using transfer_output_accepted [OF assms(1-4,6)] t(4) by auto
  have simple: "simple_lock (Lock_AddressED25519 a)" using assms(5) by (auto simp: simple_lock_def)
  have "map (amount_nat E) ins = map (\<lambda>ow. unat (ow_amount E ow)) ows"
    using basic_output_reads(4) [OF assms(1,2) simple] assms(6) t(2)
    by (intro nth_equalityI) (auto simp: transfer_tree_def)
  then have tot: "total_amount E ins = ows_total E ows" by (simp add: total_amount_def ows_total_def)
  have "map (amount_nat E) outs = map (\<lambda>(n, lk). unat n) specs"
    using basic_output_reads(4) [OF assms(1,2)] assms(6) t(4)
    by (intro nth_equalityI) (fastforce simp: transfer_tree_def case_prod_beta)+
  then have "total_amount E outs = total_amount E ins"
    using assms(10) tot by (simp add: total_amount_def)
  moreover have "validateInputCommitment E v = Inr ()"
    using assms(8,9) by (simp add: validateInputCommitment_def path_defs)
  ultimately show ?thesis
    unfolding validation_characterised using t(1,3) ins outs tot assms(11) by auto
qed

section \<open>The transfer itself\<close>

text \<open>The conditions under which a simple transfer goes through.\<close>

definition transfer_ready :: "easyfl \<Rightarrow> 'k signer \<Rightarrow> (OutputID \<Rightarrow> bytes option) \<Rightarrow> 'k TransferData \<Rightarrow> Lock \<Rightarrow> AddressED25519 \<Rightarrow> bool" where
  "transfer_ready E S getUTXO par lock a \<longleftrightarrow>
     tf_ChainOutput par = None \<and> \<not> tf_AddSender par
     \<and> tf_AddConstraints par = [] \<and> tf_UnlockData par = []
     \<and> tf_Lock par = Some lock \<and> simple_lock lock
     \<comment> \<open>the sender owns the source account and its outputs are in the state\<close>
     \<and> a = Sum256 E (sg_Public S (tf_SenderPrivateKey par)) \<and> tf_SourceAccount par = Acc_AddressED25519 a
     \<and> (\<forall>ow \<in> set (tf_Outputs par). spendable E getUTXO (Lock_AddressED25519 a) ow)
     \<and> distinct (map ow_ID (tf_Outputs par)) \<and> length (tf_Outputs par) \<le> 256
     \<comment> \<open>there are enough tokens, the sums do not wrap around, and no produced output is too small\<close>
     \<and> ows_total E (tf_Outputs par) < 2 ^ 64 \<and> minTransferAmount \<le> unat (tf_Amount par)
     \<and> unat (tf_Amount par) \<le> ows_total E (tf_Outputs par)
     \<and> (\<forall>k. unat (tf_Amount par) < ows_total E (take k (tf_Outputs par))
          \<longrightarrow> unat (tf_Amount par) + minTransferAmount \<le> ows_total E (take k (tf_Outputs par)))"

lemma sbind_ret: "sbind m ret = m"
  by (auto simp: sbind_def ret_def fun_eq_iff split: prod.splits sum.splits)

lemma main_output_basic:
  assumes "tf_Lock par = Some lock" "\<not> tf_AddSender par" "tf_AddConstraints par = []"
  shows "main_output E par amount ts = OutputBasic E amount ts lock"
  using assms by (simp add: main_output_def OutputBasic_def with_lock_def sbind_ret)

lemma list_all2_map_Inr: "\<forall>i < length xs. array_bytes (f (xs ! i)) = Inr (ds ! i) \<Longrightarrow> length ds = length xs
    \<Longrightarrow> list_all2 (\<lambda>a d. array_bytes a = Inr d) (map f xs) ds"
  by (simp add: list_all2_conv_all_nth)

text \<open>What has been put together when the transaction is finished.\<close>

definition built :: "easyfl \<Rightarrow> AddressED25519 \<Rightarrow> OutputWithID list \<Rightarrow> 32 word \<Rightarrow> (64 word \<times> Lock) list \<Rightarrow> bytes list
    \<Rightarrow> TransactionBuilder \<Rightarrow> bool" where
  "built E a ows ts specs outs txb \<longleftrightarrow>
     builder_ok txb \<and> tb_ConsumedOutputs txb = map ow_Output ows \<and> td_InputIDs (tb_Transaction txb) = map ow_ID ows
     \<and> (\<forall>i < length ows. outp (td_UnlockBlocks (tb_Transaction txb) ! i) [[], [], unlock_mark i])
     \<and> td_Endorsements (tb_Transaction txb) = [] \<and> td_LocalLibraries (tb_Transaction txb) = []
     \<and> length outs = length specs \<and> length (td_Outputs (tb_Transaction txb)) = length specs
     \<and> (\<forall>j < length specs. simple_lock (snd (specs ! j)) \<and> minTransferAmount \<le> unat (fst (specs ! j))
          \<and> basic_output E (fst (specs ! j)) ts (snd (specs ! j)) (td_Outputs (tb_Transaction txb) ! j) (outs ! j))"

lemma builder_ok_New: "builder_ok NewTransactionBuilder"
  by (simp add: builder_ok_def NewTransactionBuilder_def tb_NumOutputs_def)

lemma transfer_outputs:
  assumes "compile_laws E" "transfer_ready E S getUTXO par lock a" "length a = 32"
    "tf_Amount par \<le> av" "tf_Amount par < av \<Longrightarrow> minTransferAmount \<le> unat av - unat (tf_Amount par)"
  shows "\<exists>mo ro specs outs. main_output E par (tf_Amount par) ts = Inr mo
    \<and> reminder_output E par (tf_Amount par) ts av = Inr ro \<and> last specs = (tf_Amount par, lock) \<and> specs \<noteq> []
    \<and> (\<Sum>(n, lk)\<leftarrow>specs. unat n) = unat av \<and> length specs \<le> 2
    \<and> length outs = length specs \<and> length (ro @ [mo]) = length specs
    \<and> (\<forall>j < length specs. simple_lock (snd (specs ! j)) \<and> minTransferAmount \<le> unat (fst (specs ! j))
          \<and> basic_output E (fst (specs ! j)) ts (snd (specs ! j)) ((ro @ [mo]) ! j) (outs ! j))"
proof -
  have par: "tf_Lock par = Some lock" "simple_lock lock" "\<not> tf_AddSender par" "tf_AddConstraints par = []"
    "tf_SourceAccount par = Acc_AddressED25519 a" "minTransferAmount \<le> unat (tf_Amount par)"
    using assms(2) by (simp_all add: transfer_ready_def)
  have own: "simple_lock (Lock_AddressED25519 a)" using assms(3) by (auto simp: simple_lock_def)
  obtain mo d where mo: "OutputBasic E (tf_Amount par) ts lock = Inr mo" "basic_output E (tf_Amount par) ts lock mo d"
    using basic_output_exists [OF assms(1) par(2)] by blast
  then have main: "main_output E par (tf_Amount par) ts = Inr mo" using main_output_basic [OF par(1,3,4)] by simp
  show ?thesis
  proof (cases "tf_Amount par < av")
    case True
    let ?n = "av - tf_Amount par"
    have n: "unat ?n = unat av - unat (tf_Amount par)" using True by (simp add: unat_sub word_less_nat_alt word_le_nat_alt)
    obtain ro d' where ro: "OutputBasic E ?n ts (Lock_AddressED25519 a) = Inr ro"
      "basic_output E ?n ts (Lock_AddressED25519 a) ro d'"
      using basic_output_exists [OF assms(1) own] by blast
    have "reminder_output E par (tf_Amount par) ts av = Inr [ro]"
      using True ro(1) par(5) by (simp add: reminder_output_def OutputBasic_def)
    moreover have "unat ?n + unat (tf_Amount par) = unat av" using n True by (simp add: word_less_nat_alt)
    ultimately show ?thesis
      using main mo ro own par(2,6) assms(5) [OF True] n
      by (intro exI [of _ mo] exI [of _ "[ro]"] exI [of _ "[(?n, Lock_AddressED25519 a), (tf_Amount par, lock)]"]
          exI [of _ "[d', d]"]) (auto simp: less_Suc_eq)
  next
    case False
    then have "av = tf_Amount par" using assms(4) by simp
    then show ?thesis
      using main mo par(2,6)
      by (intro exI [of _ mo] exI [of _ "[]"] exI [of _ "[(tf_Amount par, lock)]"] exI [of _ "[d]"])
        (auto simp: reminder_output_def)
  qed
qed

lemma panic_ret: "(\<lambda>s. case ret x s of (r, s') \<Rightarrow> (as_panic r, s')) = ret x"
  by (simp add: ret_def fun_eq_iff)

lemma adjusted_amount:
  assumes "compile_laws E" "tf_Lock par = Some lock" "simple_lock lock" "tf_AddConstraints par = []"
    "minTransferAmount \<le> unat (tf_Amount par)"
  shows "AdjustedAmount E par = Inr (tf_Amount par)"
proof -
  obtain o' d where o': "OutputBasic E (tf_Amount par) 0 lock = Inr o'" "basic_output E (tf_Amount par) 0 lock o' d"
    using basic_output_exists [OF assms(1,3)] by blast
  have len: "length d \<le> minTransferAmount" by (rule basic_output_size [OF assms(1,3) o'(2)])
  have "exec (sbind (WithAmount E (tf_Amount par)) (\<lambda>_. sbind (WithTimestamp E 0) (\<lambda>_. sbind (with_lock E (tf_Lock par)) (\<lambda>_ o'.
      case op_all PushConstraint (tf_AddConstraints par) o' of (r, o'') \<Rightarrow> (as_panic r, o''))))) NewOutput = Inr o'"
    using o'(1) assms(2,4) by (simp add: OutputBasic_def with_lock_def panic_ret sbind_ret)
  moreover have "Output_Bytes o' = Inr d" using o'(2) by (auto simp: basic_output_def)
  moreover have "\<not> tf_Amount par < MinimumStorageDeposit (of_nat (length d)) 0"
    using len assms(5) by (simp add: word_less_nat_alt deposit_nat minTransferAmount_def)
  ultimately show ?thesis by (simp add: AdjustedAmount_def)
qed

lemma transfer_built:
  assumes "easyfl_laws E" "compile_laws E" "transfer_ready E S getUTXO par lock a" "length a = 32"
  shows "\<exists>ows ts specs outs txb. MakeSimpleTransferTransactionOutputs E S now par = finish_tx E S par ts txb
    \<and> built E a ows ts specs outs txb \<and> ows \<noteq> [] \<and> set ows \<subseteq> set (tf_Outputs par) \<and> distinct (map ow_ID ows)
    \<and> length ows \<le> 256 \<and> (\<forall>ow \<in> set ows. ow_time E ow < ts) \<and> ows_total E ows < 2 ^ 64
    \<and> last specs = (tf_Amount par, lock) \<and> specs \<noteq> [] \<and> length specs \<le> 2
    \<and> ows_total E ows = (\<Sum>(n, lk)\<leftarrow>specs. unat n)"
proof -
  have par: "tf_ChainOutput par = None" "AdjustedAmount E par = Inr (tf_Amount par)" "tf_UnlockData par = []"
    "\<forall>ow \<in> set (tf_Outputs par). spendable E getUTXO (Lock_AddressED25519 a) ow"
    "distinct (map ow_ID (tf_Outputs par))" "length (tf_Outputs par) \<le> 256"
    "ows_total E (tf_Outputs par) < 2 ^ 64" "minTransferAmount \<le> unat (tf_Amount par)"
    "unat (tf_Amount par) \<le> ows_total E (tf_Outputs par)"
    "\<And>k. unat (tf_Amount par) < ows_total E (take k (tf_Outputs par))
          \<Longrightarrow> unat (tf_Amount par) + minTransferAmount \<le> ows_total E (take k (tf_Outputs par))"
    using adjusted_amount [OF assms(2)] assms(3) unfolding transfer_ready_def by blast+
  have own: "simple_lock (Lock_AddressED25519 a)" using assms(4) by (auto simp: simple_lock_def)
  have some: "tf_Outputs par \<noteq> []" using par(8,9) by (auto simp: ows_total_def minTransferAmount_def)
  obtain k ts av where k: "outputsToConsumeSimple E now par (tf_Amount par) = Inr (av, ts, take k (tf_Outputs par))"
    "0 < k" "k \<le> length (tf_Outputs par)" "\<forall>ow \<in> set (take k (tf_Outputs par)). ow_time E ow < ts"
    "unat av = ows_total E (take k (tf_Outputs par))" "tf_Amount par \<le> av"
    using consume_simple_ok [OF assms(1,2) own par(4), of 0 0 "tf_Amount par"
        "if tf_Timestamp par > 0 then tf_Timestamp par else now" "[]"] par(6-9) some
    by (auto simp: outputsToConsumeSimple_def)
  let ?ows = "take k (tf_Outputs par)"
  have ows: "length ?ows \<le> 256" "distinct (map ow_ID ?ows)" "set ?ows \<subseteq> set (tf_Outputs par)" "?ows \<noteq> []"
    using par(5,6) k(2) some set_take_subset [of k "tf_Outputs par"] by (simp_all flip: take_map)
  have over: "minTransferAmount \<le> unat av - unat (tf_Amount par)" if "tf_Amount par < av"
    using par(10) [of k] that k(5) by (simp add: word_less_nat_alt)
  obtain mo ro specs outs where o': "main_output E par (tf_Amount par) ts = Inr mo"
    "reminder_output E par (tf_Amount par) ts av = Inr ro" "last specs = (tf_Amount par, lock)" "specs \<noteq> []"
    "(\<Sum>(n, lk)\<leftarrow>specs. unat n) = unat av" "length specs \<le> 2"
    "length outs = length specs" "length (ro @ [mo]) = length specs"
    "\<forall>j < length specs. simple_lock (snd (specs ! j)) \<and> minTransferAmount \<le> unat (fst (specs ! j))
          \<and> basic_output E (fst (specs ! j)) ts (snd (specs ! j)) ((ro @ [mo]) ! j) (outs ! j)"
    using transfer_outputs [OF assms(2,3,4) k(6) over, of ts] by blast
  obtain t1 where t1: "consume_all ?ows NewTransactionBuilder = (Inr (), t1)" "builder_ok t1"
    "tb_ConsumedOutputs t1 = map ow_Output ?ows"
    "tb_Transaction t1 = (tb_Transaction NewTransactionBuilder)
        \<lparr>td_InputIDs := map ow_ID ?ows, td_UnlockBlocks := replicate (length ?ows) NewUnlockBlock\<rparr>"
    using consume_all_ok [OF builder_ok_New, of ?ows] ows(1) by (auto simp: NewTransactionBuilder_def)
  obtain t2 where t2: "produce_all (ro @ [mo]) t1 = (Inr (), t2)" "builder_ok t2"
    "tb_ConsumedOutputs t2 = map ow_Output ?ows"
    "tb_Transaction t2 = (tb_Transaction t1)\<lparr>td_Outputs := ro @ [mo]\<rparr>"
    using produce_all_ok [OF t1(2), of "ro @ [mo]"] o'(6,8) t1(3,4)
    by (auto simp: NewTransactionBuilder_def tb_NumOutputs_def)
  have empty: "\<forall>i < length ?ows. outp (unlock_block t2 i) []"
    using t1(4) t2(4) outp_NewUnlockBlock by (simp add: unlock_block_def)
  obtain t3 blocks where t3: "unlock_simple (length ?ows) t2 = (Inr (), t3)" "builder_ok t3"
    "tb_ConsumedOutputs t3 = map ow_Output ?ows"
    "tb_Transaction t3 = (tb_Transaction t2)\<lparr>td_UnlockBlocks := blocks\<rparr>"
    "\<forall>i < length ?ows. outp (blocks ! i) [[], [], unlock_mark i]"
    using unlock_simple_ok [OF t2(2) _ empty le_refl] t2(3) by (auto simp del: length_take)
  have run: "MakeSimpleTransferTransactionOutputs E S now par = finish_tx E S par ts t3"
    using par(1-3) k(1,6) o'(1,2) t1(1) t2(1) t3(1)
    by (simp add: MakeSimpleTransferTransactionOutputs_def exec_def sbind_def put_unlock_data_def
        ret_def not_less [symmetric])
  have "built E a ?ows ts specs outs t3"
    using t1(4) t2(4) t3(2-5) o'(7-9) by (simp add: built_def NewTransactionBuilder_def)
  moreover have "ows_total E ?ows < 2 ^ 64" using k(5) unat_word_less [of av] by simp
  ultimately show ?thesis
    using run ows k(4,5) o'(3-6) by (intro exI [of _ ?ows] exI [of _ ts] exI [of _ specs] exI [of _ outs] exI [of _ t3]) simp
qed

lemma signed_by_parts:
  assumes "signer_laws E S" "tread t PathToInputIDs = Inr idb" "tread t PathToProducedOutputs = Inr ob"
    "tread t PathToInputCommitment = Inr com"
    "tread t PathToSignature = Inr (sg_Sign S k (idb @ ob @ com) @ sg_Public S k)"
  shows "signed_by E t (Sum256 E (sg_Public S k))"
proof -
  have "length (sg_Sign S k m) = 64" "length (sg_Public S k) = 32" for m
    using assms(1) by (simp_all add: signer_laws_def)
  then have "sub_bytes 64 95 (sg_Sign S k m @ sg_Public S k) = sg_Public S k"
    "sub_bytes 0 63 (sg_Sign S k m @ sg_Public S k) = sg_Sign S k m"
    "96 \<le> length (sg_Sign S k m @ sg_Public S k)" for m
    by (simp_all add: sub_bytes_def)
  then show ?thesis
    using assms by (simp add: signed_by_def essence_def signer_laws_def)
qed

lemma unlock_bytes:
  assumes "outp b [[], [], unlock_mark i]"
  shows "\<exists>u. array_bytes b = Inr u \<and> parseArray u 256 = Inr [[], [], unlock_mark i] \<and> length u \<le> minTransferAmount"
  using array_bytes_ok [of b "[[], [], unlock_mark i]" 1] assms
  by (auto simp: outp_def unlock_mark_def minTransferAmount_def)

lemma basic_output_bytes: "basic_output E n ts lk o' d \<Longrightarrow> array_bytes o' = Inr d"
  by (auto simp: basic_output_def Output_Bytes_def array_bytes_def)

lemma finish_built:
  assumes "easyfl_laws E" "compile_laws E" "signer_laws E S" "built E a ows ts specs outs txb" "length a = 32"
    "length ins = length ows" "length ows \<le> 256" "length specs \<le> 2" "\<forall>ow \<in> set ows. length (ow_ID ow) = 33"
    "\<forall>i < length ows. basic_output E (ow_amount E (ows ! i)) (ow_time E (ows ! i)) (Lock_AddressED25519 a)
       (ow_Output (ows ! i)) (ins ! i)"
  shows "\<exists>b ub idb ob cb eb lb us. finish_tx E S par ts txb =
      Inr (b, map (\<lambda>(i, d). \<lparr>od_ID = NewOutputID (Sum256 E b) (of_nat i), od_OutputData = d\<rparr>) (enumerate 0 outs))
    \<and> parseArray b 8 = Inr [ub, idb, ob, sg_Sign S (tf_SenderPrivateKey par) (idb @ ob @ Sum256 E cb)
        @ sg_Public S (tf_SenderPrivateKey par), put_u32 ts, Sum256 E cb, eb, lb]
    \<and> parseArray ub 256 = Inr us \<and> parseArray idb 256 = Inr (map ow_ID ows)
    \<and> parseArray ob 256 = Inr outs \<and> array_bytes (pushed ins) = Inr cb
    \<and> (\<forall>d \<in> set ins. length d \<le> minTransferAmount)
    \<and> length us = length ows \<and> (\<forall>i < length ows. parseArray (us ! i) 256 = Inr [[], [], unlock_mark i])"
proof -
  let ?tx = "tb_Transaction txb"
  have own: "simple_lock (Lock_AddressED25519 a)" using assms(5) by (auto simp: simple_lock_def)
  have b: "length (td_UnlockBlocks ?tx) = length ows" "tb_ConsumedOutputs txb = map ow_Output ows"
    "td_InputIDs ?tx = map ow_ID ows" "td_Endorsements ?tx = []" "td_LocalLibraries ?tx = []"
    "length outs = length specs" "length (td_Outputs ?tx) = length specs"
    using assms(4) by (simp_all add: built_def builder_ok_def)
  have blocks: "\<forall>i < length ows. outp (td_UnlockBlocks ?tx ! i) [[], [], unlock_mark i]"
    using assms(4) by (simp add: built_def)
  have prod: "simple_lock (snd (specs ! j)) \<and> minTransferAmount \<le> unat (fst (specs ! j))
      \<and> basic_output E (fst (specs ! j)) ts (snd (specs ! j)) (td_Outputs ?tx ! j) (outs ! j)" if "j < length specs" for j
    using assms(4) that by (simp add: built_def)
  have "\<forall>i < length ows. \<exists>u. array_bytes (td_UnlockBlocks ?tx ! i) = Inr u
      \<and> parseArray u 256 = Inr [[], [], unlock_mark i] \<and> length u \<le> minTransferAmount"
    using blocks unlock_bytes by blast
  then obtain u where u: "\<forall>i < length ows. array_bytes (td_UnlockBlocks ?tx ! i) = Inr (u i)
      \<and> parseArray (u i) 256 = Inr [[], [], unlock_mark i] \<and> length (u i) \<le> minTransferAmount"
    by metis
  have consumed: "list_all2 (\<lambda>a d. array_bytes a = Inr d) (tb_ConsumedOutputs txb) ins"
    using assms(6,10) b(2) by (auto simp: list_all2_conv_all_nth intro: basic_output_bytes)
  have produced: "list_all2 (\<lambda>a d. array_bytes a = Inr d) (td_Outputs ?tx) outs"
    using prod b(6,7) by (auto simp: list_all2_conv_all_nth intro: basic_output_bytes)
  have unlocks: "list_all2 (\<lambda>a d. array_bytes a = Inr d) (td_UnlockBlocks ?tx) (map u [0..<length ows])"
    using u b(1) by (auto simp: list_all2_conv_all_nth)
  have inz: "\<forall>d \<in> set ins. length d \<le> minTransferAmount"
    using assms(6,10) basic_output_size [OF assms(2) own] by (metis in_set_conv_nth)
  have "\<forall>d \<in> set outs. length d \<le> minTransferAmount"
    using prod b(6) basic_output_size [OF assms(2)] by (metis in_set_conv_nth)
  then have "\<forall>d \<in> set ins \<union> set outs \<union> set (map u [0..<length ows]) \<union> set (td_InputIDs ?tx). length d \<le> maxBlockSize"
    using inz u assms(9) b(3) small_blocks by (auto simp: maxBlockSize_def)
  from finish_tx_ok [OF assms(1,3) consumed _ produced _ unlocks _ _ b(4,5) this, of par ts]
  obtain bin ub idb ob cb eb lb where fin: "finish_tx E S par ts txb =
      Inr (bin, map (\<lambda>(i, d). \<lparr>od_ID = NewOutputID (Sum256 E bin) (of_nat i), od_OutputData = d\<rparr>) (enumerate 0 outs))"
    "parseArray bin 8 = Inr [ub, idb, ob, sg_Sign S (tf_SenderPrivateKey par) (idb @ ob @ Sum256 E cb)
        @ sg_Public S (tf_SenderPrivateKey par), put_u32 ts, Sum256 E cb, eb, lb]"
    "parseArray ub 256 = Inr (map u [0..<length ows])" "parseArray idb 256 = Inr (map ow_ID ows)"
    "parseArray ob 256 = Inr outs" "array_bytes (pushed ins) = Inr cb"
    using b(3,6) assms(6-8) by auto
  moreover have "length (map u [0..<length ows]) = length ows
      \<and> (\<forall>i < length ows. parseArray (map u [0..<length ows] ! i) 256 = Inr [[], [], unlock_mark i])"
    using u by simp
  ultimately show ?thesis using inz by blast
qed

lemma nth_res_parts:
  "nth_res [a, b, c, d, e, f, g, h] 0 = Inr a" "nth_res [a, b, c, d, e, f, g, h] (Suc 0) = Inr b"
  "nth_res [a, b, c, d, e, f, g, h] 2 = Inr c" "nth_res [a, b, c, d, e, f, g, h] 3 = Inr d"
  "nth_res [a, b, c, d, e, f, g, h] 4 = Inr e" "nth_res [a, b, c, d, e, f, g, h] 5 = Inr f"
  by (simp_all add: nth_res_def numeral_eq_Suc)

lemma transfer_tree_built:
  assumes "signer_laws E S" "built E a ows ts specs outs txb" "a = Sum256 E (sg_Public S k)"
    "context_of v b ids ins" "length ins = length ows" "length ows \<le> 256" "length specs \<le> 2"
    "\<forall>i < length ows. basic_output E (ow_amount E (ows ! i)) (ow_time E (ows ! i)) (Lock_AddressED25519 a)
       (ow_Output (ows ! i)) (ins ! i) \<and> length (ins ! i) \<le> unat (ow_amount E (ows ! i)) \<and> ow_time E (ows ! i) < ts"
    "\<And>i. tread (tc_tree v) [TransactionBranch, i] = nth_res [ub, idb, ob,
        sg_Sign S k (idb @ ob @ Sum256 E cb) @ sg_Public S k, put_u32 ts, Sum256 E cb, eb, lb] (unat i)"
    "parseArray ub 256 = Inr us" "parseArray ob 256 = Inr outs" "length us = length ows"
    "\<forall>i < length ows. parseArray (us ! i) 256 = Inr [[], [], unlock_mark i]" "\<forall>d \<in> set outs. length d \<le> minTransferAmount"
  shows "transfer_tree E (tc_tree v) a ts ows ins specs outs"
    and "tread (tc_tree v) PathToInputCommitment = Inr (Sum256 E cb)"
proof -
  let ?t = "tc_tree v"
  have c: "tree_inv ?t" "elems_at ?t PathToConsumedOutputs = Inr ins"
    using assms(4) by (simp_all add: context_of_def)
  have o': "length outs = length specs" "\<forall>j < length specs. simple_lock (snd (specs ! j))
      \<and> minTransferAmount \<le> unat (fst (specs ! j))
      \<and> basic_output E (fst (specs ! j)) ts (snd (specs ! j)) (td_Outputs (tb_Transaction txb) ! j) (outs ! j)"
    using assms(2) by (simp_all add: built_def)
  note parts = assms(9) [unfolded TransactionBranch_def] nth_res_parts path_defs
  show com: "tread ?t PathToInputCommitment = Inr (Sum256 E cb)" by (simp add: parts)
  have "signed_by E ?t a"
    unfolding assms(3) by (rule signed_by_parts [OF assms(1) _ _ com]) (simp_all add: parts)
  moreover have "tread ?t PathToTimestamp = Inr (put_u32 ts)" by (simp add: parts)
  moreover have us: "elems_at ?t PathToUnlockParams = Inr us"
    using elems_by_bytes [OF c(1), of "[TransactionBranch]" TxUnlockParams ub us] assms(10) by (simp add: parts)
  moreover have "elems_at ?t PathToProducedOutputs = Inr outs"
    using elems_by_bytes [OF c(1), of "[TransactionBranch]" TxOutputs ob outs] assms(11) by (simp add: parts)
  moreover have "tread ?t (PathToUnlockParams @ [of_nat i, 2]) = Inr (unlock_mark i)" if "i < length ows" for i
  proof -
    have i: "unat (of_nat i :: byte) = i" using that assms(6) by simp
    have "tread ?t (PathToUnlockParams @ [of_nat i]) = Inr (us ! i)"
      using nth_elem_read [OF c(1) us, of "of_nat i"] that assms(12) i by simp
    from constraint_by_path(1) [OF c(1) this assms(13) [rule_format, OF that], of 2] show ?thesis
      by (simp add: nth_res_def)
  qed
  moreover have "length (outs ! j) \<le> unat (fst (specs ! j))" if "j < length specs" for j
  proof -
    have "outs ! j \<in> set outs" using that o'(1) by simp
    then have "length (outs ! j) \<le> minTransferAmount" using assms(14) by blast
    then show ?thesis using o'(2) that by (meson le_trans)
  qed
  ultimately show "transfer_tree E ?t a ts ows ins specs outs"
    unfolding transfer_tree_def using c o' assms(5-8) by (intro conjI allI impI) (simp_all, blast+)
qed

lemma enumerate_Nil_iff: "enumerate n xs = [] \<longleftrightarrow> xs = []"
  by (cases xs) simp_all

lemma last_enumerate: "xs \<noteq> [] \<Longrightarrow> last (enumerate n xs) = (n + length xs - 1, last xs)"
  by (induction xs arbitrary: n) (auto simp: enumerate_Nil_iff)

lemma simple_transfer:
  assumes "easyfl_laws E" "compile_laws E" "runs_library E" "init_constraints E = Inr R" "signer_laws E S"
    "transfer_ready E S getUTXO par lock a"
  shows "\<exists>txb outs v records o' ts. MakeSimpleTransferTransactionOutputs E S now par = Inr (txb,
        map (\<lambda>(i, d). \<lparr>od_ID = NewOutputID (Sum256 E txb) (of_nat i), od_OutputData = d\<rparr>) (enumerate 0 outs))
    \<and> TransactionContextFromTransferableBytes E getUTXO txb = Inr v \<and> Validate E R v = Inr records
    \<and> elems_at (tc_tree v) PathToProducedOutputs = Inr outs
    \<and> (\<exists>ids ins. context_of v txb ids ins \<and> ids \<noteq> [] \<and> set ids \<subseteq> set (map ow_ID (tf_Outputs par)))
    \<and> outs \<noteq> [] \<and> length outs \<le> 2 \<and> basic_output E (tf_Amount par) ts lock o' (last outs)"
proof -
  let ?k = "tf_SenderPrivateKey par"
  have a: "a = Sum256 E (sg_Public S ?k)" "\<forall>ow \<in> set (tf_Outputs par). spendable E getUTXO (Lock_AddressED25519 a) ow"
    using assms(6) unfolding transfer_ready_def by blast+
  have la: "length a = 32" using assms(1) a(1) by (simp add: easyfl_laws_def crypto_laws_def)
  have own: "simple_lock (Lock_AddressED25519 a)" using la by (auto simp: simple_lock_def)
  obtain ows ts specs outs txb where run: "MakeSimpleTransferTransactionOutputs E S now par = finish_tx E S par ts txb"
    and bt: "built E a ows ts specs outs txb" and ows: "ows \<noteq> []" "set ows \<subseteq> set (tf_Outputs par)"
    "distinct (map ow_ID ows)" "length ows \<le> 256" "\<forall>ow \<in> set ows. ow_time E ow < ts" "ows_total E ows < 2 ^ 64"
    and specs: "last specs = (tf_Amount par, lock)" "specs \<noteq> []" "length specs \<le> 2"
    "ows_total E ows = (\<Sum>(n, lk)\<leftarrow>specs. unat n)"
    using transfer_built [OF assms(1,2,6) la] by metis
  define ins where "ins = map (\<lambda>ow. the (getUTXO (ow_ID ow))) ows"
  have inp: "basic_output E (ow_amount E ow) (ow_time E ow) (Lock_AddressED25519 a) (ow_Output ow) (the (getUTXO (ow_ID ow)))
      \<and> getUTXO (ow_ID ow) \<noteq> None \<and> length (the (getUTXO (ow_ID ow))) \<le> unat (ow_amount E ow) \<and> length (ow_ID ow) = 33"
    if "ow \<in> set ows" for ow
  proof -
    have s: "spendable E getUTXO (Lock_AddressED25519 a) ow" using a(2) ows(2) that by blast
    show ?thesis
      by (rule spendableE [OF assms(1,2) own s]) (use s in \<open>simp add: spendable_def id_lengths\<close>)
  qed
  have each: "\<forall>i < length ows. basic_output E (ow_amount E (ows ! i)) (ow_time E (ows ! i)) (Lock_AddressED25519 a)
       (ow_Output (ows ! i)) (ins ! i) \<and> length (ins ! i) \<le> unat (ow_amount E (ows ! i)) \<and> ow_time E (ows ! i) < ts"
    using inp ows(5) by (simp add: ins_def)
  have ids: "map getUTXO (map ow_ID ows) = map Some ins" "length ins = length ows"
    "\<forall>oid \<in> set (map ow_ID ows). length oid = 33" "\<forall>ow \<in> set ows. length (ow_ID ow) = 33"
    using inp by (auto simp: ins_def)
  have "\<forall>i < length ows. basic_output E (ow_amount E (ows ! i)) (ow_time E (ows ! i)) (Lock_AddressED25519 a)
       (ow_Output (ows ! i)) (ins ! i)" using each by blast
  from finish_built [OF assms(1,2,5) bt la ids(2) ows(4) specs(3) ids(4) this, of par]
  obtain b ub idb ob cb eb lb us where fin: "finish_tx E S par ts txb =
      Inr (b, map (\<lambda>(i, d). \<lparr>od_ID = NewOutputID (Sum256 E b) (of_nat i), od_OutputData = d\<rparr>) (enumerate 0 outs))"
    "parseArray b 8 = Inr [ub, idb, ob, sg_Sign S ?k (idb @ ob @ Sum256 E cb) @ sg_Public S ?k, put_u32 ts,
        Sum256 E cb, eb, lb]"
    "parseArray ub 256 = Inr us" "parseArray idb 256 = Inr (map ow_ID ows)"
    "parseArray ob 256 = Inr outs" "array_bytes (pushed ins) = Inr cb" "\<forall>d \<in> set ins. length d \<le> minTransferAmount"
    "length us = length ows" "\<forall>i < length ows. parseArray (us ! i) 256 = Inr [[], [], unlock_mark i]"
    by blast
  obtain v where v: "TransactionContextFromTransferableBytes E getUTXO b = Inr v"
    "context_of v b (map ow_ID ows) ins" "tread (tc_tree v) PathToConsumedOutputs = Inr cb"
    "\<And>i. tread (tc_tree v) [TransactionBranch, i] = nth_res [ub, idb, ob,
        sg_Sign S ?k (idb @ ob @ Sum256 E cb) @ sg_Public S ?k, put_u32 ts, Sum256 E cb, eb, lb] (unat i)"
    by (rule context_builds [OF fin(2) _ _ ids(1) ows(3) ids(3)]) (use fin(4,6,7) small_blocks in auto)
  have outs: "length outs = length specs" "\<forall>j < length specs. simple_lock (snd (specs ! j))
      \<and> basic_output E (fst (specs ! j)) ts (snd (specs ! j)) (td_Outputs (tb_Transaction txb) ! j) (outs ! j)"
    using bt by (simp_all add: built_def)
  then have small: "\<forall>d \<in> set outs. length d \<le> minTransferAmount"
    using basic_output_size [OF assms(2)] by (metis in_set_conv_nth)
  note tree = transfer_tree_built [OF assms(5) bt a(1) v(2) ids(2) ows(4) specs(3) each v(4) fin(3,5,8,9) small]
  obtain records where "Validate E R v = Inr records"
    using transfer_tree_valid [OF assms(1-4) la tree(1) v(2,3) tree(2) specs(4) ows(6)] by blast
  moreover have "basic_output E (tf_Amount par) ts lock (last (td_Outputs (tb_Transaction txb))) (last outs)"
  proof -
    let ?j = "length specs - 1"
    have ne: "outs \<noteq> []" "td_Outputs (tb_Transaction txb) \<noteq> []"
      "length (td_Outputs (tb_Transaction txb)) = length specs"
      using bt specs(2) by (auto simp: built_def)
    have "?j < length specs" using specs(2) by simp
    from outs(2) [rule_format, OF this] show ?thesis
      using specs(1) outs(1) by (simp add: last_conv_nth specs(2) ne)
  qed
  moreover have "outs \<noteq> []" using outs(1) specs(2) by auto
  moreover have "elems_at (tc_tree v) PathToProducedOutputs = Inr outs"
    using tree(1) by (simp add: transfer_tree_def)
  moreover have "\<exists>ids ins. context_of v b ids ins \<and> ids \<noteq> [] \<and> set ids \<subseteq> set (map ow_ID (tf_Outputs par))"
    using v(2) ows(1,2) by (intro exI [of _ "map ow_ID ows"] exI [of _ ins]) auto
  ultimately show ?thesis
    using run fin(1) v(1) outs(1) specs(3) by auto
qed

text \<open>
  When the sender owns the source account, has enough tokens in outputs of it,
  and neither the target amount nor the rest is below the storage deposit,
  \<^verbatim>\<open>MakeSimpleTransferTransactionOutputs\<close> produces a transaction, its context can be built from the
  state, \<^verbatim>\<open>Validate\<close> accepts it, and its last output holds the amount under the target lock.
\<close>

theorem simple_transfer_valid:
  assumes "easyfl_laws E" "compile_laws E" "runs_library E" "init_constraints E = Inr R" "signer_laws E S"
    "transfer_ready E S getUTXO par lock a"
  shows "\<exists>txb retOuts v records o' ts. MakeSimpleTransferTransactionOutputs E S now par = Inr (txb, retOuts)
    \<and> TransactionContextFromTransferableBytes E getUTXO txb = Inr v \<and> Validate E R v = Inr records
    \<and> retOuts \<noteq> [] \<and> basic_output E (tf_Amount par) ts lock o' (od_OutputData (last retOuts))"
  using simple_transfer [OF assms, of now]
  by (fastforce simp: last_map last_enumerate enumerate_Nil_iff)

end
