(* ===== verification/Acceptance.thy ===== *)
theory Acceptance
  imports UtxoDB TransferValid
begin

text \<open>
  What gets through: when the ledger state and the database accept a transaction. The steps after
  \<^verbatim>\<open>Validate\<close> (the trie, the commit, the indexer) refuse nothing that has been validated.
\<close>

section \<open>The ledger state\<close>

lemma opened_updatable:
  assumes "trie_laws T" "Updatable_Readable T u = Inr rd"
  shows "\<exists>t. tm_NewUpdatable T (up_store u) (up_root u) = Inr t"
  using trie_lawsD(1) [OF assms(1), of "up_store u" "up_root u" "rd_trie rd"] assms(2)
  by (auto simp: Updatable_Readable_def opened_as_def)

lemma update_accepts:
  assumes "trie_laws T" "store_reliable T" "Updatable_Readable T u = Inr rd"
    "TransactionContextFromTransferableBytes E (GetUTXO T rd) txb = Inr v" "Validate E R v = Inr cmds"
  shows "\<exists>u'. Update T E R txb u = (Inr cmds, u')"
proof -
  obtain t where t: "tm_NewUpdatable T (up_store u) (up_root u) = Inr t"
    using opened_updatable [OF assms(1,3)] by blast
  obtain ids ins where ctx: "context_of v txb ids ins"
    using context_from_bytes [OF assms(4)] by blast
  then have ids: "elems_at (tc_tree v) PathToInputIDs = Inr ids" "\<forall>oid \<in> set ids. length oid = 33"
    by (simp_all add: context_of_def)
  obtain outs where outs: "elems_at (tc_tree v) PathToProducedOutputs = Inr outs"
    by (rule valid_context_outputs [OF ctx assms(5)])
  obtain root batch where c: "tm_Commit T (trie_writes T (tx_writes ids (tc_txid v) outs) t) = (root, batch)"
    by fastforce
  obtain r store where b: "tm_BatchCommit T batch (up_store u) = (r, store)" by fastforce
  then have "is_ok r" using assms(2) unfolding store_reliable_def by (metis fst_conv)
  then have "r = Inr ()" by (auto simp: is_ok_iff)
  then show ?thesis
    using assms(3,4) t updateTrie_runs [OF assms(5) ids outs, of T t] c b
    by (simp add: Update_def sbind_def ret_def)
qed

text \<open>
  C11 (update_accepts_iff): with a reliable store, the ledger state accepts exactly the transactions whose
  context can be built from its outputs and which \<^verbatim>\<open>Validate\<close> accepts, and hands out the commands that
  validation collected.
\<close>

theorem update_accepts_iff:
  assumes "trie_laws T" "store_reliable T"
  shows "(\<exists>u'. Update T E R txb u = (Inr cmds, u')) \<longleftrightarrow>
    (\<exists>rd v. Updatable_Readable T u = Inr rd
       \<and> TransactionContextFromTransferableBytes E (GetUTXO T rd) txb = Inr v \<and> Validate E R v = Inr cmds)"
  using update_accepts [OF assms] by (metis Update_parts updateTrie_validates)

section \<open>The indexer keeps up\<close>

lemma if_error: "(if b then Inl e else r) = Inr x \<longleftrightarrow> \<not> b \<and> r = Inr x"
  by simp

lemma if_Inr: "(if b then p else q) = Inr x \<longleftrightarrow> b \<and> p = Inr x \<or> \<not> b \<and> q = Inr x"
  by simp

lemma read_lengths:
  "AddressED25519FromBytes E d = Inr a \<Longrightarrow> length a = 32"
  "ChainLockFromBytes E d = Inr a \<Longrightarrow> length a = 32"
  "ChainConstraintFromBytes E d = Inr ch \<Longrightarrow> length (ch_ID ch) = 32"
  "AccountableFromBytes E R d = Inr acc \<Longrightarrow> length (accountable_data acc) = 32"
proof -
  show addr: "AddressED25519FromBytes E d = Inr a \<Longrightarrow> length a = 32" for a
    by (auto simp: AddressED25519FromBytes_def if_error)
  show "ChainLockFromBytes E d = Inr a \<Longrightarrow> length a = 32"
    by (auto simp: ChainLockFromBytes_def if_error)
  show "ChainConstraintFromBytes E d = Inr ch \<Longrightarrow> length (ch_ID ch) = 32"
    by (auto simp: ChainConstraintFromBytes_def if_error)
  show "AccountableFromBytes E R d = Inr acc \<Longrightarrow> length (accountable_data acc) = 32"
    unfolding AccountableFromBytes_def
    by (clarsimp split: option.splits) (metis accountable_data.simps(1) addr rmap_Inr_iff sum.distinct(1))
qed

lemma read_deadline:
  assumes "DeadlineLockFromBytes E R d = Inr dl"
  shows "length (accountable_data (dl_Main dl)) = 32 \<and> length (accountable_data (dl_Expiry dl)) = 32"
  using assms by (auto simp: DeadlineLockFromBytes_def if_error dest: read_lengths(4))

lemma tag_of_lock:
  assumes "LockFromBytes E R code = Inr lock" "tag \<in> set (IndexableTags lock)"
  shows "length (accountable_data tag) = 32"
proof -
  have "(\<exists>a. lock = Lock_AddressED25519 a \<and> AddressED25519FromBytes E code = Inr a)
      \<or> (\<exists>dl. lock = Lock_DeadlineLock dl \<and> DeadlineLockFromBytes E R code = Inr dl)
      \<or> (\<exists>a. lock = Lock_ChainLock a \<and> ChainLockFromBytes E code = Inr a)"
    using assms(1) unfolding LockFromBytes_def rbind_Inr_iff
    by (elim exE conjE) (simp only: if_Inr rmap_Inr_iff option.case_eq_if sum.distinct simp_thms, blast)
  then show ?thesis
    using assms(2) read_lengths(1,2) read_deadline by (elim disjE exE conjE) auto
qed

lemma account_id_short:
  assumes "compile_laws E" "length (accountable_data tag) = 32" "AccountID E tag = Inr acc"
  shows "length acc \<le> 255"
  using AccountID_compiles [OF assms(1,2)] assms(2,3) by (auto simp: compiles_to_def)

definition command_ok :: "Command \<Rightarrow> bool" where
  "command_ok cmd \<longleftrightarrow> is_ok (run_command cmd)"

lemma command_ok_iff:
  "command_ok cmd \<longleftrightarrow> length (cmd_ID cmd) \<le> 255
     \<and> (cmd_Partition cmd = PartitionAccount \<or> cmd_Partition cmd = PartitionChainID \<and> length (cmd_ID cmd) = 32)"
  by (auto simp: command_ok_def run_command_def PartitionAccount_def PartitionChainID_def)

lemma lock_commands:
  assumes "rfold (\<lambda>addr records. rbind (AccountID E addr) (\<lambda>acc. rbind r (\<lambda>oid.
         Inr (records @ [\<lparr>cmd_ID = acc, cmd_OutputID = oid, cmd_Delete = c, cmd_Partition = PartitionAccount\<rparr>]))))
       tags r0 = Inr cmds" "compile_laws E" "\<forall>tag \<in> set tags. length (accountable_data tag) = 32"
    "\<forall>cmd \<in> set r0. command_ok cmd"
  shows "\<forall>cmd \<in> set cmds. command_ok cmd"
  using assms
proof (induction tags arbitrary: r0)
  case Nil
  then show ?case by simp
next
  case (Cons tag tags)
  then obtain acc oid where acc: "AccountID E tag = Inr acc" "r = Inr oid" by auto
  let ?cmd = "\<lparr>cmd_ID = acc, cmd_OutputID = oid, cmd_Delete = c, cmd_Partition = PartitionAccount\<rparr>"
  have "length acc \<le> 255" using account_id_short [OF assms(2) _ acc(1)] Cons.prems(3) by simp
  then have "\<forall>cmd \<in> set (r0 @ [?cmd]). command_ok cmd" using Cons.prems(4) by (auto simp: command_ok_iff)
  then show ?case using Cons.IH [of "r0 @ [?cmd]"] Cons.prems(1-3) acc by simp
qed

lemma chain_commands:
  assumes "indexChain_loop E v idx c blocks r0 = Inr cmds" "easyfl_laws E" "\<forall>cmd \<in> set r0. command_ok cmd"
  shows "\<forall>cmd \<in> set cmds. command_ok cmd"
proof -
  have sum: "length (Sum256 E x) = 32" for x
    using assms(2) by (simp add: easyfl_laws_def crypto_laws_def)
  show ?thesis
    using assms(1,3)
  proof (induction blocks)
    case Nil
    then show ?case by simp
  next
    case (Cons b blocks)
    obtain i data where b: "b = (i, data)" by (cases b)
    show ?case
    proof (cases "i = ConstraintIndexAmount \<or> i = ConstraintIndexTimestamp \<or> i = ConstraintIndexLock")
      case True
      then show ?thesis using Cons b by simp
    next
      case False
      show ?thesis
      proof (cases "ChainConstraintFromBytes E data")
        case (Inl e)
        then show ?thesis using Cons b False by (cases e) simp_all
      next
        case (Inr ch)
        then have "length (ch_ID ch) = 32" by (rule read_lengths(3))
        then show ?thesis
          using Cons.prems b False Inr sum
          by (cases c) (auto simp: Let_def command_ok_iff PartitionChainID_def PartitionAccount_def if_Inr)
      qed
    qed
  qed
qed

lemma output_commands:
  assumes "createIndexEntries E R v idx (ArrayFromBytesMax data 256) c [] = Inr cmds" "easyfl_laws E" "compile_laws E"
  shows "\<forall>cmd \<in> set cmds. command_ok cmd"
proof -
  obtain r1 where r1: "indexLock E R v idx (ArrayFromBytesMax data 256) c [] = Inr r1"
    "indexChainID E v idx (ArrayFromBytesMax data 256) c r1 = Inr cmds"
    using assms(1) by (auto simp: createIndexEntries_def)
  obtain code lock where lock: "LockFromBytes E R code = Inr lock"
    "rfold (\<lambda>addr records. rbind (AccountID E addr) (\<lambda>acc.
         rbind (if c then InputID v idx else Inr (NewOutputID (tc_txid v) idx)) (\<lambda>oid.
         Inr (records @ [\<lparr>cmd_ID = acc, cmd_OutputID = oid, cmd_Delete = c, cmd_Partition = PartitionAccount\<rparr>]))))
       (IndexableTags lock) [] = Inr r1"
    using r1(1) by (auto simp: indexLock_def)
  have "\<forall>cmd \<in> set r1. command_ok cmd"
    using lock_commands [OF lock(2) assms(3)] tag_of_lock [OF lock(1)] by simp
  moreover obtain blocks where "indexChain_loop E v idx c blocks r1 = Inr cmds"
    using r1(2) by (auto simp: indexChainID_def)
  ultimately show ?thesis using chain_commands [OF _ assms(2)] by blast
qed

lemma branch_commands:
  assumes "validateOutputs E R v c r = Inr (tot, r')" "easyfl_laws E" "compile_laws E" "\<forall>cmd \<in> set r. command_ok cmd"
  shows "\<forall>cmd \<in> set r'. command_ok cmd"
proof -
  obtain n outs where "rfold (validate_output E R v c (branch_path c)) (enumerate n outs) (0, r) = Inr (tot, r')"
    using assms(1) by (auto simp: validateOutputs_def branch_path_eq Let_def)
  from validate_outputs_records [OF this] obtain css where css: "length css = length outs" "r' = r @ concat css"
    "\<forall>i < length outs. createIndexEntries E R v (of_nat (n + i)) (ArrayFromBytesMax (outs ! i) 256) c [] = Inr (css ! i)"
    by blast
  have "\<forall>cmd \<in> set (css ! i). command_ok cmd" if "i < length css" for i
    using output_commands [OF css(3) [rule_format] assms(2,3)] css(1) that by simp
  then show ?thesis using assms(4) css(2) by auto (metis in_set_conv_nth)
qed

lemma valid_commands:
  assumes "Validate E R v = Inr cmds" "easyfl_laws E" "compile_laws E"
  shows "\<exists>ws. rmapM run_command cmds = Inr ws"
proof -
  have "\<forall>cmd \<in> set cmds. command_ok cmd"
    by (rule Validate_parts [OF assms(1)]) (use branch_commands [OF _ assms(2,3)] in fastforce)
  then show ?thesis
    by (induction cmds) (auto simp: command_ok_def is_ok_iff)
qed

definition kv_reliable :: "'i kv_store \<Rightarrow> bool" where
  \<comment> \<open>a commit to the indexer's store never fails\<close>
  "kv_reliable K \<longleftrightarrow> (\<forall>ws s. fst (kv_Commit K ws s) = Inr ())"

lemma indexer_follows:
  assumes "env_laws W" "kv_reliable (su_kv W)"
    "Update (su_trie W) (su_easyfl W) (su_registry W) txb (db_state u) = (Inr cmds, st)"
  shows "\<exists>ind. AddTransaction W txb u = (Inr (), u\<lparr>db_state := st, db_indexer := ind\<rparr>)"
proof -
  have laws: "easyfl_laws (su_easyfl W)" "compile_laws (su_easyfl W)" using assms(1) by (simp_all add: env_laws_def)
  obtain v where "Validate (su_easyfl W) (su_registry W) v = Inr cmds"
    using Update_parts [OF assms(3)] updateTrie_validates by metis
  then obtain ws where "rmapM run_command cmds = Inr ws" using valid_commands laws by blast
  then have "fst (indexer_Update (su_kv W) cmds (db_indexer u)) = Inr ()"
    using assms(2) by (simp add: indexer_Update_def kv_reliable_def)
  then show ?thesis
    by (cases "indexer_Update (su_kv W) cmds (db_indexer u)") (auto simp: AddTransaction_def assms(3))
qed

text \<open>
  C16 (indexer_never_lags): \<^verbatim>\<open>AddTransaction\<close> updates the ledger state first and the indexer after it. With a
  reliable indexer store it can only fail in the first step: every command that a successful update
  returns can be run, so that the index is never left behind the ledger.
\<close>

theorem indexer_never_lags:
  assumes "env_laws W" "kv_reliable (su_kv W)"
  shows "(\<exists>u'. AddTransaction W txb u = (Inr (), u')) \<longleftrightarrow>
    (\<exists>cmds st. Update (su_trie W) (su_easyfl W) (su_registry W) txb (db_state u) = (Inr cmds, st))"
  using indexer_follows [OF assms] AddTransaction_parts by metis

section \<open>A transfer reaches the ledger\<close>

lemma context_outputs:
  assumes "context_of v txb ids ins"
  shows "elems_at (tc_tree v) PathToProducedOutputs =
    rbind (rbind (parse_node txb) (\<lambda>parts. nth_res parts (unat TxOutputs))) parse_node"
proof -
  have inv: "tree_inv (tc_tree v)" using assms by (simp add: context_of_def)
  have root: "tree_at (tc_tree v) ([] @ [TransactionBranch]) = Inr txb"
    using assms by (simp add: context_of_def reads_tree [OF inv])
  have "elems_at (tc_tree v) PathToProducedOutputs = tree_elements_at (tc_tree v) ([TransactionBranch] @ [TxOutputs])"
    by (simp add: reads_tree [OF inv] path_defs)
  then show ?thesis
    using root unfolding tree_elements_at_snoc [of _ "[TransactionBranch]"] tree_at_snoc [of _ "[TransactionBranch]"]
      tree_elements_at_snoc [of _ "[]", simplified append_Nil]
    by simp
qed

lemma produced_last:
  assumes "outs \<noteq> []" "length outs \<le> 256"
  shows "produced txid outs (NewOutputID txid (of_nat (length outs - 1))) = Some (last outs)"
proof -
  have "length outs - 1 < length outs" using assms(1) by simp
  then show ?thesis
    unfolding produced_Some [OF assms(2)] using assms(1) by (metis last_conv_nth)
qed

lemma transfer_moves:
  assumes "easyfl_laws E" "compile_laws E" "runs_library E" "init_constraints E = Inr R" "signer_laws E S"
    "trie_laws T" "store_reliable T" "Updatable_Readable T u = Inr rd" "transfer_ready E S (GetUTXO T rd) par lock a"
  shows "\<exists>txb outs cmds u' o' ts. MakeSimpleTransferTransactionOutputs E S now par = Inr (txb,
        map (\<lambda>(i, d). \<lparr>od_ID = NewOutputID (Sum256 E txb) (of_nat i), od_OutputData = d\<rparr>) (enumerate 0 outs))
    \<and> Update T E R txb u = (Inr cmds, u') \<and> set (tx_inputs txb) \<subseteq> set (map ow_ID (tf_Outputs par))
    \<and> utxos T u' = (utxos T u |` (- set (tx_inputs txb))) ++ produced (Sum256 E txb) outs
    \<and> (\<forall>X. fold account_step cmds X = (X - tagged (lock_accounts E R) (utxos T u |` set (tx_inputs txb)))
         \<union> tagged (lock_accounts E R) (produced (Sum256 E txb) outs))
    \<and> (\<forall>cmd \<in> set cmds. length (cmd_OutputID cmd) = OutputIDLength)
    \<and> outs \<noteq> [] \<and> length outs \<le> 2 \<and> basic_output E (tf_Amount par) ts lock o' (last outs)"
proof -
  obtain txb outs v cmds o' ts ids ins where tx: "MakeSimpleTransferTransactionOutputs E S now par = Inr (txb,
        map (\<lambda>(i, d). \<lparr>od_ID = NewOutputID (Sum256 E txb) (of_nat i), od_OutputData = d\<rparr>) (enumerate 0 outs))"
    "TransactionContextFromTransferableBytes E (GetUTXO T rd) txb = Inr v" "Validate E R v = Inr cmds"
    "elems_at (tc_tree v) PathToProducedOutputs = Inr outs" "outs \<noteq> []" "length outs \<le> 2"
    "basic_output E (tf_Amount par) ts lock o' (last outs)"
    and ctx: "context_of v txb ids ins" "set ids \<subseteq> set (map ow_ID (tf_Outputs par))"
    using simple_transfer [OF assms(1-5,9), of now] by blast
  obtain u' where u': "Update T E R txb u = (Inr cmds, u')"
    using update_accepts [OF assms(6-8) tx(2,3)] by blast
  obtain v' ins' outs' where new: "context_of v' txb (tx_inputs txb) ins'" "Validate E R v' = Inr cmds"
    "tc_txid v' = Sum256 E txb" "map (utxos T u) (tx_inputs txb) = map Some ins'"
    "elems_at (tc_tree v') PathToProducedOutputs = Inr outs'" "length outs' \<le> 256"
    "utxos T u' = (utxos T u |` (- set (tx_inputs txb))) ++ produced (Sum256 E txb) outs'"
    by (rule Update_context [OF assms(6) u' assms(1)])
  have same: "outs' = outs" using context_outputs [OF new(1)] context_outputs [OF ctx(1)] new(5) tx(4) by (metis sum.inject(2))
  have "length (tc_txid v') = 32" using assms(1) new(3) by (simp add: easyfl_laws_def crypto_laws_def)
  note index = validate_reindexes [OF new(2,1) this new(5,6,4), unfolded same new(3)]
  have "set (tx_inputs txb) \<subseteq> set (map ow_ID (tf_Outputs par))" using context_inputs [OF ctx(1)] ctx(2) by simp
  with index tx(1,5-7) u' new(7) show ?thesis unfolding same by blast
qed

lemma transfer_reaches:
  assumes "easyfl_laws E" "compile_laws E" "runs_library E" "init_constraints E = Inr R" "signer_laws E S"
    "trie_laws T" "store_reliable T" "Updatable_Readable T u = Inr rd" "transfer_ready E S (GetUTXO T rd) par lock a"
  shows "\<exists>txb retOuts cmds u' o' ts. MakeSimpleTransferTransactionOutputs E S now par = Inr (txb, retOuts)
    \<and> Update T E R txb u = (Inr cmds, u') \<and> retOuts \<noteq> []
    \<and> utxos T u' (od_ID (last retOuts)) = Some (od_OutputData (last retOuts))
    \<and> basic_output E (tf_Amount par) ts lock o' (od_OutputData (last retOuts))"
proof -
  obtain txb outs cmds u' o' ts where tx: "MakeSimpleTransferTransactionOutputs E S now par = Inr (txb,
        map (\<lambda>(i, d). \<lparr>od_ID = NewOutputID (Sum256 E txb) (of_nat i), od_OutputData = d\<rparr>) (enumerate 0 outs))"
    "Update T E R txb u = (Inr cmds, u')"
    "utxos T u' = (utxos T u |` (- set (tx_inputs txb))) ++ produced (Sum256 E txb) outs"
    "outs \<noteq> []" "length outs \<le> 2" "basic_output E (tf_Amount par) ts lock o' (last outs)"
    using transfer_moves [OF assms, of now] by (elim exE conjE) (rule that)
  then have "utxos T u' (NewOutputID (Sum256 E txb) (of_nat (length outs - 1))) = Some (last outs)"
    using produced_last [OF tx(4)] by simp
  then show ?thesis
    using tx by (fastforce simp: last_map last_enumerate enumerate_Nil_iff)
qed

text \<open>
  Under the conditions of a well-funded simple transfer, the transaction
  that the builder makes from the outputs of a ledger is accepted by that ledger, and afterwards the
  ledger holds, under the id the builder reports, an output of the target amount under the target lock.
\<close>

theorem transfer_reaches_ledger:
  assumes "easyfl_laws E" "compile_laws E" "runs_library E" "init_constraints E = Inr R" "signer_laws E S"
    "trie_laws T" "store_reliable T" "Updatable_Readable T u = Inr rd" "transfer_ready E S (GetUTXO T rd) par lock a"
  shows "\<exists>txb retOuts cmds u' o' ts. MakeSimpleTransferTransactionOutputs E S now par = Inr (txb, retOuts)
    \<and> Update T E R txb u = (Inr cmds, u') \<and> retOuts \<noteq> []
    \<and> utxos T u' (od_ID (last retOuts)) = Some (od_OutputData (last retOuts))
    \<and> basic_output E (tf_Amount par) ts lock o' (od_OutputData (last retOuts))"
  by (rule transfer_reaches [OF assms])

end
