(* ===== verification/Demo.thy ===== *)
theory Demo
  imports RefEngine Acceptance
begin

text \<open>
  The parameters of the model put together: the reference engine, a ledger and an indexer store in
  memory, a signature scheme and a sort. The laws that the theorems ask for hold of them, and a
  database that starts with them accepts a transfer. The witnesses are evaluated here.
\<close>

section \<open>The parameters\<close>

text \<open>A signature is the hash of the message and of the public key; the public key is the hash of the private one.\<close>

definition demo_signer :: "bytes signer" where
  "demo_signer = \<lparr>sg_Sign = (\<lambda>k m. ref_sum m @ ref_sum (ref_sum k)), sg_Public = ref_sum\<rparr>"

lemma demo_signer_laws: "signer_laws ref_easyfl demo_signer"
  by (simp add: signer_laws_def demo_signer_def ref_verify_def)

text \<open>The indexer store is an association list.\<close>

definition put_pair :: "bytes \<times> bytes \<Rightarrow> contents \<Rightarrow> contents" where
  "put_pair kv t = kv # filter (\<lambda>(k, _). k \<noteq> fst kv) t"

definition demo_kv :: "contents kv_store" where
  "demo_kv =
     \<lparr>kv_Get = assoc_get,
      kv_Iterate = (\<lambda>s p. map (\<lambda>k. (k, assoc_get s k))
        (filter (\<lambda>k. is_prefix p k \<and> assoc_get s k \<noteq> []) (remdups (map fst s)))),
      kv_Commit = (\<lambda>ws s. (Inr (), fold put_pair ws s))\<rparr>"

lemma put_pair_get: "assoc_get (put_pair (k, v) t) = (assoc_get t)(k := v)"
  by (intro ext) (simp add: put_pair_def assoc_get_Cons assoc_get_filter)

lemma put_pairs_get: "assoc_get (fold put_pair ws t) = apply_writes ws (assoc_get t)"
proof (induction ws arbitrary: t)
  case (Cons w ws)
  then show ?case by (cases w) (simp add: put_pair_get del: fun_upd_apply)
qed simp

lemma demo_kv_laws: "kv_laws demo_kv"
proof -
  have "set (kv_Iterate demo_kv s p) = {(k, v). is_prefix p k \<and> v = assoc_get s k \<and> v \<noteq> []}" for s p
  proof -
    define ks where "ks = map fst s"
    have "k \<in> set ks" if "assoc_get s k \<noteq> []" for k using assoc_get_present that by (simp add: ks_def del: set_map)
    then show ?thesis by (auto simp: demo_kv_def simp flip: ks_def)
  qed
  moreover have "distinct (map fst (kv_Iterate demo_kv s p))" for s p
    by (simp add: demo_kv_def comp_def)
  ultimately show ?thesis by (simp add: kv_laws_def) (simp add: demo_kv_def put_pairs_get)
qed

lemma demo_kv_reliable: "kv_reliable demo_kv"
  by (simp add: kv_reliable_def demo_kv_def)

fun insert_by :: "('a \<Rightarrow> 'a \<Rightarrow> bool) \<Rightarrow> 'a \<Rightarrow> 'a list \<Rightarrow> 'a list" where
  "insert_by lt x [] = [x]"
| "insert_by lt x (y # ys) = (if lt y x then y # insert_by lt x ys else x # y # ys)"

definition demo_sort :: "'a sorter" where
  "demo_sort lt xs = foldr (insert_by lt) xs []"

lemma insert_by_mset: "mset (insert_by lt x ys) = add_mset x (mset ys)"
  by (induction ys) simp_all

lemma insert_by_up:
  "sorted (map key ys) \<Longrightarrow> sorted (map key (insert_by (\<lambda>x y. key x < (key y :: nat)) x ys))"
proof (induction ys)
  case (Cons y ys)
  have "set (insert_by (\<lambda>x y. key x < key y) x ys) = insert x (set ys)"
    using insert_by_mset [of "\<lambda>x y. key x < key y" x ys] by (metis set_mset_mset set_mset_add_mset_insert)
  then show ?case using Cons by auto
qed simp

lemma insert_by_down:
  "sorted_wrt (\<ge>) (map key ys) \<Longrightarrow> sorted_wrt (\<ge>) (map key (insert_by (\<lambda>x y. key x > (key y :: nat)) x ys))"
proof (induction ys)
  case (Cons y ys)
  have "set (insert_by (\<lambda>x y. key x > key y) x ys) = insert x (set ys)"
    using insert_by_mset [of "\<lambda>x y. key x > key y" x ys] by (metis set_mset_mset set_mset_add_mset_insert)
  then show ?case using Cons by auto
qed simp

lemma demo_sort_laws: "sort_laws demo_sort"
proof -
  have "mset (demo_sort lt xs) = mset xs" for lt :: "'a \<Rightarrow> 'a \<Rightarrow> bool" and xs
    by (induction xs) (simp_all add: demo_sort_def insert_by_mset)
  moreover have "sorted (map key (demo_sort (\<lambda>x y. key x < key y) xs))" for key :: "'a \<Rightarrow> nat" and xs
    by (induction xs) (simp_all add: demo_sort_def insert_by_up)
  moreover have "sorted_wrt (\<ge>) (map key (demo_sort (\<lambda>x y. key x > key y) xs))" for key :: "'a \<Rightarrow> nat" and xs
    by (induction xs) (simp_all add: demo_sort_def insert_by_down)
  ultimately show ?thesis by (simp add: sort_laws_def sorted_wrt_rev)
qed

definition demo_registry :: registry where
  "demo_registry = registry_of ref_easyfl std_entries"

lemma demo_init: "init_constraints ref_easyfl = Inr demo_registry"
  unfolding demo_registry_def by (rule init_constraints_std [OF ref_laws ref_compiles])

definition demo_env :: "(contents list, contents, contents, contents) environment" where
  "demo_env =
     \<lparr>su_easyfl = ref_easyfl, su_registry = demo_registry, su_trie = mem_trie, su_kv = demo_kv, su_newKV = [],
      su_signer = demo_signer, su_NewKeyFromSeed = ref_sum, su_sort = demo_sort\<rparr>"

lemma demo_env_laws: "env_laws demo_env"
  using ref_laws ref_compiles demo_init mem_trie_laws demo_kv_laws demo_sort_laws
  by (simp add: env_laws_def demo_env_def) (simp add: demo_kv_def assoc_get_def fun_eq_iff)

section \<open>Reading an output back\<close>

lemma demo_env_parts:
  "su_easyfl demo_env = ref_easyfl" "su_registry demo_env = demo_registry" "su_trie demo_env = mem_trie"
  "su_kv demo_env = demo_kv" "su_signer demo_env = demo_signer"
  by (simp_all add: demo_env_def)

section \<open>The database at genesis\<close>

definition demo_key :: bytes where
  "demo_key = projr (DecodeString originPrivateKey)"

definition demo_address :: AddressED25519 where
  "demo_address = ref_sum (ref_sum demo_key)"

definition demo_db0 :: "(contents list, contents, contents) UTXODB" where
  "demo_db0 = projr (NewUTXODB demo_env 1000)"

lemma demo_key_read: "DecodeString originPrivateKey = Inr demo_key"
proof -
  have "is_ok (DecodeString originPrivateKey)" by code_simp
  then show ?thesis by (auto simp: is_ok_iff demo_key_def)
qed

lemma demo_lengths [simp]: "length demo_address = 32"
  by (simp add: demo_address_def)

lemma demo_genesis_output:
  "\<exists>out ca ct cl. genesisOutput ref_easyfl n demo_address ts = Inr out \<and> out \<noteq> []
    \<and> parseArray out 256 = Inr [ca, ct, cl] \<and> Amount_Bytes ref_easyfl n = Inr ca
    \<and> Timestamp_Bytes ref_easyfl ts = Inr ct \<and> AddressED25519_Bytes ref_easyfl demo_address = Inr cl"
  using genesisOutput_ok [OF ref_laws ref_compiles, of demo_address n ts] by auto

lemma demo_ledger_starts:
  "\<exists>root s. InitLedgerState mem_trie ref_easyfl (tm_NewStore mem_trie) (ascii utxodbIdentity) supplyForTesting
      demo_address 1000 = Inr (root, s) \<and> NewUpdatable mem_trie s root = Inr \<lparr>up_store = s, up_root = root\<rparr>"
proof -
  obtain out where "genesisOutput ref_easyfl supplyForTesting demo_address 1000 = Inr out"
    using demo_genesis_output by blast
  then show ?thesis
    by (simp add: InitLedgerState_def NewUpdatable_def mem_trie_def open_contents_def)
qed

lemma demo_genesis: "NewUTXODB demo_env 1000 = Inr demo_db0"
proof -
  obtain cl where cl: "AddressED25519_Bytes ref_easyfl demo_address = Inr cl"
    using demo_genesis_output by blast
  have "\<exists>s. InitIndexer ref_easyfl demo_kv demo_address [] = (Inr (), s)"
    by (simp add: InitIndexer_def cl) (simp add: demo_kv_def)
  moreover have addr: "AddressED25519FromPublicKey ref_easyfl (sg_Public demo_signer demo_key) = demo_address"
    by (simp add: AddressED25519FromPublicKey_def demo_signer_def demo_address_def)
  ultimately have "is_ok (NewUTXODB demo_env 1000)"
    using demo_ledger_starts demo_key_read by (auto simp: NewUTXODB_def demo_env_def Let_def)
  then show ?thesis by (auto simp: is_ok_iff demo_db0_def)
qed

definition demo_out :: bytes where
  "demo_out = projr (genesisOutput ref_easyfl supplyForTesting demo_address 1000)"

definition demo_rd :: "contents Readable" where
  "demo_rd = projr (Updatable_Readable mem_trie (db_state demo_db0))"

lemma demo_start:
  obtains root s where "InitLedgerState mem_trie ref_easyfl (tm_NewStore mem_trie) (ascii utxodbIdentity)
      supplyForTesting demo_address 1000 = Inr (root, s)" "NewUpdatable mem_trie s root = Inr (db_state demo_db0)"
    "InitIndexer ref_easyfl demo_kv demo_address [] = (Inr (), db_indexer demo_db0)"
proof -
  obtain root s where st: "InitLedgerState mem_trie ref_easyfl (tm_NewStore mem_trie) (ascii utxodbIdentity)
      supplyForTesting demo_address 1000 = Inr (root, s)"
    "NewUpdatable mem_trie s root = Inr \<lparr>up_store = s, up_root = root\<rparr>"
    using demo_ledger_starts by blast
  have addr: "AddressED25519FromPublicKey ref_easyfl (sg_Public demo_signer demo_key) = demo_address"
    by (simp add: AddressED25519FromPublicKey_def demo_signer_def demo_address_def)
  obtain cl where "AddressED25519_Bytes ref_easyfl demo_address = Inr cl" using demo_genesis_output by blast
  then obtain ind where ind: "InitIndexer ref_easyfl demo_kv demo_address [] = (Inr (), ind)"
    by (simp add: InitIndexer_def) (simp add: demo_kv_def)
  then have "NewUTXODB demo_env 1000 = Inr \<lparr>db_state = \<lparr>up_store = s, up_root = root\<rparr>, db_indexer = ind, db_root = root,
      db_supply = supplyForTesting, db_genesisPrivateKey = demo_key,
      db_genesisPublicKey = sg_Public demo_signer demo_key, db_genesisAddress = demo_address\<rparr>"
    using demo_key_read st addr by (simp add: demo_env_def NewUTXODB_def Let_def)
  then have db: "demo_db0 = \<lparr>db_state = \<lparr>up_store = s, up_root = root\<rparr>, db_indexer = ind, db_root = root,
      db_supply = supplyForTesting, db_genesisPrivateKey = demo_key,
      db_genesisPublicKey = sg_Public demo_signer demo_key, db_genesisAddress = demo_address\<rparr>"
    using demo_genesis by simp
  have "db_state demo_db0 = \<lparr>up_store = s, up_root = root\<rparr>" "db_indexer demo_db0 = ind" unfolding db by simp_all
  then show ?thesis using that st ind by simp
qed

lemma demo_books:
  shows "Updatable_Readable mem_trie (db_state demo_db0) = Inr demo_rd"
    and "utxos mem_trie (db_state demo_db0) = [GenesisOutputID \<mapsto> demo_out]"
    and "GetUTXO mem_trie demo_rd GenesisOutputID = Some demo_out"
    and "genesisOutput ref_easyfl supplyForTesting demo_address 1000 = Inr demo_out"
proof -
  obtain root s where st: "InitLedgerState mem_trie ref_easyfl (tm_NewStore mem_trie) (ascii utxodbIdentity)
      supplyForTesting demo_address 1000 = Inr (root, s)" "NewUpdatable mem_trie s root = Inr (db_state demo_db0)"
    by (rule demo_start)
  note g = genesis_state [OF ref_laws ref_compiles mem_trie_laws demo_lengths st]
  show rd: "Updatable_Readable mem_trie (db_state demo_db0) = Inr demo_rd"
    using g(1) by (auto simp: ledger_ok_def is_ok_iff demo_rd_def)
  show out: "genesisOutput ref_easyfl supplyForTesting demo_address 1000 = Inr demo_out"
    using g(2) by (auto simp: demo_out_def)
  show u: "utxos mem_trie (db_state demo_db0) = [GenesisOutputID \<mapsto> demo_out]"
    using g(2) out by auto
  have "length GenesisOutputID = OutputIDLength" by (simp add: GenesisOutputID_def id_lengths)
  then show "GetUTXO mem_trie demo_rd GenesisOutputID = Some demo_out"
    using fun_cong [OF u, of GenesisOutputID] rd by (simp add: utxos_def)
qed

section \<open>Two transfers from the genesis output\<close>

definition demo_input :: OutputWithID where
  "demo_input = \<lparr>ow_ID = GenesisOutputID, ow_Output = arr_loaded (ArrayFromBytesMax demo_out 256)\<rparr>"

definition demo_transfer :: "64 word \<Rightarrow> bytes TransferData" where
  "demo_transfer amount =
     WithOutputs [demo_input] (WithTargetLock (Lock_AddressED25519 (replicate 32 7))
       (TransferWithAmount amount False (NewTransferData ref_easyfl demo_signer demo_key None 0)))"

lemma demo_basic:
  "basic_output ref_easyfl supplyForTesting 1000 (Lock_AddressED25519 demo_address) (ow_Output demo_input) demo_out"
proof -
  obtain ca ct cl where "parseArray demo_out 256 = Inr [ca, ct, cl]" "Amount_Bytes ref_easyfl supplyForTesting = Inr ca"
    "Timestamp_Bytes ref_easyfl 1000 = Inr ct" "AddressED25519_Bytes ref_easyfl demo_address = Inr cl"
    using demo_genesis_output [of supplyForTesting 1000] demo_books(4) by auto
  then show ?thesis by (simp add: demo_input_def reread_basic)
qed

lemma demo_own: "simple_lock (Lock_AddressED25519 demo_address)"
  by (auto simp: simple_lock_def)

lemma demo_spendable: "spendable ref_easyfl (GetUTXO mem_trie demo_rd) (Lock_AddressED25519 demo_address) demo_input"
proof -
  have "length demo_out \<le> minTransferAmount" by (rule basic_output_size [OF ref_compiles demo_own demo_basic])
  then have "length demo_out \<le> unat supplyForTesting" by (simp add: minTransferAmount_def supplyForTesting_def)
  moreover have "(1000 :: 32 word) < - 1" by simp
  moreover have "GetUTXO mem_trie demo_rd (ow_ID demo_input) = Some demo_out"
    using demo_books(3) by (simp add: demo_input_def)
  moreover have "length (ow_ID demo_input) = OutputIDLength"
    by (simp add: demo_input_def GenesisOutputID_def id_lengths)
  ultimately show ?thesis unfolding spendable_def using demo_basic by blast
qed

lemma demo_amount: "ow_amount ref_easyfl demo_input = supplyForTesting"
  using basic_output_reads(1) [OF ref_laws ref_compiles demo_own demo_basic] by (simp add: ow_amount_def)

lemma demo_ready:
  assumes "106 \<le> unat n" "unat n \<le> 100000"
  shows "transfer_ready ref_easyfl demo_signer (GetUTXO mem_trie demo_rd) (demo_transfer n)
    (Lock_AddressED25519 (replicate 32 7)) demo_address"
proof -
  have addr: "demo_address = Sum256 ref_easyfl (sg_Public demo_signer demo_key)"
    by (simp add: demo_address_def demo_signer_def)
  have total: "ows_total ref_easyfl (take k [demo_input]) = (if k = 0 then 0 else 1000000000000)" for k
    by (cases k) (simp_all add: ows_total_def demo_amount supplyForTesting_def)
  have all: "ows_total ref_easyfl [demo_input] = 1000000000000"
    by (simp add: ows_total_def demo_amount supplyForTesting_def)
  have "simple_lock (Lock_AddressED25519 (replicate 32 7))" by (auto simp: simple_lock_def)
  then show ?thesis
    using assms demo_spendable addr
    by (simp add: transfer_ready_def demo_transfer_def WithOutputs_def WithTargetLock_def TransferWithAmount_def
        NewTransferData_def AddressED25519FromPublicKey_def total all minTransferAmount_def)
qed

lemma demo_transfer_made:
  assumes "106 \<le> unat n" "unat n \<le> 100000"
  shows "\<exists>txb outs v records. MakeSimpleTransferTransactionOutputs ref_easyfl demo_signer now (demo_transfer n) = Inr (txb, outs)
    \<and> TransactionContextFromTransferableBytes ref_easyfl (GetUTXO mem_trie demo_rd) txb = Inr v
    \<and> Validate ref_easyfl demo_registry v = Inr records \<and> tx_inputs txb = [GenesisOutputID]
    \<and> (\<exists>os o' ts. elems_at (tc_tree v) PathToProducedOutputs = Inr os
        \<and> basic_output ref_easyfl n ts (Lock_AddressED25519 (replicate 32 7)) o' (last os) \<and> os \<noteq> [] \<and> length os \<le> 2)"
proof -
  obtain txb outs v records o' ts ids ins where tx: "MakeSimpleTransferTransactionOutputs ref_easyfl demo_signer now (demo_transfer n)
      = Inr (txb, map (\<lambda>(i, d). \<lparr>od_ID = NewOutputID (Sum256 ref_easyfl txb) (of_nat i), od_OutputData = d\<rparr>) (enumerate 0 outs))"
    "TransactionContextFromTransferableBytes ref_easyfl (GetUTXO mem_trie demo_rd) txb = Inr v"
    "Validate ref_easyfl demo_registry v = Inr records" "elems_at (tc_tree v) PathToProducedOutputs = Inr outs"
    "context_of v txb ids ins" "ids \<noteq> []" "set ids \<subseteq> set (map ow_ID (tf_Outputs (demo_transfer n)))"
    "outs \<noteq> []" "length outs \<le> 2"
    "basic_output ref_easyfl (tf_Amount (demo_transfer n)) ts (Lock_AddressED25519 (replicate 32 7)) o' (last outs)"
    using simple_transfer [OF ref_laws ref_compiles ref_runs demo_init demo_signer_laws demo_ready [OF assms], of now] by blast
  have "set ids \<subseteq> {GenesisOutputID}" "distinct ids"
    using tx(5,7) by (simp_all add: demo_transfer_def WithOutputs_def demo_input_def context_of_def)
  then have "ids = [GenesisOutputID]" using tx(6) by (cases ids; cases "tl ids") auto
  then have "tx_inputs txb = [GenesisOutputID]" using context_inputs [OF tx(5)] by simp
  moreover have "tf_Amount (demo_transfer n) = n"
    by (simp add: demo_transfer_def WithOutputs_def WithTargetLock_def TransferWithAmount_def)
  ultimately show ?thesis using tx by auto
qed

definition demo_tx :: "64 word \<Rightarrow> bytes" where
  "demo_tx n = fst (projr (MakeSimpleTransferTransactionOutputs ref_easyfl demo_signer 2000 (demo_transfer n)))"

definition demo_ctx :: "64 word \<Rightarrow> TransactionContext" where
  "demo_ctx n = projr (TransactionContextFromTransferableBytes ref_easyfl (GetUTXO mem_trie demo_rd) (demo_tx n))"

definition demo_cmds :: "64 word \<Rightarrow> Command list" where
  "demo_cmds n = projr (Validate ref_easyfl demo_registry (demo_ctx n))"

lemma demo_tx:
  assumes "106 \<le> unat n" "unat n \<le> 100000"
  shows "TransactionContextFromTransferableBytes ref_easyfl (GetUTXO mem_trie demo_rd) (demo_tx n) = Inr (demo_ctx n)"
    and "Validate ref_easyfl demo_registry (demo_ctx n) = Inr (demo_cmds n)"
    and "tx_inputs (demo_tx n) = [GenesisOutputID]"
    and "tx_inputs (demo_tx n) \<noteq> []"
  using demo_transfer_made [OF assms, of 2000] by (auto simp: demo_tx_def demo_ctx_def demo_cmds_def)

definition demo_db1 :: "(contents list, contents, contents) UTXODB" where
  "demo_db1 = snd (AddTransaction demo_env (demo_tx 5000) demo_db0)"

lemma demo_update:
  assumes "106 \<le> unat n" "unat n \<le> 100000"
  shows "\<exists>u'. Update mem_trie ref_easyfl demo_registry (demo_tx n) (db_state demo_db0) = (Inr (demo_cmds n), u')"
  by (rule update_accepts [OF mem_trie_laws mem_trie_reliable demo_books(1) demo_tx(1,2) [OF assms]])

lemma demo_add: "AddTransaction demo_env (demo_tx 5000) demo_db0 = (Inr (), demo_db1)"
proof -
  obtain st where "Update mem_trie ref_easyfl demo_registry (demo_tx 5000) (db_state demo_db0) = (Inr (demo_cmds 5000), st)"
    using demo_update [of 5000] by auto
  then have up: "Update (su_trie demo_env) (su_easyfl demo_env) (su_registry demo_env) (demo_tx 5000) (db_state demo_db0)
      = (Inr (demo_cmds 5000), st)"
    by (simp add: demo_env_def)
  have "kv_reliable (su_kv demo_env)" using demo_kv_reliable by (simp add: demo_env_def)
  from indexer_follows [OF demo_env_laws this up] show ?thesis by (auto simp: demo_db1_def)
qed

lemma demo_state1:
  "Update mem_trie ref_easyfl demo_registry (demo_tx 5000) (db_state demo_db0) = (Inr (demo_cmds 5000), db_state demo_db1)"
proof -
  obtain cmds st ind where up: "Update mem_trie ref_easyfl demo_registry (demo_tx 5000) (db_state demo_db0) = (Inr cmds, st)"
    and db: "demo_db1 = demo_db0\<lparr>db_state := st, db_indexer := ind\<rparr>"
    by (rule AddTransaction_parts [OF demo_add]) (simp add: demo_env_def)
  have "db_state demo_db1 = st" unfolding db by simp
  then show ?thesis using demo_update [of 5000] up by auto
qed

lemma demo_db_run: "ledger_run (db_step demo_env) demo_db0 [demo_tx 5000] demo_db1"
  by (rule ledger_run.run_step [OF ledger_run.run_start]) (simp add: db_step_def demo_add)

lemma demo_ledger_run:
  "ledger_run (ledger_step mem_trie ref_easyfl demo_registry) (db_state demo_db0) [demo_tx 5000] (db_state demo_db1)"
  by (rule ledger_run.run_step [OF ledger_run.run_start]) (auto simp: ledger_step_def demo_state1)

text \<open>The transaction does not hash to the id of the genesis transaction: the hash keeps the first bytes.\<close>

lemma zeros_parse:
  assumes "parseArray d mx = Inr xs" "ref_sum d = replicate 32 0"
  shows "xs = []"
proof -
  have "\<not> length d < 2" using assms(1) by (auto simp: parseArray_def)
  then obtain x y r where d: "d = x # y # r" by (cases d; cases "tl d") auto
  have "x = 0" "y = 0" using assms(2) by (simp_all add: ref_sum_def d numeral_eq_Suc)
  then have "get_u16 (take 2 d) = 0" by (simp add: d get_u16_def be_val_def)
  then show ?thesis
    using assms(1) by (auto simp: parseArray_def numElements_def Let_def split: if_splits)
qed

lemma demo_not_genesis:
  assumes "106 \<le> unat n" "unat n \<le> 100000"
  shows "replicate TransactionIDLength 0 \<notin> Sum256 ref_easyfl ` set [demo_tx n]"
proof
  assume "replicate TransactionIDLength 0 \<in> Sum256 ref_easyfl ` set [demo_tx n]"
  then have z: "ref_sum (demo_tx n) = replicate 32 0" by (simp add: id_lengths)
  have "\<exists>parts. parseArray (demo_tx n) 256 = Inr parts \<and> parts \<noteq> []"
    using demo_tx(4) [OF assms] by (auto simp: tx_inputs_def tx_elements_def parse_node_256 path_defs nth_res_def split: sum.splits if_splits)
  then show False using zeros_parse z by blast
qed

lemma demo_ctx_of:
  assumes "106 \<le> unat n" "unat n \<le> 100000"
  shows "context_of (demo_ctx n) (demo_tx n) [GenesisOutputID] [demo_out]"
    and "tc_txid (demo_ctx n) = Sum256 ref_easyfl (demo_tx n)"
proof -
  obtain ids ins where c: "context_of (demo_ctx n) (demo_tx n) ids ins" "map (GetUTXO mem_trie demo_rd) ids = map Some ins"
    "tc_txid (demo_ctx n) = Sum256 ref_easyfl (demo_tx n)"
    using context_from_bytes [OF demo_tx(1) [OF assms]] by blast
  have "ids = [GenesisOutputID]" using context_inputs [OF c(1)] demo_tx(3) [OF assms] by simp
  then show "context_of (demo_ctx n) (demo_tx n) [GenesisOutputID] [demo_out]"
    using c(1,2) demo_books(3) by auto
  show "tc_txid (demo_ctx n) = Sum256 ref_easyfl (demo_tx n)" by (rule c(3))
qed

lemma demo_elems:
  "elems_at (tc_tree (demo_ctx 5000)) PathToInputIDs = Inr [GenesisOutputID]"
  "elems_at (tc_tree (demo_ctx 5000)) PathToConsumedOutputs = Inr [demo_out]"
  "tree_inv (tc_tree (demo_ctx 5000))"
  using demo_ctx_of(1) [of 5000] by (simp_all add: context_of_def)

lemma demo_produced:
  obtains outs where "elems_at (tc_tree (demo_ctx 5000)) PathToProducedOutputs = Inr outs"
  using valid_context_outputs [OF demo_ctx_of(1) demo_tx(2), of 5000] by auto

lemma demo_lock:
  obtains ca ct cl where "parseArray demo_out 256 = Inr [ca, ct, cl]" "locked_by_address ref_easyfl cl demo_address"
    "AddressED25519_Bytes ref_easyfl demo_address = Inr cl"
proof -
  obtain ca ct cl where b: "parseArray demo_out 256 = Inr [ca, ct, cl]" "AddressED25519_Bytes ref_easyfl demo_address = Inr cl"
    using demo_basic by (auto simp: basic_output_def)
  have "demo_address \<noteq> []" "length demo_address \<le> 127" using demo_lengths by (auto simp del: demo_lengths)
  from AddressED25519_compiles [OF ref_compiles this]
  have "compiles_to ref_easyfl (Inr cl) ''addressED25519'' [L_hex demo_address]" using b(2) by simp
  then have "locked_by_address ref_easyfl cl demo_address"
    by (auto simp: locked_by_address_def compiles_to_def reads_as_def list_all2_Cons1)
  then show ?thesis using that b by blast
qed

section \<open>Transactions that are refused\<close>

lemma empty_refused: "TransactionContextFromTransferableBytes E g [] = Inl (Panic Unexpected_EOF)"
  by (simp add: TransactionContextFromTransferableBytes_def At_eq parseArray_def)

lemma demo_refused: "\<exists>e. Update T E R [] u = (Inl e, u)"
  by (cases "Updatable_Readable T u") (simp_all add: Update_def empty_refused)

text \<open>What the trie holds at genesis, key by key.\<close>

lemma demo_contents:
  "rd_trie demo_rd = [(GenesisOutputID, demo_out), ([], ascii utxodbIdentity)]"
  "set (up_store (db_state demo_db0)) = {[(GenesisOutputID, demo_out), ([], ascii utxodbIdentity)], [([], ascii utxodbIdentity)]}"
proof -
  obtain root s where st: "InitLedgerState mem_trie ref_easyfl (tm_NewStore mem_trie) (ascii utxodbIdentity)
      supplyForTesting demo_address 1000 = Inr (root, s)" "NewUpdatable mem_trie s root = Inr (db_state demo_db0)"
    by (rule demo_start)
  have g: "GenesisOutputID \<noteq> []" by (auto simp: GenesisOutputID_def id_lengths)
  have r: "root = [(GenesisOutputID, demo_out), ([], ascii utxodbIdentity)]"
    "set s = {[(GenesisOutputID, demo_out), ([], ascii utxodbIdentity)], [([], ascii utxodbIdentity)]}"
    using st(1) demo_books(4) g by (auto simp: InitLedgerState_def mem_trie_def open_contents_def)
  have u: "db_state demo_db0 = \<lparr>up_store = s, up_root = root\<rparr>"
    using st(2) by (auto simp: NewUpdatable_def)
  show "set (up_store (db_state demo_db0)) = {[(GenesisOutputID, demo_out), ([], ascii utxodbIdentity)], [([], ascii utxodbIdentity)]}"
    using r(2) unfolding u by simp
  have "Updatable_Readable mem_trie (db_state demo_db0) = Inr \<lparr>rd_trie = root\<rparr>"
    using r unfolding u by (simp add: Updatable_Readable_def mem_trie_def open_contents_def)
  then have rd: "demo_rd = \<lparr>rd_trie = root\<rparr>" using demo_books(1) by simp
  show "rd_trie demo_rd = [(GenesisOutputID, demo_out), ([], ascii utxodbIdentity)]"
    unfolding rd using r(1) by simp
qed

lemma demo_fresh: "\<not> HasTransaction mem_trie demo_rd (Sum256 ref_easyfl (demo_tx 5000))"
proof -
  have "ref_sum (demo_tx 5000) \<noteq> take 32 GenesisOutputID"
    using demo_not_genesis [of 5000] by (simp add: GenesisOutputID_def id_lengths)
  moreover have "ref_sum (demo_tx 5000) \<noteq> []" using ref_sum_length [of "demo_tx 5000"] by force
  ultimately show ?thesis
    by (simp add: HasTransaction_def demo_contents(1)) (simp add: mem_trie_def is_prefix_def)
qed

text \<open>A ledger whose store refuses every batch.\<close>

definition demo_broken :: "(contents list, contents, contents) trie_model" where
  "demo_broken = mem_trie\<lparr>tm_BatchCommit := (\<lambda>ws s. (Inl (Error Inconsistency), s))\<rparr>"

lemma written_stays: "kv \<in> set t \<Longrightarrow> \<forall>w \<in> set ws. fst w \<noteq> fst kv \<Longrightarrow> kv \<in> set (trie_writes demo_broken ws t)"
proof (induction ws arbitrary: t)
  case Nil
  then show ?case by simp
next
  case (Cons w ws)
  obtain a b where w: "w = (a, b)" by (cases w)
  have "kv \<in> set (tm_Update demo_broken a b t)"
    using Cons.prems w by (cases kv) (auto simp: demo_broken_def mem_trie_def)
  then show ?case using Cons w by simp
qed

lemma demo_new_root:
  assumes "elems_at (tc_tree (demo_ctx 5000)) PathToProducedOutputs = Inr outs"
  shows "trie_writes demo_broken (tx_writes [GenesisOutputID] (tc_txid (demo_ctx 5000)) outs) t
    \<notin> set (up_store (db_state demo_db0))"
proof -
  have out: "demo_out \<noteq> []"
    using demo_basic by (auto simp: basic_output_def parseArray_def)
  have "NewOutputID (tc_txid (demo_ctx 5000)) i \<noteq> GenesisOutputID" for i
  proof
    assume "NewOutputID (tc_txid (demo_ctx 5000)) i = GenesisOutputID"
    then have "take 32 (ref_sum (demo_tx 5000) @ [i]) = replicate 32 0"
      using demo_ctx_of(2) [of 5000] by (simp add: NewOutputID_def GenesisOutputID_def id_lengths)
    then show False using demo_not_genesis [of 5000] by (simp add: id_lengths)
  qed
  note new = this
  have "(GenesisOutputID, []) \<in> set (trie_writes demo_broken (tx_writes [GenesisOutputID] (tc_txid (demo_ctx 5000)) outs) t)"
    unfolding tx_writes_def trie_writes_append
    by (rule written_stays) (use new in \<open>auto simp: demo_broken_def mem_trie_def\<close>)
  moreover have "GenesisOutputID \<noteq> []" by (auto simp: GenesisOutputID_def id_lengths)
  ultimately show ?thesis
    unfolding demo_contents(2) using out by auto
qed

section \<open>An account at genesis\<close>

lemma demo_index:
  assumes "AddressED25519_Bytes ref_easyfl demo_address = Inr cl"
  shows "db_indexer demo_db0 = [([PartitionAccount, of_nat (length cl)] @ cl @ GenesisOutputID, [255])]"
proof -
  have "InitIndexer ref_easyfl demo_kv demo_address [] = (Inr (), db_indexer demo_db0)"
    by (rule demo_start)
  then show ?thesis using assms by (simp add: InitIndexer_def) (simp add: demo_kv_def put_pair_def)
qed

lemma demo_query:
  "GetUTXOsLockedInAccount ref_easyfl demo_kv (Acc_AddressED25519 demo_address) (GetUTXO mem_trie demo_rd)
      (db_indexer demo_db0) = Inr [\<lparr>od_ID = GenesisOutputID, od_OutputData = demo_out\<rparr>]"
proof -
  obtain cl where l: "AddressED25519_Bytes ref_easyfl demo_address = Inr cl"
    using demo_basic by (auto simp: basic_output_def)
  have acc: "length cl \<le> 255"
    using account_id_short [OF ref_compiles, of "Acc_AddressED25519 demo_address"] l by simp
  define p where "p = [PartitionAccount, of_nat (length cl)] @ cl"
  have store: "db_indexer demo_db0 = [(p @ GenesisOutputID, [255])]" using demo_index [OF l] by (simp add: p_def)
  have it: "kv_Iterate demo_kv (db_indexer demo_db0) p = [(p @ GenesisOutputID, [255])]"
    unfolding store demo_kv_def by (simp add: assoc_get_def is_prefix_def)
  have "OutputIDFromBytes GenesisOutputID = Inr GenesisOutputID"
    by (simp add: OutputIDFromBytes_def GenesisOutputID_def id_lengths)
  then show ?thesis
    using acc demo_books(3) l
    unfolding GetUTXOsLockedInAccount_def AccountID.simps l rbind.simps p_def [symmetric] Let_def it by simp
qed

lemma demo_output_reads: "OutputFromBytes ref_easyfl demo_registry demo_out = Inr (ow_Output demo_input)"
proof -
  obtain ca ct cl where l: "parseArray demo_out 256 = Inr [ca, ct, cl]" "AddressED25519_Bytes ref_easyfl demo_address = Inr cl"
    "Amount_Bytes ref_easyfl supplyForTesting = Inr ca" "Timestamp_Bytes ref_easyfl 1000 = Inr ct"
    using demo_basic by (auto simp: basic_output_def)
  have reads: "is_ok (AmountFromBytes ref_easyfl ca)" "is_ok (TimestampFromBytes ref_easyfl ct)"
    "is_ok (LockFromBytes ref_easyfl demo_registry cl)"
  proof -
    have "reads_as ref_easyfl ca ''amount'' [L_u64 supplyForTesting]" "reads_as ref_easyfl ct ''timestamp'' [L_u32 1000]"
      using Amount_compiles [OF ref_compiles, of supplyForTesting] Timestamp_compiles [OF ref_compiles, of 1000] l(3,4)
      by (auto simp: compiles_to_def)
    then show "is_ok (AmountFromBytes ref_easyfl ca)" "is_ok (TimestampFromBytes ref_easyfl ct)"
      using Amount_reads [OF ref_laws] Timestamp_reads [OF ref_laws] by simp_all
    show "is_ok (LockFromBytes ref_easyfl demo_registry cl)"
      using basic_output_reads(5) [OF ref_laws ref_compiles demo_own demo_basic] l(2) by (auto simp: demo_registry_def)
  qed
  show ?thesis
    unfolding OutputFromBytes_Inr using l(1) reads by (intro exI [of _ "[ca, ct, cl]"]) (simp add: demo_input_def)
qed

lemma demo_account:
  "account demo_env (Acc_AddressED25519 demo_address) None demo_db0 = Inr (supplyForTesting, 1)"
proof -
  have amt: "Output_Amount ref_easyfl (ow_Output demo_input) = Inr supplyForTesting"
    by (rule basic_output_reads(1) [OF ref_laws ref_compiles demo_own demo_basic])
  have "account_outputs demo_env (Acc_AddressED25519 demo_address) None False demo_db0 = Inr [demo_input]"
    using demo_books(1) demo_query demo_output_reads
    by (simp add: account_outputs_def StateReader_def demo_env_def ParseAndSortOutputData_def parse_output_def)
      (simp add: demo_sort_def demo_input_def)
  then show ?thesis using amt by (simp add: account_def sum_amounts_def) (simp add: demo_env_def)
qed

end
