(* ===== verification/LedgerWitnesses.thy ===== *)
theory LedgerWitnesses
  imports Demo
begin

text \<open>
  The theorems about transactions, the ledger and the database, applied to the database of theory
  \<open>Demo\<close>: its genesis output and transfers of 5000 and 6000 tokens from it.
\<close>

section \<open>Validation\<close>

lemma context_holds_consumed_witness:
  "\<exists>ids outs. elems_at (tc_tree (demo_ctx 5000)) PathToInputIDs = Inr ids \<and> distinct ids
    \<and> (\<forall>oid \<in> set ids. length oid = OutputIDLength)
    \<and> map (GetUTXO mem_trie demo_rd) ids = map Some outs
    \<and> elems_at (tc_tree (demo_ctx 5000)) PathToConsumedOutputs = Inr outs
    \<and> tread (tc_tree (demo_ctx 5000)) [TransactionBranch] = Inr (demo_tx 5000)
    \<and> tc_txid (demo_ctx 5000) = Sum256 ref_easyfl (demo_tx 5000)"
  by (rule context_holds_consumed [OF demo_tx(1) [of 5000]]) simp_all

lemma validation_evaluates_everything_witness:
  "\<exists>ins outs. elems_at (tc_tree (demo_ctx 5000)) PathToConsumedOutputs = Inr ins
    \<and> elems_at (tc_tree (demo_ctx 5000)) PathToProducedOutputs = Inr outs
    \<and> (\<forall>i < length ins. output_passes ref_easyfl (demo_ctx 5000) True i (ins ! i))
    \<and> (\<forall>i < length outs. output_passes ref_easyfl (demo_ctx 5000) False i (outs ! i))"
  by (rule validation_evaluates_everything [OF demo_tx(2) [of 5000]]) simp_all

lemma validation_iff_witness:
  "\<exists>ins outs bs. elems_at (tc_tree (demo_ctx 5000)) PathToConsumedOutputs = Inr ins
        \<and> elems_at (tc_tree (demo_ctx 5000)) PathToProducedOutputs = Inr outs
        \<and> (\<forall>i < length ins. output_valid ref_easyfl demo_registry (demo_ctx 5000) True i (ins ! i))
        \<and> (\<forall>i < length outs. output_valid ref_easyfl demo_registry (demo_ctx 5000) False i (outs ! i))
        \<and> total_amount ref_easyfl ins = total_amount ref_easyfl outs \<and> total_amount ref_easyfl ins < 2 ^ 64
        \<and> tread (tc_tree (demo_ctx 5000)) PathToConsumedOutputs = Inr bs
        \<and> tread (tc_tree (demo_ctx 5000)) PathToInputCommitment = Inr (Sum256 ref_easyfl bs)"
  by (rule iffD1 [OF validation_iff, OF exI, OF demo_tx(2) [of 5000]]) simp_all

lemma validation_conserves_amounts_witness:
  "\<exists>outs. elems_at (tc_tree (demo_ctx 5000)) PathToProducedOutputs = Inr outs
    \<and> total_amount ref_easyfl [demo_out] = total_amount ref_easyfl outs \<and> total_amount ref_easyfl outs < 2 ^ 64"
proof -
  obtain outs where outs: "elems_at (tc_tree (demo_ctx 5000)) PathToProducedOutputs = Inr outs"
    by (rule demo_produced)
  show ?thesis
    using validation_conserves_amounts [OF demo_tx(2) [of 5000] demo_elems(2) outs] outs by auto
qed

lemma validation_indexes_every_lock_witness:
  "lock_indexed ref_easyfl demo_registry (demo_ctx 5000) True 0 demo_out (demo_cmds 5000)"
proof -
  obtain outs where outs: "elems_at (tc_tree (demo_ctx 5000)) PathToProducedOutputs = Inr outs"
    by (rule demo_produced)
  show ?thesis
    using validation_indexes_every_lock [OF demo_tx(2) [of 5000] demo_elems(2) outs] by simp
qed

lemma input_commitment_binds_witness:
  "\<exists>bs. tread (tc_tree (demo_ctx 5000)) PathToConsumedOutputs = Inr bs
    \<and> tread (tc_tree (demo_ctx 5000)) PathToInputCommitment = Inr (Sum256 ref_easyfl bs)"
  by (rule input_commitment_binds [OF demo_tx(2) [of 5000]]) simp_all

lemma no_spending_without_signature_witness:
  "signed_by ref_easyfl (tc_tree (demo_ctx 5000)) demo_address"
proof -
  obtain ca ct cl where l: "parseArray demo_out 256 = Inr [ca, ct, cl]" "locked_by_address ref_easyfl cl demo_address"
    by (rule demo_lock)
  show ?thesis
    by (rule no_spending_without_signature [OF ref_laws ref_runs demo_elems(3) demo_tx(2) [of 5000] demo_elems(2), of 0 "[ca, ct, cl]"])
      (use l in simp_all)
qed

section \<open>Transfers\<close>

lemma simple_transfer_valid_witness:
  "\<exists>txb retOuts v records o' ts.
      MakeSimpleTransferTransactionOutputs ref_easyfl demo_signer 2000 (demo_transfer 5000) = Inr (txb, retOuts)
    \<and> TransactionContextFromTransferableBytes ref_easyfl (GetUTXO mem_trie demo_rd) txb = Inr v
    \<and> Validate ref_easyfl demo_registry v = Inr records \<and> retOuts \<noteq> []
    \<and> basic_output ref_easyfl (tf_Amount (demo_transfer 5000)) ts (Lock_AddressED25519 (replicate 32 7)) o'
        (od_OutputData (last retOuts))"
  by (rule simple_transfer_valid [OF ref_laws ref_compiles ref_runs demo_init demo_signer_laws demo_ready]) simp_all

lemma transfer_reaches_ledger_witness:
  "\<exists>txb retOuts cmds u' o' ts.
      MakeSimpleTransferTransactionOutputs ref_easyfl demo_signer 2000 (demo_transfer 5000) = Inr (txb, retOuts)
    \<and> Update mem_trie ref_easyfl demo_registry txb (db_state demo_db0) = (Inr cmds, u') \<and> retOuts \<noteq> []
    \<and> utxos mem_trie u' (od_ID (last retOuts)) = Some (od_OutputData (last retOuts))
    \<and> basic_output ref_easyfl (tf_Amount (demo_transfer 5000)) ts (Lock_AddressED25519 (replicate 32 7)) o'
        (od_OutputData (last retOuts))"
  by (rule transfer_reaches_ledger [OF ref_laws ref_compiles ref_runs demo_init demo_signer_laws mem_trie_laws
        mem_trie_reliable demo_books(1) demo_ready]) simp_all

section \<open>The ledger state\<close>

lemma update_accepts_iff_witness:
  "\<exists>u'. Update mem_trie ref_easyfl demo_registry (demo_tx 6000) (db_state demo_db0) = (Inr (demo_cmds 6000), u')"
  unfolding update_accepts_iff [OF mem_trie_laws mem_trie_reliable]
  using demo_books(1) demo_tx(1,2) [of 6000] by auto

lemma update_moves_outputs_witness:
  "ledger_ok mem_trie (db_state demo_db1) \<and> distinct (tx_inputs (demo_tx 5000))
    \<and> (\<exists>ins. map (utxos mem_trie (db_state demo_db0)) (tx_inputs (demo_tx 5000)) = map Some ins
        \<and> total_amount ref_easyfl ins = total_amount ref_easyfl (tx_outputs (demo_tx 5000)))
    \<and> (\<forall>oid. utxos mem_trie (db_state demo_db1) oid =
        (if \<exists>i < length (tx_outputs (demo_tx 5000)). oid = Sum256 ref_easyfl (demo_tx 5000) @ [of_nat i]
         then Some (tx_outputs (demo_tx 5000) ! unat (last oid))
         else if oid \<in> set (tx_inputs (demo_tx 5000)) then None else utxos mem_trie (db_state demo_db0) oid))"
  by (rule update_moves_outputs [OF mem_trie_laws demo_state1 ref_laws])

lemma update_commands_reindex_witness:
  "reindexes (lock_accounts ref_easyfl demo_registry) [GenesisOutputID] (Sum256 ref_easyfl (demo_tx 5000))
      [GenesisOutputID \<mapsto> demo_out] (utxos mem_trie (db_state demo_db1)) {} (fold account_step (demo_cmds 5000) {})"
  using update_commands_reindex [OF mem_trie_laws ref_laws demo_state1, of "{}"] demo_tx(3) [of 5000] demo_books(2) by simp

lemma supply_is_conserved_witness:
  "total_supply mem_trie ref_easyfl (db_state demo_db1) = unat supplyForTesting"
proof -
  obtain root s where st: "InitLedgerState mem_trie ref_easyfl (tm_NewStore mem_trie) (ascii utxodbIdentity)
      supplyForTesting demo_address 1000 = Inr (root, s)" "NewUpdatable mem_trie s root = Inr (db_state demo_db0)"
    by (rule demo_start)
  show ?thesis
    by (rule supply_is_conserved [OF ref_laws ref_compiles mem_trie_laws demo_lengths st demo_ledger_run])
      (use demo_not_genesis [of 5000] in auto)
qed

lemma spent_outputs_stay_spent_witness:
  "distinct (tx_inputs (demo_tx 5000)) \<and> utxos mem_trie (db_state demo_db1) GenesisOutputID = None"
proof -
  obtain root s where st: "InitLedgerState mem_trie ref_easyfl (tm_NewStore mem_trie) (ascii utxodbIdentity)
      supplyForTesting demo_address 1000 = Inr (root, s)" "NewUpdatable mem_trie s root = Inr (db_state demo_db0)"
    by (rule demo_start)
  show ?thesis
    using spent_outputs_stay_spent [OF ref_laws ref_compiles mem_trie_laws demo_lengths st demo_ledger_run]
      demo_not_genesis [of 5000] demo_tx(3) [of 5000] by auto
qed

section \<open>The database\<close>

lemma books_are_right_witness:
  "holdings (amount_nat ref_easyfl) (db_utxos demo_env demo_db1) = unat (Supply demo_db1)
    \<and> db_accounts demo_env demo_db1 = tagged (lock_accounts ref_easyfl demo_registry) (db_utxos demo_env demo_db1)"
  using books_are_right [OF demo_env_laws demo_genesis demo_db_run] demo_not_genesis [of 5000]
  by (simp add: demo_env_parts)

lemma root_is_never_updated_witness:
  "Root demo_db1 = up_root (db_state demo_db0)"
  by (rule root_is_never_updated [OF demo_genesis demo_db_run])

lemma indexer_never_lags_witness:
  "\<exists>u'. AddTransaction demo_env (demo_tx 6000) demo_db0 = (Inr (), u')"
proof -
  have "kv_reliable (su_kv demo_env)" using demo_kv_reliable by (simp add: demo_env_parts)
  from indexer_never_lags [OF demo_env_laws this, of "demo_tx 6000" demo_db0] show ?thesis
    using demo_update [of 6000] by (auto simp: demo_env_parts)
qed

section \<open>What is refused\<close>

lemma double_spend_refused_witness:
  "\<exists>e. Update mem_trie ref_easyfl demo_registry (demo_tx 6000) (db_state demo_db1) = (Inl e, db_state demo_db1)"
  by (rule double_spend_refused [OF mem_trie_laws ref_laws demo_state1, of GenesisOutputID "demo_tx 6000"])
    (use demo_fresh demo_books(1) demo_tx(3) [of 5000] demo_tx(3) [of 6000] in auto)

lemma failed_update_changes_nothing_witness:
  "snd (Update mem_trie ref_easyfl demo_registry [] (db_state demo_db1)) = db_state demo_db1"
proof -
  obtain e where "fst (Update mem_trie ref_easyfl demo_registry [] (db_state demo_db1)) = Inl e"
    using demo_refused [of mem_trie ref_easyfl demo_registry "db_state demo_db1"] by auto
  then obtain u' where u': "Update mem_trie ref_easyfl demo_registry [] (db_state demo_db1) = (Inl e, u')"
    by (metis prod.collapse)
  have "tm_BatchCommit mem_trie ws s \<noteq> (Inl e, s')" for ws s s' by (simp add: mem_trie_def)
  then have "u' = db_state demo_db1" using failed_update_changes_nothing [OF u'] by blast
  then show ?thesis using u' by simp
qed

lemma rejected_transaction_changes_nothing_witness:
  "\<exists>e. AddTransaction demo_env [] demo_db1 = (Inl e, demo_db1)"
proof -
  have "store_reliable (su_trie demo_env)" using mem_trie_reliable by (simp add: demo_env_parts)
  moreover obtain e where "fst (Update (su_trie demo_env) (su_easyfl demo_env) (su_registry demo_env) []
      (db_state demo_db1)) = Inl e"
    using demo_refused [of mem_trie ref_easyfl demo_registry "db_state demo_db1"] by (auto simp: demo_env_parts)
  ultimately show ?thesis using rejected_transaction_changes_nothing by blast
qed

lemma failed_commit_loses_ledger_witness:
  "\<exists>u'. Update demo_broken ref_easyfl demo_registry (demo_tx 5000) (db_state demo_db0) = (Inl (Error Inconsistency), u')
    \<and> (\<forall>txb'. Update demo_broken ref_easyfl demo_registry txb' u' = (Inl (Panic Inconsistency), u'))"
proof -
  let ?u = "db_state demo_db0" and ?v = "demo_ctx 5000"
  obtain outs where outs: "elems_at (tc_tree ?v) PathToProducedOutputs = Inr outs" by (rule demo_produced)
  obtain t where t: "tm_NewUpdatable mem_trie (up_store ?u) (up_root ?u) = Inr t"
    using opened_updatable [OF mem_trie_laws demo_books(1)] by blast
  have same: "Updatable_Readable demo_broken = Updatable_Readable mem_trie" "GetUTXO demo_broken = GetUTXO mem_trie"
    "tm_NewUpdatable demo_broken = tm_NewUpdatable mem_trie"
    by (simp_all add: fun_eq_iff Updatable_Readable_def GetUTXO_def demo_broken_def)
  let ?t = "trie_writes demo_broken (tx_writes [GenesisOutputID] (tc_txid ?v) outs) t"
  have run: "updateTrie demo_broken ref_easyfl demo_registry ?v t = (Inr (demo_cmds 5000), ?t)"
    by (rule updateTrie_runs) (use demo_tx(2) [of 5000] demo_elems outs in \<open>auto simp: GenesisOutputID_def id_lengths\<close>)
  show ?thesis
  proof (rule failed_commit_loses_ledger [OF _ _ run])
    show "rbind (Updatable_Readable demo_broken ?u)
        (\<lambda>rd. TransactionContextFromTransferableBytes ref_easyfl (GetUTXO demo_broken rd) (demo_tx 5000)) = Inr ?v"
      using demo_books(1) demo_tx(1) [of 5000] by (simp add: same)
    show "tm_NewUpdatable demo_broken (up_store ?u) (up_root ?u) = Inr t" using t by (simp add: same)
    show "tm_Commit demo_broken ?t = (?t, ?t)" by (simp add: demo_broken_def mem_trie_def)
    show "tm_BatchCommit demo_broken ?t (up_store ?u) = (Inl (Error Inconsistency), up_store ?u)"
      by (simp add: demo_broken_def)
    show "tm_NewReader demo_broken (up_store ?u) ?t = Inl (Error Inconsistency)"
      using demo_new_root [OF outs, of t] by (simp add: demo_broken_def mem_trie_def open_contents_def)
  qed
qed

lemma balance_is_exact_witness:
  "\<exists>acc. AccountID ref_easyfl (Acc_AddressED25519 demo_address) = Inr acc
    \<and> unat supplyForTesting = holdings (amount_nat ref_easyfl)
        (db_utxos demo_env demo_db0 |` {oid. (acc, oid) \<in> tagged (lock_accounts ref_easyfl demo_registry) (db_utxos demo_env demo_db0)})
    \<and> 1 = card {oid. (acc, oid) \<in> tagged (lock_accounts ref_easyfl demo_registry) (db_utxos demo_env demo_db0)}"
proof -
  obtain ca ct cl where cl: "AddressED25519_Bytes ref_easyfl demo_address = Inr cl"
    using demo_basic by (auto simp: basic_output_def)
  have run: "ledger_run (db_step demo_env) demo_db0 [] demo_db0" by (rule ledger_run.run_start)
  show ?thesis
    using balance_is_exact [OF demo_env_laws demo_genesis run, of "Acc_AddressED25519 demo_address" cl supplyForTesting 1]
      cl demo_account by (simp add: demo_env_parts)
qed

end
