(* ===== verification/ScriptWitnesses.thy ===== *)
theory ScriptWitnesses
  imports RefEngine
begin

text \<open>
  The theorems about the constraint scripts, applied with the reference engine to one concrete
  transaction: it continues a chain, twice, and spends an output locked to the chain. Its last output
  has a data block where the others have their time stamp.
\<close>

section \<open>A transaction\<close>

definition enc :: "bytes list \<Rightarrow> bytes" where
  \<comment> \<open>an array with length fields of four bytes\<close>
  "enc xs = wire 4 xs"

definition enc_ok :: "bytes list \<Rightarrow> bool" where
  "enc_ok xs \<longleftrightarrow> length xs \<le> 256 \<and> (\<forall>x \<in> set xs. length x < 4294967296)"

lemma length_enc: "length (enc xs) = 2 + (\<Sum>x\<leftarrow>xs. 4 + length x)"
  by (simp add: enc_def length_wire widths_def)

lemma parse_enc: "enc_ok xs \<Longrightarrow> length xs \<le> mx \<Longrightarrow> parseArray (enc xs) mx = Inr xs"
  unfolding enc_def by (rule parseArray_wire) (auto simp: enc_ok_def wire_ok_def widths_def maxArrayLen_eq fits_def)

lemma node_enc: "enc_ok xs \<Longrightarrow> parse_node (enc xs) = Inr xs"
  by (simp add: parse_node_256 parse_enc enc_ok_def)

lemma array8_enc: "enc_ok xs \<Longrightarrow> array8_at (enc xs) i = nth_res xs i"
  using parse_enc [of xs maxArrayLen] by (simp add: array8_at_def At_eq ArrayFromBytes_def enc_ok_def maxArrayLen_eq)

definition call_code :: "string \<Rightarrow> bytes list \<Rightarrow> bytes" where
  "call_code name args = ref_call (index_of name constraint_arity) (map (\<lambda>a. 128 # a) args)"

lemma parse_call_code:
  "map_of constraint_arity name = Some (length args) \<Longrightarrow> \<forall>a \<in> set args. length a < 65535
   \<Longrightarrow> ref_parse (call_code name args) = Inr (name, ref_prefix name, map (\<lambda>a. 128 # a) args)"
  unfolding call_code_def by (rule ref_parse_call) auto

lemma length_call_code: "length (call_code name args) = 2 + (\<Sum>a\<leftarrow>args. 3 + length a)"
  by (simp add: call_code_def ref_call_def length_write_fields comp_def numeral_3_eq_3)

text \<open>The key, the ids of the three inputs and the chain: the hash keeps the first 32 bytes.\<close>

definition tx_key :: bytes where "tx_key = replicate 32 7"
definition tx_oid :: "byte \<Rightarrow> bytes" where "tx_oid k = replicate 32 9 @ [k]"
definition tx_chain :: bytes where "tx_chain = replicate 32 9"

definition code_lock :: bytes where "code_lock = call_code ''addressED25519'' [tx_key]"
definition code_amount :: "64 word \<Rightarrow> bytes" where "code_amount n = call_code ''amount'' [put_u64 n]"
definition code_time :: "32 word \<Rightarrow> bytes" where "code_time n = call_code ''timestamp'' [put_u32 n]"
definition code_chain :: "bytes \<Rightarrow> bytes" where "code_chain d = call_code ''chain'' [d]"
definition code_chain_lock :: bytes where "code_chain_lock = call_code ''chainLock'' [tx_chain]"
definition code_sender :: bytes where "code_sender = call_code ''senderAddressED25519'' [tx_key]"
definition code_immutable :: bytes where "code_immutable = call_code ''immutable'' [[3, 5]]"

definition tx_next :: bytes where "tx_next = tx_chain @ [0, 3, 0]"

definition tx_consumed :: "bytes list list" where
  "tx_consumed =
     [[code_amount 1000, code_time 10, code_lock, code_chain origin_data, code_immutable, [128, 42]],
      [code_amount 1000, code_time 10, code_chain_lock],
      [code_amount 500, code_time 10, code_lock]]"

definition tx_produced :: "bytes list list" where
  "tx_produced =
     [[code_amount 2000, code_time 20, code_lock, code_chain tx_next, code_immutable, [128, 42]],
      [code_amount 350, code_time 20, code_lock, code_sender],
      [code_amount 150, [128, 42], code_lock, code_chain tx_next]]"

definition tx_unlocks :: "bytes list list" where
  "tx_unlocks = [[[], [], [255], [0, 3, 0], [5, 4], []], [[], [], [0, 3]], [[], [], [0], [1]]]"

definition tx_commitment :: bytes where "tx_commitment = ref_sum (enc (map enc tx_consumed))"

definition tx_essence :: bytes where
  "tx_essence = enc [tx_oid 0, tx_oid 1, tx_oid 2] @ enc (map enc tx_produced) @ tx_commitment"

definition tx_signature :: bytes where "tx_signature = ref_sum tx_essence @ ref_sum tx_key @ tx_key"

definition tx_parts :: "bytes list" where
  "tx_parts = [enc (map enc tx_unlocks), enc [tx_oid 0, tx_oid 1, tx_oid 2], enc (map enc tx_produced), tx_signature,
     put_u32 20, tx_commitment, enc [], enc []]"

definition sc_tree :: tree where
  "sc_tree = TreeFromBytes (enc [enc tx_parts, enc [enc (map enc tx_consumed)]])"

lemmas code_defs = code_sender_def code_lock_def code_amount_def code_time_def code_chain_def code_chain_lock_def code_immutable_def
lemmas tx_data = tx_key_def tx_oid_def tx_chain_def tx_next_def origin_data_def tx_signature_def

lemma tx_lengths [simp]:
  "length tx_key = 32" "length (tx_oid k) = 33" "length tx_chain = 32" "length tx_next = 35" "length origin_data = 35"
  "length tx_signature = 96"
  "length code_lock = 37" "length (code_amount n) = 13" "length (code_time m) = 9" "length code_chain_lock = 37"
  "length code_immutable = 7" "length code_sender = 37" "length tx_commitment = 32" "length (code_chain d) = 5 + length d"
  by (simp_all add: tx_data code_defs length_call_code tx_commitment_def)

lemma tx_enc_ok [simp]:
  "\<forall>xs \<in> set tx_consumed. enc_ok xs" "\<forall>xs \<in> set tx_produced. enc_ok xs" "\<forall>xs \<in> set tx_unlocks. enc_ok xs"
  "enc_ok (map enc tx_consumed)" "enc_ok (map enc tx_produced)" "enc_ok (map enc tx_unlocks)" "enc_ok tx_parts"
  "enc_ok [tx_oid 0, tx_oid 1, tx_oid 2]" "enc_ok [enc (map enc tx_consumed)]"
  "enc_ok [enc tx_parts, enc [enc (map enc tx_consumed)]]"
  by (simp_all add: enc_ok_def tx_consumed_def tx_produced_def tx_unlocks_def tx_parts_def length_enc)

lemma sc_tree_inv: "tree_inv sc_tree"
  by (simp add: sc_tree_def)

lemma tx_read:
  "tread sc_tree [0, k] = nth_res tx_parts (unat k)"
  "tread sc_tree (0 # k # i # p) = rbind (nth_res tx_parts (unat k)) (\<lambda>d. rbind (parse_node d) (\<lambda>xs. bytes_at xs (i # p)))"
  "tread sc_tree (1 # 0 # i # p) = bytes_at (map enc tx_consumed) (i # p)"
proof -
  have top: "arr_view (tree_sa sc_tree) = Inr [enc tx_parts, enc [enc (map enc tx_consumed)]]"
    by (simp add: sc_tree_def TreeFromBytes_def parse_enc MaxElementsLazyTree_def)
  show "tread sc_tree [0, k] = nth_res tx_parts (unat k)"
    "tread sc_tree (0 # k # i # p) = rbind (nth_res tx_parts (unat k)) (\<lambda>d. rbind (parse_node d) (\<lambda>xs. bytes_at xs (i # p)))"
    "tread sc_tree (1 # 0 # i # p) = bytes_at (map enc tx_consumed) (i # p)"
    by (simp_all add: reads_tree [OF sc_tree_inv] tree_at_def top node_enc nth_res_def)
qed

lemma nth_res_map: "nth_res (map f xs) i = rmap f (nth_res xs i)"
  by (simp add: nth_res_def)

lemma nested_read:
  assumes "\<forall>xs \<in> set xss. enc_ok xs"
  shows "bytes_at (map enc xss) [i, j] = rbind (nth_res xss (unat i)) (\<lambda>xs. nth_res xs (unat j))"
  using assms by (auto simp: nth_res_map node_enc nth_res_def)

lemma tx_outputs:
  "tread sc_tree (PathToProducedOutputs @ [i]) = rmap enc (nth_res tx_produced (unat i))"
  "tread sc_tree (produced_path i j) = rbind (nth_res tx_produced (unat i)) (\<lambda>xs. nth_res xs (unat j))"
  "tread sc_tree (PathToConsumedOutputs @ [i]) = rmap enc (nth_res tx_consumed (unat i))"
  "tread sc_tree (consumed_path i j) = rbind (nth_res tx_consumed (unat i)) (\<lambda>xs. nth_res xs (unat j))"
  "tread sc_tree (PathToUnlockParams @ [i]) = rmap enc (nth_res tx_unlocks (unat i))"
  "tread sc_tree (PathToUnlockParams @ [i, j]) = rbind (nth_res tx_unlocks (unat i)) (\<lambda>xs. nth_res xs (unat j))"
  "tread sc_tree (PathToInputIDs @ [i]) = nth_res [tx_oid 0, tx_oid 1, tx_oid 2] (unat i)"
  "tread sc_tree PathToSignature = Inr tx_signature" "tread sc_tree PathToTimestamp = Inr (put_u32 20)"
  "tread sc_tree PathToInputCommitment = Inr tx_commitment" "tread sc_tree PathToInputIDs = Inr (enc [tx_oid 0, tx_oid 1, tx_oid 2])"
  "tread sc_tree PathToProducedOutputs = Inr (enc (map enc tx_produced))"
proof -
  have part: "nth_res tx_parts 0 = Inr (enc (map enc tx_unlocks))" "nth_res tx_parts (Suc 0) = Inr (enc [tx_oid 0, tx_oid 1, tx_oid 2])"
    "nth_res tx_parts 2 = Inr (enc (map enc tx_produced))" "nth_res tx_parts 3 = Inr tx_signature"
    "nth_res tx_parts 4 = Inr (put_u32 20)" "nth_res tx_parts 5 = Inr tx_commitment"
    by (simp_all add: tx_parts_def nth_res_def)
  note reads = path_defs produced_path_def consumed_path_def tx_read part node_enc nested_read nth_res_map
  show "tread sc_tree (PathToProducedOutputs @ [i]) = rmap enc (nth_res tx_produced (unat i))"
    by (simp add: reads)
  show "tread sc_tree (produced_path i j) = rbind (nth_res tx_produced (unat i)) (\<lambda>xs. nth_res xs (unat j))"
    using nested_read [OF tx_enc_ok(2)] by (simp add: reads del: bytes_at.simps)
  show "tread sc_tree (PathToConsumedOutputs @ [i]) = rmap enc (nth_res tx_consumed (unat i))"
    by (simp add: reads)
  show "tread sc_tree (consumed_path i j) = rbind (nth_res tx_consumed (unat i)) (\<lambda>xs. nth_res xs (unat j))"
    using nested_read [OF tx_enc_ok(1)] by (simp add: reads del: bytes_at.simps)
  show "tread sc_tree (PathToUnlockParams @ [i]) = rmap enc (nth_res tx_unlocks (unat i))"
    by (simp add: reads)
  show "tread sc_tree (PathToUnlockParams @ [i, j]) = rbind (nth_res tx_unlocks (unat i)) (\<lambda>xs. nth_res xs (unat j))"
    using nested_read [OF tx_enc_ok(3)] by (simp add: reads del: bytes_at.simps)
  show "tread sc_tree (PathToInputIDs @ [i]) = nth_res [tx_oid 0, tx_oid 1, tx_oid 2] (unat i)"
    by (simp add: reads)
  show "tread sc_tree PathToSignature = Inr tx_signature" "tread sc_tree PathToTimestamp = Inr (put_u32 20)"
    "tread sc_tree PathToInputCommitment = Inr tx_commitment" "tread sc_tree PathToInputIDs = Inr (enc [tx_oid 0, tx_oid 1, tx_oid 2])"
    "tread sc_tree PathToProducedOutputs = Inr (enc (map enc tx_produced))"
    by (simp_all add: reads)
qed

lemma tx_constraints:
  "constraint_at sc_tree PathToProducedOutputs i j c \<longleftrightarrow> rbind (nth_res tx_produced (unat i)) (\<lambda>xs. nth_res xs (unat j)) = Inr c"
  "constraint_at sc_tree PathToConsumedOutputs i j c \<longleftrightarrow> rbind (nth_res tx_consumed (unat i)) (\<lambda>xs. nth_res xs (unat j)) = Inr c"
  "constraint_at sc_tree PathToUnlockParams i j c \<longleftrightarrow> rbind (nth_res tx_unlocks (unat i)) (\<lambda>xs. nth_res xs (unat j)) = Inr c"
proof -
  have "(\<exists>out. rmap enc (nth_res xss n) = Inr out \<and> array8_at out m = Inr c)
      \<longleftrightarrow> rbind (nth_res xss n) (\<lambda>xs. nth_res xs m) = Inr c" if "\<forall>xs \<in> set xss. enc_ok xs" for xss n m
    using that by (auto simp: nth_res_def array8_enc split: if_splits)
  then show
    "constraint_at sc_tree PathToProducedOutputs i j c \<longleftrightarrow> rbind (nth_res tx_produced (unat i)) (\<lambda>xs. nth_res xs (unat j)) = Inr c"
    "constraint_at sc_tree PathToConsumedOutputs i j c \<longleftrightarrow> rbind (nth_res tx_consumed (unat i)) (\<lambda>xs. nth_res xs (unat j)) = Inr c"
    "constraint_at sc_tree PathToUnlockParams i j c \<longleftrightarrow> rbind (nth_res tx_unlocks (unat i)) (\<lambda>xs. nth_res xs (unat j)) = Inr c"
    by (simp_all add: constraint_at_def tx_outputs)
qed

lemma chain_data_call:
  assumes "map_of constraint_arity name = Some (length args)" "\<forall>a \<in> set args. length a < 65535" "args \<noteq> []"
  shows "chain_data_of ref_easyfl pfx (call_code name args) d \<longleftrightarrow> pfx = ref_prefix name \<and> d = hd args"
  using assms by (cases args) (auto simp: chain_data_of_def one_level_None parse_call_code ref_strip_def)

lemma tx_chain_data:
  "length d < 65535 \<Longrightarrow> chain_data_of ref_easyfl pfx (code_chain d) d' \<longleftrightarrow> pfx = ref_prefix ''chain'' \<and> d' = d"
  "chain_data_of ref_easyfl pfx code_immutable d' \<longleftrightarrow> pfx = ref_prefix ''immutable'' \<and> d' = [3, 5]"
  "chain_data_of ref_easyfl pfx (code_amount n) d' \<longleftrightarrow> pfx = ref_prefix ''amount'' \<and> d' = put_u64 n"
  by (simp_all add: code_defs chain_data_call constraint_arity_def)

lemma tx_own_prefix:
  "length d < 65535 \<Longrightarrow> tread sc_tree p = Inr (code_chain d) \<Longrightarrow> own_prefix ref_easyfl sc_tree p pfx \<longleftrightarrow> pfx = ref_prefix ''chain''"
  "tread sc_tree p = Inr code_immutable \<Longrightarrow> own_prefix ref_easyfl sc_tree p pfx \<longleftrightarrow> pfx = ref_prefix ''immutable''"
  by (auto simp: own_prefix_def code_defs parse_call_code constraint_arity_def)

lemma tx_nths:
  "nth_res tx_produced 0 = Inr [code_amount 2000, code_time 20, code_lock, code_chain tx_next, code_immutable, [128, 42]]"
  "nth_res tx_produced (Suc 0) = Inr [code_amount 350, code_time 20, code_lock, code_sender]"
  "nth_res tx_produced 2 = Inr [code_amount 150, [128, 42], code_lock, code_chain tx_next]"
  "nth_res tx_consumed 0 = Inr [code_amount 1000, code_time 10, code_lock, code_chain origin_data, code_immutable, [128, 42]]"
  "nth_res tx_consumed (Suc 0) = Inr [code_amount 1000, code_time 10, code_chain_lock]"
  "nth_res tx_consumed 2 = Inr [code_amount 500, code_time 10, code_lock]"
  "nth_res tx_unlocks 0 = Inr [[], [], [255], [0, 3, 0], [5, 4], []]"
  "nth_res tx_unlocks (Suc 0) = Inr [[], [], [0, 3]]"
  "nth_res tx_unlocks 2 = Inr [[], [], [0], [1]]"
  by (simp_all add: nth_res_def tx_produced_def tx_consumed_def tx_unlocks_def)

lemma nth_res_Cons:
  "nth_res (x # xs) 0 = Inr x" "nth_res (x # xs) (Suc n) = nth_res xs n"
  "nth_res (x # xs) (numeral k) = nth_res xs (pred_numeral k)"
  by (simp_all add: nth_res_def numeral_eq_Suc)

lemmas tx_eval = tx_outputs tx_constraints tx_nths nth_res_Cons

lemma tx_next_parts: "take 32 tx_next = tx_chain" "tx_next ! 32 = 0" "tx_next ! 33 = 3" "tx_next ! 34 = 0"
  "\<not> (\<forall>b \<in> set tx_chain. b = 0)" "\<forall>b \<in> set (take 32 origin_data). b = 0"
  by (simp_all add: tx_data nth_append)

section \<open>The chain goes on\<close>

lemma tx_extends: "chain_extends ref_easyfl sc_tree (ref_prefix ''chain'') tx_next"
  by (simp add: chain_extends_def tx_next_parts tx_eval tx_chain_data)
    (simp add: tx_data ref_sum_def)

lemma tx_chain_produced: "i = 0 \<or> i = 2 \<Longrightarrow> holds (fl_chain ref_easyfl (ctx_at sc_tree (produced_path i 3)) (Inr tx_next))"
  unfolding chain_produced [OF ref_laws] tx_next_parts
  using tx_extends by (auto simp: tx_next_parts tx_own_prefix [of tx_next] tx_eval)

lemma tx_chain_consumed: "holds (fl_chain ref_easyfl (ctx_at sc_tree (consumed_path 0 3)) (Inr origin_data))"
proof -
  have "constraint_at sc_tree PathToProducedOutputs 0 3 (code_chain tx_next)" by (simp add: tx_eval)
  moreover have "own_prefix ref_easyfl sc_tree (consumed_path 0 3) (ref_prefix ''chain'')"
    by (simp add: tx_own_prefix [of origin_data] tx_eval)
  moreover have "successor_of 0 3 origin_data tx_next"
    unfolding successor_of_def by (simp add: tx_next_parts)
  ultimately have "chain_continues ref_easyfl sc_tree 0 3 origin_data 0 3"
    unfolding chain_continues_def
    by (intro exI [of _ "ref_prefix ''chain''"] exI [of _ "code_chain tx_next"] exI [of _ tx_next]) (simp add: tx_chain_data)
  then show ?thesis unfolding chain_consumed [OF ref_laws] by (simp add: tx_eval)
qed

lemma chain_never_merges_witness:
  "holds (fl_chain ref_easyfl (ctx_at sc_tree (consumed_path 0 3)) (Inr origin_data)) \<and> (0 :: byte) = 0 \<and> (3 :: byte) = 3"
  using chain_never_merges [OF ref_laws tx_chain_consumed tx_chain_consumed, of "[0, 3, 0]" "[0, 3, 0]"] tx_chain_consumed
  by (simp add: tx_eval)

lemma chain_fork_accepted_witness:
  "holds (fl_chain ref_easyfl (ctx_at sc_tree (produced_path 0 3)) (Inr tx_next))
   \<and> holds (fl_chain ref_easyfl (ctx_at sc_tree (produced_path 2 3)) (Inr tx_next))"
  using tx_chain_produced chain_fork_accepted [OF ref_laws, of sc_tree 0 3 tx_next 2 3] by (simp add: tx_eval)

lemma chain_produced_enforced_witness:
  "\<exists>pfx code p u. own_prefix ref_easyfl sc_tree (produced_path 0 3) pfx
    \<and> constraint_at sc_tree PathToConsumedOutputs (tx_next ! 32) (tx_next ! 33) code \<and> chain_data_of ref_easyfl pfx code p
    \<and> (p = origin_data \<and> (\<exists>oid. tread sc_tree (PathToInputIDs @ [tx_next ! 32]) = Inr oid
          \<and> take 32 tx_next = Sum256 ref_easyfl oid)
       \<or> take 32 p = take 32 tx_next)
    \<and> constraint_at sc_tree PathToUnlockParams (tx_next ! 32) (tx_next ! 33) u \<and> 2 < length u \<and> u ! 2 = tx_next ! 34"
proof -
  have "\<not> (\<forall>b \<in> set (take 32 tx_next). b = 0)" by (simp add: tx_next_parts)
  then show ?thesis
    using tx_chain_produced [of 0] unfolding chain_produced_enforced [OF ref_laws] by (metis (no_types, lifting))
qed

section \<open>The locks\<close>

lemma referenced_tx_chain: "referenced_chain_id ref_easyfl sc_tree 0 3 tx_chain"
proof -
  have "constraint_at sc_tree PathToConsumedOutputs 0 3 (code_chain origin_data)" by (simp add: tx_eval)
  moreover have "tread sc_tree (PathToInputIDs @ [0]) = Inr (tx_oid 0)" by (simp add: tx_eval)
  moreover have "tx_chain = ref_sum (tx_oid 0)" by (simp add: tx_data ref_sum_def)
  ultimately show ?thesis
    unfolding referenced_chain_id_def
    by (intro exI [of _ "code_chain origin_data"] exI [of _ origin_data]) (simp add: tx_chain_data tx_next_parts)
qed

lemma chain_lock_enforced_witness:
  "holds (fl_chainLock ref_easyfl (ctx_at sc_tree (consumed_path 1 2)) (Inr tx_chain))"
proof -
  have "constraint_at sc_tree PathToUnlockParams 0 3 [0, 3, 0]" "tread sc_tree (PathToUnlockParams @ [1, 2]) = Inr [0, 3]"
    by (simp_all add: tx_eval)
  then show ?thesis
    unfolding chain_lock_enforced [OF ref_laws]
    by (intro conjI exI [of _ "[0, 3]"] exI [of _ "[0, 3, 0]"]) (simp_all add: referenced_tx_chain)
qed

definition sc_deadline :: DeadlineLock where
  "sc_deadline = \<lparr>dl_Deadline = 15, dl_Main = Acc_AddressED25519 tx_key, dl_Expiry = Acc_AddressED25519 tx_chain\<rparr>"

lemma deadline_lock_reversed_witness:
  "\<exists>mainID. AccountID ref_easyfl (dl_Main sc_deadline) = Inr mainID
    \<and> (holds (fl_deadlineLock ref_easyfl (ctx_at sc_tree (consumed_path 0 2)) (Inr (put_u32 15)) (Inr [1]) (Inr []))
        \<longleftrightarrow> holds (if UnlockableWith ref_easyfl (Lock_DeadlineLock sc_deadline) mainID 20 = Inr True then Inr [] else Inr [1]))"
proof -
  have "length (accountable_data (dl_Main sc_deadline)) = 32" "length (accountable_data (dl_Expiry sc_deadline)) = 32"
    by (simp_all add: sc_deadline_def)
  from AccountID_compiles [OF ref_compiles this(1)] AccountID_compiles [OF ref_compiles this(2)]
  obtain m x where ids: "AccountID ref_easyfl (dl_Main sc_deadline) = Inr m" "reads_as ref_easyfl m ''addressED25519'' [L_hex tx_key]"
    "AccountID ref_easyfl (dl_Expiry sc_deadline) = Inr x" "reads_as ref_easyfl x ''addressED25519'' [L_hex tx_chain]"
    by (auto simp: compiles_to_def sc_deadline_def)
  have "tx_key \<noteq> tx_chain" by (simp add: tx_data)
  then have "m \<noteq> x" using ids(2,4) by (auto simp: reads_as_def list_all2_Cons1)
  from deadline_lock_reversed [OF ref_laws tx_outputs(9) ids(1,3) this, of 0 "Inr [1]" "Inr []"] show ?thesis
    using ids(1) by (simp add: sc_deadline_def)
qed

section \<open>Amounts and times\<close>

lemma amount_enforced_witness:
  "holds (fl_amount ref_easyfl (ctx_at sc_tree (produced_path 1 0)) (Inr (put_u64 350)))
   \<and> \<not> holds (fl_amount ref_easyfl (ctx_at sc_tree (produced_path 1 0)) (Inr (put_u64 40)))"
  unfolding conjunct1 [OF amount_enforced [OF ref_laws]]
  by (simp add: tx_eval length_enc put_u64_def be_val_be)

lemma timestamp_enforced_witness:
  "holds (fl_timestamp ref_easyfl (ctx_at sc_tree (produced_path 1 1)) (Inr (put_u32 20)))
   \<and> holds (fl_timestamp ref_easyfl (ctx_at sc_tree (consumed_path 1 1)) (Inr (put_u32 10)))"
  unfolding conjunct1 [OF timestamp_enforced [OF ref_laws]] conjunct2 [OF timestamp_enforced [OF ref_laws]]
  by (simp add: tx_eval put_u32_def be_val_be)

lemma timelock_enforced_witness:
  "holds (fl_timelock ref_easyfl (ctx_at sc_tree (consumed_path 2 4)) (Inr (put_u32 15)))
   \<and> \<not> holds (fl_timelock ref_easyfl (ctx_at sc_tree (produced_path 1 4)) (Inr (put_u32 15)))"
  unfolding conjunct1 [OF timelock_enforced [OF ref_laws]] conjunct2 [OF timelock_enforced [OF ref_laws]]
  by (simp add: tx_eval put_u32_def be_val_be)

section \<open>Sender, royalties, commitments\<close>

lemma sender_enforced_witness:
  "holds (fl_senderAddressED25519 ref_easyfl (ctx_at sc_tree (produced_path 1 3)) (Inr tx_key))"
  unfolding sender_enforced [OF ref_laws]
  by (simp add: tx_eval) (simp add: tx_signature_def sub_bytes_def, simp add: tx_key_def ref_sum_def)

lemma royalties_enforced_witness:
  "holds (fl_royaltiesED25519 ref_easyfl (ctx_at sc_tree (consumed_path 2 3)) (Inr code_lock) (Inr (put_u64 300)))"
proof -
  have "array8_at (enc [code_amount 350, code_time 20, code_lock, code_sender]) i = nth_res [code_amount 350, code_time 20, code_lock, code_sender] i" for i
    by (rule array8_enc) (simp add: enc_ok_def)
  then show ?thesis
    unfolding royalties_enforced [OF ref_laws]
    by (intro exI [of _ "[1]"] exI [of _ "enc [code_amount 350, code_time 20, code_lock, code_sender]"] exI [of _ "code_amount 350"]
        exI [of _ "put_u64 350"]) (simp add: tx_eval tx_chain_data put_u64_def be_val_be)
qed

lemma commit_to_sibling_enforced_witness:
  "holds (fl_commitToSibling ref_easyfl (ctx_at sc_tree (produced_path 1 5)) (Inr [0])
     (Inr (ref_sum (enc (tx_produced ! 0)))))"
  unfolding commit_to_sibling_enforced [OF ref_laws] by (simp add: tx_eval) (simp add: tx_produced_def)

lemma tx_immutable_parts:
  "\<exists>u cu block pfx code. tread sc_tree (PathToUnlockParams @ [0, 4]) = Inr u \<and> 2 \<le> length u
    \<and> constraint_at sc_tree PathToUnlockParams 0 3 cu \<and> 2 \<le> length cu
    \<and> constraint_at sc_tree PathToConsumedOutputs 0 5 block
    \<and> constraint_at sc_tree PathToProducedOutputs (cu ! 0) (u ! 0) block
    \<and> constraint_at sc_tree PathToProducedOutputs (cu ! 0) (u ! 1) code
    \<and> own_prefix ref_easyfl sc_tree (consumed_path 0 4) pfx \<and> chain_data_of ref_easyfl pfx code [cu ! 1, u ! 0]"
proof -
  have "tread sc_tree (PathToUnlockParams @ [0, 4]) = Inr [5, 4]" "constraint_at sc_tree PathToUnlockParams 0 3 [0, 3, 0]"
    "constraint_at sc_tree PathToConsumedOutputs 0 5 [128, 42]" "constraint_at sc_tree PathToProducedOutputs 0 5 [128, 42]"
    "constraint_at sc_tree PathToProducedOutputs 0 4 code_immutable"
    by (simp_all add: tx_eval)
  moreover have "own_prefix ref_easyfl sc_tree (consumed_path 0 4) (ref_prefix ''immutable'')"
    by (simp add: tx_own_prefix tx_eval)
  ultimately show ?thesis
    by (intro exI [of _ "[5, 4]"] exI [of _ "[0, 3, 0]"] exI [of _ "[128, 42]"] exI [of _ "ref_prefix ''immutable''"]
        exI [of _ code_immutable]) (simp add: tx_chain_data)
qed

lemma immutable_enforced_witness:
  "holds (fl_immutable ref_easyfl (ctx_at sc_tree (consumed_path 0 4)) (Inr [3, 5]))"
  unfolding immutable_enforced [OF ref_laws] by (rule tx_immutable_parts)

end
