(* ===== verification/CodecWitnesses.thy ===== *)
theory CodecWitnesses
  imports Demo ScriptWitnesses
begin

text \<open>
  The theorems about the constraints, outputs, the indexer and the builder, applied with the reference
  parameters of theory \<open>Demo\<close>.
\<close>

section \<open>Constraints and outputs\<close>

definition demo_deadline :: DeadlineLock where
  \<comment> \<open>a deadline lock that names a chain lock\<close>
  "demo_deadline = \<lparr>dl_Deadline = 15, dl_Main = Acc_ChainLock tx_chain, dl_Expiry = Acc_AddressED25519 tx_key\<rparr>"


lemma init_registers_all_witness:
  "\<exists>R. init_constraints ref_easyfl = Inr R \<and> constraintNames R = set constraint_symbols
    \<and> dom (constraintByPrefix R) = PrefixOf ref_easyfl ` set constraint_symbols
    \<and> (\<forall>n \<in> set constraint_symbols. NameByPrefix R (PrefixOf ref_easyfl n) = Some n)"
  by (rule init_registers_all [OF ref_laws ref_compiles])

lemma timelock_not_readable_witness:
  "\<exists>code. Constraint_Bytes ref_easyfl (Con_Timelock 15) = Inr code \<and> TimelockFromBytes ref_easyfl code = Inr 15
    \<and> FromBytes ref_easyfl demo_registry code = Inl (Error Not_the_constraint)"
  by (rule timelock_not_readable [OF ref_laws ref_compiles demo_init])

lemma deadline_chain_lock_not_readable_witness:
  "\<exists>code f. Lock_Bytes ref_easyfl (Lock_DeadlineLock demo_deadline) = Inr code
    \<and> LockFromBytes ref_easyfl demo_registry code = Inl (Error f)
    \<and> FromBytes ref_easyfl demo_registry code = Inl (Error f)"
  by (rule deadline_chain_lock_not_readable [OF ref_laws ref_compiles demo_init]) (simp_all add: demo_deadline_def)

lemma output_roundtrip_witness:
  "(\<exists>o' data o''. OutputBasic ref_easyfl 1000 20 (Lock_ChainLock tx_chain) = Inr o' \<and> Output_Bytes o' = Inr data
      \<and> OutputFromBytes ref_easyfl demo_registry data = Inr o'' \<and> Output_Amount ref_easyfl o'' = Inr 1000
      \<and> Output_Timestamp ref_easyfl o'' = Inr 20 \<and> Output_Lock ref_easyfl demo_registry o'' = Inr (Lock_ChainLock tx_chain))
    \<and> (\<exists>o' data f. OutputBasic ref_easyfl 1000 20 (Lock_DeadlineLock demo_deadline) = Inr o'
      \<and> Output_Bytes o' = Inr data \<and> OutputFromBytes ref_easyfl demo_registry data = Inl (Error f))"
  using output_roundtrip [OF ref_laws ref_compiles demo_init, of "Lock_ChainLock tx_chain" 1000 20]
    output_roundtrip [OF ref_laws ref_compiles demo_init, of "Lock_DeadlineLock demo_deadline" 1000 20]
  by (simp add: demo_deadline_def)

lemma parse_and_sort_witness:
  "\<exists>res. ParseAndSortOutputData demo_sort ref_easyfl demo_registry
      [\<lparr>od_ID = GenesisOutputID, od_OutputData = demo_out\<rparr>] None True = Inr res
    \<and> sorted (rev (map (amount_key ref_easyfl) res)) \<and> ow_ID ` set res = {GenesisOutputID}"
proof -
  have o': "OutputFromBytes ref_easyfl demo_registry demo_out = Inr (ow_Output demo_input)"
    by (rule demo_output_reads)
  then obtain res where res: "ParseAndSortOutputData demo_sort ref_easyfl demo_registry
      [\<lparr>od_ID = GenesisOutputID, od_OutputData = demo_out\<rparr>] None True = Inr res"
    by (simp add: ParseAndSortOutputData_def parse_output_def)
  note s = parse_and_sort [OF demo_sort_laws res]
  have "\<lparr>ow_ID = GenesisOutputID, ow_Output = ow_Output demo_input\<rparr> \<in> set res"
    using s [of "\<lparr>ow_ID = GenesisOutputID, ow_Output = ow_Output demo_input\<rparr>"] o' by simp
  moreover have "ow_ID ow = GenesisOutputID" if "ow \<in> set res" for ow
    using s [of ow] that by simp
  moreover have "sorted (rev (map (amount_key ref_easyfl) res))" using s [of undefined] by simp
  ultimately show ?thesis using res by force
qed

section \<open>The indexer\<close>

definition demo_command :: Command where
  "demo_command = \<lparr>cmd_ID = tx_chain, cmd_OutputID = tx_oid 1, cmd_Delete = False, cmd_Partition = PartitionChainID\<rparr>"

lemma indexer_update_refines_witness:
  "\<exists>s. indexer_Update demo_kv [demo_command] [] = (Inr (), s) \<and> chain_index demo_kv s tx_chain = Some (tx_oid 1)"
proof -
  obtain s where s: "indexer_Update demo_kv [demo_command] [] = (Inr (), s)"
    by (simp add: indexer_Update_def demo_command_def run_command_def PartitionChainID_def PartitionAccount_def demo_kv_def)
  then have "chain_index demo_kv s = fold chain_step [demo_command] (chain_index demo_kv [])"
    using indexer_update_refines [OF demo_kv_laws s] by (simp add: demo_command_def)
  then show ?thesis using s by (simp add: chain_step_def demo_command_def)
qed

lemma account_lookup_exact_witness:
  "\<exists>acc res. AccountID ref_easyfl (Acc_AddressED25519 demo_address) = Inr acc
    \<and> GetUTXOsLockedInAccount ref_easyfl demo_kv (Acc_AddressED25519 demo_address) (GetUTXO mem_trie demo_rd)
        (db_indexer demo_db0) = Inr res
    \<and> set res = {\<lparr>od_ID = oid, od_OutputData = d\<rparr> |oid d. (acc, oid) \<in> account_index demo_kv (db_indexer demo_db0)
        \<and> GetUTXO mem_trie demo_rd oid = Some d} \<and> distinct (map od_ID res)"
proof -
  obtain acc where acc: "AccountID ref_easyfl (Acc_AddressED25519 demo_address) = Inr acc"
    using demo_basic by (auto simp: basic_output_def)
  from account_lookup_exact [OF demo_kv_laws acc demo_query] show ?thesis using acc demo_query by blast
qed

section \<open>Single operations that go wrong\<close>

lemma array_constraint_arguments_panic_witness:
  "evalConstraint ref_easyfl (demo_ctx 5000) (0 # enc [[1], [2]]) [] = Inl (Panic Index_out_of_range)
   \<and> checkConstraint ref_easyfl (demo_ctx 5000) (0 # enc [[1], [2]]) [] = Inl (Error Index_out_of_range)"
proof -
  have "parseArray (enc [[1], [2]]) 256 = Inr [[1], [2]]" by (rule parse_enc) (simp_all add: enc_ok_def)
  from array_constraint_arguments_panic [OF this, of ref_easyfl "demo_ctx 5000" "[]"] show ?thesis by simp
qed

lemma endorsement_check_inverted_witness:
  "\<nexists>tx. MustTransactionFromTransferableBytes ref_easyfl (enc tx_parts) = Inr tx"
proof -
  have "elems_at (TreeFromBytes (enc tx_parts)) [TxEndorsements] = Inr []"
  proof -
    have top: "arr_view (tree_sa (TreeFromBytes (enc tx_parts))) = Inr tx_parts"
      using parse_enc [OF tx_enc_ok(7), of 256] by (simp add: TreeFromBytes_def MaxElementsLazyTree_def tx_parts_def)
    have "parse_node (enc []) = Inr []" by (rule node_enc) (simp add: enc_ok_def)
    then show ?thesis
      by (simp add: reads_tree tree_elements_at_def top path_defs) (simp add: tx_parts_def nth_res_Cons)
  qed
  from endorsement_check_inverted [OF this] show ?thesis by simp
qed

section \<open>A chain output\<close>

definition chain_blocks :: "bytes list" where
  "chain_blocks = [code_amount 100, code_time 20, code_lock, code_chain tx_next]"

definition chain_out :: Output where
  "chain_out = arr_loaded (ArrayFromBytesMax (enc chain_blocks) 256)"

lemma chain_out_blocks: "parseArray (enc chain_blocks) 256 = Inr chain_blocks" "outp chain_out chain_blocks"
proof -
  show p: "parseArray (enc chain_blocks) 256 = Inr chain_blocks"
    by (rule parse_enc) (simp_all add: enc_ok_def chain_blocks_def)
  show "outp chain_out chain_blocks" by (simp add: chain_out_def outp_def p)
qed

lemma chain_out_constraint:
  "Output_ChainConstraint ref_easyfl chain_out =
     Inr (Some \<lparr>ch_ID = tx_chain, ch_TransitionMode = 0, ch_PreviousOutput = 0, ch_PreviousBlock = 3\<rparr>, 3)"
proof -
  have "ChainConstraintFromBytes ref_easyfl (code_chain tx_next)
      = Inr \<lparr>ch_ID = tx_chain, ch_TransitionMode = 0, ch_PreviousOutput = 0, ch_PreviousBlock = 3\<rparr>"
    by (simp add: ChainConstraintFromBytes_def ref_one_level_def code_chain_def parse_call_code constraint_arity_def
        data_arg_def nth_res_Cons ref_strip_def tx_next_parts)
  moreover have "arr_view chain_out = Inr chain_blocks" using chain_out_blocks(2) by (simp add: outp_def)
  ultimately show ?thesis
    by (simp add: Output_ChainConstraint_def search_output_def Parsed_def ensureParsed_eq chain_blocks_def ConstraintIndex_defs)
qed

lemma chain_constraint_found_witness:
  "optional_at (ChainConstraintFromBytes ref_easyfl) chain_blocks 3
     \<lparr>ch_ID = tx_chain, ch_TransitionMode = 0, ch_PreviousOutput = 0, ch_PreviousBlock = 3\<rparr>"
  using chain_constraint_found [OF chain_out_blocks(2) _ chain_out_constraint] by (simp add: chain_blocks_def)

section \<open>A transition that unlocks the wrong input\<close>

lemma code_lock_bytes: "AddressED25519_Bytes ref_easyfl tx_key = Inr code_lock"
proof -
  have "CompileExpression ref_easyfl (call_source ''addressED25519'' [('''', L_hex tx_key)]) = Inr code_lock"
    using ref_compile_call [of "''addressED25519''" "[('''', L_hex tx_key)]"]
    by (simp add: seps_ok_def constraint_arity_def code_lock_def call_code_def)
  then show ?thesis
    by (simp add: AddressED25519_Bytes_def AddressED25519_source_def mustBinFromSource_def call_source_def)
qed

lemma code_lock_reads: "LockFromBytes ref_easyfl demo_registry code_lock = Inr (Lock_AddressED25519 tx_key)"
  using lock_reads_back [OF ref_laws ref_compiles, of "Lock_AddressED25519 tx_key"] code_lock_bytes
  by (auto simp: demo_registry_def)

lemma chain_out_reads: "OutputFromBytes ref_easyfl demo_registry (enc chain_blocks) = Inr chain_out"
proof -
  have "is_ok (AmountFromBytes ref_easyfl (code_amount 100))" "is_ok (TimestampFromBytes ref_easyfl (code_time 20))"
    by (simp_all add: AmountFromBytes_def TimestampFromBytes_def ref_one_level_def code_defs parse_call_code constraint_arity_def
        data_arg_def nth_res_Cons ref_strip_def)
  then show ?thesis
    unfolding OutputFromBytes_Inr
    using chain_out_blocks(1) code_lock_reads
    by (intro exI [of _ chain_blocks]) (simp add: chain_blocks_def chain_out_def)
qed

definition demo_builder :: TransactionBuilder where
  \<comment> \<open>one output has been consumed, none produced\<close>
  "demo_builder = snd (ConsumeOutput chain_out (tx_oid 1) NewTransactionBuilder)"

definition demo_chain_data :: OutputDataWithChainID where
  "demo_chain_data = \<lparr>oc_ID = tx_oid 0, oc_OutputData = enc chain_blocks, oc_ChainID = tx_chain,
     oc_PredecessorConstraintIndex = 3\<rparr>"

lemma demo_builder_ok: "builder_ok demo_builder" "length (tb_ConsumedOutputs demo_builder) = 1" "tb_NumOutputs demo_builder = 0"
  using ConsumeOutput_ok [OF builder_ok_New, of chain_out "tx_oid 1"]
  by (auto simp: demo_builder_def NewTransactionBuilder_def tb_NumOutputs_def)

lemma transition_output_ok:
  assumes "length (ch_ID ch) = 32"
  shows "\<exists>o'. transition_output ref_easyfl demo_registry chain_out ts ch 3 = Inr o'"
proof -
  have "array_bytes chain_out = Inr (enc chain_blocks)"
    unfolding chain_out_def by (rule loaded_bytes [OF chain_out_blocks(1)])
  then have clone: "Output_Clone ref_easyfl demo_registry chain_out = Inr chain_out"
    using chain_out_reads by (simp add: Output_Clone_def Output_Bytes_def array_bytes_def)
  obtain t where t: "Timestamp_Bytes ref_easyfl ts = Inr t"
    using Timestamp_compiles [OF ref_compiles, of ts] by (auto simp: compiles_to_def)
  obtain c where c: "ChainConstraint_Bytes ref_easyfl ch = Inr c"
    using ChainConstraint_compiles [OF ref_compiles assms] by (auto simp: compiles_to_def)
  obtain o1 where o1: "exec (PutAtIdxGrow 1 t) chain_out = Inr o1" "outp o1 (put_grow 1 t chain_blocks)"
    using exec_put [OF chain_out_blocks(2), of 1 t] by auto
  obtain o2 where "exec (PutAtIdxGrow 3 c) o1 = Inr o2"
    using exec_put [OF o1(2), of 3 c] by auto
  then show ?thesis
    using clone t c o1(1)
    by (simp add: transition_output_def WithTimestamp_def PutConstraint_def ConstraintIndex_defs)
qed

lemma demo_transition:
  "\<exists>txb'. InsertSimpleChainTransition ref_easyfl demo_registry demo_chain_data 30 demo_builder = (Inr (), txb')"
proof -
  obtain t1 where t1: "ConsumeOutput chain_out (tx_oid 0) demo_builder = (Inr 1, t1)" "builder_ok t1"
    "length (tb_ConsumedOutputs t1) = 2" "tb_NumOutputs t1 = 0"
    "unlock_block t1 1 = NewUnlockBlock"
    using ConsumeOutput_ok [OF demo_builder_ok(1), of chain_out "tx_oid 0"] demo_builder_ok
    by (auto simp: tb_NumOutputs_def unlock_block_def builder_ok_def nth_append)
  obtain o' where o': "transition_output ref_easyfl demo_registry chain_out 30 (NewChainConstraint tx_chain 1 3 0) 3 = Inr o'"
    using transition_output_ok [of "NewChainConstraint tx_chain 1 3 0" 30] by (auto simp: NewChainConstraint_def)
  obtain t2 where t2: "ProduceOutput o' t1 = (Inr 0, t2)" "builder_ok t2" "tb_ConsumedOutputs t2 = tb_ConsumedOutputs t1"
    "unlock_block t2 = unlock_block t1"
    using ProduceOutput_ok [OF t1(2), of o'] t1(4) by (auto simp: unlock_block_def fun_eq_iff)
  obtain t3 where t3: "PutUnlockParams 1 3 [0, 3, 0] t2 = (Inr (), t3)" "builder_ok t3"
    "tb_ConsumedOutputs t3 = tb_ConsumedOutputs t1"
    using PutUnlockParams_ok [OF t2(2), of 1 "[]" 3 "[0, 3, 0]"] t1(3,5) t2(3,4) outp_NewUnlockBlock by auto
  have "unlock_block t3 0 \<in> set (td_UnlockBlocks (tb_Transaction t3))"
    using t3(2,3) t1(3) by (simp add: builder_ok_def unlock_block_def)
  then obtain zs where "outp (unlock_block t3 0) zs" using t3(2) unfolding builder_ok_def by blast
  then obtain t4 where "PutSignatureUnlock 0 2 t3 = (Inr (), t4)"
    using PutUnlockParams_ok [OF t3(2), of 0 zs 2 "[255]"] t3(3) t1(3) by (auto simp: PutSignatureUnlock_def)
  then show ?thesis
    using t1(1) t2(1) t3(1) o' chain_out_reads chain_out_constraint
    by (simp add: InsertSimpleChainTransition_def demo_chain_data_def sbind_def ConstraintIndex_defs)
qed

lemma transition_signature_misplaced_witness:
  "\<exists>txb'. InsertSimpleChainTransition ref_easyfl demo_registry demo_chain_data 30 demo_builder = (Inr (), txb')
    \<and> (\<exists>xs. outp (unlock_block txb' 0) xs \<and> xs ! 2 = [255])
    \<and> (\<exists>xs. outp (unlock_block txb' 1) xs \<and> 2 < length xs \<and> xs ! 2 = [])"
proof -
  obtain txb' where t: "InsertSimpleChainTransition ref_easyfl demo_registry demo_chain_data 30 demo_builder = (Inr (), txb')"
    using demo_transition by blast
  from transition_signature_misplaced [OF demo_builder_ok(1) demo_builder_ok(2) [symmetric] demo_builder_ok(3) [symmetric] _ t]
  show ?thesis using t by simp
qed

end
