(* ===== verification/Loops.thy ===== *)
theory Loops
  imports LazyTree
begin

text \<open>
  Loops that may not end. \<^verbatim>\<open>Array.ForEach\<close>, \<^verbatim>\<open>Tree.ForEach\<close> and \<^verbatim>\<open>Tree.ForEachIndex\<close> ask for the number of
  elements anew in every round and hand each element to a callback that can stop them; the loops of
  \<^verbatim>\<open>txbuilder/misc.go\<close> count with a \<^verbatim>\<open>byte\<close>. Each is a partial function whose value \<open>None\<close> is a run
  that does not return. Callbacks are functions of the variables they capture; no callback of the
  repository writes to the array it runs over.
\<close>

type_synonym ('i, 's) callback = "'i \<Rightarrow> bytes \<Rightarrow> 's \<Rightarrow> (bool \<times> 's) res"

section \<open>ForEach (lazyslice.go)\<close>

partial_function (option) ForEach_loop ::
    "(nat, 's) callback \<Rightarrow> nat \<Rightarrow> 's \<Rightarrow> array \<Rightarrow> ('s res \<times> array) option" where
  "ForEach_loop f i s a =
     (case NumElements a of
        (Inl e, a') \<Rightarrow> Some (Inl e, a')
      | (Inr n, a') \<Rightarrow>
          if i < n
          then (case At i a' of
                  (Inl e, a'') \<Rightarrow> Some (Inl e, a'')
                | (Inr d, a'') \<Rightarrow>
                    (case f i d s of
                       Inl e \<Rightarrow> Some (Inl e, a'')
                     | Inr (go, s') \<Rightarrow> if \<not> go then Some (Inr s', a'') else ForEach_loop f (Suc i) s' a''))
          else Some (Inr s, a'))"

definition Array_ForEach :: "(nat, 's) callback \<Rightarrow> 's \<Rightarrow> array \<Rightarrow> ('s res \<times> array) option" where
  "Array_ForEach f s a = ForEach_loop f 0 s a"

definition byte_callback :: "(byte, 's) callback \<Rightarrow> (nat, 's) callback" where
  \<comment> \<open>\<open>fun(byte(i), ...)\<close>\<close>
  "byte_callback f i = f (word_of_nat i)"

fun at_subtree_opt :: "path \<Rightarrow> (tree \<Rightarrow> ('a res \<times> tree) option) \<Rightarrow> tree \<Rightarrow> ('a res \<times> tree) option" where
  \<comment> \<open>\<open>at_subtree\<close> for a read that may not return\<close>
  "at_subtree_opt [] m st = m st"
| "at_subtree_opt (i # p) m st =
     (case getSubtree i st of
        (Inl e, st') \<Rightarrow> Some (Inl e, st')
      | (Inr t, st') \<Rightarrow>
          (case at_subtree_opt p m t of
             None \<Rightarrow> None
           | Some (Inl e, _) \<Rightarrow> Some (Inl e, st')
           | Some (Inr x, t') \<Rightarrow> Some (Inr x, Tree (tree_sa st') (put_subtree i t' (tree_subtrees st')))))"

definition Tree_ForEach :: "(byte, 's) callback \<Rightarrow> path \<Rightarrow> 's \<Rightarrow> tree \<Rightarrow> ('s res \<times> tree) option" where
  "Tree_ForEach f p s =
     at_subtree_opt p (\<lambda>sub. map_option (\<lambda>(r, sa). (r, Tree sa (tree_subtrees sub)))
       (Array_ForEach (byte_callback f) s (tree_sa sub)))"

partial_function (option) ForEachIndex_loop ::
    "(byte \<Rightarrow> 's \<Rightarrow> (bool \<times> 's) res) \<Rightarrow> path \<Rightarrow> nat \<Rightarrow> 's \<Rightarrow> tree \<Rightarrow> ('s res \<times> tree) option" where
  "ForEachIndex_loop f p i s t =
     (case tree_NumElements p t of
        (Inl e, t') \<Rightarrow> Some (Inl e, t')
      | (Inr n, t') \<Rightarrow>
          if i < n
          then (case f (word_of_nat i) s of
                  Inl e \<Rightarrow> Some (Inl e, t')
                | Inr (go, s') \<Rightarrow> if \<not> go then Some (Inr s', t') else ForEachIndex_loop f p (Suc i) s' t')
          else Some (Inr s, t'))"

definition ForEachIndex :: "(byte \<Rightarrow> 's \<Rightarrow> (bool \<times> 's) res) \<Rightarrow> path \<Rightarrow> 's \<Rightarrow> tree \<Rightarrow> ('s res \<times> tree) option" where
  "ForEachIndex f p s t = ForEachIndex_loop f p 0 s t"

section \<open>The reference: a walk over a list\<close>

fun walk :: "(nat, 's) callback \<Rightarrow> nat \<Rightarrow> bytes list \<Rightarrow> 's \<Rightarrow> 's res" where
  "walk f i [] s = Inr s"
| "walk f i (d # ds) s = rbind (f i d s) (\<lambda>(go, s'). if go then walk f (Suc i) ds s' else Inr s')"

lemma walk_rfold: "walk (\<lambda>i d s. rmap (Pair True) (g d s)) i ds s = rfold g ds s"
  by (induction ds arbitrary: i s) (simp_all add: rmap_def rbind_assoc)

lemma ForEach_loop_walk:
  assumes "arr_view a = Inr xs"
  shows "ForEach_loop f i s a = Some (walk f i (drop i xs) s, arr_loaded a)"
  using assms
proof (induction "length xs - i" arbitrary: i s a)
  case 0
  then show ?case by (subst ForEach_loop.simps) (simp add: NumElements_eq)
next
  case (Suc n)
  then have i: "i < length xs" by simp
  have d: "drop i xs = xs ! i # drop (Suc i) xs" using i by (simp add: Cons_nth_drop_Suc)
  have "ForEach_loop f (Suc i) s' (arr_loaded a) = Some (walk f (Suc i) (drop (Suc i) xs) s', arr_loaded a)" for s'
    using Suc(1) [of "Suc i" "arr_loaded a" s'] Suc(2,3) by simp
  then show ?case
    using i d Suc(3)
    by (subst ForEach_loop.simps) (auto simp: NumElements_eq At_eq nth_res_def split: sum.splits)
qed

lemma Array_ForEach_walk:
  "Array_ForEach f s a = Some (rbind (arr_view a) (\<lambda>xs. walk f 0 xs s), arr_loaded a)"
proof (cases "arr_view a")
  case (Inl e)
  then show ?thesis
    by (subst Array_ForEach_def, subst ForEach_loop.simps) (simp add: NumElements_eq)
next
  case (Inr xs)
  then show ?thesis by (simp add: Array_ForEach_def ForEach_loop_walk)
qed

lemma at_subtree_opt_total:
  "(\<And>t. m t = Some (g t)) \<Longrightarrow> at_subtree_opt p m t = Some (at_subtree p g t)"
  by (induction p arbitrary: t) (auto split: sum.splits prod.splits)

text \<open>
  \<^verbatim>\<open>Tree.ForEach\<close> always returns, and is a walk over the elements at the path in
  their order that ends at the first callback that says stop or fails. The number of elements, asked
  for anew in every round through the cached tree, never changes under it.
\<close>

theorem tree_foreach_walks:
  assumes "tree_inv t"
  shows "\<exists>t'. Tree_ForEach f p s t
      = Some (rbind (fst (tree_elements p t)) (\<lambda>ds. walk (byte_callback f) 0 ds s), t') \<and> tree_inv t'"
proof -
  let ?k = "\<lambda>ds. walk (byte_callback f) 0 ds s"
  let ?m = "\<lambda>t. on_array (\<lambda>a. (rbind (arr_view a) ?k, arr_loaded a)) t"
  have inv: "arr_inv (tree_sa t)" "subs_ok t" using assms by (simp_all add: tree_inv_def)
  have "Tree_ForEach f p s t = Some (at_subtree p ?m t)"
    unfolding Tree_ForEach_def
    by (rule at_subtree_opt_total) (simp add: Array_ForEach_walk on_array_def)
  moreover have "reads (at_subtree p ?m) t (rbind (arr_view (tree_sa t)) (\<lambda>xs. rbind (elements_at xs p) ?k))"
    using subs_ok_loaded by (intro at_subtree_reads_bind [OF inv(2)]) (simp add: reads_def on_array_def)
  moreover have "fst (tree_elements p t) = rbind (arr_view (tree_sa t)) (\<lambda>xs. elements_at xs p)"
    using at_subtree_reads [OF inv(2), of "on_array Parsed" id p] Parsed_reads
    by (simp add: tree_elements_def reads_def rmap_def)
  ultimately show ?thesis
    using arr_inv_loaded [OF inv(1)] by (cases "at_subtree p ?m t") (auto simp: reads_def tree_inv_def rbind_assoc)
qed

lemma num_elements_again:
  assumes "tree_inv t"
  obtains t' where "tree_NumElements p t = (rmap length (tree_elements_at t p), t')"
    "tree_inv t'" "tree_elements_at t' p = tree_elements_at t p"
proof -
  have inv: "arr_inv (tree_sa t)" "subs_ok t" using assms by (simp_all add: tree_inv_def)
  have "reads (tree_NumElements p) t (rmap length (tree_elements_at t p))"
    unfolding tree_NumElements_def tree_elements_at_def
    by (rule at_subtree_reads [OF inv(2)]) (rule NumElements_reads)
  then show thesis
    using that [of "snd (tree_NumElements p t)"] arr_inv_loaded [OF inv(1)]
    by (cases "tree_NumElements p t") (simp add: reads_def tree_inv_def tree_elements_at_def)
qed

lemma ForEachIndex_loop_walk:
  assumes "tree_inv t" and "tree_elements_at t p = Inr xs"
  shows "\<exists>t'. ForEachIndex_loop f p i s t
      = Some (walk (\<lambda>j d. f (word_of_nat j)) i (drop i xs) s, t') \<and> tree_inv t'"
  using assms
proof (induction "length xs - i" arbitrary: i s t)
  case 0
  obtain t' where t': "tree_NumElements p t = (rmap length (tree_elements_at t p), t')" "tree_inv t'"
    by (rule num_elements_again [OF 0(2)])
  then show ?case using 0 by (subst ForEachIndex_loop.simps) simp
next
  case (Suc n)
  then have i: "i < length xs" by simp
  have d: "drop i xs = xs ! i # drop (Suc i) xs" using i by (simp add: Cons_nth_drop_Suc)
  obtain t' where t': "tree_NumElements p t = (rmap length (tree_elements_at t p), t')" "tree_inv t'"
    "tree_elements_at t' p = tree_elements_at t p"
    by (rule num_elements_again [OF Suc(3)])
  have "\<exists>t''. ForEachIndex_loop f p (Suc i) s' t'
      = Some (walk (\<lambda>j d. f (word_of_nat j)) (Suc i) (drop (Suc i) xs) s', t'') \<and> tree_inv t''" for s'
    using Suc(1) [of "Suc i" t' s'] Suc(2,4) t' by simp
  then show ?case
    using i d t' Suc(4) by (subst ForEachIndex_loop.simps) (auto split: sum.splits)
qed

lemma ForEachIndex_walk:
  assumes "tree_inv t"
  shows "\<exists>t'. ForEachIndex f p s t
      = Some (rbind (tree_elements_at t p) (\<lambda>xs. walk (\<lambda>j d. f (word_of_nat j)) 0 xs s), t') \<and> tree_inv t'"
proof (cases "tree_elements_at t p")
  case (Inl e)
  obtain t' where "tree_NumElements p t = (rmap length (tree_elements_at t p), t')" "tree_inv t'"
    by (rule num_elements_again [OF assms])
  then show ?thesis using Inl by (subst ForEachIndex_def, subst ForEachIndex_loop.simps) simp
next
  case (Inr xs)
  then show ?thesis using ForEachIndex_loop_walk [OF assms Inr, of f 0 s] by (simp add: ForEachIndex_def)
qed

section \<open>Loops that count with a byte (misc.go)\<close>

definition obind :: "'a res option \<Rightarrow> ('a \<Rightarrow> 'b res option) \<Rightarrow> 'b res option" where
  \<comment> \<open>sequence: the first part may not return, panic or give a value\<close>
  "obind m f = (case m of None \<Rightarrow> None | Some (Inl e) \<Rightarrow> Some (Inl e) | Some (Inr x) \<Rightarrow> f x)"

lemma obind_simps [simp]:
  "obind None f = None" "obind (Some (Inl e)) f = Some (Inl e)" "obind (Some (Inr x)) f = f x"
  by (simp_all add: obind_def)

lemma obind_None: "obind m f = None \<longleftrightarrow> m = None \<or> (\<exists>x. m = Some (Inr x) \<and> f x = None)"
  by (simp add: obind_def split: option.splits sum.splits)

lemma obind_Inr: "obind m f = Some (Inr y) \<longleftrightarrow> (\<exists>x. m = Some (Inr x) \<and> f x = Some (Inr y))"
  by (simp add: obind_def split: option.splits sum.splits)

lemma obind_Some: "obind (Some r) f = (case r of Inl e \<Rightarrow> Some (Inl e) | Inr x \<Rightarrow> f x)"
  by (simp add: obind_def)

partial_function (option) byte_loop ::
    "(byte \<Rightarrow> 's \<Rightarrow> 's res option) \<Rightarrow> nat res \<Rightarrow> byte \<Rightarrow> 's \<Rightarrow> 's res option" where
  \<comment> \<open>\<open>for i := byte(0); int(i) < num; i++\<close>\<close>
  "byte_loop body num i s =
     (case num of
        Inl e \<Rightarrow> Some (Inl e)
      | Inr n \<Rightarrow>
          if unat i < n
          then (case body i s of
                  None \<Rightarrow> None
                | Some r \<Rightarrow> (case r of Inl e \<Rightarrow> Some (Inl e) | Inr s' \<Rightarrow> byte_loop body num (i + 1) s'))
          else Some (Inr s))"

lemma byte_loop_returns:
  assumes "n < 256" and body: "\<And>i s. body i s = Some (g i s)"
  shows "byte_loop body (Inr n) i s = Some (rfold g (map word_of_nat [unat i..<n]) s)"
proof (induction "n - unat i" arbitrary: i s)
  case 0
  then show ?case by (subst byte_loop.simps) simp
next
  case (Suc k)
  then have i: "unat i < n" by simp
  have next': "unat (i + 1) = Suc (unat i)" using i assms(1) by (simp add: unat_word_ariths)
  have list: "map word_of_nat [unat i..<n] = i # map word_of_nat [unat (i + 1)..<n]"
    using i by (simp add: next' upt_conv_Cons)
  have "byte_loop body (Inr n) (i + 1) s' = Some (rfold g (map word_of_nat [unat (i + 1)..<n]) s')" for s'
    using Suc by (intro Suc(1)) (simp add: next')
  then show ?case
    using i list by (subst byte_loop.simps) (auto simp: body split: sum.splits)
qed

lemma byte_lt: "256 \<le> n \<Longrightarrow> unat (i :: byte) < n"
  by (rule less_le_trans [OF unsigned_less]) simp

lemma byte_loop_never:
  assumes "256 \<le> n"
  shows "byte_loop body (Inr n) i s \<noteq> Some (Inr s')"
proof
  assume "byte_loop body (Inr n) i s = Some (Inr s')"
  moreover have "num = Inr n \<longrightarrow> r \<noteq> Inr s'" if "byte_loop body num i s = Some r" for num r i s
    by (rule byte_loop.raw_induct [OF _ that])
      (use assms byte_lt in \<open>auto split: option.splits sum.splits if_splits\<close>)
  ultimately show False by blast
qed

end
