(* ===== verification/Rendering.thy ===== *)
theory Rendering
  imports Loops UtxoDB
begin

text \<open>
  The texts the program prints: \<^verbatim>\<open>String\<close> and \<^verbatim>\<open>Name\<close> of ids, commands, paths and constraints,
  \<^verbatim>\<open>Output.ToString\<close>, \<^verbatim>\<open>ValidationContextToString\<close> (\<^verbatim>\<open>txbuilder/misc.go\<close>), \<^verbatim>\<open>PathToString\<close> and
  \<^verbatim>\<open>constraintName\<close> (\<^verbatim>\<open>state/validate.go\<close>), and \<^verbatim>\<open>constraints/general.go\<close>. What the texts take from outside
  the repository is the record \<open>text_api\<close>: \<^verbatim>\<open>easyfl.Fmt\<close>, \<^verbatim>\<open>easyfl.DecompileBytecode\<close>,
  \<^verbatim>\<open>easyfl.EvalFromSource\<close> and the text of an error.
\<close>

record text_api =
  Fmt :: "bytes \<Rightarrow> string"
  DecompileBytecode :: "bytes \<Rightarrow> string res"
  EvalFromSource :: "data_context \<Rightarrow> string \<Rightarrow> val"
  error_text :: "error \<Rightarrow> string"

definition nl :: string where "nl = [char_of (10 :: nat)]"

section \<open>Ids, commands and paths\<close>

definition TransactionID_String :: "text_api \<Rightarrow> TransactionID \<Rightarrow> string" where
  "TransactionID_String T txid = Fmt T txid"

definition OutputID_String :: "text_api \<Rightarrow> OutputID \<Rightarrow> string" where
  "OutputID_String T oid =
     ''['' @ dec (unat (OutputID_Index oid)) @ '']'' @ TransactionID_String T (OutputID_TransactionID oid)"

definition Partition_String :: "Partition \<Rightarrow> string" where
  "Partition_String p =
     (if p = PartitionAccount then ''account'' else if p = PartitionChainID then ''chain'' else ''unknown partition'')"

definition Partition_Bytes :: "Partition \<Rightarrow> bytes" where
  "Partition_Bytes p = [p]"

definition bool_text :: "bool \<Rightarrow> string" where
  "bool_text b = (if b then ''true'' else ''false'')"

definition Command_String :: "text_api \<Rightarrow> Command \<Rightarrow> string" where
  "Command_String T cmd =
     ''indexer command: partition: '' @ Partition_String (cmd_Partition cmd) @ '', id: '' @ Fmt T (cmd_ID cmd)
       @ '', oid: '' @ OutputID_String T (cmd_OutputID cmd) @ '', del: '' @ bool_text (cmd_Delete cmd)"

fun join :: "string \<Rightarrow> string list \<Rightarrow> string" where
  \<comment> \<open>\<open>strings.Join\<close>\<close>
  "join sep [] = []"
| "join sep [x] = x"
| "join sep (x # y # xs) = x @ sep @ join sep (y # xs)"

definition bytes_text :: "bytes \<Rightarrow> string" where
  \<comment> \<open>\<open>%v\<close> of a byte slice\<close>
  "bytes_text bs = ''['' @ join '' '' (map (\<lambda>b. dec (unat b)) bs) @ '']''"

definition TreePath_String :: "path \<Rightarrow> string" where
  "TreePath_String p = bytes_text p"

definition TreePath_Hex :: "path \<Rightarrow> string" where
  "TreePath_Hex p = hex p"

definition ParsedString :: "text_api \<Rightarrow> array \<Rightarrow> string res" where
  "ParsedString T a =
     rmap (\<lambda>p. ''['' @ join '','' (map (Fmt T) p) @ '']'') (fst (Parsed a))"

definition path_rest :: "path \<Rightarrow> string" where
  \<comment> \<open>the two last lines of both branches of \<open>PathToString\<close>\<close>
  "path_rest path =
     (if length path \<ge> 4 then ''.block['' @ dec (unat (path ! 3)) @ '']'' else '''')
     @ (if length path \<ge> 5 then ''..'' @ bytes_text (drop 4 path) else '''')"

definition tx_branch_text :: "byte \<Rightarrow> string" where
  "tx_branch_text b =
     (if b = TxUnlockParams then ''.unlock'' else if b = TxInputIDs then ''.inID''
      else if b = TxOutputs then ''.out'' else if b = TxSignature then ''.sig''
      else if b = TxTimestamp then ''.ts'' else if b = TxInputCommitment then ''.inhash''
      else ''WRONG[1]'')"

definition PathToString :: "path \<Rightarrow> string" where
  "PathToString path =
     ''@'' @
     (if path = [] then ''.nil''
      else if path ! 0 = TransactionBranch then
        ''.tx''
        @ (if length path \<ge> 2 then tx_branch_text (path ! 1) else '''')
        @ (if length path \<ge> 3 then ''['' @ dec (unat (path ! 2)) @ '']'' else '''')
        @ path_rest path
      else if path ! 0 = ConsumedBranch then
        ''.consumed''
        @ (if length path \<ge> 2 then (if path ! 1 \<noteq> 0 then ''.WRONG[1]'' else ''.[0]'') else '''')
        @ (if length path \<ge> 3 then ''.out['' @ dec (unat (path ! 2)) @ '']'' else '''')
        @ path_rest path
      else ''.WRONG[0]'')"

section \<open>Constraints\<close>

definition NewGeneralScript :: "bytes \<Rightarrow> bytes" where
  "NewGeneralScript data = data"

definition NewGeneralScriptFromSource :: "easyfl \<Rightarrow> string \<Rightarrow> bytes res" where
  "NewGeneralScriptFromSource E src =
     (case CompileExpression E src of Inl e \<Rightarrow> Inl e | Inr bytecode \<Rightarrow> Inr bytecode)"

definition GeneralScript_String :: "text_api \<Rightarrow> bytes \<Rightarrow> string res" where
  "GeneralScript_String T u =
     rmap (\<lambda>src. ''GeneralScript('' @ Fmt T u @ '') (decompile: '' @ src @ '')'')
       (case DecompileBytecode T u of
          Inl (Panic p) \<Rightarrow> Inl (Panic p)
        | Inl (Error _) \<Rightarrow> Inr ''failed decompile''
        | Inr src \<Rightarrow> Inr src)"

definition Amount_Name :: "64 word \<Rightarrow> string" where "Amount_Name x = ''amount''"
definition Amount_String :: "64 word \<Rightarrow> string" where "Amount_String x = Amount_source x"
definition Timestamp_Name :: "32 word \<Rightarrow> string" where "Timestamp_Name x = ''timestamp''"
definition Timestamp_String :: "32 word \<Rightarrow> string" where "Timestamp_String x = Timestamp_source x"
definition Timelock_Name :: "32 word \<Rightarrow> string" where "Timelock_Name x = ''timelock''"
definition AddressED25519_Name :: "AddressED25519 \<Rightarrow> string" where "AddressED25519_Name x = ''addressED25519''"
definition AddressED25519_String :: "AddressED25519 \<Rightarrow> string" where "AddressED25519_String x = AddressED25519_source x"
definition DeadlineLock_Name :: "DeadlineLock \<Rightarrow> string" where "DeadlineLock_Name x = ''deadlineLock''"
definition ChainLock_Name :: "ChainLock \<Rightarrow> string" where "ChainLock_Name x = ''chainLock''"
definition ChainLock_String :: "ChainLock \<Rightarrow> string" where "ChainLock_String x = ChainLock_source x"
definition ChainConstraint_Name :: "ChainConstraint \<Rightarrow> string" where "ChainConstraint_Name x = ''chain''"
definition ChainConstraint_String :: "ChainConstraint \<Rightarrow> string" where "ChainConstraint_String x = ChainConstraint_source x"
definition Sender_Name :: "AddressED25519 \<Rightarrow> string" where "Sender_Name x = ''senderAddressED25519''"
definition Royalties_Name :: "RoyaltiesED25519 \<Rightarrow> string" where "Royalties_Name x = ''royaltiesED25519''"
definition Royalties_String :: "easyfl \<Rightarrow> RoyaltiesED25519 \<Rightarrow> string res" where "Royalties_String E x = Royalties_source E x"
definition Immutable_Name :: "Immutable \<Rightarrow> string" where "Immutable_Name x = ''immutable''"
definition Immutable_String :: "Immutable \<Rightarrow> string" where "Immutable_String x = Immutable_source x"
definition CommitToSibling_Name :: "CommitToSibling \<Rightarrow> string" where "CommitToSibling_Name x = ''commitToSibling''"
definition CommitToSibling_String :: "CommitToSibling \<Rightarrow> string" where "CommitToSibling_String x = CommitToSibling_source x"
definition GeneralScript_Name :: "bytes \<Rightarrow> string" where "GeneralScript_Name u = ''GeneralScript''"
definition GeneralScript_Bytes :: "bytes \<Rightarrow> bytes" where "GeneralScript_Bytes u = u"

lemmas name_defs [simp] = Amount_Name_def Timestamp_Name_def Timelock_Name_def AddressED25519_Name_def
  DeadlineLock_Name_def ChainLock_Name_def ChainConstraint_Name_def Sender_Name_def
  Royalties_Name_def Immutable_Name_def CommitToSibling_Name_def GeneralScript_Name_def

fun Accountable_String :: "Accountable \<Rightarrow> string" where
  "Accountable_String (Acc_AddressED25519 a) = AddressED25519_String a"
| "Accountable_String (Acc_ChainLock cl) = ChainLock_String cl"

definition DeadlineLock_String :: "DeadlineLock \<Rightarrow> string" where
  "DeadlineLock_String dl =
     ''deadlineLock('' @ dec (unat (dl_Deadline dl)) @ '','' @ Accountable_String (dl_Main dl) @ '',''
       @ Accountable_String (dl_Expiry dl) @ '')''"

definition Timelock_String :: "32 word \<Rightarrow> string" where
  "Timelock_String t = ''timelock('' @ dec (unat t) @ '')''"

definition Sender_String :: "text_api \<Rightarrow> AddressED25519 \<Rightarrow> string" where
  "Sender_String T a = ''senderAddressED25519('' @ Fmt T a @ '')''"

text \<open>The method tables of the interfaces \<^verbatim>\<open>Lock\<close> and \<^verbatim>\<open>Constraint\<close>.\<close>

fun Lock_String :: "Lock \<Rightarrow> string" where
  "Lock_String (Lock_AddressED25519 a) = AddressED25519_String a"
| "Lock_String (Lock_DeadlineLock dl) = DeadlineLock_String dl"
| "Lock_String (Lock_ChainLock cl) = ChainLock_String cl"

fun Constraint_String :: "text_api \<Rightarrow> easyfl \<Rightarrow> Constraint \<Rightarrow> string res" where
  "Constraint_String T E (Con_Amount a) = Inr (Amount_String a)"
| "Constraint_String T E (Con_Timestamp t) = Inr (Timestamp_String t)"
| "Constraint_String T E (Con_Timelock t) = Inr (Timelock_String t)"
| "Constraint_String T E (Con_Lock l) = Inr (Lock_String l)"
| "Constraint_String T E (Con_Chain ch) = Inr (ChainConstraint_String ch)"
| "Constraint_String T E (Con_Sender a) = Inr (Sender_String T a)"
| "Constraint_String T E (Con_Royalties r) = Royalties_String E r"
| "Constraint_String T E (Con_Immutable d) = Inr (Immutable_String d)"
| "Constraint_String T E (Con_CommitToSibling cs) = Inr (CommitToSibling_String cs)"
| "Constraint_String T E (Con_GeneralScript u) = GeneralScript_String T u"

fun Lock_Name :: "Lock \<Rightarrow> string" where
  "Lock_Name (Lock_AddressED25519 a) = AddressED25519_Name a"
| "Lock_Name (Lock_DeadlineLock dl) = DeadlineLock_Name dl"
| "Lock_Name (Lock_ChainLock cl) = ChainLock_Name cl"

fun Constraint_Name :: "Constraint \<Rightarrow> string" where
  "Constraint_Name (Con_Amount a) = Amount_Name a"
| "Constraint_Name (Con_Timestamp t) = Timestamp_Name t"
| "Constraint_Name (Con_Timelock t) = Timelock_Name t"
| "Constraint_Name (Con_Lock l) = Lock_Name l"
| "Constraint_Name (Con_Chain ch) = ChainConstraint_Name ch"
| "Constraint_Name (Con_Sender a) = Sender_Name a"
| "Constraint_Name (Con_Royalties r) = Royalties_Name r"
| "Constraint_Name (Con_Immutable d) = Immutable_Name d"
| "Constraint_Name (Con_CommitToSibling cs) = CommitToSibling_Name cs"
| "Constraint_Name (Con_GeneralScript u) = GeneralScript_Name u"

definition constraintName :: "text_api \<Rightarrow> easyfl \<Rightarrow> registry \<Rightarrow> bytes \<Rightarrow> string res" where
  "constraintName T E R binCode =
     rbind (nth_res binCode 0) (\<lambda>b.
     if b = 0 then Inr ''array_constraint''
     else (case ParseBytecodePrefix E binCode of
         Inl (Panic p) \<Rightarrow> Inl (Panic p)
       | Inl (Error _) \<Rightarrow> Inr (''unknown_constraint('' @ Fmt T binCode @ '')'')
       | Inr prefix \<Rightarrow>
           (case NameByPrefix R prefix of
              Some name \<Rightarrow> Inr name
            | None \<Rightarrow> Inr (''constraint_call_prefix('' @ Fmt T prefix @ '')''))))"

section \<open>Outputs and validation contexts\<close>

definition output_line :: "text_api \<Rightarrow> easyfl \<Rightarrow> registry \<Rightarrow> string \<Rightarrow> nat \<Rightarrow> bytes \<Rightarrow> string res" where
  "output_line T E R pref i data =
     rmap (\<lambda>c. pref @ dec i @ '': '' @ c @ '' ('' @ dec (length data) @ '' bytes)'' @ nl)
       (case FromBytes E R data of
          Inl (Panic p) \<Rightarrow> Inl (Panic p)
        | Inl (Error e) \<Rightarrow> Inr (error_text T (Error e))
        | Inr c \<Rightarrow> Constraint_String T E c)"

definition Output_ToString :: "text_api \<Rightarrow> easyfl \<Rightarrow> registry \<Rightarrow> string \<Rightarrow> Output \<Rightarrow> string res option" where
  "Output_ToString T E R pref o' =
     map_option fst
       (Array_ForEach (\<lambda>i data str. rmap (\<lambda>l. (True, str @ l)) (output_line T E R pref i data)) '''' o')"

definition TransactionBytes :: "text_api \<Rightarrow> TransactionContext \<Rightarrow> bytes res" where
  "TransactionBytes T v = as_panic (EvalFromSource T \<lparr>dc_tree = tc_tree v, dc_path = []\<rparr> ''txBytes'')"

definition context_head :: "text_api \<Rightarrow> easyfl \<Rightarrow> TransactionContext \<Rightarrow> string res" where
  "context_head T E v =
     rbind (TransactionBytes T v) (\<lambda>tx.
     rbind (TimestampData v) (\<lambda>(tsBin, ts).
     rbind (InputCommitment v) (\<lambda>ic.
     rbind (Signature v) (\<lambda>sign.
     Inr (nl @ ''Transaction. ID: '' @ TransactionID_String T (tc_txid v) @ '', size: '' @ dec (length tx) @ nl
       @ ''Timestamp: '' @ Fmt T tsBin @ '' ('' @ dec (unat ts) @ '')'' @ nl
       @ ''Input commitment: '' @ Fmt T ic @ nl
       @ ''Signature: '' @ Fmt T sign @ nl
       @ (if length sign = 96
          then ''     ED25519 sender address: '' @ Fmt T (Sum256 E (drop 64 sign)) @ nl else '''')
       @ ''Inputs (consumed outputs): '' @ nl)))))"

definition parsed_output_text :: "text_api \<Rightarrow> easyfl \<Rightarrow> registry \<Rightarrow> bytes \<Rightarrow> string res option" where
  "parsed_output_text T E R odata =
     (case OutputFromBytes E R odata of
        Inl (Panic p) \<Rightarrow> Some (Inl (Panic p))
      | Inl (Error e) \<Rightarrow> Some (Inr (''     failed to parse output: '' @ error_text T (Error e) @ nl))
      | Inr o' \<Rightarrow> Output_ToString T E R ''     '' o')"

definition input_text :: "text_api \<Rightarrow> easyfl \<Rightarrow> registry \<Rightarrow> TransactionContext \<Rightarrow> byte \<Rightarrow> string \<Rightarrow> string res option" where
  "input_text T E R v i str =
     obind (Some (InputID v i)) (\<lambda>oid.
     obind (Some (ConsumedOutputData v i)) (\<lambda>odata.
     obind (parsed_output_text T E R odata) (\<lambda>out.
     obind (Some (UnlockData v i)) (\<lambda>unlockBin.
     obind (Some (ParsedString T (ArrayFromBytes unlockBin))) (\<lambda>unlock.
     Some (Inr (str @ ''  #'' @ dec (unat i) @ '': '' @ OutputID_String T oid @ '' ('' @ dec (length odata) @ '' bytes)'' @ nl
       @ out @ ''     Unlock data: '' @ unlock @ nl)))))))"

definition output_text :: "text_api \<Rightarrow> easyfl \<Rightarrow> registry \<Rightarrow> TransactionContext \<Rightarrow> byte \<Rightarrow> string \<Rightarrow> string res option" where
  "output_text T E R v i str =
     obind (Some (ProducedOutputData v i)) (\<lambda>odata.
     obind (parsed_output_text T E R odata) (\<lambda>out.
     Some (Inr (str @ ''  #'' @ dec (unat i) @ '' ('' @ dec (length odata) @ '' bytes) :'' @ nl @ out))))"

definition ValidationContextToString :: "text_api \<Rightarrow> easyfl \<Rightarrow> registry \<Rightarrow> TransactionContext \<Rightarrow> string res option" where
  "ValidationContextToString T E R v =
     obind (Some (context_head T E v)) (\<lambda>ret1.
     obind (byte_loop (input_text T E R v) (NumInputs v) 0 ret1) (\<lambda>ret2.
     byte_loop (output_text T E R v) (NumProducedOutputs v) 0 (ret2 @ ''Outputs (produced): '' @ nl)))"

definition TxToString :: "text_api \<Rightarrow> ('s, 'r, 't, 'i) environment \<Rightarrow> bytes \<Rightarrow> ('s, 'r, 'i) UTXODB \<Rightarrow> string res option" where
  "TxToString T W txbytes u =
     (case ValidationContextFromTransaction W txbytes u of
        Inl (Panic p) \<Rightarrow> Some (Inl (Panic p))
      | Inl (Error e) \<Rightarrow> Some (Inr (''error: '' @ error_text T (Error e)))
      | Inr ctx \<Rightarrow> ValidationContextToString T (su_easyfl W) (su_registry W) ctx)"

section \<open>Names\<close>

text \<open>Each constraint value compiles to a call of the function it is named after.\<close>

lemma lock_compiles:
  assumes "compile_laws E" "lock_ok l"
  shows "\<exists>lits. compiles_to E (Lock_Bytes E l) (Lock_Name l) lits"
proof (cases l)
  case (Lock_AddressED25519 a)
  then have "a \<noteq> []" "length a \<le> 127" using assms(2) by auto
  then show ?thesis using AddressED25519_compiles [OF assms(1)] Lock_AddressED25519 by auto
next
  case (Lock_DeadlineLock dl)
  then have "length (accountable_data (dl_Main dl)) = 32" "length (accountable_data (dl_Expiry dl)) = 32"
    using assms(2) by auto
  then obtain m x where "compiles_to E (DeadlineLock_Bytes E dl) ''deadlineLock'' [L_u32 (dl_Deadline dl), L_code m, L_code x]"
    by (rule DeadlineLock_compiles [OF assms(1)])
  then show ?thesis using Lock_DeadlineLock by auto
next
  case (Lock_ChainLock c)
  then have "c \<noteq> []" "length c \<le> 127" using assms(2) by auto
  then show ?thesis using ChainLock_compiles [OF assms(1)] Lock_ChainLock by auto
qed

lemma constraint_compiles:
  assumes "compile_laws E" "constraint_ok c \<or> c = Con_Timelock t"
  shows "\<exists>lits. compiles_to E (Constraint_Bytes E c) (Constraint_Name c) lits"
proof (cases c)
  case (Con_Lock l)
  then show ?thesis using lock_compiles [OF assms(1)] assms(2) by auto
next
  case (Con_Sender a)
  then have "a \<noteq> []" "length a \<le> 127" using assms(2) by auto
  then show ?thesis using Sender_compiles [OF assms(1)] Con_Sender by auto
next
  case (Con_Royalties r)
  then have "length (ro_Address r) = 32" using assms(2) by auto
  then obtain a where "compiles_to E (Royalties_Bytes E r) ''royaltiesED25519'' [L_hex a, L_u64 (ro_Amount r)]"
    by (rule Royalties_compiles [OF assms(1)])
  then show ?thesis using Con_Royalties by auto
next
  case (Con_CommitToSibling d)
  then have "cs_SiblingHash d \<noteq> []" "length (cs_SiblingHash d) \<le> 127" using assms(2) by auto
  then show ?thesis using CommitToSibling_compiles [OF assms(1)] Con_CommitToSibling by auto
qed (use assms in \<open>auto intro: Amount_compiles Timestamp_compiles Timelock_compiles ChainConstraint_compiles
      Immutable_compiles\<close>)

lemma Constraint_Name_symbol: "(\<forall>u. c \<noteq> Con_GeneralScript u) \<Longrightarrow> Constraint_Name c \<in> set constraint_symbols"
  by (cases c; cases "case c of Con_Lock l \<Rightarrow> l | _ \<Rightarrow> undefined")
    (simp_all add: constraint_symbols_def constraint_arity_def)

text \<open>
  The name under which validation reports a constraint is the name the
  constraint value gives itself: its bytecode starts with a prefix that the registry holds under
  exactly this name. It holds for time locks too, although \<open>FromBytes\<close> cannot read those.
\<close>

theorem constraint_names_agree:
  assumes "easyfl_laws E" "compile_laws E" "init_constraints E = Inr R" "constraint_ok c \<or> c = Con_Timelock t"
  shows "\<exists>code. Constraint_Bytes E c = Inr code \<and> constraintName T E R code = Inr (Constraint_Name c)"
proof -
  have no_script: "\<forall>u. c \<noteq> Con_GeneralScript u" using assms(4) by auto
  obtain lits where "compiles_to E (Constraint_Bytes E c) (Constraint_Name c) lits"
    using constraint_compiles [OF assms(2,4)] by blast
  then obtain code where code: "Constraint_Bytes E c = Inr code" "reads_as E code (Constraint_Name c) lits"
    "code \<noteq> []" "hd code \<noteq> 0"
    by (auto simp: compiles_to_def)
  obtain args where "ParseBytecodeOneLevel E code None = Inr (Constraint_Name c, PrefixOf E (Constraint_Name c), args)"
    by (rule reads_as_parses [OF assms(1) code(2)])
  then have "ParseBytecodePrefix E code = Inr (PrefixOf E (Constraint_Name c))"
    using assms(1) unfolding easyfl_laws_def parse_laws_def by blast
  moreover have "NameByPrefix R (PrefixOf E (Constraint_Name c)) = Some (Constraint_Name c)"
    using NameByPrefix_std [OF assms(1) Constraint_Name_symbol [OF no_script]] init_constraints_std [OF assms(1,2)]
      assms(3) by simp
  ultimately show ?thesis using code by (simp add: constraintName_def nth_res_def hd_conv_nth)
qed

section \<open>Printing a context\<close>

lemma Output_ToString_returns: "Output_ToString T E R pref o' \<noteq> None"
  by (simp add: Output_ToString_def Array_ForEach_walk)

lemma parsed_output_text_returns: "parsed_output_text T E R odata \<noteq> None"
  using Output_ToString_returns [of T E R] by (simp add: parsed_output_text_def split: sum.splits error.splits)

lemma io_text_returns: "input_text T E R v i str \<noteq> None" "output_text T E R v i str \<noteq> None"
  by (simp_all add: input_text_def output_text_def obind_None parsed_output_text_returns)

lemma byte_loop_total:
  assumes "n < 256" "\<And>i s. body i s \<noteq> None"
  shows "byte_loop body (Inr n) i s \<noteq> None"
  using byte_loop_returns [OF assms(1), of body "\<lambda>i s. the (body i s)"] assms(2) by simp

text \<open>
  C40 (context_printing_returns): \<^verbatim>\<open>ValidationContextToString\<close> counts inputs and outputs with a byte, which
  never reaches 256. Below 256 inputs and outputs it always returns (or panics on malformed unlock
  data); with 256 inputs or 256 outputs, which the transaction format allows, it never returns a text.
\<close>

theorem context_printing_returns:
  assumes "NumInputs v = Inr n" "NumProducedOutputs v = Inr m"
  shows "(n < 256 \<and> m < 256 \<longrightarrow> ValidationContextToString T E R v \<noteq> None)
    \<and> (256 \<le> n \<or> 256 \<le> m \<longrightarrow> (\<forall>s. ValidationContextToString T E R v \<noteq> Some (Inr s)))"
proof (intro conjI impI allI)
  assume "n < 256 \<and> m < 256"
  then show "ValidationContextToString T E R v \<noteq> None"
    using byte_loop_total [of n "input_text T E R v"] byte_loop_total [of m "output_text T E R v"]
    by (simp add: ValidationContextToString_def obind_None assms io_text_returns)
next
  fix s
  assume "256 \<le> n \<or> 256 \<le> m"
  then show "ValidationContextToString T E R v \<noteq> Some (Inr s)"
    by (auto simp: ValidationContextToString_def obind_Inr assms byte_loop_never)
qed

text \<open>Two branches of the transaction are printed as wrong although the format has them.\<close>

lemma PathToString_valid_branches_wrong:
  "PathToString [TransactionBranch, TxEndorsements] = ''@.txWRONG[1]''"
  "PathToString PathToLocalLibraries = ''@.txWRONG[1]''"
  by (simp_all add: PathToString_def tx_branch_text_def path_rest_def PathToLocalLibraries_def TransactionBranch_def
      TxEndorsements_def TxLocalLibraries_def TxUnlockParams_def TxInputIDs_def TxOutputs_def TxSignature_def
      TxTimestamp_def TxInputCommitment_def)

end
