(* ===== verification/LocalLibrary.thy ===== *)
theory LocalLibrary
  imports Transaction
begin

text \<open>
  Local libraries (\<^verbatim>\<open>constraints/extensions.go\<close>): \<^verbatim>\<open>CompileLocalLibrary\<close> packs the bytecode of the functions
  of a source into one lazy array, \<^verbatim>\<open>callLocalLibrary\<close> unpacks it and calls one of them. The compiler
  \<^verbatim>\<open>easyfl.CompileLocalLibrary\<close> is the parameter \<open>compile\<close>.
\<close>

definition CompileLocalLibrary :: "(string \<Rightarrow> bytes list res) \<Rightarrow> string \<Rightarrow> bytes res" where
  "CompileLocalLibrary compile source =
     rbind (compile source) (\<lambda>libBin.
     case MakeArrayFromData libBin of
       (Inl e, _) \<Rightarrow> Inl e
     | (Inr _, arr) \<Rightarrow> fst (Bytes arr))"

text \<open>
  C39 (local_library_roundtrip): a compiled local library of at most 16383 functions, each shorter than
  4 GiB, is packed into bytes, and \<^verbatim>\<open>callLocalLibrary\<close> on these bytes calls exactly the function at the
  index with the remaining arguments in the data context of the call, or panics when the library has
  no such function.
\<close>

theorem local_library_roundtrip:
  assumes "compile source = Inr funs" "length funs \<le> maxArrayLen" "\<forall>f \<in> set funs. length f < 2 ^ 32"
  shows "\<exists>lib. CompileLocalLibrary compile source = Inr lib
    \<and> (\<forall>c i args. evalCallLocalLibrary E c (Inr lib # Inr [i] # args)
        = (if unat i < length funs then CallLocalLibrary E c args funs (unat i) else Inl (Panic Wrong_arguments)))"
proof -
  obtain a where a: "MakeArrayFromData funs = (Inr (), a)" "arr_inv a" "arr_view a = Inr funs"
    using MakeArrayFromData_ok by blast
  have "encodable funs" using assms(2,3) by (auto simp: encodable_def MaxUint32_def less_Suc_eq_le)
  then obtain lib where lib: "array_bytes a = Inr lib"
    using Bytes_result [OF a(2,3)] by (auto simp: array_bytes_def is_ok_iff)
  then have "parseArray lib maxArrayLen = Inr funs" by (rule array_bytes_Inr [OF a(2,3)]) (rule assms(2))
  then show ?thesis
    using a(1) lib assms(1)
    by (simp add: CompileLocalLibrary_def evalCallLocalLibrary_def array_bytes_def Parsed_def ensureParsed_eq
        ArrayFromBytes_def nth_res_def numeral_2_eq_2)
qed

end
