(* ===== verification/PrintWitnesses.thy ===== *)
theory PrintWitnesses
  imports CodecWitnesses Rendering LocalLibrary
begin

text \<open>
  The theorems about loops and texts, applied to concrete values. \<open>crowded\<close> is a validation context
  without inputs and with 256 empty outputs.
\<close>

definition demo_text :: text_api where
  "demo_text = \<lparr>Fmt = hex, DecompileBytecode = (\<lambda>_. Inr ''call''), EvalFromSource = (\<lambda>c _. fst (BytesAtPath [0] (dc_tree c))),
     error_text = (\<lambda>_. ''failed'')\<rparr>"

lemma constraint_names_agree_witness:
  "\<exists>code. Constraint_Bytes ref_easyfl (Con_Timelock 15) = Inr code
    \<and> constraintName demo_text ref_easyfl demo_registry code = Inr ''timelock''"
  using constraint_names_agree [OF ref_laws ref_compiles demo_init, of "Con_Timelock 15" 15 demo_text] by simp

definition crowded_parts :: "bytes list" where
  "crowded_parts = [enc [], enc [], enc (replicate 256 [])]"

definition crowded :: TransactionContext where
  "crowded = \<lparr>tc_tree = TreeFromBytes (enc [enc crowded_parts, enc [enc []]]), tc_txid = []\<rparr>"

lemma num_at_TreeFromBytes:
  "num_at (TreeFromBytes d) p = rmap length (rbind (parse_node d) (\<lambda>xs. elements_at xs p))"
  unfolding reads_tree(3) [OF tree_inv_TreeFromBytes]
  by (simp add: tree_elements_at_def TreeFromBytes_def parse_node_def)

lemma crowded_counts: "NumInputs crowded = Inr 0" "NumProducedOutputs crowded = Inr 256"
proof -
  have ok: "enc_ok (replicate 256 [])" "enc_ok []" by (simp_all add: enc_ok_def)
  have parts: "enc_ok crowded_parts" "length (enc crowded_parts) = 1044"
    using ok by (simp_all add: crowded_parts_def enc_ok_def length_enc sum_list_replicate)
  have root: "enc_ok [enc crowded_parts, enc [enc []]]"
    using parts(2) by (simp add: enc_ok_def length_enc)
  show "NumInputs crowded = Inr 0"
    using node_enc [OF root] node_enc [OF parts(1)] node_enc [OF ok(2)]
    by (simp add: NumInputs_def crowded_def num_at_TreeFromBytes TransactionBranch_def TxInputIDs_def nth_res_def
        crowded_parts_def)
  show "NumProducedOutputs crowded = Inr 256"
    using node_enc [OF root] node_enc [OF parts(1)] node_enc [OF ok(1)]
    by (simp add: NumProducedOutputs_def crowded_def num_at_TreeFromBytes TransactionBranch_def TxOutputs_def nth_res_def
        crowded_parts_def)
qed

lemma context_printing_returns_witness:
  "\<forall>s. ValidationContextToString demo_text ref_easyfl demo_registry crowded \<noteq> Some (Inr s)"
  using context_printing_returns [OF crowded_counts, of demo_text ref_easyfl demo_registry] by simp

lemma tree_foreach_walks_witness:
  "\<exists>t'. Tree_ForEach (\<lambda>i d s. Inr (True, s + length d)) [0] 0 (TreeFromBytes (enc [enc [[1, 2], [3]]])) = Some (Inr 3, t')"
proof -
  let ?t = "TreeFromBytes (enc [enc [[1, 2], [3]]])"
  have ok: "enc_ok [[1, 2], [3]]" "enc_ok [enc [[1, 2], [3]]]" by (simp_all add: enc_ok_def length_enc)
  have "fst (tree_elements [0] ?t) = Inr [[1, 2], [3]]"
    using reads_tree(2) [OF tree_inv_TreeFromBytes [of "enc [enc [[1, 2], [3]]]"], of "[0]"]
      node_enc [OF ok(1)] node_enc [OF ok(2)]
    by (simp add: elems_at_def tree_elements_at_def TreeFromBytes_def parse_node_def nth_res_def)
  then show ?thesis
    using tree_foreach_walks [OF tree_inv_TreeFromBytes, of "\<lambda>i d s. Inr (True, s + length d)" "[0]" 0 "enc [enc [[1, 2], [3]]]"]
    by (auto simp: byte_callback_def)
qed

lemma local_library_roundtrip_witness:
  "\<exists>lib. CompileLocalLibrary (\<lambda>_. Inr [[7], [8, 9]]) ''func f : 7'' = Inr lib
    \<and> evalCallLocalLibrary ref_easyfl (NewDataContext (TreeFromBytes [])) [Inr lib, Inr [1], Inr [5]] 
        = CallLocalLibrary ref_easyfl (NewDataContext (TreeFromBytes [])) [Inr [5]] [[7], [8, 9]] 1
    \<and> evalCallLocalLibrary ref_easyfl (NewDataContext (TreeFromBytes [])) [Inr lib, Inr [2]] = Inl (Panic Wrong_arguments)"
  using local_library_roundtrip [of "\<lambda>_. Inr [[7], [8, 9]]" "''func f : 7''" "[[7], [8, 9]]" ref_easyfl]
  by (auto simp: maxArrayLen_eq)

end
