(* ===== verification/Authority.thy ===== *)
theory Authority
  imports Validation
begin

text \<open>
  Who has to agree to a transaction: chain locks and sender constraints, followed from the scripts
  through \<^verbatim>\<open>Validate\<close> to the signature of the transaction.
\<close>

section \<open>Constraints with literal arguments\<close>

definition calls_with :: "easyfl \<Rightarrow> string \<Rightarrow> bytes \<Rightarrow> bytes \<Rightarrow> bool" where
  \<comment> \<open>the bytecode is \<open>name(0x...)\<close> with \<open>d\<close> as inline data\<close>
  "calls_with E name code d \<longleftrightarrow> code \<noteq> [] \<and> hd code \<noteq> 0 \<and>
     (\<exists>pfx arg. ParseBytecodeOneLevel E code None = Inr (name, pfx, [arg])
        \<and> StripDataPrefix E arg = d \<and> length d < length arg)"

lemma locked_by_address_calls: "locked_by_address E code a = calls_with E ''addressED25519'' code a"
  by (simp add: locked_by_address_def calls_with_def)

lemma literal_call_holds:
  assumes "runs_library E" "block_passes E v p j code" "calls_with E name code d" "name \<in> set constraint_symbols"
  shows "holds (fl_call E (ctx_at (tc_tree v) (p @ [of_nat j])) name [Inr d])"
proof -
  obtain pfx arg where code: "code \<noteq> []" "hd code \<noteq> 0" "ParseBytecodeOneLevel E code None = Inr (name, pfx, [arg])"
    "StripDataPrefix E arg = d" "length d < length arg"
    using assms(3) unfolding calls_with_def by blast
  from call_passes [OF assms(1,2) code(1-3) assms(4)] show ?thesis
    using inline_data [OF assms(1), of arg] code(4,5) by simp
qed

section \<open>Outputs of a valid transaction\<close>

definition output_at :: "tree \<Rightarrow> path \<Rightarrow> nat \<Rightarrow> bytes list \<Rightarrow> bool" where
  \<comment> \<open>the branch has an output \<open>i\<close> with these constraints\<close>
  "output_at t b i blocks \<longleftrightarrow>
     (\<exists>outs. elems_at t b = Inr outs \<and> i < length outs \<and> parseArray (outs ! i) 256 = Inr blocks)"

lemma output_at_bound:
  assumes "tree_inv t" "output_at t (branch_path c) i blocks"
  shows "i < 256"
proof -
  obtain outs where outs: "elems_at t (branch_path c) = Inr outs" "i < length outs"
    using assms(2) unfolding output_at_def by blast
  have "length outs \<le> 256"
  proof (cases c)
    case True
    then show ?thesis
      using elems_bound [OF assms(1), of "[ConsumedBranch]" ConsumedOutputsBranch outs] outs(1)
      by (simp add: branch_path_def PathToConsumedOutputs_def)
  next
    case False
    then show ?thesis
      using elems_bound [OF assms(1), of "[TransactionBranch]" TxOutputs outs] outs(1)
      by (simp add: branch_path_def PathToProducedOutputs_def)
  qed
  then show ?thesis using outs(2) by simp
qed

lemma valid_block_passes:
  assumes "Validate E R v = Inr records" "output_at (tc_tree v) (branch_path c) i blocks" "j < length blocks"
  shows "block_passes E v (branch_path c @ [of_nat i]) j (blocks ! j)"
proof -
  obtain ins outs where io: "elems_at (tc_tree v) PathToConsumedOutputs = Inr ins"
    "elems_at (tc_tree v) PathToProducedOutputs = Inr outs"
    "\<forall>i < length ins. output_passes E v True i (ins ! i)" "\<forall>i < length outs. output_passes E v False i (outs ! i)"
    using validation_passes [OF assms(1)] by blast
  then show ?thesis
    using assms(2,3) by (cases c) (auto simp: output_at_def output_passes_def branch_path_def)
qed

lemma output_at_constraint:
  assumes "tree_inv t" "constraint_at t (branch_path c) k l code" "Validate E R v = Inr records" "tc_tree v = t"
  obtains blocks where "output_at t (branch_path c) (unat k) blocks" "unat l < length blocks" "blocks ! unat l = code"
proof -
  obtain out where out: "tread t (branch_path c @ [k]) = Inr out" using assms(2) by (auto simp: constraint_at_def)
  obtain outs where outs: "elems_at t (branch_path c) = Inr outs" "\<forall>i < length outs. output_passes E v c i (outs ! i)"
    using validation_passes [OF assms(3)] assms(4) by (cases c) (auto simp: branch_path_def)
  have k: "unat k < length outs" "out = outs ! unat k"
    using out nth_elem_read [OF assms(1) outs(1), of k] by auto
  obtain blocks where "parseArray out 256 = Inr blocks" using outs(2) k by (auto simp: output_passes_def)
  then show thesis
    using that [of blocks] constraint_by_path(2) [OF assms(1) out, of blocks l code] assms(2) outs(1) k
    by (auto simp: output_at_def)
qed

lemma tread_constraint:
  assumes "tree_inv t" "tread t (b @ [k, l]) = Inr u"
  shows "constraint_at t b k l u"
proof -
  have "tree_at t ((b @ [k]) @ [l]) = Inr u" using assms(2) reads_tree(1) [OF assms(1)] by simp
  then obtain xs where "tree_elements_at t (b @ [k]) = Inr xs" "nth_res xs (unat l) = Inr u"
    unfolding tree_at_snoc [of t "b @ [k]"] by auto
  then obtain out where "tree_at t (b @ [k]) = Inr out" "parse_node out = Inr xs"
    unfolding tree_elements_at_snoc by auto
  then show ?thesis
    using array8_at_parsed [of out xs] \<open>nth_res xs (unat l) = Inr u\<close> reads_tree(1) [OF assms(1)]
    by (auto simp: constraint_at_def parse_node_256)
qed

section \<open>Chain locks\<close>

definition chain_identity :: "easyfl \<Rightarrow> tree \<Rightarrow> nat \<Rightarrow> bytes \<Rightarrow> bytes \<Rightarrow> bool" where
  \<comment> \<open>the bytecode at the consumed output \<open>k\<close> is a chain constraint of the chain \<open>cid\<close>\<close>
  "chain_identity E t k code cid \<longleftrightarrow>
     (\<exists>d. chain_data_of E (PrefixOf E ''chain'') code d \<and> 32 \<le> length d
        \<and> (if \<forall>b \<in> set (take 32 d). b = 0
           then \<exists>oid. tread t (PathToInputIDs @ [of_nat k]) = Inr oid \<and> cid = Sum256 E oid
           else cid = take 32 d))"

definition state_transition :: "tree \<Rightarrow> nat \<Rightarrow> nat \<Rightarrow> bool" where
  \<comment> \<open>the unlock parameters of the constraint ask for a state transition\<close>
  "state_transition t k l \<longleftrightarrow>
     (\<exists>u. constraint_at t PathToUnlockParams (of_nat k) (of_nat l) u \<and> 2 < length u \<and> u ! 2 = 0)"

lemma consumed_branch: "branch_path True = PathToConsumedOutputs" "branch_path False = PathToProducedOutputs"
  by (simp_all add: branch_path_def)

lemma consumed_path_eq: "branch_path True @ [i, j] = consumed_path i j" "branch_path False @ [i, j] = produced_path i j"
  by (simp_all add: branch_path_def consumed_path_def produced_path_def PathToConsumedOutputs_def PathToProducedOutputs_def)

lemma literal_at:
  assumes "runs_library E" "Validate E R v = Inr records" "output_at (tc_tree v) (branch_path c) i blocks"
    "j < length blocks" "calls_with E name (blocks ! j) d" "name \<in> set constraint_symbols"
  shows "holds (fl_call E (ctx_at (tc_tree v) (branch_path c @ [of_nat i, of_nat j])) name [Inr d])"
  using literal_call_holds [OF assms(1) valid_block_passes [OF assms(2,3,4)] assms(5,6)] by simp

lemma chain_lock_opened:
  assumes "easyfl_laws E" "runs_library E" "tree_inv (tc_tree v)" "Validate E R v = Inr records"
    "output_at (tc_tree v) PathToConsumedOutputs i blocks" "2 < length blocks"
    "calls_with E ''chainLock'' (blocks ! 2) cid"
  obtains k l ch where "k \<noteq> i" "output_at (tc_tree v) PathToConsumedOutputs k ch" "l < length ch"
    "chain_identity E (tc_tree v) k (ch ! l) cid" "state_transition (tc_tree v) k l"
proof -
  let ?t = "tc_tree v"
  have sym: "''chainLock'' \<in> set constraint_symbols" by (simp add: constraint_symbols_def constraint_arity_def)
  have at: "output_at ?t (branch_path True) i blocks" using assms(5) by (simp add: consumed_branch)
  have "holds (fl_call E (ctx_at ?t (consumed_path (of_nat i) (of_nat 2))) ''chainLock'' [Inr cid])"
    using literal_at [OF assms(2,4) at assms(6,7) sym] by (simp add: consumed_path_eq)
  then have "holds (fl_chainLock E (ctx_at ?t (consumed_path (of_nat i) 2)) (Inr cid))" by (simp add: fl_call_def)
  then obtain u p where u: "u ! 0 \<noteq> of_nat i" "referenced_chain_id E ?t (u ! 0) (u ! 1) cid"
    "constraint_at ?t PathToUnlockParams (u ! 0) (u ! 1) p" "2 < length p" "p ! 2 = 0"
    unfolding chainLock_consumed [OF assms(1)] by blast
  obtain code d where d: "constraint_at ?t PathToConsumedOutputs (u ! 0) (u ! 1) code"
    "chain_data_of E (PrefixOf E ''chain'') code d" "32 \<le> length d"
    "if \<forall>b \<in> set (take 32 d). b = 0
     then \<exists>oid. tread ?t (PathToInputIDs @ [u ! 0]) = Inr oid \<and> cid = Sum256 E oid else cid = take 32 d"
    using u(2) unfolding referenced_chain_id_def by blast
  have at': "constraint_at ?t (branch_path True) (u ! 0) (u ! 1) code" using d(1) by (simp add: consumed_branch)
  obtain ch where ch: "output_at ?t PathToConsumedOutputs (unat (u ! 0)) ch" "unat (u ! 1) < length ch"
    "ch ! unat (u ! 1) = code"
    using output_at_constraint [OF assms(3) at' assms(4) refl] by (auto simp: consumed_branch)
  have "unat (u ! 0) \<noteq> i" using u(1) by auto
  moreover have "chain_identity E ?t (unat (u ! 0)) (ch ! unat (u ! 1)) cid"
    using d(2,3,4) ch(3) unfolding chain_identity_def by (intro exI [of _ d]) simp
  moreover have "state_transition ?t (unat (u ! 0)) (unat (u ! 1))"
    using u(3-5) by (auto simp: state_transition_def)
  ultimately show thesis using that ch(1,2) by blast
qed

lemma chain_in_transition_continues:
  assumes "easyfl_laws E" "runs_library E" "tree_inv (tc_tree v)" "Validate E R v = Inr records"
    "output_at (tc_tree v) PathToConsumedOutputs k ch" "l < length ch" "calls_with E ''chain'' (ch ! l) d"
    "state_transition (tc_tree v) k l"
  obtains i j where "chain_continues E (tc_tree v) (of_nat k) (of_nat l) d i j"
proof -
  let ?t = "tc_tree v"
  have sym: "''chain'' \<in> set constraint_symbols" by (simp add: constraint_symbols_def constraint_arity_def)
  have at: "output_at ?t (branch_path True) k ch" using assms(5) by (simp add: consumed_branch)
  have "holds (fl_call E (ctx_at ?t (consumed_path (of_nat k) (of_nat l))) ''chain'' [Inr d])"
    using literal_at [OF assms(2,4) at assms(6,7) sym] by (simp add: consumed_path_eq)
  then have "holds (fl_chain E (ctx_at ?t (consumed_path (of_nat k) (of_nat l))) (Inr d))" by (simp add: fl_call_def)
  then obtain u where u: "tread ?t (PathToUnlockParams @ [of_nat k, of_nat l]) = Inr u"
    "u = [255, 255, 255] \<or> 2 \<le> length u \<and> chain_continues E ?t (of_nat k) (of_nat l) d (u ! 0) (u ! 1)"
    unfolding chain_consumed [OF assms(1)] by blast
  have "constraint_at ?t PathToUnlockParams (of_nat k) (of_nat l) u" by (rule tread_constraint [OF assms(3) u(1)])
  then have "u \<noteq> [255, 255, 255]"
    using assms(8) constraint_at_unique unfolding state_transition_def by fastforce
  then show thesis using u(2) that by blast
qed

text \<open>
  C3 (chain_locked_needs_controller): an output locked to a chain is only consumed together with
  another output that holds this chain, in a state transition: the chain is continued by a produced
  output, not destroyed (for a chain constraint whose data are inline), and when the chain's own output
  is locked by an address, the owner of this address has signed the transaction.
\<close>

theorem chain_locked_needs_controller:
  assumes "easyfl_laws E" "runs_library E" "tree_inv (tc_tree v)" "Validate E R v = Inr records"
    "output_at (tc_tree v) PathToConsumedOutputs i blocks" "2 < length blocks"
    "calls_with E ''chainLock'' (blocks ! 2) cid"
  shows "\<exists>k l ch. k \<noteq> i \<and> output_at (tc_tree v) PathToConsumedOutputs k ch \<and> l < length ch
    \<and> chain_identity E (tc_tree v) k (ch ! l) cid \<and> state_transition (tc_tree v) k l
    \<and> (\<forall>d. calls_with E ''chain'' (ch ! l) d
          \<longrightarrow> (\<exists>i j. chain_continues E (tc_tree v) (of_nat k) (of_nat l) d i j))
    \<and> (\<forall>a. 2 < length ch \<longrightarrow> locked_by_address E (ch ! 2) a \<longrightarrow> signed_by E (tc_tree v) a)"
proof -
  obtain k l ch where k: "k \<noteq> i" "output_at (tc_tree v) PathToConsumedOutputs k ch" "l < length ch"
    "chain_identity E (tc_tree v) k (ch ! l) cid" "state_transition (tc_tree v) k l"
    by (rule chain_lock_opened [OF assms])
  have "\<exists>i j. chain_continues E (tc_tree v) (of_nat k) (of_nat l) d i j" if "calls_with E ''chain'' (ch ! l) d" for d
    by (rule chain_in_transition_continues [OF assms(1-4) k(2,3) that k(5)]) blast
  moreover have "signed_by E (tc_tree v) a" if "2 < length ch" "locked_by_address E (ch ! 2) a" for a
    using k(2) address_lock_signed [OF assms(1-4) _ _ _ that] unfolding output_at_def by blast
  ultimately show ?thesis using k by blast
qed

section \<open>Senders\<close>

text \<open>
  C4 (sender_is_authentic): a produced output that names a sender does so truthfully in every valid
  transaction that spends from an address: the sender is the owner of that address, who has signed.
  Lock and sender are the usual calls, with the address as inline data. All address-locked inputs of a
  transaction then belong to this one owner.
\<close>

theorem sender_is_authentic:
  assumes "easyfl_laws E" "runs_library E" "tree_inv (tc_tree v)" "Validate E R v = Inr records"
    "output_at (tc_tree v) PathToConsumedOutputs i blocks" "2 < length blocks" "locked_by_address E (blocks ! 2) b"
    "output_at (tc_tree v) PathToProducedOutputs k outs" "l < length outs"
    "calls_with E ''senderAddressED25519'' (outs ! l) a"
  shows "a = b \<and> signed_by E (tc_tree v) a"
proof -
  let ?t = "tc_tree v"
  have sym: "''senderAddressED25519'' \<in> set constraint_symbols" by (simp add: constraint_symbols_def constraint_arity_def)
  have at: "output_at ?t (branch_path False) k outs" using assms(8) by (simp add: consumed_branch)
  have "holds (fl_call E (ctx_at ?t (produced_path (of_nat k) (of_nat l))) ''senderAddressED25519'' [Inr a])"
    using literal_at [OF assms(2,4) at assms(9,10) sym] by (simp add: consumed_path_eq)
  then have "holds (fl_senderAddressED25519 E (ctx_at ?t (produced_path (of_nat k) (of_nat l))) (Inr a))"
    by (simp add: fl_call_def)
  then obtain sig where "tread ?t PathToSignature = Inr sig" "a = Sum256 E (sub_bytes 64 95 sig)"
    unfolding sender_enforced [OF assms(1)] by blast
  moreover have "signed_by E ?t b"
    using assms(5) address_lock_signed [OF assms(1-4) _ _ _ assms(6,7)] unfolding output_at_def by blast
  ultimately show ?thesis by (auto simp: signed_by_def)
qed

end
