(* ===== verification/AuthorityWitnesses.thy ===== *)
theory AuthorityWitnesses
  imports CodecWitnesses Authority
begin

text \<open>
  The concrete transaction of theory \<open>ScriptWitnesses\<close> passes \<^verbatim>\<open>Validate\<close> as a whole. It continues a chain
  twice, spends an output locked to the chain, and names its sender.
\<close>

section \<open>Blocks\<close>

definition sc_context :: TransactionContext where
  "sc_context = \<lparr>tc_tree = sc_tree, tc_txid = replicate 32 8\<rparr>"

lemma sc_context_simps [simp]: "tc_tree sc_context = sc_tree" "tc_txid sc_context = replicate 32 8"
  by (simp_all add: sc_context_def)

lemma call_parts:
  assumes "map_of constraint_arity name = Some 1" "length d < 65535"
  shows "call_code name [d] \<noteq> []" "hd (call_code name [d]) \<noteq> 0"
    "ParseBytecodeOneLevel ref_easyfl (call_code name [d]) None = Inr (name, ref_prefix name, [128 # d])"
    "calls_with ref_easyfl name (call_code name [d]) d"
proof -
  show p: "ParseBytecodeOneLevel ref_easyfl (call_code name [d]) None = Inr (name, ref_prefix name, [128 # d])"
    using parse_call_code [of name "[d]"] assms by (simp add: one_level_None)
  show n: "call_code name [d] \<noteq> []" "hd (call_code name [d]) \<noteq> 0"
    by (simp_all add: call_code_def ref_call_def)
  show "calls_with ref_easyfl name (call_code name [d]) d"
    using n p by (simp add: calls_with_def ref_strip_def)
qed

lemma call_block_passes:
  assumes "name \<in> set constraint_symbols" "map_of constraint_arity name = Some 1" "length d < 65535"
    "holds (fl_call ref_easyfl (ctx_at (tc_tree v) (p @ [of_nat j])) name [Inr d])"
  shows "block_passes ref_easyfl v p j (call_code name [d])"
proof -
  let ?c = "ctx_at (tc_tree v) (p @ [of_nat j])"
  note parts = call_parts [OF assms(2,3)]
  have "EvalFromBinary ref_easyfl ?c (128 # d) [] = Inr d"
    using inline_data [OF ref_runs, of "128 # d" ?c] by (simp add: ref_strip_def)
  then have "tv (EvalFromBinary ref_easyfl ?c (call_code name [d]) []) = Some True"
    using ref_runs parts(3) assms(1,4) unfolding runs_library_def holds_def by fastforce
  then have "holds (EvalFromBinary ref_easyfl ?c (call_code name [d]) [])" by (simp add: holds_def)
  then show ?thesis
    using parts(1,2) by (auto simp: block_passes_def evalConstraint_def context_at holds_iff)
qed

lemma data_block_passes: "block_passes ref_easyfl v p j [128, 42]"
  using inline_data [OF ref_runs, of "[128, 42]" "ctx_at (tc_tree v) (p @ [of_nat j])"]
  by (simp add: block_passes_def evalConstraint_def context_at ref_strip_def)

section \<open>Every block of the transaction passes\<close>

lemma single_symbols:
  "name \<in> {''amount'', ''timestamp'', ''addressED25519'', ''chainLock'', ''chain'', ''senderAddressED25519'', ''immutable''}
   \<Longrightarrow> name \<in> set constraint_symbols \<and> map_of constraint_arity name = Some 1"
  by (auto simp: constraint_symbols_def constraint_arity_def)

lemma sc_call_passes:
  assumes "name \<in> {''amount'', ''timestamp'', ''addressED25519'', ''chainLock'', ''chain'', ''senderAddressED25519'', ''immutable''}"
    "length d < 65535" "holds (fl_call ref_easyfl (ctx_at sc_tree (p @ [of_nat j])) name [Inr d])"
  shows "block_passes ref_easyfl sc_context p j (call_code name [d])"
  using call_block_passes [of name d sc_context p j] single_symbols [OF assms(1)] assms(2,3) by simp

lemma sc_signed: "signed_by ref_easyfl sc_tree tx_key"
proof -
  have e: "essence sc_tree = Inr tx_essence" by (simp add: essence_def tx_outputs tx_essence_def)
  have "sub_bytes 64 95 tx_signature = tx_key" "sub_bytes 0 63 tx_signature = ref_sum tx_essence @ ref_sum tx_key"
    by (simp_all add: tx_signature_def sub_bytes_def)
  moreover have "ref_sum tx_key = tx_key" by (simp add: ref_sum_def tx_key_def)
  ultimately show ?thesis
    using e by (simp add: signed_by_def tx_outputs ref_simps ref_verify_def)
qed

lemma sc_amount_produced:
  assumes "tread sc_tree (PathToProducedOutputs @ [of_nat i]) = Inr (enc xs)" "length (enc xs) \<le> unat n" "length (enc xs) < 65536"
  shows "block_passes ref_easyfl sc_context (branch_path False @ [of_nat i]) 0 (code_amount n)"
  unfolding code_amount_def
  by (rule sc_call_passes) (use assms in \<open>simp_all add: fl_call_def consumed_path_eq amount_enforced_parts [OF ref_laws]\<close>)

lemma sc_amount_consumed: "block_passes ref_easyfl sc_context (branch_path True @ [of_nat i]) 0 (code_amount n)"
  unfolding code_amount_def
  by (rule sc_call_passes) (simp_all add: fl_call_def consumed_path_eq amount_enforced_parts [OF ref_laws])

lemma sc_time:
  "block_passes ref_easyfl sc_context (branch_path False @ [of_nat i]) 1 (code_time 20)"
  "block_passes ref_easyfl sc_context (branch_path True @ [of_nat i]) 1 (code_time 10)"
  unfolding code_time_def
  by (rule sc_call_passes; simp add: fl_call_def consumed_path_eq timestamp_enforced_parts [OF ref_laws] tx_outputs put_u32_def be_val_be)+

lemma sc_locks_produced: "block_passes ref_easyfl sc_context (branch_path False @ [of_nat i]) 2 code_lock"
  unfolding code_lock_def
  by (rule sc_call_passes) (simp_all add: fl_call_def consumed_path_eq address_produced [OF ref_laws])

lemma sc_sender: "block_passes ref_easyfl sc_context (branch_path False @ [of_nat i]) 3 code_sender"
proof -
  have "holds (fl_senderAddressED25519 ref_easyfl (ctx_at sc_tree (produced_path (of_nat i) 3)) (Inr tx_key))"
    unfolding sender_enforced [OF ref_laws]
    by (simp add: tx_eval) (simp add: tx_signature_def sub_bytes_def, simp add: tx_key_def ref_sum_def)
  then show ?thesis
    unfolding code_sender_def by (intro sc_call_passes) (simp_all add: fl_call_def consumed_path_eq)
qed

lemma sc_address_consumed:
  "block_passes ref_easyfl sc_context (branch_path True @ [of_nat 0]) 2 code_lock"
  "block_passes ref_easyfl sc_context (branch_path True @ [of_nat 2]) 2 code_lock"
proof -
  have "holds (fl_addressED25519 ref_easyfl (ctx_at sc_tree (consumed_path 0 2)) (Inr tx_key))"
    by (rule address_signed [OF ref_laws sc_signed]) (simp add: tx_eval)
  moreover have "holds (fl_addressED25519 ref_easyfl (ctx_at sc_tree (consumed_path 2 2)) (Inr tx_key))"
    by (rule address_referenced [OF ref_laws, of _ _ 0 code_lock]) (simp_all add: tx_eval)
  ultimately show
    "block_passes ref_easyfl sc_context (branch_path True @ [of_nat 0]) 2 code_lock"
    "block_passes ref_easyfl sc_context (branch_path True @ [of_nat 2]) 2 code_lock"
    unfolding code_lock_def by (intro sc_call_passes; simp add: fl_call_def consumed_path_eq)+
qed

lemma sc_chain_lock: "block_passes ref_easyfl sc_context (branch_path True @ [of_nat 1]) 2 code_chain_lock"
proof -
  have "constraint_at sc_tree PathToUnlockParams 0 3 [0, 3, 0]" "tread sc_tree (PathToUnlockParams @ [1, 2]) = Inr [0, 3]"
    by (simp_all add: tx_eval)
  then have "holds (fl_chainLock ref_easyfl (ctx_at sc_tree (consumed_path 1 2)) (Inr tx_chain))"
    unfolding chainLock_consumed [OF ref_laws]
    by (intro conjI exI [of _ "[0, 3]"] exI [of _ "[0, 3, 0]"]) (simp_all add: referenced_tx_chain)
  then show ?thesis
    unfolding code_chain_lock_def by (intro sc_call_passes) (simp_all add: fl_call_def consumed_path_eq)
qed

lemma sc_chains:
  "block_passes ref_easyfl sc_context (branch_path False @ [of_nat 0]) 3 (code_chain tx_next)"
  "block_passes ref_easyfl sc_context (branch_path False @ [of_nat 2]) 3 (code_chain tx_next)"
  "block_passes ref_easyfl sc_context (branch_path True @ [of_nat 0]) 3 (code_chain origin_data)"
  unfolding code_chain_def
  using tx_chain_produced tx_chain_consumed by (intro sc_call_passes; simp add: fl_call_def consumed_path_eq)+

lemma sc_immutables:
  "block_passes ref_easyfl sc_context (branch_path False @ [of_nat 0]) 4 code_immutable"
  "block_passes ref_easyfl sc_context (branch_path True @ [of_nat 0]) 4 code_immutable"
proof -
  have "holds (fl_immutable ref_easyfl (ctx_at sc_tree (produced_path 0 4)) (Inr [3, 5]))"
    by (rule immutable_produced [OF ref_laws, of _ _ _ "code_chain tx_next" _ "[128, 42]"])
      (simp_all add: tx_eval code_chain_def parse_call_code constraint_arity_def)
  moreover have "holds (fl_immutable ref_easyfl (ctx_at sc_tree (consumed_path 0 4)) (Inr [3, 5]))"
    unfolding immutable_consumed [OF ref_laws] by (rule tx_immutable_parts)
  ultimately show
    "block_passes ref_easyfl sc_context (branch_path False @ [of_nat 0]) 4 code_immutable"
    "block_passes ref_easyfl sc_context (branch_path True @ [of_nat 0]) 4 code_immutable"
    unfolding code_immutable_def by (intro sc_call_passes; simp add: fl_call_def consumed_path_eq)+
qed

section \<open>Every output of the transaction is accepted\<close>

lemma code_chain_lock_bytes: "ChainLock_Bytes ref_easyfl tx_chain = Inr code_chain_lock"
proof -
  have "CompileExpression ref_easyfl (call_source ''chainLock'' [('''', L_hex tx_chain)]) = Inr code_chain_lock"
    using ref_compile_call [of "''chainLock''" "[('''', L_hex tx_chain)]"]
    by (simp add: seps_ok_def constraint_arity_def code_chain_lock_def call_code_def)
  then show ?thesis
    by (simp add: ChainLock_Bytes_def ChainLock_source_def mustBinFromSource_def call_source_def)
qed

lemma code_chain_lock_reads: "LockFromBytes ref_easyfl demo_registry code_chain_lock = Inr (Lock_ChainLock tx_chain)"
  using lock_reads_back [OF ref_laws ref_compiles, of "Lock_ChainLock tx_chain"] code_chain_lock_bytes
  by (auto simp: demo_registry_def)

definition sc_lock_code :: "bytes \<Rightarrow> bool" where
  "sc_lock_code code \<longleftrightarrow> (\<exists>acc. LockFromBytes ref_easyfl demo_registry code = Inr (AsLock acc)
     \<and> is_ok (AccountID ref_easyfl acc))"

lemma sc_lock_codes: "sc_lock_code code_lock" "sc_lock_code code_chain_lock"
  unfolding sc_lock_code_def
  by (intro exI [of _ "Acc_AddressED25519 tx_key"], simp add: code_lock_reads code_lock_bytes)
    (intro exI [of _ "Acc_ChainLock tx_chain"], simp add: code_chain_lock_reads code_chain_lock_bytes)

lemma IndexableTags_AsLock: "IndexableTags (AsLock acc) = [acc]"
  by (cases acc) simp_all

lemma amount_reads: "AmountFromBytes ref_easyfl (code_amount n) = Inr n"
  by (simp add: AmountFromBytes_def one_level_None code_amount_def parse_call_code constraint_arity_def data_arg_def
      nth_res_Cons ref_strip_def)

lemma sc_output_accepted:
  assumes "enc_ok xs" "2 < length xs" "c \<or> distinct xs" "xs ! 0 = code_amount n" "length (enc xs) \<le> unat n"
    "sc_lock_code (xs ! 2)" "c \<Longrightarrow> is_ok (InputID sc_context (of_nat i))"
    "\<And>j. j < length xs \<Longrightarrow> block_passes ref_easyfl sc_context (branch_path c @ [of_nat i]) j (xs ! j)"
    "\<And>r. is_ok (indexChain_loop ref_easyfl sc_context (of_nat i) c (enumerate 0 xs) r)"
  shows "output_accepted ref_easyfl demo_registry sc_context c i (enc xs)" "output_amount ref_easyfl (enc xs) = Inr n"
proof -
  have p: "parseArray (enc xs) 256 = Inr xs" using assms(1) by (simp add: parse_enc enc_ok_def)
  have view: "arr_view (ArrayFromBytesMax (enc xs) 256) = Inr xs" using p by simp
  show amt: "output_amount ref_easyfl (enc xs) = Inr n"
    using assms(2,4) view by (auto simp: output_amount_def At_eq ConstraintIndexAmount_def nth_res_def amount_reads)
  have run: "is_ok (runOutput ref_easyfl sc_context c (ArrayFromBytesMax (enc xs) 256) (branch_path c @ [of_nat i]))"
    by (rule runOutput_ok [OF p assms(8,3)])
  obtain acc code where acc: "LockFromBytes ref_easyfl demo_registry (xs ! 2) = Inr (AsLock acc)" "AccountID ref_easyfl acc = Inr code"
    using assms(6) by (auto simp: sc_lock_code_def is_ok_iff)
  obtain oid where oid: "(if c then InputID sc_context (of_nat i) else Inr (NewOutputID (tc_txid sc_context) (of_nat i))) = Inr oid"
    using assms(7) by (cases c) (auto simp: is_ok_iff)
  have "is_ok (indexLock ref_easyfl demo_registry sc_context (of_nat i) (ArrayFromBytesMax (enc xs) 256) c [])"
    using assms(2) by (simp add: indexLock_def At_eq p ConstraintIndexLock_def nth_res_def acc IndexableTags_AsLock oid)
  then have "is_ok (createIndexEntries ref_easyfl demo_registry sc_context (of_nat i) (ArrayFromBytesMax (enc xs) 256) c [])"
    using assms(9) by (auto simp: createIndexEntries_def indexChainID_def Parsed_def ensureParsed_eq p is_ok_iff)
  moreover have "length (enc xs) mod 2 ^ 32 \<le> amount_nat ref_easyfl (enc xs)"
    using amt assms(5) mod_less_eq_dividend [of "length (enc xs)" "2 ^ 32"] by (simp add: amount_nat_def)
  ultimately show "output_accepted ref_easyfl demo_registry sc_context c i (enc xs)"
    using run amt by (simp add: output_accepted_def Let_def)
qed

lemma chain_reads:
  "length d = 35 \<Longrightarrow> is_ok (ChainConstraintFromBytes ref_easyfl (code_chain d))"
  "ChainConstraintFromBytes ref_easyfl code_immutable = Inl (Error Not_the_constraint)"
  "ChainConstraintFromBytes ref_easyfl code_sender = Inl (Error Not_the_constraint)"
  by (simp_all add: ChainConstraintFromBytes_def ref_one_level_def code_defs parse_call_code
      constraint_arity_def data_arg_def nth_res_Cons ref_strip_def)

lemma chain_reads_data: "ChainConstraintFromBytes ref_easyfl [128, 42] = Inl (Error (External_fault 1))"
  by (simp add: ChainConstraintFromBytes_def ref_one_level_def ref_parse_def)

lemma sc_index_loops:
  "is_ok (indexChain_loop ref_easyfl sc_context 0 False (enumerate 0 (tx_produced ! 0)) r)"
  "is_ok (indexChain_loop ref_easyfl sc_context 1 False (enumerate 0 (tx_produced ! 1)) r)"
  "is_ok (indexChain_loop ref_easyfl sc_context 2 False (enumerate 0 (tx_produced ! 2)) r)"
  "is_ok (indexChain_loop ref_easyfl sc_context 0 True (enumerate 0 (tx_consumed ! 0)) r)"
  "is_ok (indexChain_loop ref_easyfl sc_context 1 True (enumerate 0 (tx_consumed ! 1)) r)"
  "is_ok (indexChain_loop ref_easyfl sc_context 2 True (enumerate 0 (tx_consumed ! 2)) r)"
proof -
  obtain ch ch' where ch: "ChainConstraintFromBytes ref_easyfl (code_chain tx_next) = Inr ch"
    "ChainConstraintFromBytes ref_easyfl (code_chain origin_data) = Inr ch'"
    using chain_reads(1) [of tx_next] chain_reads(1) [of origin_data] by (auto simp: is_ok_iff)
  have unlock: "UnlockParams sc_context 0 3 = Inr [0, 3, 0]" by (simp add: UnlockParams_def tx_eval)
  note eval = tx_produced_def tx_consumed_def ConstraintIndex_defs ch chain_reads(2,3) chain_reads_data unlock Let_def
  show "is_ok (indexChain_loop ref_easyfl sc_context 0 False (enumerate 0 (tx_produced ! 0)) r)"
    "is_ok (indexChain_loop ref_easyfl sc_context 1 False (enumerate 0 (tx_produced ! 1)) r)"
    "is_ok (indexChain_loop ref_easyfl sc_context 2 False (enumerate 0 (tx_produced ! 2)) r)"
    "is_ok (indexChain_loop ref_easyfl sc_context 0 True (enumerate 0 (tx_consumed ! 0)) r)"
    "is_ok (indexChain_loop ref_easyfl sc_context 1 True (enumerate 0 (tx_consumed ! 1)) r)"
    "is_ok (indexChain_loop ref_easyfl sc_context 2 True (enumerate 0 (tx_consumed ! 2)) r)"
    by (simp_all add: eval)
qed

lemma sc_elems:
  "elems_at sc_tree PathToConsumedOutputs = Inr (map enc tx_consumed)"
  "elems_at sc_tree PathToProducedOutputs = Inr (map enc tx_produced)"
proof -
  have top: "arr_view (tree_sa sc_tree) = Inr [enc tx_parts, enc [enc (map enc tx_consumed)]]"
    by (simp add: sc_tree_def TreeFromBytes_def parse_enc MaxElementsLazyTree_def)
  show "elems_at sc_tree PathToConsumedOutputs = Inr (map enc tx_consumed)"
    "elems_at sc_tree PathToProducedOutputs = Inr (map enc tx_produced)"
    by (simp_all add: reads_tree [OF sc_tree_inv] tree_elements_at_def top node_enc nth_res_Cons path_defs tx_parts_def
        flip: tx_parts_def)
      (simp add: tx_parts_def nth_res_Cons node_enc)
qed

lemma all_less_numbers:
  "(\<forall>j < length [a, b, c]. P j) \<longleftrightarrow> P 0 \<and> P 1 \<and> P 2"
  "(\<forall>j < length [a, b, c, d]. P j) \<longleftrightarrow> P 0 \<and> P 1 \<and> P 2 \<and> P 3"
  "(\<forall>j < length [a, b, c, d, e, f]. P j) \<longleftrightarrow> P 0 \<and> P 1 \<and> P 2 \<and> P 3 \<and> P 4 \<and> P 5"
  by (simp_all add: All_less_Suc2 numeral_eq_Suc)

lemma sc_inputs: "i < 3 \<Longrightarrow> is_ok (InputID sc_context (of_nat i))"
proof -
  have id: "OutputIDFromBytes (tx_oid k) = Inr (tx_oid k)" for k by simp
  show "i < 3 \<Longrightarrow> is_ok (InputID sc_context (of_nat i))"
    by (auto simp: InputID_def tx_outputs less_Suc_eq numeral_3_eq_3 nth_res_Cons id)
qed

lemma sc_code_distinct:
  "code_amount n \<noteq> code_time m" "code_amount n \<noteq> code_lock" "code_time m \<noteq> code_lock" "code_lock \<noteq> code_sender"
  "code_amount n \<noteq> code_sender" "code_time m \<noteq> code_sender" "code_amount n \<noteq> code_chain tx_next"
  "code_time m \<noteq> code_chain tx_next" "code_lock \<noteq> code_chain tx_next" "code_chain tx_next \<noteq> code_immutable"
  "code_amount n \<noteq> code_immutable" "code_time m \<noteq> code_immutable" "code_lock \<noteq> code_immutable"
  "code_amount n \<noteq> [128, 42]" "code_time m \<noteq> [128, 42]" "code_lock \<noteq> [128, 42]" "code_chain tx_next \<noteq> [128, 42]"
  "code_immutable \<noteq> [128, 42]"
  by (simp_all add: code_defs call_code_def ref_call_def constraint_arity_def)

lemma sc_produced_accepted:
  "output_accepted ref_easyfl demo_registry sc_context False 0 (enc (tx_produced ! 0))"
  "output_accepted ref_easyfl demo_registry sc_context False 1 (enc (tx_produced ! 1))"
  "output_accepted ref_easyfl demo_registry sc_context False 2 (enc (tx_produced ! 2))"
proof -
  have blocks0: "\<forall>j < length (tx_produced ! 0). block_passes ref_easyfl sc_context (branch_path False @ [of_nat 0]) j (tx_produced ! 0 ! j)"
    using sc_amount_produced [of 0 "tx_produced ! 0" 2000] sc_time(1) [of 0] sc_locks_produced [of 0] sc_chains(1) sc_immutables(1)
      data_block_passes [of sc_context "branch_path False @ [of_nat 0]" 5]
    unfolding tx_produced_def nth_Cons_0 all_less_numbers by (simp add: tx_eval length_enc)
  have blocks1: "\<forall>j < length (tx_produced ! 1). block_passes ref_easyfl sc_context (branch_path False @ [of_nat 1]) j (tx_produced ! 1 ! j)"
    using sc_amount_produced [of 1 "tx_produced ! 1" 350] sc_time(1) [of 1] sc_locks_produced [of 1] sc_sender [of 1]
    unfolding tx_produced_def nth_Cons_0 nth_Cons_Suc One_nat_def all_less_numbers by (simp add: tx_eval length_enc)
  have blocks2: "\<forall>j < length (tx_produced ! 2). block_passes ref_easyfl sc_context (branch_path False @ [of_nat 2]) j (tx_produced ! 2 ! j)"
    using sc_amount_produced [of 2 "tx_produced ! 2" 150] sc_locks_produced [of 2] sc_chains(2)
      data_block_passes [of sc_context "branch_path False @ [of_nat 2]" 1]
    unfolding tx_produced_def nth_Cons_0 nth_Cons_Suc numeral_2_eq_2 all_less_numbers by (simp add: tx_eval length_enc)
  have ok: "enc_ok (tx_produced ! 0)" "enc_ok (tx_produced ! 1)" "enc_ok (tx_produced ! 2)"
    by (simp_all add: tx_produced_def enc_ok_def)
  have dist: "distinct (tx_produced ! 0)" "distinct (tx_produced ! 1)" "distinct (tx_produced ! 2)"
    by (simp_all add: tx_produced_def sc_code_distinct sc_code_distinct [symmetric])
  note accept = sc_output_accepted [where c = False]
  note sides = ok dist blocks0 blocks1 blocks2 sc_lock_codes sc_index_loops
  show "output_accepted ref_easyfl demo_registry sc_context False 0 (enc (tx_produced ! 0))"
    by (rule accept(1) [where n = 2000]) (use sides in \<open>simp_all add: tx_produced_def length_enc\<close>)
  show "output_accepted ref_easyfl demo_registry sc_context False 1 (enc (tx_produced ! 1))"
    by (rule accept(1) [where n = 350]) (use sides in \<open>simp_all add: tx_produced_def length_enc\<close>)
  show "output_accepted ref_easyfl demo_registry sc_context False 2 (enc (tx_produced ! 2))"
    by (rule accept(1) [where n = 150]) (use sides in \<open>simp_all add: tx_produced_def length_enc\<close>)
qed

lemma sc_consumed_accepted:
  "output_accepted ref_easyfl demo_registry sc_context True 0 (enc (tx_consumed ! 0))"
  "output_accepted ref_easyfl demo_registry sc_context True 1 (enc (tx_consumed ! 1))"
  "output_accepted ref_easyfl demo_registry sc_context True 2 (enc (tx_consumed ! 2))"
proof -
  have blocks0: "\<forall>j < length (tx_consumed ! 0). block_passes ref_easyfl sc_context (branch_path True @ [of_nat 0]) j (tx_consumed ! 0 ! j)"
    using sc_amount_consumed [of 0 1000] sc_time(2) [of 0] sc_address_consumed(1) sc_chains(3) sc_immutables(2)
      data_block_passes [of sc_context "branch_path True @ [of_nat 0]" 5]
    unfolding tx_consumed_def nth_Cons_0 all_less_numbers by simp
  have blocks1: "\<forall>j < length (tx_consumed ! 1). block_passes ref_easyfl sc_context (branch_path True @ [of_nat 1]) j (tx_consumed ! 1 ! j)"
    using sc_amount_consumed [of 1 1000] sc_time(2) [of 1] sc_chain_lock
    unfolding tx_consumed_def nth_Cons_0 nth_Cons_Suc One_nat_def all_less_numbers by simp
  have blocks2: "\<forall>j < length (tx_consumed ! 2). block_passes ref_easyfl sc_context (branch_path True @ [of_nat 2]) j (tx_consumed ! 2 ! j)"
    using sc_amount_consumed [of 2 500] sc_time(2) [of 2] sc_address_consumed(2)
    unfolding tx_consumed_def nth_Cons_0 nth_Cons_Suc numeral_2_eq_2 all_less_numbers by simp
  have ok: "enc_ok (tx_consumed ! 0)" "enc_ok (tx_consumed ! 1)" "enc_ok (tx_consumed ! 2)"
    by (simp_all add: tx_consumed_def enc_ok_def)
  note accept = sc_output_accepted [where c = True]
  note sides = ok blocks0 blocks1 blocks2 sc_lock_codes sc_index_loops sc_inputs [of 0] sc_inputs [of 1] sc_inputs [of 2]
  show "output_accepted ref_easyfl demo_registry sc_context True 0 (enc (tx_consumed ! 0))"
    by (rule accept(1) [where n = 1000]) (use sides in \<open>simp_all add: tx_consumed_def length_enc\<close>)
  show "output_accepted ref_easyfl demo_registry sc_context True 1 (enc (tx_consumed ! 1))"
    by (rule accept(1) [where n = 1000]) (use sides in \<open>simp_all add: tx_consumed_def length_enc\<close>)
  show "output_accepted ref_easyfl demo_registry sc_context True 2 (enc (tx_consumed ! 2))"
    by (rule accept(1) [where n = 500]) (use sides in \<open>simp_all add: tx_consumed_def length_enc\<close>)
qed

lemma enc_amount:
  assumes "enc_ok (code_amount n # xs)"
  shows "amount_nat ref_easyfl (enc (code_amount n # xs)) = unat n"
proof -
  have "parseArray (enc (code_amount n # xs)) 256 = Inr (code_amount n # xs)" using assms by (simp add: parse_enc enc_ok_def)
  then show ?thesis by (simp add: amount_nat_def output_amount_def At_eq ConstraintIndexAmount_def nth_res_Cons amount_reads)
qed

lemma sc_totals: "total_amount ref_easyfl (map enc tx_consumed) = 2500" "total_amount ref_easyfl (map enc tx_produced) = 2500"
proof -
  have ok: "\<forall>xs \<in> set (tx_consumed @ tx_produced). enc_ok xs" by auto
  then show "total_amount ref_easyfl (map enc tx_consumed) = 2500" "total_amount ref_easyfl (map enc tx_produced) = 2500"
    by (simp_all add: total_amount_def tx_consumed_def tx_produced_def enc_amount)
qed

lemma sc_valid: "\<exists>records. Validate ref_easyfl demo_registry sc_context = Inr records"
proof -
  have lens: "length (map enc tx_consumed) = 3" "length (map enc tx_produced) = 3"
    by (simp_all add: tx_consumed_def tx_produced_def)
  have com: "validateInputCommitment ref_easyfl sc_context = Inr ()"
  proof -
    have "tread sc_tree PathToConsumedOutputs = Inr (enc (map enc tx_consumed))"
    proof -
      have top: "arr_view (tree_sa sc_tree) = Inr [enc tx_parts, enc [enc (map enc tx_consumed)]]"
        by (simp add: sc_tree_def TreeFromBytes_def parse_enc MaxElementsLazyTree_def)
      show ?thesis by (simp add: reads_tree [OF sc_tree_inv] tree_at_def top node_enc nth_res_Cons path_defs)
    qed
    then show ?thesis by (simp add: validateInputCommitment_def tx_outputs tx_commitment_def flip: path_defs)
  qed
  have "\<forall>i < 3. output_accepted ref_easyfl demo_registry sc_context True i (map enc tx_consumed ! i)"
    "\<forall>i < 3. output_accepted ref_easyfl demo_registry sc_context False i (map enc tx_produced ! i)"
    using sc_consumed_accepted sc_produced_accepted lens
    by (auto simp: less_Suc_eq numeral_3_eq_3 numeral_2_eq_2)
  then show ?thesis
    unfolding validation_characterised sc_context_simps
    using sc_elems sc_totals com lens by (intro exI [of _ "map enc tx_consumed"] exI [of _ "map enc tx_produced"]) simp
qed

section \<open>The theorems\<close>

lemma sc_output_at:
  "i < length tx_consumed \<Longrightarrow> output_at sc_tree PathToConsumedOutputs i (tx_consumed ! i)"
  "i < length tx_produced \<Longrightarrow> output_at sc_tree PathToProducedOutputs i (tx_produced ! i)"
proof -
  have parse: "parseArray (enc xs) 256 = Inr xs" if "xs \<in> set (tx_consumed @ tx_produced)" for xs
    using that by (auto simp: enc_ok_def intro!: parse_enc dest: bspec [OF tx_enc_ok(1)] bspec [OF tx_enc_ok(2)])
  show "i < length tx_consumed \<Longrightarrow> output_at sc_tree PathToConsumedOutputs i (tx_consumed ! i)"
    "i < length tx_produced \<Longrightarrow> output_at sc_tree PathToProducedOutputs i (tx_produced ! i)"
    by (simp_all add: output_at_def sc_elems parse)
qed

lemma sc_literals:
  "calls_with ref_easyfl ''chainLock'' (tx_consumed ! 1 ! 2) tx_chain"
  "locked_by_address ref_easyfl (tx_consumed ! 0 ! 2) tx_key"
  "calls_with ref_easyfl ''senderAddressED25519'' (tx_produced ! 1 ! 3) tx_key"
  unfolding locked_by_address_calls
  by (simp_all add: tx_consumed_def tx_produced_def code_defs call_parts(4) constraint_arity_def)

lemma sc_lengths: "length tx_consumed = 3" "length tx_produced = 3" "length (tx_consumed ! 0) = 6"
  "length (tx_consumed ! 1) = 3" "length (tx_produced ! 1) = 4"
  by (simp_all add: tx_consumed_def tx_produced_def)

lemma chain_locked_needs_controller_witness:
  "\<exists>k l ch. k \<noteq> 1 \<and> output_at sc_tree PathToConsumedOutputs k ch \<and> l < length ch
    \<and> chain_identity ref_easyfl sc_tree k (ch ! l) tx_chain \<and> state_transition sc_tree k l"
proof -
  obtain records where v: "Validate ref_easyfl demo_registry sc_context = Inr records" using sc_valid by blast
  show ?thesis
    using chain_locked_needs_controller [OF ref_laws ref_runs _ v, of 1 "tx_consumed ! 1" tx_chain]
      sc_output_at(1) [of 1] sc_literals(1) sc_lengths sc_tree_inv by auto
qed

lemma sender_is_authentic_witness: "signed_by ref_easyfl sc_tree tx_key"
proof -
  obtain records where v: "Validate ref_easyfl demo_registry sc_context = Inr records" using sc_valid by blast
  show ?thesis
    using sender_is_authentic [OF ref_laws ref_runs _ v, of 0 "tx_consumed ! 0" tx_key 1 "tx_produced ! 1" 3 tx_key]
      sc_output_at(1) [of 0] sc_output_at(2) [of 1] sc_literals sc_lengths sc_tree_inv by simp
qed

text \<open>A valid transaction in which one chain is continued by two outputs.\<close>

lemma forked_chain_validates:
  "(\<exists>records. Validate ref_easyfl demo_registry sc_context = Inr records)
   \<and> output_at sc_tree PathToProducedOutputs 0 (tx_produced ! 0) \<and> output_at sc_tree PathToProducedOutputs 2 (tx_produced ! 2)
   \<and> tx_produced ! 0 ! 3 = code_chain tx_next \<and> tx_produced ! 2 ! 3 = code_chain tx_next"
  using sc_valid sc_output_at(2) [of 0] sc_output_at(2) [of 2] by (simp add: tx_produced_def)

text \<open>
  Its last output has no time stamp: the transaction is valid, the output belongs to an address, and
  \<^verbatim>\<open>OutputFromBytes\<close> refuses it.
\<close>

lemma unstamped_output_validates:
  "(\<exists>records. Validate ref_easyfl demo_registry sc_context = Inr records)
   \<and> elems_at sc_tree PathToProducedOutputs = Inr (map enc tx_produced)
   \<and> output_lock ref_easyfl demo_registry (enc (tx_produced ! 2)) = Inr (Lock_AddressED25519 tx_key)
   \<and> \<not> is_ok (OutputFromBytes ref_easyfl demo_registry (enc (tx_produced ! 2)))"
proof -
  have p: "parseArray (enc (tx_produced ! 2)) 256 = Inr (tx_produced ! 2)"
    by (rule parse_enc) (simp_all add: tx_produced_def enc_ok_def)
  have "TimestampFromBytes ref_easyfl [128, 42] = Inl (Error (External_fault 1))"
    by (simp add: TimestampFromBytes_def ref_one_level_def ref_parse_def)
  then show ?thesis
    using sc_valid sc_elems(2) p code_lock_reads
    by (simp add: output_lock_def At_eq ConstraintIndexLock_def OutputFromBytes_Inr is_ok_iff nth_res_def) (simp add: tx_produced_def)
qed

end
