(* ===== verification/WellFormed.thy ===== *)
theory WellFormed
  imports IndexSync
begin

text \<open>
  The shape of what a ledger holds: every output under an id of full length is an array of different
  constraints with a readable amount, a readable lock and enough tokens for its storage.
  The locale \<open>guarded_ledger\<close> carries such a promise from single steps to whole histories.
\<close>

section \<open>Outputs that keep their shape\<close>

definition sound_output :: "easyfl \<Rightarrow> registry \<Rightarrow> bytes \<Rightarrow> bool" where
  "sound_output E R d \<longleftrightarrow>
     (\<exists>xs. parseArray d 256 = Inr xs \<and> 3 \<le> length xs \<and> distinct xs
        \<and> is_ok (AmountFromBytes E (xs ! 0)) \<and> is_ok (LockFromBytes E R (xs ! 2)))"

definition ledger_output :: "easyfl \<Rightarrow> registry \<Rightarrow> OutputID \<Rightarrow> bytes \<Rightarrow> bool" where
  \<comment> \<open>only the genesis output is not checked for its storage deposit\<close>
  "ledger_output E R oid d \<longleftrightarrow> length oid = 33 \<and> sound_output E R d
     \<and> (oid = GenesisOutputID \<or> length d \<le> amount_nat E d)"

locale guarded_ledger = token_ledger ok held amt hash inputs step
  for ok :: "'s \<Rightarrow> bool" and held amt hash inputs step +
  fixes good :: "'s \<Rightarrow> OutputID \<Rightarrow> bytes \<Rightarrow> bool"
  assumes good_fixed: "step x s s' \<Longrightarrow> good s' = good s"
    and step_good: "ok s \<Longrightarrow> step x s s' \<Longrightarrow> held s' oid = Some d \<Longrightarrow> held s oid \<noteq> Some d
      \<Longrightarrow> good s oid d"
begin

lemma run_ok: "ledger_run step s0 H s \<Longrightarrow> ok s0 \<Longrightarrow> ok s"
  by (induction rule: ledger_run.induct) (auto intro: step_ok)

theorem run_good:
  assumes "ledger_run step s0 H s" "ok s0" "\<forall>oid d. held s0 oid = Some d \<longrightarrow> good s0 oid d"
  shows "good s = good s0 \<and> (\<forall>oid d. held s oid = Some d \<longrightarrow> good s0 oid d)"
  using assms
proof (induction rule: ledger_run.induct)
  case run_start
  then show ?case by simp
next
  case (run_step H s x s')
  have ih: "good s = good s0" "\<forall>oid d. held s oid = Some d \<longrightarrow> good s0 oid d" and ok: "ok s"
    using run_step run_ok [OF run_step.hyps(1)] by simp_all
  have "good s0 oid d" if "held s' oid = Some d" for oid d
    using step_good [OF ok run_step.hyps(2) that] ih that by metis
  then show ?case using good_fixed [OF run_step.hyps(2)] ih(1) by simp
qed

end

section \<open>Validation lets nothing else through\<close>

lemma accepted_output_sound:
  assumes "output_accepted E R v False i d" "length d < 2 ^ 32"
  shows "sound_output E R d \<and> length d \<le> amount_nat E d"
proof -
  obtain w r where acc: "runOutput E v False (ArrayFromBytesMax d 256) (branch_path False @ [of_nat i]) = Inr w"
    "is_ok (output_amount E d)" "length d mod 2 ^ 32 \<le> amount_nat E d"
    "createIndexEntries E R v (of_nat i) (ArrayFromBytesMax d 256) False [] = Inr r"
    using assms(1) by (auto simp: output_accepted_def Let_def is_ok_iff)
  obtain xs where xs: "parseArray d 256 = Inr xs" "distinct xs"
    by (rule runOutput_passes [OF acc(1)]) simp
  have lock: "is_ok (rbind (nth_res xs 2) (LockFromBytes E R))"
    using acc(4) xs(1) by (auto simp: createIndexEntries_def indexLock_def At_eq ConstraintIndexLock_def is_ok_iff)
  then have "3 \<le> length xs" by (auto simp: is_ok_iff)
  moreover have "is_ok (AmountFromBytes E (xs ! 0))"
    using acc(2) xs(1) by (auto simp: output_amount_def At_eq ConstraintIndexAmount_def is_ok_iff)
  moreover have "is_ok (LockFromBytes E R (xs ! 2))" using lock by (auto simp: is_ok_iff)
  ultimately show ?thesis using xs acc(3) assms(2) by (auto simp: sound_output_def)
qed

lemma valid_outputs_sound:
  assumes "tree_inv (tc_tree v)" "Validate E R v = Inr cmds" "elems_at (tc_tree v) PathToProducedOutputs = Inr outs" "d \<in> set outs"
  shows "sound_output E R d \<and> length d \<le> amount_nat E d"
proof -
  obtain i where i: "i < length outs" "d = outs ! i" using assms(4) by (auto simp: in_set_conv_nth)
  have "output_accepted E R v False i d"
    using validation_characterised [of E R v] assms(2,3) i by auto
  moreover have "tree_elements_at (tc_tree v) ([TransactionBranch] @ [TxOutputs]) = Inr outs"
    using assms(3) by (simp add: reads_tree [OF assms(1)] path_defs)
  then obtain b where "parseArray b 256 = Inr outs"
    unfolding tree_elements_at_snoc by (auto simp: parse_node_256)
  then have "length d < 2 ^ 32" using parseArray_sizes assms(4) by blast
  ultimately show ?thesis by (rule accepted_output_sound)
qed

lemma step_keeps_shape:
  assumes "trie_laws T" "easyfl_laws E" "Update T E R txb u = (Inr cmds, u')"
    "utxos T u' oid = Some d" "utxos T u oid \<noteq> Some d"
  shows "ledger_output E R oid d"
proof -
  obtain v ins outs where up: "context_of v txb (tx_inputs txb) ins" "Validate E R v = Inr cmds"
    "elems_at (tc_tree v) PathToProducedOutputs = Inr outs" "length outs \<le> 256"
    "utxos T u' = (utxos T u |` (- set (tx_inputs txb))) ++ produced (Sum256 E txb) outs"
    by (rule Update_context [OF assms(1,3,2)])
  have new: "produced (Sum256 E txb) outs oid = Some d"
    using assms(4,5) unfolding up(5) by (auto simp: map_add_Some_iff restrict_map_def split: if_splits)
  then obtain i where i: "i < length outs" "outs ! i = d" "oid = NewOutputID (Sum256 E txb) (of_nat i)"
    by (auto simp: produced_Some [OF up(4)])
  have "tree_inv (tc_tree v)" using up(1) by (simp add: context_of_def)
  moreover have "d \<in> set outs" using i by auto
  ultimately have "sound_output E R d \<and> length d \<le> amount_nat E d"
    using valid_outputs_sound up(2,3) by blast
  moreover have "length oid = 33"
    using assms(2) NewOutputID_parts by (simp add: i(3) easyfl_laws_def crypto_laws_def NewOutputID_def)
  ultimately show ?thesis by (simp add: ledger_output_def)
qed

interpretation gl: guarded_ledger world_ok "\<lambda>(E, R, T, u). utxos T u" "\<lambda>(E, R, T, u). amount_nat E"
    "\<lambda>(E, R, T, u). Sum256 E" tx_inputs world_step "\<lambda>(E, R, T, u). ledger_output E R"
  by unfold_locales
    (auto simp: world_step_def ledger_step_def world_ok_def fun_eq_iff intro: step_keeps_shape)


section \<open>From genesis\<close>

lemma reads_as_distinct: "reads_as E c1 n1 l1 \<Longrightarrow> reads_as E c2 n2 l2 \<Longrightarrow> n1 \<noteq> n2 \<Longrightarrow> c1 \<noteq> c2"
  by (auto simp: reads_as_def)

lemma genesis_output_sound:
  assumes "easyfl_laws E" "compile_laws E" "init_constraints E = Inr R" "length a = 32"
    "genesisOutput E n a ts = Inr out"
  shows "sound_output E R out"
proof -
  have R: "R = registry_of E std_entries" using init_constraints_std [OF assms(1,2)] assms(3) by simp
  obtain ca ct cl where out: "amount_nat E out = unat n" "parseArray out 256 = Inr [ca, ct, cl]"
    "Amount_Bytes E n = Inr ca" "Timestamp_Bytes E ts = Inr ct" "AddressED25519_Bytes E a = Inr cl"
    using genesisOutput_ok [OF assms(1,2,4), of n ts] assms(5) by (metis sum.inject(2))
  have a: "a \<noteq> []" "length a \<le> 127" using assms(4) by auto
  have reads: "reads_as E ca ''amount'' [L_u64 n]" "reads_as E ct ''timestamp'' [L_u32 ts]"
    "reads_as E cl ''addressED25519'' [L_hex a]"
    using Amount_compiles [OF assms(2), of n] Timestamp_compiles [OF assms(2), of ts]
      AddressED25519_compiles [OF assms(2) a] out(3-5) by (auto simp: compiles_to_def)
  have "ca \<noteq> ct" by (rule reads_as_distinct [OF reads(1,2)]) simp
  moreover have "ca \<noteq> cl" by (rule reads_as_distinct [OF reads(1,3)]) simp
  moreover have "ct \<noteq> cl" by (rule reads_as_distinct [OF reads(2,3)]) simp
  ultimately have "distinct [ca, ct, cl]" by simp
  moreover have "is_ok (AmountFromBytes E ca)" using Amount_reads [OF assms(1) reads(1)] by simp
  moreover have "is_ok (LockFromBytes E R cl)"
    by (rule lock_reads_back [OF assms(1,2), of "Lock_AddressED25519 a"]) (use assms(4) out(5) in \<open>simp_all add: R\<close>)
  ultimately show ?thesis unfolding sound_output_def by (intro exI [of _ "[ca, ct, cl]"]) (simp add: out(2) numeral_2_eq_2)
qed

lemma run_shape:
  assumes "easyfl_laws E" "compile_laws E" "init_constraints E = Inr R" "trie_laws T" "length genesisAddress = 32"
    "InitLedgerState T E (tm_NewStore T) identity initialSupply genesisAddress ts = Inr (root, s)"
    "NewUpdatable T s root = Inr u0" "ledger_run (ledger_step T E R) u0 H u" "utxos T u oid = Some d"
  shows "ledger_output E R oid d"
proof -
  note gen = genesis_state [OF assms(1,2,4,5,6,7)]
  obtain out where out: "genesisOutput E initialSupply genesisAddress ts = Inr out" "utxos T u0 = [GenesisOutputID \<mapsto> out]"
    using gen(2) by blast
  have "\<forall>oid d. utxos T u0 oid = Some d \<longrightarrow> ledger_output E R oid d"
    using genesis_output_sound [OF assms(1-3,5) out(1)]
    by (simp add: out(2) ledger_output_def GenesisOutputID_def id_lengths)
  then show ?thesis
    using gl.run_good [OF run_world [OF assms(8)]] gen(1) assms(1,4,9) by (simp add: world_ok_def)
qed

text \<open>
  C15 (ledger_outputs_well_formed): in every state that a ledger reaches from genesis, each output lies under an id of 33 bytes, is an
  array of at least three pairwise different constraints, has an amount in the first one and a lock
  that the package can parse in the third, and holds at least one token per byte; only the genesis
  output is not checked for the last. Nothing is promised of the second constraint, the time stamp.
\<close>

theorem ledger_outputs_well_formed:
  assumes "easyfl_laws E" "compile_laws E" "init_constraints E = Inr R" "trie_laws T" "length genesisAddress = 32"
    "InitLedgerState T E (tm_NewStore T) identity initialSupply genesisAddress ts = Inr (root, s)"
    "NewUpdatable T s root = Inr u0" "ledger_run (ledger_step T E R) u0 H u" "utxos T u oid = Some d"
  shows "ledger_output E R oid d"
  by (rule run_shape [OF assms])

end
