(* ===== verification/Accounts.thy ===== *)
theory Accounts
  imports UtxoDB WellFormed
begin

text \<open>
  When the queries of the database return. The index never holds a key that a query could not read, and
  every output in the state parses, except perhaps for its time stamp. So the account of an address can
  be read exactly as long as each of its outputs has a time stamp.
\<close>

section \<open>The keys of the index\<close>

definition keys_ok :: "(bytes \<Rightarrow> bytes) \<Rightarrow> bool" where
  "keys_ok f \<longleftrightarrow> (\<forall>k. f k \<noteq> [] \<longrightarrow>
     (\<exists>acc oid. k = account_key acc oid \<and> length acc \<le> 255 \<and> length oid = 33) \<or> (\<exists>cid. k = PartitionChainID # cid))"

lemma keys_ok_write:
  assumes "run_command cmd = Inr (k, v)" "length (cmd_OutputID cmd) = 33" "keys_ok f"
  shows "keys_ok (f(k := v))"
proof -
  consider "k = account_key (cmd_ID cmd) (cmd_OutputID cmd)" "length (cmd_ID cmd) \<le> 255" | "k = PartitionChainID # cmd_ID cmd"
    using assms(1) by (auto simp: run_command_def account_key_def split: if_splits)
  then show ?thesis using assms(2,3) by cases (auto simp: keys_ok_def)
qed

lemma keys_ok_writes:
  assumes "rmapM run_command cmds = Inr ws" "\<forall>c \<in> set cmds. length (cmd_OutputID c) = 33" "keys_ok f"
  shows "keys_ok (apply_writes ws f)"
  using assms
proof (induction cmds arbitrary: ws f)
  case Nil
  then show ?case by simp
next
  case (Cons c cs)
  then obtain k v ws' where w: "run_command c = Inr (k, v)" "rmapM run_command cs = Inr ws'" "ws = (k, v) # ws'"
    by auto
  have "keys_ok (f(k := v))" using keys_ok_write [OF w(1)] Cons.prems(2,3) by simp
  then show ?case using Cons.IH [OF w(2)] Cons.prems(2) w(3) by simp
qed

lemma indexer_Update_keys:
  assumes "kv_laws K" "indexer_Update K cmds s = (Inr (), s')" "\<forall>c \<in> set cmds. length (cmd_OutputID c) = 33"
    "keys_ok (kv_Get K s)"
  shows "keys_ok (kv_Get K s')"
proof -
  obtain ws where ws: "rmapM run_command cmds = Inr ws" "kv_Commit K ws s = (Inr (), s')"
    using assms(2) by (auto simp: indexer_Update_def split: sum.splits)
  then show ?thesis using keys_ok_writes [OF ws(1) assms(3,4)] assms(1) by (simp add: kv_laws_def)
qed

lemma lookup_loop_returns:
  assumes "\<forall>kv \<in> set kvs. length (drop n (fst kv)) = 33"
  shows "is_ok (rfold (\<lambda>(k, _) ret. rbind (OutputIDFromBytes (drop n k)) (\<lambda>oid.
      case getUTXO oid of None \<Rightarrow> Inr ret | Some d \<Rightarrow> Inr (ret @ [\<lparr>od_ID = oid, od_OutputData = d\<rparr>]))) kvs r0)"
  using assms
proof (induction kvs arbitrary: r0)
  case (Cons kv kvs)
  obtain k v where kv: "kv = (k, v)" by (cases kv)
  show ?case using Cons.IH Cons.prems unfolding kv
    by (cases "getUTXO (drop n k)") (simp_all add: OutputIDFromBytes_def id_lengths)
qed simp

lemma account_lookup_returns:
  assumes "kv_laws K" "keys_ok (kv_Get K s)" "AccountID E addr = Inr acc" "length acc \<le> 255"
  shows "is_ok (GetUTXOsLockedInAccount E K addr getUTXO s)"
proof -
  let ?p = "[PartitionAccount, of_nat (length acc)] @ acc"
  have "length (drop (length ?p) k) = 33" if "(k, v) \<in> set (kv_Iterate K s ?p)" for k v
  proof -
    have k: "is_prefix ?p k" "kv_Get K s k \<noteq> []" using that assms(1) by (auto simp: kv_laws_def)
    then consider acc' oid where "k = account_key acc' oid" "length acc' \<le> 255" "length oid = 33"
      | cid where "k = PartitionChainID # cid"
      using assms(2) unfolding keys_ok_def by blast
    then show ?thesis
    proof cases
      case 1
      then have "acc' = acc" using k(1) account_key_prefix [OF assms(4)] by simp
      then show ?thesis using 1 by (simp add: account_key_def)
    next
      case 2
      then show ?thesis using k(1) by (simp add: is_prefix_def)
    qed
  qed
  then have "\<forall>kv \<in> set (kv_Iterate K s ?p). length (drop (length ?p) (fst kv)) = 33" by auto
  then show ?thesis
    using lookup_loop_returns [of "kv_Iterate K s ?p" "length ?p" getUTXO "[]"] assms(3,4)
    by (simp add: GetUTXOsLockedInAccount_def Let_def)
qed

section \<open>Histories of the database\<close>

lemma db_run_ledger:
  "ledger_run (db_step W) u0 H u
    \<Longrightarrow> ledger_run (ledger_step (su_trie W) (su_easyfl W) (su_registry W)) (db_state u0) H (db_state u)"
proof (induction rule: ledger_run.induct)
  case run_start
  then show ?case by (rule ledger_run.run_start)
next
  case (run_step H s x s')
  obtain cmds st ind where "Update (su_trie W) (su_easyfl W) (su_registry W) x (db_state s) = (Inr cmds, st)"
    "s' = s\<lparr>db_state := st, db_indexer := ind\<rparr>"
    using run_step.hyps(2) by (auto simp: db_step_def elim!: AddTransaction_parts)
  then have "ledger_step (su_trie W) (su_easyfl W) (su_registry W) x (db_state s) (db_state s')"
    by (simp add: ledger_step_def)
  then show ?case by (rule ledger_run.run_step [OF run_step.IH])
qed

lemma db_run_shape:
  assumes "env_laws W" "NewUTXODB W now = Inr u0" "ledger_run (db_step W) u0 H u" "db_utxos W u oid = Some d"
  shows "ledger_output (su_easyfl W) (su_registry W) oid d"
proof -
  let ?E = "su_easyfl W"
  have laws: "easyfl_laws ?E" "compile_laws ?E" "init_constraints ?E = Inr (su_registry W)" "trie_laws (su_trie W)"
    using assms(1) by (simp_all add: env_laws_def)
  obtain key root store st where u: "InitLedgerState (su_trie W) ?E (tm_NewStore (su_trie W)) (ascii utxodbIdentity)
       supplyForTesting (Sum256 ?E (sg_Public (su_signer W) key)) now = Inr (root, store)"
    "NewUpdatable (su_trie W) store root = Inr st" "db_state u0 = st"
    by (rule NewUTXODB_parts [OF assms(2)])
  have "length (Sum256 ?E (sg_Public (su_signer W) key)) = 32"
    using laws(1) by (simp add: easyfl_laws_def crypto_laws_def)
  from run_shape [OF laws this u(1,2) db_run_ledger [OF assms(3), unfolded u(3)]] show ?thesis
    using assms(4) by (simp add: db_utxos_def)
qed

lemma genesis_keys:
  assumes "env_laws W" "NewUTXODB W now = Inr u"
  shows "keys_ok (kv_Get (su_kv W) (db_indexer u))"
proof -
  let ?E = "su_easyfl W" let ?K = "su_kv W"
  have laws: "kv_laws ?K" "kv_Get ?K (su_newKV W) = (\<lambda>_. [])" "compile_laws ?E" "easyfl_laws ?E"
    using assms(1) by (simp_all add: env_laws_def)
  obtain key ind where u: "InitIndexer ?E ?K (Sum256 ?E (sg_Public (su_signer W) key)) (su_newKV W) = (Inr (), ind)"
    "db_indexer u = ind"
    by (rule NewUTXODB_parts [OF assms(2)])
  define a where "a = Sum256 ?E (sg_Public (su_signer W) key)"
  have "length a = 32" using laws(4) by (simp add: a_def easyfl_laws_def crypto_laws_def)
  then have "a \<noteq> []" "length a \<le> 127" by auto
  then obtain cl where cl: "AddressED25519_Bytes ?E a = Inr cl" "length cl \<le> 255"
    using AddressED25519_compiles [OF laws(3), of a] by (auto simp: compiles_to_def)
  have "kv_Commit ?K [(account_key cl GenesisOutputID, [255])] (su_newKV W) = (Inr (), ind)"
    using u(1) cl(1) by (auto simp: InitIndexer_def account_key_def simp flip: a_def split: prod.splits)
  then have "kv_Get ?K ind = (\<lambda>_. [])(account_key cl GenesisOutputID := [255])"
    using laws(1,2) by (simp add: kv_laws_def)
  moreover have "length GenesisOutputID = 33" by (simp add: GenesisOutputID_def id_lengths)
  ultimately show ?thesis using cl(2) u(2) by (auto simp: keys_ok_def)
qed

lemma db_run_keys:
  assumes "ledger_run (db_step W) u0 H u" "env_laws W" "keys_ok (kv_Get (su_kv W) (db_indexer u0))"
  shows "keys_ok (kv_Get (su_kv W) (db_indexer u))"
  using assms
proof (induction rule: ledger_run.induct)
  case run_start
  then show ?case by simp
next
  case (run_step H s x s')
  have laws: "trie_laws (su_trie W)" "easyfl_laws (su_easyfl W)" "kv_laws (su_kv W)"
    using run_step.prems(1) by (simp_all add: env_laws_def)
  obtain cmds st ind where add: "Update (su_trie W) (su_easyfl W) (su_registry W) x (db_state s) = (Inr cmds, st)"
    "indexer_Update (su_kv W) cmds (db_indexer s) = (Inr (), ind)" "s' = s\<lparr>db_state := st, db_indexer := ind\<rparr>"
    using run_step.hyps(2) by (auto simp: db_step_def elim!: AddTransaction_parts)
  have "\<forall>c \<in> set cmds. length (cmd_OutputID c) = 33"
    using update_reindexes [OF laws(1,2) add(1)] by (simp add: id_lengths)
  then show ?case using indexer_Update_keys [OF laws(3) add(2)] run_step.IH run_step.prems add(3) by simp
qed

section \<open>When an account can be read\<close>

definition stamped :: "easyfl \<Rightarrow> bytes \<Rightarrow> bool" where
  "stamped E d \<longleftrightarrow> (\<exists>xs. parseArray d 256 = Inr xs \<and> 2 \<le> length xs \<and> is_ok (TimestampFromBytes E (xs ! 1)))"

lemma sound_output_reads:
  assumes "sound_output E R d"
  shows "is_ok (OutputFromBytes E R d) \<longleftrightarrow> stamped E d"
  using assms by (auto simp: sound_output_def stamped_def OutputFromBytes_Inr is_ok_iff)

lemma parse_outputs_return:
  assumes "\<forall>od \<in> set outs. is_ok (OutputFromBytes E R (od_OutputData od))"
    "\<forall>g o'. f = Some g \<longrightarrow> (\<forall>od \<in> set outs. OutputFromBytes E R (od_OutputData od) = Inr o' \<longrightarrow> is_ok (g o'))"
  shows "is_ok (rfold (parse_output E R f) outs acc)"
  using assms
proof (induction outs arbitrary: acc)
  case (Cons od outs)
  obtain o' where o': "OutputFromBytes E R (od_OutputData od) = Inr o'" using Cons.prems(1) by (auto simp: is_ok_iff)
  obtain keep where "(case f of None \<Rightarrow> Inr True | Some g \<Rightarrow> g o') = Inr keep"
    using Cons.prems(2) o' by (cases f) (auto simp: is_ok_iff)
  then show ?case using Cons.IH Cons.prems o' by (simp add: parse_output_def)
qed simp

lemma sum_amounts_returns:
  assumes "\<forall>ow \<in> set outs. \<exists>d. OutputFromBytes E R d = Inr (ow_Output ow)"
  shows "is_ok (rfold (\<lambda>ow balance. rmap ((+) balance) (Output_Amount E (ow_Output ow))) outs b)"
  using assms
proof (induction outs arbitrary: b)
  case (Cons ow outs)
  obtain d where d: "OutputFromBytes E R d = Inr (ow_Output ow)" using Cons.prems by auto
  obtain xs where "outp (ow_Output ow) xs" "3 \<le> length xs" "is_ok (AmountFromBytes E (xs ! 0))"
    by (rule OutputFromBytes_outp [OF d])
  then obtain a where "Output_Amount E (ow_Output ow) = Inr a" using outp_getters(1) by (auto simp: is_ok_iff)
  then show ?case using Cons.IH Cons.prems by simp
qed simp

definition db_sound :: "('s, 'r, 't, 'i) environment \<Rightarrow> ('s, 'r, 'i) UTXODB \<Rightarrow> bool" where
  "db_sound W u \<longleftrightarrow> db_ok (W, u) \<and> keys_ok (kv_Get (su_kv W) (db_indexer u))
     \<and> (\<forall>oid d. db_utxos W u oid = Some d \<longrightarrow> ledger_output (su_easyfl W) (su_registry W) oid d)
     \<and> db_accounts W u = tagged (lock_accounts (su_easyfl W) (su_registry W)) (db_utxos W u)"

lemma db_run_sound:
  assumes "env_laws W" "NewUTXODB W now = Inr u0" "ledger_run (db_step W) u0 H u"
    "inj_on (Sum256 (su_easyfl W)) (set H)" "replicate TransactionIDLength 0 \<notin> Sum256 (su_easyfl W) ` set H"
  shows "db_sound W u"
  using books_of_run(1,3) [OF assms] db_run_keys [OF assms(3,1) genesis_keys [OF assms(1,2)]] db_run_shape [OF assms(1-3)]
  by (simp add: db_sound_def)

lemma account_outputs_return:
  fixes W :: "('s, 'r, 't, 'i) environment"
  defines "E \<equiv> su_easyfl W" and "R \<equiv> su_registry W"
  assumes "db_sound W u" "AccountID E addr = Inr acc" "length acc \<le> 255"
    "\<And>g oid d o'. f = Some g \<Longrightarrow> db_utxos W u oid = Some d \<Longrightarrow> acc \<in> lock_accounts E R d \<Longrightarrow>
       OutputFromBytes E R d = Inr o' \<Longrightarrow> is_ok (g o')"
  shows "is_ok (account_outputs W addr f desc u) \<longleftrightarrow>
    (\<forall>oid d. db_utxos W u oid = Some d \<longrightarrow> acc \<in> lock_accounts E R d \<longrightarrow> stamped E d)"
proof -
  have env: "env_laws W" "kv_laws (su_kv W)" "sort_laws (su_sort W)"
    using assms(3) by (simp_all add: db_sound_def db_ok_def env_laws_def)
  obtain rd where rd: "Updatable_Readable (su_trie W) (db_state u) = Inr rd"
    using assms(3) by (auto simp: db_sound_def db_ok_def ledger_ok_def is_ok_iff)
  let ?get = "GetUTXO (su_trie W) rd"
  have accs: "db_accounts W u = tagged (lock_accounts E R) (db_utxos W u)" using assms(3) by (simp add: db_sound_def E_def R_def)
  have get: "db_utxos W u oid = ?get oid" if "(acc, oid) \<in> db_accounts W u" for oid
    using that by (auto simp: db_utxos_def utxos_def rd db_accounts_def account_index_def accounts_of_def id_lengths)
  obtain outs where outs: "GetUTXOsLockedInAccount E (su_kv W) addr ?get (db_indexer u) = Inr outs"
    using account_lookup_returns [OF env(2) _ assms(4,5), of "db_indexer u" ?get] assms(3)
    by (auto simp: db_sound_def is_ok_iff)
  have look: "od \<in> set outs \<longleftrightarrow> db_utxos W u (od_ID od) = Some (od_OutputData od) \<and> acc \<in> lock_accounts E R (od_OutputData od)" for od
  proof -
    have "od \<in> set outs \<longleftrightarrow> (acc, od_ID od) \<in> db_accounts W u \<and> ?get (od_ID od) = Some (od_OutputData od)"
      unfolding account_lookup_exact_parts(1) [OF env(2) assms(4) outs] db_accounts_def by (cases od) auto
    also have "\<dots> \<longleftrightarrow> (acc, od_ID od) \<in> db_accounts W u \<and> db_utxos W u (od_ID od) = Some (od_OutputData od)"
      using get by auto
    finally show ?thesis unfolding accs by (auto simp: tagged_def)
  qed
  have reads: "is_ok (OutputFromBytes E R d) \<longleftrightarrow> stamped E d" if "db_utxos W u oid = Some d" for oid d
  proof (rule sound_output_reads)
    show "sound_output E R d" using that assms(3) by (auto simp: db_sound_def ledger_output_def E_def R_def)
  qed
  have "is_ok (account_outputs W addr f desc u) \<longleftrightarrow> is_ok (rfold (parse_output E R f) outs [])"
    using rd outs by (simp add: account_outputs_def StateReader_def E_def R_def ParseAndSortOutputData_def)
  also have "\<dots> \<longleftrightarrow> (\<forall>od \<in> set outs. is_ok (OutputFromBytes E R (od_OutputData od)))"
  proof
    assume "is_ok (rfold (parse_output E R f) outs [])"
    then obtain parsed where "rfold (parse_output E R f) outs [] = Inr parsed" by (auto simp: is_ok_iff)
    from rfold_each [OF this] show "\<forall>od \<in> set outs. is_ok (OutputFromBytes E R (od_OutputData od))"
      by (fastforce simp: parse_output_def is_ok_iff)
  next
    assume "\<forall>od \<in> set outs. is_ok (OutputFromBytes E R (od_OutputData od))"
    then show "is_ok (rfold (parse_output E R f) outs [])"
      by (rule parse_outputs_return) (use assms(6) look in blast)
  qed
  also have "\<dots> \<longleftrightarrow> (\<forall>oid d. db_utxos W u oid = Some d \<longrightarrow> acc \<in> lock_accounts E R d \<longrightarrow> stamped E d)"
    unfolding look Ball_def by (metis OutputDataWithID.select_convs reads)
  finally show ?thesis .
qed

text \<open>
  C14 (account_returns_iff): after any history, the balance of an account can be read if and only if every output in the ledger
  whose lock names the account has a time stamp in its second constraint; otherwise \<^verbatim>\<open>Balance\<close> and
  \<^verbatim>\<open>NumUTXOs\<close> panic. Validation does not ask an output for a time stamp, so anybody who sends such an
  output to an address makes its account unreadable.
\<close>

theorem account_returns_iff:
  assumes "env_laws W" "NewUTXODB W now = Inr u0" "ledger_run (db_step W) u0 H u"
    "inj_on (Sum256 (su_easyfl W)) (set H)" "replicate TransactionIDLength 0 \<notin> Sum256 (su_easyfl W) ` set H"
    "AccountID (su_easyfl W) addr = Inr acc" "length acc \<le> 255"
  shows "(\<exists>balance n. account W addr None u = Inr (balance, n)) \<longleftrightarrow>
    (\<forall>oid d. db_utxos W u oid = Some d \<longrightarrow> acc \<in> lock_accounts (su_easyfl W) (su_registry W) d
       \<longrightarrow> stamped (su_easyfl W) d)"
proof -
  have sound: "db_sound W u" by (rule db_run_sound [OF assms(1-5)])
  have "is_ok (account_outputs W addr None False u) \<longleftrightarrow> (\<exists>balance n. account W addr None u = Inr (balance, n))"
  proof (cases "account_outputs W addr None False u")
    case (Inr outs)
    have "ledger_ok (su_trie W) (db_state u)" using sound by (simp add: db_sound_def db_ok_def)
    from account_outputs_exact(2) [OF assms(1,6) this Inr]
    have "is_ok (sum_amounts (su_easyfl W) outs)"
      unfolding sum_amounts_def by (intro sum_amounts_returns [where R = "su_registry W"]) blast
    then show ?thesis using Inr by (auto simp: account_def is_ok_iff)
  qed (auto simp: account_def)
  then show ?thesis using account_outputs_return [OF sound assms(6,7), of None False] by simp
qed

end
