(* ===== verification/Payments.thy ===== *)
theory Payments
  imports Acceptance Accounts
begin

text \<open>
  Payments with the database (\<^verbatim>\<open>TransferTokens\<close> and \<^verbatim>\<open>TokensFromFaucet\<close> of \<^verbatim>\<open>utxodb.go\<close>): the query of the sender's
  account, the builder, validation, the ledger state and the index, one after the other. An account
  of plain outputs that is worth enough always pays.
\<close>

section \<open>Accounts of plain outputs\<close>

definition account_ids :: "('s, 'r, 't, 'i) environment \<Rightarrow> ('s, 'r, 'i) UTXODB \<Rightarrow> bytes \<Rightarrow> OutputID set" where
  "account_ids W u acc =
     {oid. \<exists>d. db_utxos W u oid = Some d \<and> acc \<in> lock_accounts (su_easyfl W) (su_registry W) d}"

definition worth :: "('s, 'r, 't, 'i) environment \<Rightarrow> ('s, 'r, 'i) UTXODB \<Rightarrow> OutputID set \<Rightarrow> nat" where
  "worth W u X = (\<Sum>oid \<in> X. amount_nat (su_easyfl W) (the (db_utxos W u oid)))"

definition plain_account :: "('s, 'r, 't, 'i) environment \<Rightarrow> ('s, 'r, 'i) UTXODB \<Rightarrow> AddressED25519 \<Rightarrow> bytes \<Rightarrow> bool" where
  \<comment> \<open>amount, time stamp and the address, with tokens for the storage, and not of the last second of time\<close>
  "plain_account W u a acc \<longleftrightarrow> AddressED25519_Bytes (su_easyfl W) a = Inr acc \<and> length a = 32
     \<and> (\<forall>oid \<in> account_ids W u acc. \<exists>d n ts o'. db_utxos W u oid = Some d
          \<and> basic_output (su_easyfl W) n ts (Lock_AddressED25519 a) o' d \<and> length d \<le> unat n \<and> ts < - 1)"

definition can_pay :: "('s, 'r, 't, 'i) environment \<Rightarrow> ('s, 'r, 'i) UTXODB \<Rightarrow> AddressED25519 \<Rightarrow> bytes \<Rightarrow> 64 word \<Rightarrow> bool" where
  \<comment> \<open>few outputs, worth enough, and no choice of them leaves a remainder too small for an output\<close>
  "can_pay W u a acc amount \<longleftrightarrow> plain_account W u a acc \<and> card (account_ids W u acc) \<le> 256
     \<and> minTransferAmount \<le> unat amount \<and> unat amount \<le> worth W u (account_ids W u acc)
     \<and> (\<forall>Y \<subseteq> account_ids W u acc. unat amount < worth W u Y \<longrightarrow> unat amount + minTransferAmount \<le> worth W u Y)"

lemma basic_output_parses:
  assumes "easyfl_laws E" "compile_laws E" "simple_lock lk" "basic_output E n ts lk o' d"
  shows "OutputFromBytes E (registry_of E std_entries) d = Inr (arr_loaded (ArrayFromBytesMax d 256))"
    and "basic_output E n ts lk (arr_loaded (ArrayFromBytesMax d 256)) d" and "stamped E d"
    and "output_lock E (registry_of E std_entries) d = Inr lk"
    and "Output_Lock E (registry_of E std_entries) (arr_loaded (ArrayFromBytesMax d 256)) = Inr lk"
proof -
  obtain ca ct cl where b: "Amount_Bytes E n = Inr ca" "Timestamp_Bytes E ts = Inr ct" "Lock_Bytes E lk = Inr cl"
    "parseArray d 256 = Inr [ca, ct, cl]"
    using assms(4) by (auto simp: basic_output_def)
  have ra: "reads_as E ca ''amount'' [L_u64 n]" and rt: "reads_as E ct ''timestamp'' [L_u32 ts]"
    using Amount_compiles [OF assms(2), of n] Timestamp_compiles [OF assms(2), of ts] b(1,2)
    by (auto simp: compiles_to_def)
  have read: "AmountFromBytes E ca = Inr n" "TimestampFromBytes E ct = Inr ts"
    using Amount_reads [OF assms(1) ra] Timestamp_reads [OF assms(1) rt] by simp_all
  have lock: "LockFromBytes E (registry_of E std_entries) cl = Inr lk"
    using basic_output_reads(5) [OF assms] b(3,4) by (auto simp: At_eq)
  show "OutputFromBytes E (registry_of E std_entries) d = Inr (arr_loaded (ArrayFromBytesMax d 256))"
    using read lock b(4) by (simp add: OutputFromBytes_Inr)
  show basic: "basic_output E n ts lk (arr_loaded (ArrayFromBytesMax d 256)) d"
    by (rule reread_basic [OF b])
  show "stamped E d" using read b(4) by (simp add: stamped_def)
  show "output_lock E (registry_of E std_entries) d = Inr lk"
    using lock b(4) by (simp add: output_lock_def At_eq ConstraintIndexLock_def numeral_2_eq_2)
  have "outp (arr_loaded (ArrayFromBytesMax d 256)) [ca, ct, cl]"
    using basic b by (auto simp: basic_output_def)
  from outp_getters(3) [OF this] show "Output_Lock E (registry_of E std_entries) (arr_loaded (ArrayFromBytesMax d 256)) = Inr lk"
    using lock by (simp add: numeral_2_eq_2)
qed

lemma env_laws_parts:
  assumes "env_laws W"
  shows "easyfl_laws (su_easyfl W)" "compile_laws (su_easyfl W)" "init_constraints (su_easyfl W) = Inr (su_registry W)"
    "su_registry W = registry_of (su_easyfl W) std_entries" "trie_laws (su_trie W)" "kv_laws (su_kv W)"
  using assms init_constraints_std [of "su_easyfl W"] by (simp_all add: env_laws_def)

lemma plain_output:
  assumes "env_laws W" "plain_account W u a acc" "db_utxos W u oid = Some d" "acc \<in> lock_accounts (su_easyfl W) (su_registry W) d"
  obtains n ts where "basic_output (su_easyfl W) n ts (Lock_AddressED25519 a) (arr_loaded (ArrayFromBytesMax d 256)) d"
    "OutputFromBytes (su_easyfl W) (su_registry W) d = Inr (arr_loaded (ArrayFromBytesMax d 256))"
    "Output_Lock (su_easyfl W) (su_registry W) (arr_loaded (ArrayFromBytesMax d 256)) = Inr (Lock_AddressED25519 a)"
    "stamped (su_easyfl W) d" "length d \<le> unat n" "ts < - 1"
proof -
  note laws = env_laws_parts [OF assms(1)]
  have "oid \<in> account_ids W u acc" using assms(3,4) by (auto simp: account_ids_def)
  then obtain n ts o' where b: "basic_output (su_easyfl W) n ts (Lock_AddressED25519 a) o' d" "length d \<le> unat n" "ts < - 1"
    using assms(2,3) by (fastforce simp: plain_account_def)
  have "simple_lock (Lock_AddressED25519 a)" using assms(2) by (auto simp: plain_account_def simple_lock_def)
  from basic_output_parses [OF laws(1,2) this b(1)] show ?thesis
    using that b(2,3) unfolding laws(4) by blast
qed

lemma plain_account_outputs:
  assumes "env_laws W" "db_sound W u" "plain_account W u a acc" "Updatable_Readable (su_trie W) (db_state u) = Inr rd"
    "f = None \<or> f = Some (unlockable_by W (Acc_AddressED25519 a) ts)"
  obtains outs where "account_outputs W (Acc_AddressED25519 a) f desc u = Inr outs"
    "set (map ow_ID outs) = account_ids W u acc" "distinct (map ow_ID outs)"
    "\<forall>ow \<in> set outs. spendable (su_easyfl W) (GetUTXO (su_trie W) rd) (Lock_AddressED25519 a) ow
       \<and> unat (ow_amount (su_easyfl W) ow) = amount_nat (su_easyfl W) (the (db_utxos W u (ow_ID ow)))"
proof -
  let ?E = "su_easyfl W" let ?R = "su_registry W"
  note laws = env_laws_parts [OF assms(1)]
  have acc: "AccountID ?E (Acc_AddressED25519 a) = Inr acc" and la: "length a = 32"
    using assms(3) by (simp_all add: plain_account_def)
  have simple: "simple_lock (Lock_AddressED25519 a)" using la by (auto simp: simple_lock_def)
  have short: "length acc \<le> 255"
    using AddressED25519_compiles [OF laws(2), of a] acc la by (fastforce simp: compiles_to_def)
  have keep: "case f of None \<Rightarrow> True | Some g \<Rightarrow> g o' = Inr True"
    if "Output_Lock ?E ?R o' = Inr (Lock_AddressED25519 a)" for o'
    using assms(5) that acc by (auto simp: unlockable_by_def)
  have "is_ok (account_outputs W (Acc_AddressED25519 a) f desc u)"
  proof (subst account_outputs_return [OF assms(2) acc short])
    show "is_ok (g o')" if "f = Some g" "db_utxos W u oid = Some d" "acc \<in> lock_accounts ?E ?R d" "OutputFromBytes ?E ?R d = Inr o'"
      for g oid d o'
      by (rule plain_output [OF assms(1,3) that(2,3)]) (use keep [of o'] that(1,4) in \<open>auto simp: is_ok_iff\<close>)
    show "\<forall>oid d. db_utxos W u oid = Some d \<longrightarrow> acc \<in> lock_accounts ?E ?R d \<longrightarrow> stamped ?E d"
      using plain_output [OF assms(1,3)] by metis
  qed
  then obtain outs where outs: "account_outputs W (Acc_AddressED25519 a) f desc u = Inr outs" by (auto simp: is_ok_iff)
  have ok: "ledger_ok (su_trie W) (db_state u)" and accs: "db_accounts W u = tagged (lock_accounts ?E ?R) (db_utxos W u)"
    using assms(2) by (simp_all add: db_sound_def db_ok_def)
  note ex = account_outputs_exact [OF assms(1) acc ok outs]
  have inX: "(acc, oid) \<in> db_accounts W u \<longleftrightarrow> oid \<in> account_ids W u acc" for oid
    unfolding accs by (auto simp: tagged_def account_ids_def)
  have each: "spendable ?E (GetUTXO (su_trie W) rd) (Lock_AddressED25519 a) ow
      \<and> unat (ow_amount ?E ow) = amount_nat ?E (the (db_utxos W u (ow_ID ow)))" if ow: "ow \<in> set outs" for ow
  proof -
    obtain d where d: "db_utxos W u (ow_ID ow) = Some d" "acc \<in> lock_accounts ?E ?R d" "OutputFromBytes ?E ?R d = Inr (ow_Output ow)"
      using ow unfolding ex(2) accs by (auto simp: tagged_def)
    obtain n t where b: "basic_output ?E n t (Lock_AddressED25519 a) (ow_Output ow) d" "length d \<le> unat n" "t < - 1"
      by (rule plain_output [OF assms(1,3) d(1,2)]) (use d(3) in auto)
    have "length (ow_ID ow) = 33" using d(1) assms(2) by (auto simp: db_sound_def ledger_output_def)
    moreover from this have "GetUTXO (su_trie W) rd (ow_ID ow) = Some d"
      using d(1) by (simp add: db_utxos_def utxos_def assms(4) restrict_map_def split: if_splits)
    ultimately show ?thesis
      using b basic_output_reads(1,4) [OF laws(1,2) simple b(1)] d(1) by (auto simp: spendable_def id_lengths ow_amount_def)
  qed
  have "set (map ow_ID outs) = account_ids W u acc"
  proof (intro set_eqI iffI)
    fix oid assume "oid \<in> set (map ow_ID outs)"
    then show "oid \<in> account_ids W u acc" using ex(2) inX by auto
  next
    fix oid assume X: "oid \<in> account_ids W u acc"
    then obtain d where d: "db_utxos W u oid = Some d" "acc \<in> lock_accounts ?E ?R d" by (auto simp: account_ids_def)
    let ?ow = "\<lparr>ow_ID = oid, ow_Output = arr_loaded (ArrayFromBytesMax d 256)\<rparr>"
    have "?ow \<in> set outs" unfolding ex(2)
      by (rule plain_output [OF assms(1,3) d]) (use X inX d keep in auto)
    then show "oid \<in> set (map ow_ID outs)" by (force intro: rev_image_eqI)
  qed
  then show ?thesis using that outs ex(1) each by blast
qed

section \<open>Paying\<close>

lemma take_worth:
  assumes "distinct (map ow_ID outs)"
    "\<forall>ow \<in> set outs. unat (ow_amount (su_easyfl W) ow) = amount_nat (su_easyfl W) (the (db_utxos W u (ow_ID ow)))"
  shows "ows_total (su_easyfl W) (take k outs) = worth W u (set (map ow_ID (take k outs)))"
proof -
  have "distinct (map ow_ID (take k outs))" using assms(1) by (simp add: take_map [symmetric])
  then have "worth W u (set (map ow_ID (take k outs)))
      = (\<Sum>oid\<leftarrow>map ow_ID (take k outs). amount_nat (su_easyfl W) (the (db_utxos W u oid)))"
    unfolding worth_def by (rule sum_list_distinct_conv_sum_set [symmetric])
  also have "\<dots> = (\<Sum>ow\<leftarrow>take k outs. unat (ow_amount (su_easyfl W) ow))"
    using assms(2) by (auto intro!: arg_cong [where f = sum_list] dest!: in_set_takeD)
  finally show ?thesis by (simp add: ows_total_def)
qed

lemma worth_bound:
  assumes "db_sound W u" "X \<subseteq> dom (db_utxos W u)" "holdings (amount_nat (su_easyfl W)) (db_utxos W u) < 2 ^ 64"
  shows "worth W u X < 2 ^ 64"
proof -
  have "finite (dom (db_utxos W u))"
    using assms(1) by (auto simp: db_utxos_def db_sound_def db_ok_def env_laws_def intro: utxos_finite)
  then have "worth W u X \<le> holdings (amount_nat (su_easyfl W)) (db_utxos W u)"
    unfolding worth_def holdings_def by (rule sum_mono2) (use assms(2) in auto)
  then show ?thesis using assms(3) by simp
qed

definition pays :: "('s, 'r, 't, 'i) environment \<Rightarrow> ('s, 'r, 'i) UTXODB \<Rightarrow> bytes \<Rightarrow> Lock \<Rightarrow> 64 word \<Rightarrow> ('s, 'r, 'i) UTXODB \<Rightarrow> bool" where
  \<comment> \<open>from \<open>u\<close> to \<open>u'\<close>: some outputs of the account are replaced by one or two new ones, the last of which
      has the amount and the target lock, in the state and in the index\<close>
  "pays W u acc lock amount u' \<longleftrightarrow>
     (\<exists>ids txid outs o' ts. ids \<subseteq> account_ids W u acc
        \<and> db_utxos W u' = (db_utxos W u |` (- ids)) ++ produced txid outs
        \<and> db_accounts W u' = (db_accounts W u - tagged (lock_accounts (su_easyfl W) (su_registry W)) (db_utxos W u |` ids))
             \<union> tagged (lock_accounts (su_easyfl W) (su_registry W)) (produced txid outs)
        \<and> outs \<noteq> [] \<and> length outs \<le> 2 \<and> basic_output (su_easyfl W) amount ts lock o' (last outs))"

lemma transfer_pays:
  assumes "env_laws W" "runs_library (su_easyfl W)" "signer_laws (su_easyfl W) (su_signer W)" "store_reliable (su_trie W)"
    "kv_reliable (su_kv W)" "db_sound W u" "holdings (amount_nat (su_easyfl W)) (db_utxos W u) < 2 ^ 64"
    "can_pay W u a acc amount" "simple_lock lock"
    "a = Sum256 (su_easyfl W) (sg_Public (su_signer W) (tf_SenderPrivateKey par))"
    "f = None \<or> f = Some (unlockable_by W (Acc_AddressED25519 a) t)"
    "account_outputs W (Acc_AddressED25519 a) f desc u = Inr (tf_Outputs par)"
    "tf_ChainOutput par = None" "\<not> tf_AddSender par" "tf_AddConstraints par = []" "tf_UnlockData par = []"
    "tf_Lock par = Some lock" "tf_SourceAccount par = Acc_AddressED25519 a" "tf_Amount par = amount"
  shows "\<exists>txb u'. make_transfer W now par = Inr txb \<and> AddTransaction W txb u = (Inr (), u') \<and> pays W u acc lock amount u'"
proof -
  let ?E = "su_easyfl W" let ?T = "su_trie W"
  note laws = env_laws_parts [OF assms(1)]
  have plain: "plain_account W u a acc" and pay: "card (account_ids W u acc) \<le> 256" "minTransferAmount \<le> unat amount"
    "unat amount \<le> worth W u (account_ids W u acc)"
    "\<And>Y. Y \<subseteq> account_ids W u acc \<Longrightarrow> unat amount < worth W u Y \<Longrightarrow> unat amount + minTransferAmount \<le> worth W u Y"
    using assms(8) by (simp_all add: can_pay_def)
  obtain rd where rd: "Updatable_Readable ?T (db_state u) = Inr rd"
    using assms(6) by (auto simp: db_sound_def db_ok_def ledger_ok_def is_ok_iff)
  obtain outs where outs: "tf_Outputs par = outs" "set (map ow_ID outs) = account_ids W u acc" "distinct (map ow_ID outs)"
    "\<forall>ow \<in> set outs. spendable ?E (GetUTXO ?T rd) (Lock_AddressED25519 a) ow
       \<and> unat (ow_amount ?E ow) = amount_nat ?E (the (db_utxos W u (ow_ID ow)))"
    by (rule plain_account_outputs [OF assms(1,6) plain rd assms(11), of desc]) (use assms(12) in auto)
  have total: "ows_total ?E (take k outs) = worth W u (set (map ow_ID (take k outs)))" for k
    by (rule take_worth [OF outs(3)]) (use outs(4) in blast)
  have sub: "set (map ow_ID (take k outs)) \<subseteq> account_ids W u acc" for k
    using set_take_subset [of k outs] outs(2) by auto
  have "account_ids W u acc \<subseteq> dom (db_utxos W u)" by (auto simp: account_ids_def)
  then have small: "worth W u (account_ids W u acc) < 2 ^ 64" by (rule worth_bound [OF assms(6) _ assms(7)])
  have "length outs \<le> 256" using pay(1) distinct_card [OF outs(3)] outs(2) by simp
  moreover have "ows_total ?E outs = worth W u (account_ids W u acc)" using total [of "length outs"] outs(2) by simp
  ultimately have ready: "transfer_ready ?E (su_signer W) (GetUTXO ?T rd) par lock a"
    unfolding transfer_ready_def using assms(9,10,13-19) outs(1,3,4) pay(2,3) small pay(4) [OF sub] total by simp
  obtain txb ps cmds st o' ts where tx: "MakeSimpleTransferTransactionOutputs ?E (su_signer W) now par = Inr (txb,
        map (\<lambda>(i, d). \<lparr>od_ID = NewOutputID (Sum256 ?E txb) (of_nat i), od_OutputData = d\<rparr>) (enumerate 0 ps))"
    "Update ?T ?E (su_registry W) txb (db_state u) = (Inr cmds, st)" "set (tx_inputs txb) \<subseteq> set (map ow_ID outs)"
    "utxos ?T st = (utxos ?T (db_state u) |` (- set (tx_inputs txb))) ++ produced (Sum256 ?E txb) ps"
    "\<forall>X. fold account_step cmds X = (X - tagged (lock_accounts ?E (su_registry W)) (utxos ?T (db_state u) |` set (tx_inputs txb)))
         \<union> tagged (lock_accounts ?E (su_registry W)) (produced (Sum256 ?E txb) ps)"
    "\<forall>cmd \<in> set cmds. length (cmd_OutputID cmd) = OutputIDLength"
    "ps \<noteq> []" "length ps \<le> 2" "basic_output ?E amount ts lock o' (last ps)"
    using transfer_moves [OF laws(1,2) assms(2) laws(3) assms(3) laws(5) assms(4) rd ready, of now] outs(1) assms(19) by auto
  obtain r ind where "indexer_Update (su_kv W) cmds (db_indexer u) = (r, ind)" by fastforce
  moreover from this have "AddTransaction W txb u = (r, u\<lparr>db_state := st, db_indexer := ind\<rparr>)"
    by (simp add: AddTransaction_def tx(2))
  moreover from this have "r = Inr ()" using indexer_follows [OF assms(1,5) tx(2)] by auto
  ultimately have ind: "indexer_Update (su_kv W) cmds (db_indexer u) = (Inr (), ind)"
    and add: "AddTransaction W txb u = (Inr (), u\<lparr>db_state := st, db_indexer := ind\<rparr>)" by simp_all
  have "db_accounts W (u\<lparr>db_state := st, db_indexer := ind\<rparr>) = fold account_step cmds (db_accounts W u)"
    using indexer_update_refines_parts(1) [OF laws(6) ind] tx(6) by (simp add: db_accounts_def id_lengths)
  then have "pays W u acc lock amount (u\<lparr>db_state := st, db_indexer := ind\<rparr>)"
    unfolding pays_def using tx(3-9) outs(2)
    by (intro exI [of _ "set (tx_inputs txb)"] exI [of _ "Sum256 ?E txb"] exI [of _ ps] exI [of _ o'] exI [of _ ts])
      (simp add: db_utxos_def)
  moreover have "make_transfer W now par = Inr txb"
    using tx(1) assms(13) by (simp add: make_transfer_def MakeTransferTransaction_def)
  ultimately show ?thesis using add by blast
qed

lemma sound_supply:
  assumes "env_laws W" "NewUTXODB W now = Inr u0" "ledger_run (db_step W) u0 H u"
    "inj_on (Sum256 (su_easyfl W)) (set H)" "replicate TransactionIDLength 0 \<notin> Sum256 (su_easyfl W) ` set H"
  shows "db_sound W u" "holdings (amount_nat (su_easyfl W)) (db_utxos W u) < 2 ^ 64"
  using db_run_sound [OF assms] books_of_run(2) [OF assms] unat_word_less [of "Supply u"] by simp_all

text \<open>
  C5 (tokens_transferred): after any history, \<^verbatim>\<open>TransferTokens\<close> goes through from an account of at most
  256 plain outputs that covers the amount and never leaves a remainder too small for an output: the
  inputs are found, the transaction is built, validated and taken by the ledger state and by the index,
  and nothing moves but outputs of the sender and the one or two new ones, the last of which has the
  amount and the target lock.
\<close>

theorem tokens_transferred:
  assumes "env_laws W" "runs_library (su_easyfl W)" "signer_laws (su_easyfl W) (su_signer W)" "store_reliable (su_trie W)"
    "kv_reliable (su_kv W)" "NewUTXODB W now0 = Inr u0" "ledger_run (db_step W) u0 H u"
    "inj_on (Sum256 (su_easyfl W)) (set H)" "replicate TransactionIDLength 0 \<notin> Sum256 (su_easyfl W) ` set H"
    "can_pay W u (Sum256 (su_easyfl W) (sg_Public (su_signer W) privKey)) acc amount" "simple_lock lock"
  shows "\<exists>u'. TransferTokens W now privKey lock amount u = (Inr (), u') \<and> pays W u acc lock amount u'"
proof -
  let ?E = "su_easyfl W" let ?a = "Sum256 ?E (sg_Public (su_signer W) privKey)"
  note sound = sound_supply [OF assms(1,6-9)]
  have plain: "plain_account W u ?a acc" using assms(10) by (simp add: can_pay_def)
  obtain rd where rd: "Updatable_Readable (su_trie W) (db_state u) = Inr rd"
    using sound(1) by (auto simp: db_sound_def db_ok_def ledger_ok_def is_ok_iff)
  let ?f = "Some (unlockable_by W (Acc_AddressED25519 ?a) now)"
  obtain outs where outs: "account_outputs W (Acc_AddressED25519 ?a) ?f False u = Inr outs"
    by (rule plain_account_outputs [OF assms(1) sound(1) plain rd, of ?f now False]) auto
  let ?par = "WithTargetLock lock (TransferWithAmount amount False
    (WithOutputs outs (NewTransferData ?E (su_signer W) privKey None now)))"
  have made: "MakeTransferData W now privKey None 0 False u = Inr (WithOutputs outs (NewTransferData ?E (su_signer W) privKey None now))"
    using outs by (simp add: MakeTransferData_def makeTransferInputsED25519_def NewTransferData_def AddressED25519FromPublicKey_def Let_def)
  have "\<exists>txb u'. make_transfer W now ?par = Inr txb \<and> AddTransaction W txb u = (Inr (), u') \<and> pays W u acc lock amount u'"
    by (rule transfer_pays [OF assms(1-5) sound assms(10,11), where f = ?f and t = now and desc = False])
      (use outs in \<open>simp_all add: WithTargetLock_def TransferWithAmount_def WithOutputs_def NewTransferData_def
        AddressED25519FromPublicKey_def Let_def\<close>)
  then show ?thesis using made by (auto simp: TransferTokens_def sbind_def call_def)
qed

section \<open>The first payment\<close>

lemma new_database_returns:
  assumes "env_laws W" "kv_reliable (su_kv W)"
  shows "\<exists>u. NewUTXODB W now = Inr u"
proof -
  let ?E = "su_easyfl W" let ?T = "su_trie W"
  note laws = env_laws_parts [OF assms(1)]
  have "is_ok (DecodeString originPrivateKey)" by code_simp
  then obtain key where key: "DecodeString originPrivateKey = Inr key" by (auto simp: is_ok_iff)
  define a where "a = Sum256 ?E (sg_Public (su_signer W) key)"
  have la: "length a = 32" using laws(1) by (simp add: a_def easyfl_laws_def crypto_laws_def)
  obtain out cl where out: "genesisOutput ?E supplyForTesting a now = Inr out" "AddressED25519_Bytes ?E a = Inr cl"
    using genesisOutput_ok [OF laws(1,2) la] by blast
  obtain root0 s0 where s0: "tm_MustInitRoot ?T (tm_NewStore ?T) (ascii utxodbIdentity) = (root0, s0)" by fastforce
  obtain t where t: "tm_NewChained ?T s0 root0 = Inr t" using trie_lawsD(6) [OF laws(5) s0] by blast
  obtain root s1 where s1: "tm_CommitChained ?T (trie_writes ?T [(GenesisOutputID, out)] t) s0 = (root, s1)" by fastforce
  obtain t2 where t2: "tm_NewReader ?T (tm_CopyAll ?T (tm_NewStore ?T) s1) root = Inr t2"
    using trie_lawsD(7) [OF laws(5) t s1] by (auto simp: opened_as_def)
  obtain r ind where ind: "kv_Commit (su_kv W) [([PartitionAccount, of_nat (length cl)] @ cl @ GenesisOutputID, [255])] (su_newKV W) = (r, ind)"
    by fastforce
  then have "r = Inr ()" using assms(2) unfolding kv_reliable_def by (metis fst_conv)
  then have "InitIndexer ?E (su_kv W) a (su_newKV W) = (Inr (), ind)"
    using ind out(2) by (simp add: InitIndexer_def)
  then show ?thesis
    using key s0 t s1 t2 out(1)
    by (simp add: NewUTXODB_def Let_def AddressED25519FromPublicKey_def InitLedgerState_def NewUpdatable_def flip: a_def)
qed

lemma NewUTXODB_genesis:
  assumes "NewUTXODB W now = Inr u"
  obtains root store where "DecodeString originPrivateKey = Inr (db_genesisPrivateKey u)"
    "db_genesisAddress u = Sum256 (su_easyfl W) (sg_Public (su_signer W) (db_genesisPrivateKey u))"
    "InitLedgerState (su_trie W) (su_easyfl W) (tm_NewStore (su_trie W)) (ascii utxodbIdentity) supplyForTesting
       (db_genesisAddress u) now = Inr (root, store)"
    "NewUpdatable (su_trie W) store root = Inr (db_state u)"
proof -
  obtain key where key: "DecodeString originPrivateKey = Inr key" using assms by (auto simp: NewUTXODB_def Let_def)
  define a where "a = Sum256 (su_easyfl W) (sg_Public (su_signer W) key)"
  obtain root store st where st:
    "InitLedgerState (su_trie W) (su_easyfl W) (tm_NewStore (su_trie W)) (ascii utxodbIdentity) supplyForTesting a now
       = Inr (root, store)" "NewUpdatable (su_trie W) store root = Inr st"
    using assms by (auto simp: NewUTXODB_def Let_def key AddressED25519FromPublicKey_def simp flip: a_def)
  then have "db_genesisAddress u = a \<and> db_genesisPrivateKey u = key \<and> db_state u = st"
    using assms by (auto simp: NewUTXODB_def Let_def key AddressED25519FromPublicKey_def a_def split: prod.splits sum.splits)
  then show ?thesis using that key st by (simp add: a_def)
qed

lemma genesis_can_pay:
  assumes "env_laws W" "NewUTXODB W now = Inr u" "now < - 1"
    "minTransferAmount \<le> unat amount" "unat amount + minTransferAmount \<le> unat supplyForTesting"
  obtains acc where "can_pay W u (db_genesisAddress u) acc amount"
proof -
  let ?E = "su_easyfl W" let ?a = "db_genesisAddress u" let ?R = "su_registry W"
  note laws = env_laws_parts [OF assms(1)]
  obtain root store where gen: "?a = Sum256 ?E (sg_Public (su_signer W) (db_genesisPrivateKey u))"
    "InitLedgerState (su_trie W) ?E (tm_NewStore (su_trie W)) (ascii utxodbIdentity) supplyForTesting ?a now = Inr (root, store)"
    "NewUpdatable (su_trie W) store root = Inr (db_state u)"
    by (rule NewUTXODB_genesis [OF assms(2)])
  have la: "length ?a = 32" using laws(1) gen(1) by (simp add: easyfl_laws_def crypto_laws_def)
  have simple: "simple_lock (Lock_AddressED25519 ?a)" using la by (auto simp: simple_lock_def)
  obtain out ca ct cl where out: "genesisOutput ?E supplyForTesting ?a now = Inr out" "parseArray out 256 = Inr [ca, ct, cl]"
    "Amount_Bytes ?E supplyForTesting = Inr ca" "Timestamp_Bytes ?E now = Inr ct" "AddressED25519_Bytes ?E ?a = Inr cl"
    using genesisOutput_ok [OF laws(1,2) la] by blast
  have utxos: "db_utxos W u = [GenesisOutputID \<mapsto> out]"
    using genesis_state(2) [OF laws(1,2,5) la gen(2,3)] out(1) by (auto simp: db_utxos_def)
  have basic: "basic_output ?E supplyForTesting now (Lock_AddressED25519 ?a) (arr_loaded (ArrayFromBytesMax out 256)) out"
    by (rule reread_basic [OF out(3,4) _ out(2)]) (use out(5) in simp)
  have amt: "amount_nat ?E out = unat supplyForTesting" by (rule basic_output_reads(4) [OF laws(1,2) simple basic])
  have len: "length out \<le> unat supplyForTesting"
    using basic_output_size [OF laws(2) simple basic] by (simp add: minTransferAmount_def supplyForTesting_def)
  have "cl \<in> lock_accounts ?E ?R out"
    using basic_output_parses(4) [OF laws(1,2) simple basic] out(5) by (simp add: lock_accounts_def laws(4))
  then have ids: "account_ids W u cl = {GenesisOutputID}" by (auto simp: account_ids_def utxos)
  have "worth W u Y = (if Y = {} then 0 else unat supplyForTesting)" if "Y \<subseteq> {GenesisOutputID}" for Y
    using that amt by (auto simp: worth_def utxos subset_singleton_iff)
  then have "can_pay W u ?a cl amount"
    using basic len la out(5) assms(3-5) ids by (auto simp: can_pay_def plain_account_def utxos)
  then show ?thesis by (rule that)
qed

text \<open>
  C6 (faucet_pays): a new database starts, and its faucet pays: whatever environment keeps the laws, \<^verbatim>\<open>NewUTXODB\<close> returns
  a database, and the first \<^verbatim>\<open>TokensFromFaucet\<close> for an amount that fits an output goes through and leaves
  an output of this amount with the address that asked.
\<close>

theorem faucet_pays:
  assumes "env_laws W" "runs_library (su_easyfl W)" "signer_laws (su_easyfl W) (su_signer W)" "store_reliable (su_trie W)"
    "kv_reliable (su_kv W)" "now0 < - 1" "length addr = 32"
    "minTransferAmount \<le> unat amount" "unat amount + minTransferAmount \<le> unat supplyForTesting"
  shows "\<exists>u u' acc. NewUTXODB W now0 = Inr u \<and> TokensFromFaucet W now addr (Some amount) u = (Inr (), u')
    \<and> AddressED25519_Bytes (su_easyfl W) (GenesisAddress u) = Inr acc \<and> pays W u acc (Lock_AddressED25519 addr) amount u'"
proof -
  let ?E = "su_easyfl W"
  obtain u where u: "NewUTXODB W now0 = Inr u" using new_database_returns [OF assms(1,5)] by blast
  let ?a = "db_genesisAddress u"
  have run: "ledger_run (db_step W) u [] u" by (rule ledger_run.run_start)
  have sound: "db_sound W u" "holdings (amount_nat ?E) (db_utxos W u) < 2 ^ 64"
    using sound_supply [OF assms(1) u run] by auto
  obtain acc where pay: "can_pay W u ?a acc amount" by (rule genesis_can_pay [OF assms(1) u assms(6,8,9)])
  then have plain: "plain_account W u ?a acc" by (simp add: can_pay_def)
  obtain rd where rd: "Updatable_Readable (su_trie W) (db_state u) = Inr rd"
    using sound(1) by (auto simp: db_sound_def db_ok_def ledger_ok_def is_ok_iff)
  obtain outs where outs: "account_outputs W (Acc_AddressED25519 ?a) None False u = Inr outs"
    by (rule plain_account_outputs [OF assms(1) sound(1) plain rd, of None now False]) auto
  have a: "?a = Sum256 ?E (sg_Public (su_signer W) (db_genesisPrivateKey u))" by (rule NewUTXODB_genesis [OF u])
  let ?lock = "Lock_AddressED25519 addr"
  let ?par = "WithOutputs outs (WithTargetLock ?lock (TransferWithAmount amount True
    (NewTransferData ?E (su_signer W) (db_genesisPrivateKey u) None now)))"
  have "simple_lock ?lock" using assms(7) by (auto simp: simple_lock_def)
  then have "\<exists>txb u'. make_transfer W now ?par = Inr txb \<and> AddTransaction W txb u = (Inr (), u') \<and> pays W u acc ?lock amount u'"
    by (intro transfer_pays [OF assms(1-5) sound pay, where f = None and desc = False])
      (use outs a in \<open>simp_all add: WithTargetLock_def TransferWithAmount_def WithOutputs_def NewTransferData_def
        AddressED25519FromPublicKey_def Let_def\<close>)
  moreover have "amount > 0" using assms(8) by (auto simp: minTransferAmount_def word_less_nat_alt)
  ultimately have "\<exists>u'. TokensFromFaucet W now addr (Some amount) u = (Inr (), u') \<and> pays W u acc ?lock amount u'"
    using outs by (auto simp: TokensFromFaucet_def sbind_def call_def Let_def)
  then show ?thesis using u plain by (auto simp: plain_account_def GenesisAddress_def)
qed

end
