(* ===== verification/ChainTransfer.thy ===== *)
theory ChainTransfer
  imports Acceptance
begin

text \<open>
  The builder against the validator, with a chain: \<^verbatim>\<open>MakeChainTransferTransactionOutputs\<close> consumes the chain
  output and outputs locked with the chain, unlocks them with the transition of the chain, and produces
  the next output of the chain and the target output.
\<close>

section \<open>Outputs with a chain constraint\<close>

definition minChainAmount :: nat where
  \<comment> \<open>no output of the four constraints is longer\<close>
  "minChainAmount = 161"

definition chain_output :: "easyfl \<Rightarrow> 64 word \<Rightarrow> 32 word \<Rightarrow> AddressED25519 \<Rightarrow> ChainConstraint \<Rightarrow> Output \<Rightarrow> bytes \<Rightarrow> bool" where
  \<comment> \<open>an output of an address with a chain constraint in block 3, and its bytes\<close>
  "chain_output E n ts a ch o' d \<longleftrightarrow>
     (\<exists>ca ct cl cc. Amount_Bytes E n = Inr ca \<and> Timestamp_Bytes E ts = Inr ct \<and> AddressED25519_Bytes E a = Inr cl
        \<and> ChainConstraint_Bytes E ch = Inr cc \<and> outp o' [ca, ct, cl, cc]
        \<and> Output_Bytes o' = Inr d \<and> parseArray d 256 = Inr [ca, ct, cl, cc])"

lemma chain_output_parts:
  assumes "compile_laws E" "length a = 32" "length (ch_ID ch) = 32" "chain_output E n ts a ch o' d"
  obtains ca ct cl cc where "Amount_Bytes E n = Inr ca" "Timestamp_Bytes E ts = Inr ct" "AddressED25519_Bytes E a = Inr cl"
    "ChainConstraint_Bytes E ch = Inr cc" "outp o' [ca, ct, cl, cc]" "Output_Bytes o' = Inr d"
    "parseArray d 256 = Inr [ca, ct, cl, cc]" "length ca \<le> 24" "length ct \<le> 20" "length cl \<le> 48" "length cc \<le> 51"
    "reads_as E ca ''amount'' [L_u64 n]" "reads_as E ct ''timestamp'' [L_u32 ts]"
    "reads_as E cl ''addressED25519'' [L_hex a]" "reads_as E cc ''chain'' [L_hex (chain_data ch)]"
proof -
  obtain ca ct cl cc where b: "Amount_Bytes E n = Inr ca" "Timestamp_Bytes E ts = Inr ct" "AddressED25519_Bytes E a = Inr cl"
    "ChainConstraint_Bytes E ch = Inr cc" "outp o' [ca, ct, cl, cc]" "Output_Bytes o' = Inr d"
    "parseArray d 256 = Inr [ca, ct, cl, cc]"
    using assms(4) by (auto simp: chain_output_def)
  have "a \<noteq> []" using assms(2) by auto
  then show ?thesis
    using that [OF b] Amount_compiles [OF assms(1), of n] Timestamp_compiles [OF assms(1), of ts]
      AddressED25519_compiles [OF assms(1), of a] ChainConstraint_compiles [OF assms(1,3)] b(1-4) assms(2,3)
    by (auto simp: compiles_to_def chain_data_def)
qed

lemma chain_output_size:
  assumes "compile_laws E" "length a = 32" "length (ch_ID ch) = 32" "chain_output E n ts a ch o' d"
  shows "length d \<le> minChainAmount"
proof (rule chain_output_parts [OF assms])
  fix ca ct cl cc
  assume p: "parseArray d 256 = Inr [ca, ct, cl, cc]" "length ca \<le> 24" "length ct \<le> 20" "length cl \<le> 48" "length cc \<le> 51"
  obtain w where w: "wire_ok w [ca, ct, cl, cc]" "d = wire w [ca, ct, cl, cc]" using p(1) by (auto elim: parseArray_Inr)
  then have "w \<in> widths" by (simp add: wire_ok_def)
  then show ?thesis
    using length_wire [of w "[ca, ct, cl, cc]"] wire_width [of w] p(2-5) w(2) by (simp add: minChainAmount_def)
qed

lemma chain_output_reads:
  assumes "easyfl_laws E" "compile_laws E" "length a = 32" "length (ch_ID ch) = 32" "chain_output E n ts a ch o' d"
  shows "Output_Amount E o' = Inr n" and "Output_Timestamp E o' = Inr ts"
    and "output_amount E d = Inr n" and "amount_nat E d = unat n"
    and "OutputFromBytes E (registry_of E std_entries) d = Inr (arr_loaded (ArrayFromBytesMax d 256))"
proof -
  obtain ca ct cl cc where b: "AddressED25519_Bytes E a = Inr cl" "outp o' [ca, ct, cl, cc]"
    "parseArray d 256 = Inr [ca, ct, cl, cc]"
    "reads_as E ca ''amount'' [L_u64 n]" "reads_as E ct ''timestamp'' [L_u32 ts]"
    by (rule chain_output_parts [OF assms(2-5)])
  note reads = Amount_reads [OF assms(1) b(4)] Timestamp_reads [OF assms(1) b(5)]
  show "Output_Amount E o' = Inr n" "Output_Timestamp E o' = Inr ts"
    using outp_getters [OF b(2)] reads by simp_all
  show "output_amount E d = Inr n" "amount_nat E d = unat n"
    using b(3) reads by (simp_all add: amount_nat_def output_amount_def At_eq ConstraintIndexAmount_def)
  have "lock_ok (Lock_AddressED25519 a)" using assms(3) by simp
  then obtain code where "Lock_Bytes E (Lock_AddressED25519 a) = Inr code"
    "LockFromBytes E (registry_of E std_entries) code = Inr (Lock_AddressED25519 a)"
    by (rule lock_reads_back [OF assms(1,2)])
  then have "LockFromBytes E (registry_of E std_entries) cl = Inr (Lock_AddressED25519 a)" using b(1) by simp
  then show "OutputFromBytes E (registry_of E std_entries) d = Inr (arr_loaded (ArrayFromBytesMax d 256))"
    using reads b(3) by (simp add: OutputFromBytes_Inr)
qed

lemma chain_output_exists:
  assumes "compile_laws E" "length a = 32" "length (ch_ID ch) = 32"
  shows "\<exists>o' d. chain_output E n ts a ch o' d"
proof -
  have simple: "simple_lock (Lock_AddressED25519 a)" using assms(2) by (auto simp: simple_lock_def)
  obtain o0 d0 where "basic_output E n ts (Lock_AddressED25519 a) o0 d0"
    using basic_output_exists [OF assms(1) simple] by blast
  then obtain ca ct cl where b: "Amount_Bytes E n = Inr ca" "Timestamp_Bytes E ts = Inr ct" "AddressED25519_Bytes E a = Inr cl"
    "outp o0 [ca, ct, cl]" "parseArray d0 256 = Inr [ca, ct, cl]"
    by (auto simp: basic_output_def)
  have "length cl \<le> 48" "length ca \<le> 24" "length ct \<le> 20"
    using AddressED25519_compiles [OF assms(1), of a] Amount_compiles [OF assms(1), of n] Timestamp_compiles [OF assms(1), of ts]
      b(1-3) assms(2) by (fastforce simp: compiles_to_def)+
  moreover obtain cc where cc: "ChainConstraint_Bytes E ch = Inr cc" "length cc \<le> 51"
    using ChainConstraint_compiles [OF assms(1,3)] assms(3) by (auto simp: compiles_to_def chain_data_def)
  moreover obtain o1 where o1: "outp o1 [ca, ct, cl, cc]"
    using exec_push [OF b(4), of cc] by auto
  ultimately have "encodable [ca, ct, cl, cc]" by (simp add: encodable_def maxArrayLen_eq MaxUint32_def)
  then obtain d where "Output_Bytes o1 = Inr d" "parseArray d 256 = Inr [ca, ct, cl, cc]"
    using outp_Bytes [OF o1] by auto
  then show ?thesis using b(1-3) cc(1) o1 by (auto simp: chain_output_def)
qed

text \<open>The next output of the chain: a clone of the last one with three constraints replaced.\<close>

lemma chain_successor_ok:
  assumes "easyfl_laws E" "compile_laws E" "length a = 32" "length (ch_ID ch) = 32"
    "chain_output E n ts a ch (wc_Output co) d" "wc_PredecessorConstraintIndex co = 3" "length (wc_ChainID co) = 32"
  shows "\<exists>o' d'. chain_successor E (registry_of E std_entries) co n' ts' = Inr o'
    \<and> chain_output E n' ts' a (NewChainConstraint (wc_ChainID co) 0 3 0) o' d'"
proof -
  obtain ca ct cl cc where b: "AddressED25519_Bytes E a = Inr cl" "Output_Bytes (wc_Output co) = Inr d"
    "parseArray d 256 = Inr [ca, ct, cl, cc]"  "length cl \<le> 48"
    by (rule chain_output_parts [OF assms(2-5)])
  let ?ch = "NewChainConstraint (wc_ChainID co) 0 3 0"
  obtain ca' where ca: "Amount_Bytes E n' = Inr ca'" "length ca' \<le> 24"
    using Amount_compiles [OF assms(2), of n'] by (auto simp: compiles_to_def)
  obtain ct' where ct: "Timestamp_Bytes E ts' = Inr ct'" "length ct' \<le> 20"
    using Timestamp_compiles [OF assms(2), of ts'] by (auto simp: compiles_to_def)
  have "length (ch_ID ?ch) = 32" using assms(7) by (simp add: NewChainConstraint_def)
  from ChainConstraint_compiles [OF assms(2) this]
  obtain cc' where cc: "ChainConstraint_Bytes E ?ch = Inr cc'" "length cc' \<le> 51"
    using assms(7) by (auto simp: compiles_to_def chain_data_def NewChainConstraint_def)
  have clone: "Output_Clone E (registry_of E std_entries) (wc_Output co) = Inr (arr_loaded (ArrayFromBytesMax d 256))"
    using chain_output_reads(5) [OF assms(1-5)] b(2) by (simp add: Output_Clone_def)
  have o0: "outp (arr_loaded (ArrayFromBytesMax d 256)) [ca, ct, cl, cc]"
    by (rule OutputFromBytes_outp [OF chain_output_reads(5) [OF assms(1-5)]]) (use b(3) in simp)
  obtain o1 where o1: "exec (PutAtIdxGrow 0 ca') (arr_loaded (ArrayFromBytesMax d 256)) = Inr o1" "outp o1 [ca', ct, cl, cc]"
    using exec_put [OF o0, of 0 ca'] by auto
  obtain o2 where o2: "exec (PutAtIdxGrow 1 ct') o1 = Inr o2" "outp o2 [ca', ct', cl, cc]"
    using exec_put [OF o1(2), of 1 ct'] by auto
  obtain o3 where o3: "exec (PutAtIdxGrow 3 cc') o2 = Inr o3" "outp o3 [ca', ct', cl, cc']"
    using exec_put [OF o2(2), of 3 cc'] by (auto simp: numeral_eq_Suc)
  have "encodable [ca', ct', cl, cc']"
    using ca(2) ct(2) cc(2) b(4) by (simp add: encodable_def maxArrayLen_eq MaxUint32_def)
  then obtain d' where d': "Output_Bytes o3 = Inr d'" "parseArray d' 256 = Inr [ca', ct', cl, cc']"
    using outp_Bytes [OF o3(2)] by auto
  have "chain_successor E (registry_of E std_entries) co n' ts' = Inr o3"
    using clone o1(1) o2(1) o3(1) ca(1) ct(1) cc(1)
    by (simp add: chain_successor_def assms(6) exec_sbind WithAmount_def WithTimestamp_def PutConstraint_def
        ConstraintIndex_defs)
  then show ?thesis using ca(1) ct(1) cc(1) b(1) o3(2) d' by (auto simp: chain_output_def)
qed

section \<open>When an output with a chain constraint is accepted\<close>

lemma all_less_four: "(\<forall>j < length [a, b, c, d]. P j) \<longleftrightarrow> P 0 \<and> P (Suc 0) \<and> P 2 \<and> P 3"
  by (auto simp: less_Suc_eq numeral_eq_Suc)

lemma chain_entries_ok:
  assumes "easyfl_laws E" "compile_laws E" "init_constraints E = Inr R" "length a = 32" "length (ch_ID ch) = 32"
    "chain_output E n ts a ch o' d" "c \<Longrightarrow> is_ok (InputID v idx)" "c \<Longrightarrow> is_ok (UnlockParams v idx 3)"
  shows "is_ok (createIndexEntries E R v idx (ArrayFromBytesMax d 256) c [])"
proof -
  obtain ca ct cl cc where b: "AddressED25519_Bytes E a = Inr cl" "parseArray d 256 = Inr [ca, ct, cl, cc]"
    "reads_as E cc ''chain'' [L_hex (chain_data ch)]"
    by (rule chain_output_parts [OF assms(2,4-6)])
  have R: "R = registry_of E std_entries" using init_constraints_std [OF assms(1,2)] assms(3) by simp
  have "lock_ok (Lock_AddressED25519 a)" using assms(4) by simp
  then obtain code where "Lock_Bytes E (Lock_AddressED25519 a) = Inr code"
    "LockFromBytes E R code = Inr (Lock_AddressED25519 a)"
    unfolding R by (rule lock_reads_back [OF assms(1,2)])
  then have lock: "LockFromBytes E R cl = Inr (Lock_AddressED25519 a)" using b(1) by simp
  have chain: "ChainConstraintFromBytes E cc = Inr ch" by (rule ChainConstraint_reads [OF assms(1,5) b(3)])
  obtain oid where oid: "(if c then InputID v idx else Inr (NewOutputID (tc_txid v) idx)) = Inr oid" "c \<Longrightarrow> InputID v idx = Inr oid"
    using assms(7) by (cases c) (auto simp: is_ok_iff)
  obtain u where u: "c \<Longrightarrow> UnlockParams v idx 3 = Inr u" using assms(8) by (cases c) (auto simp: is_ok_iff)
  have "is_ok (indexLock E R v idx (ArrayFromBytesMax d 256) c [])"
    using b(1) by (simp add: indexLock_def At_eq b(2) ConstraintIndex_defs lock oid(1))
  moreover have "is_ok (indexChainID E v idx (ArrayFromBytesMax d 256) c r)" for r
    using u oid(2) by (simp add: indexChainID_def Parsed_def ensureParsed_eq b(2) ConstraintIndex_defs chain Let_def)
  ultimately show ?thesis by (auto simp: createIndexEntries_def is_ok_iff)
qed

lemma chain_output_accepted:
  assumes "easyfl_laws E" "compile_laws E" "runs_library E" "init_constraints E = Inr R" "length a = 32"
    "length (ch_ID ch) = 32" "chain_output E n ts a ch o' d" "length d \<le> unat n"
    "holds (fl_amount E (ctx_at (tc_tree v) (branch_path c @ [of_nat i, 0])) (Inr (put_u64 n)))"
    "holds (fl_timestamp E (ctx_at (tc_tree v) (branch_path c @ [of_nat i, 1])) (Inr (put_u32 ts)))"
    "holds (fl_addressED25519 E (ctx_at (tc_tree v) (branch_path c @ [of_nat i, 2])) (Inr a))"
    "holds (fl_chain E (ctx_at (tc_tree v) (branch_path c @ [of_nat i, 3])) (Inr (chain_data ch)))"
    "c \<Longrightarrow> is_ok (InputID v (of_nat i))" "c \<Longrightarrow> is_ok (UnlockParams v (of_nat i) 3)"
  shows "output_accepted E R v c i d"
proof -
  obtain ca ct cl cc where b: "Amount_Bytes E n = Inr ca" "Timestamp_Bytes E ts = Inr ct" "AddressED25519_Bytes E a = Inr cl"
    "ChainConstraint_Bytes E ch = Inr cc" "parseArray d 256 = Inr [ca, ct, cl, cc]"
    "reads_as E ca ''amount'' [L_u64 n]" "reads_as E ct ''timestamp'' [L_u32 ts]"
    "reads_as E cl ''addressED25519'' [L_hex a]" "reads_as E cc ''chain'' [L_hex (chain_data ch)]"
    by (rule chain_output_parts [OF assms(2,5-7)])
  let ?p = "branch_path c @ [of_nat i]"
  have syms: "''amount'' \<in> set constraint_symbols" "''timestamp'' \<in> set constraint_symbols"
    "''addressED25519'' \<in> set constraint_symbols" "''chain'' \<in> set constraint_symbols"
    by (simp_all add: constraint_symbols_def constraint_arity_def)
  have la: "a \<noteq> []" "length a \<le> 127" using assms(5) by auto
  have "block_passes E v ?p 0 ca"
    by (rule literal_block_passes [OF assms(3) Amount_compiles [OF assms(2)] b(1) _ syms(1)])
      (use assms(9) in \<open>simp_all add: fl_call_def\<close>)
  moreover have "block_passes E v ?p (Suc 0) ct"
    by (rule literal_block_passes [OF assms(3) Timestamp_compiles [OF assms(2)] b(2) _ syms(2)])
      (use assms(10) in \<open>simp_all add: fl_call_def\<close>)
  moreover have "block_passes E v ?p 2 cl"
    by (rule literal_block_passes [OF assms(3) AddressED25519_compiles [OF assms(2) la] b(3) _ syms(3)])
      (use assms(11) in \<open>simp_all add: fl_call_def\<close>)
  moreover have "block_passes E v ?p 3 cc"
    by (rule literal_block_passes [OF assms(3) ChainConstraint_compiles [OF assms(2,6)] b(4) _ syms(4)])
      (use assms(12) in \<open>simp_all add: fl_call_def\<close>)
  ultimately have "\<forall>j < length [ca, ct, cl, cc]. block_passes E v ?p j ([ca, ct, cl, cc] ! j)"
    unfolding all_less_four by simp
  moreover have "distinct [ca, ct, cl, cc]"
    using b(6-9) by (auto dest: reads_as_name)
  ultimately have "is_ok (runOutput E v c (ArrayFromBytesMax d 256) ?p)"
    using runOutput_ok [OF b(5), of E v ?p c] by blast
  moreover have "is_ok (output_amount E d)" "length d mod 2 ^ 32 \<le> amount_nat E d"
    using chain_output_reads(3,4) [OF assms(1,2,5,6,7)] assms(8) mod_less_eq_dividend [of "length d" "2 ^ 32"]
    by simp_all
  moreover have "is_ok (createIndexEntries E R v (of_nat i) (ArrayFromBytesMax d 256) c [])"
    by (rule chain_entries_ok [OF assms(1,2,4-7,13,14)])
  ultimately show ?thesis by (simp add: output_accepted_def Let_def)
qed

text \<open>What the scripts of the chain see of a chain constraint.\<close>

lemma chain_code_data:
  assumes "easyfl_laws E" "reads_as E code ''chain'' [L_hex d]"
  shows "chain_data_of E (PrefixOf E ''chain'') code d" and "ParseBytecodePrefix E code = Inr (PrefixOf E ''chain'')"
proof -
  obtain arg where p: "ParseBytecodeOneLevel E code None = Inr (''chain'', PrefixOf E ''chain'', [arg])" "arg_is E (L_hex d) arg"
    using assms(2) by (auto simp: reads_as_def list_all2_Cons1)
  then show "chain_data_of E (PrefixOf E ''chain'') code d" by (auto simp: chain_data_of_def)
  show "ParseBytecodePrefix E code = Inr (PrefixOf E ''chain'')"
    by (rule reads_as_parses [OF assms])
qed

section \<open>The transaction of a chain transfer\<close>

definition chain_ow :: "OutputWithChainID \<Rightarrow> OutputWithID" where
  "chain_ow co = \<lparr>ow_ID = wc_ID co, ow_Output = wc_Output co\<rparr>"

definition own_chain :: "easyfl \<Rightarrow> AddressED25519 \<Rightarrow> OutputWithChainID \<Rightarrow> ChainConstraint \<Rightarrow> bytes \<Rightarrow> bool" where
  \<comment> \<open>a chain output of the address, with the identity that \<open>ParseChainConstraints\<close> gives it\<close>
  "own_chain E a co ch d \<longleftrightarrow>
     chain_output E (ow_amount E (chain_ow co)) (ow_time E (chain_ow co)) a ch (wc_Output co) d
     \<and> wc_PredecessorConstraintIndex co = 3 \<and> length (ch_ID ch) = 32
     \<and> wc_ChainID co = (if IsOrigin ch then Sum256 E (wc_ID co) else ch_ID ch) \<and> wc_ChainID co \<noteq> replicate 32 0"

definition next_constraint :: "OutputWithChainID \<Rightarrow> ChainConstraint" where
  "next_constraint co = NewChainConstraint (wc_ChainID co) 0 3 0"

lemma zeros_iff: "length xs = n \<Longrightarrow> (\<forall>b \<in> set xs. b = 0) \<longleftrightarrow> xs = replicate n 0"
  by (metis in_set_replicate replicate_eqI)

lemma own_chainD:
  assumes "easyfl_laws E" "own_chain E a co ch d"
  shows "length (wc_ChainID co) = 32" and "\<not> (\<forall>b \<in> set (wc_ChainID co). b = 0)"
    and "length (chain_data ch) = 35" and "take 32 (chain_data ch) = ch_ID ch"
    and "(\<forall>b \<in> set (ch_ID ch). b = 0) \<Longrightarrow> chain_data ch = origin_data \<and> wc_ChainID co = Sum256 E (wc_ID co)"
    and "\<not> (\<forall>b \<in> set (ch_ID ch). b = 0) \<Longrightarrow> wc_ChainID co = ch_ID ch"
    and "chain_data (next_constraint co) = wc_ChainID co @ [0, 3, 0]" and "length (ch_ID (next_constraint co)) = 32"
proof -
  have c: "length (ch_ID ch) = 32" "wc_ChainID co = (if IsOrigin ch then Sum256 E (wc_ID co) else ch_ID ch)"
    "wc_ChainID co \<noteq> replicate 32 0"
    using assms(2) unfolding own_chain_def by blast+
  show len: "length (wc_ChainID co) = 32"
    using c(1,2) assms(1) by (simp add: easyfl_laws_def crypto_laws_def)
  show "\<not> (\<forall>b \<in> set (wc_ChainID co). b = 0)" using zeros_iff [OF len] c(3) by simp
  show "length (chain_data ch) = 35" "take 32 (chain_data ch) = ch_ID ch" using c(1) by (simp_all add: chain_data_def)
  note zero = zeros_iff [OF c(1)]
  show "chain_data ch = origin_data \<and> wc_ChainID co = Sum256 E (wc_ID co)" if "\<forall>b \<in> set (ch_ID ch). b = 0"
    using that c(2,3) unfolding zero by (auto simp: IsOrigin_def chain_data_def origin_data_def split: if_splits)
  show "wc_ChainID co = ch_ID ch" if "\<not> (\<forall>b \<in> set (ch_ID ch). b = 0)"
    using that c(2) unfolding zero by (simp add: IsOrigin_def)
  show "chain_data (next_constraint co) = wc_ChainID co @ [0, 3, 0]" "length (ch_ID (next_constraint co)) = 32"
    using len by (simp_all add: next_constraint_def NewChainConstraint_def chain_data_def)
qed

text \<open>What the tree of a chain transfer reads: the chain at index 0 on both sides.\<close>

definition chain_tree :: "easyfl \<Rightarrow> tree \<Rightarrow> AddressED25519 \<Rightarrow> 32 word \<Rightarrow> OutputWithChainID \<Rightarrow> ChainConstraint
    \<Rightarrow> OutputWithID list \<Rightarrow> bytes \<Rightarrow> bytes list \<Rightarrow> 64 word \<Rightarrow> 64 word \<Rightarrow> Lock \<Rightarrow> bytes list \<Rightarrow> bool" where
  "chain_tree E t a ts co ch ows d ins rest amount lock outs \<longleftrightarrow>
     tree_inv t \<and> tread t PathToTimestamp = Inr (put_u32 ts) \<and> signed_by E t a
     \<and> elems_at t PathToInputIDs = Inr (wc_ID co # map ow_ID ows)
     \<and> elems_at t PathToConsumedOutputs = Inr (d # ins) \<and> length ins = length ows \<and> length ows \<le> 255
     \<and> own_chain E a co ch d \<and> length d \<le> unat (ow_amount E (chain_ow co))
     \<and> (\<forall>i < length ows. basic_output E (ow_amount E (ows ! i)) (ow_time E (ows ! i)) (Lock_ChainLock (wc_ChainID co))
            (ow_Output (ows ! i)) (ins ! i)
          \<and> length (ins ! i) \<le> unat (ow_amount E (ows ! i)) \<and> ow_time E (ows ! i) < ts)
     \<and> (\<exists>u us. elems_at t PathToUnlockParams = Inr (u # us) \<and> length us = length ows
          \<and> parseArray u 256 = Inr [[], [], [255], [0, 3, 0]]
          \<and> (\<forall>i < length ows. parseArray (us ! i) 256 = Inr [[], [], [0, 3]]))
     \<and> (\<exists>s so m mo. outs = [s, m] \<and> chain_output E rest ts a (next_constraint co) so s \<and> length s \<le> unat rest
          \<and> basic_output E amount ts lock mo m \<and> length m \<le> unat amount)
     \<and> elems_at t PathToProducedOutputs = Inr outs"

lemma chain_tree_reads:
  assumes "easyfl_laws E" "compile_laws E" "length a = 32" "chain_tree E t a ts co ch ows d ins rest amount lock outs"
  shows "tread t (PathToUnlockParams @ [0, 2]) = Inr [255]" and "tread t (PathToUnlockParams @ [0, 3]) = Inr [0, 3, 0]"
    and "constraint_at t PathToUnlockParams 0 3 [0, 3, 0]"
    and "i < length ows \<Longrightarrow> tread t (PathToUnlockParams @ [of_nat (Suc i), 2]) = Inr [0, 3]"
    and "tread t (PathToInputIDs @ [0]) = Inr (wc_ID co)"
    and "\<exists>cc. tread t (consumed_path 0 3) = Inr cc \<and> constraint_at t PathToConsumedOutputs 0 3 cc
          \<and> reads_as E cc ''chain'' [L_hex (chain_data ch)]"
    and "\<exists>cc. tread t (produced_path 0 3) = Inr cc \<and> constraint_at t PathToProducedOutputs 0 3 cc
          \<and> reads_as E cc ''chain'' [L_hex (chain_data (next_constraint co))]"
proof -
  have inv: "tree_inv t" and len: "length ows \<le> 255" and own: "own_chain E a co ch d"
    and cons: "elems_at t PathToConsumedOutputs = Inr (d # ins)" and ids: "elems_at t PathToInputIDs = Inr (wc_ID co # map ow_ID ows)"
    using assms(4) by (simp_all add: chain_tree_def)
  obtain u us where u: "elems_at t PathToUnlockParams = Inr (u # us)" "length us = length ows"
    "parseArray u 256 = Inr [[], [], [255], [0, 3, 0]]" "\<forall>i < length ows. parseArray (us ! i) 256 = Inr [[], [], [0, 3]]"
    using assms(4) unfolding chain_tree_def by blast
  obtain s so m where o': "chain_output E rest ts a (next_constraint co) so s" "elems_at t PathToProducedOutputs = Inr [s, m]"
    using assms(4) unfolding chain_tree_def by blast
  have "tread t (PathToUnlockParams @ [0]) = Inr u" using nth_elem_read [OF inv u(1), of 0] by simp
  note u0 = constraint_by_path [OF inv this u(3)]
  show "tread t (PathToUnlockParams @ [0, 2]) = Inr [255]" "tread t (PathToUnlockParams @ [0, 3]) = Inr [0, 3, 0]"
    using u0(1) [of 2] u0(1) [of 3] by (simp_all add: nth_res_def)
  show "constraint_at t PathToUnlockParams 0 3 [0, 3, 0]" using u0(2) [of 3] by simp
  show "tread t (PathToInputIDs @ [0]) = Inr (wc_ID co)" using nth_elem_read [OF inv ids, of 0] by simp
  show "tread t (PathToUnlockParams @ [of_nat (Suc i), 2]) = Inr [0, 3]" if i: "i < length ows"
  proof -
    have "unat (of_nat (Suc i) :: byte) = Suc i" using i len by (simp del: of_nat_Suc)
    then have "tread t (PathToUnlockParams @ [of_nat (Suc i)]) = Inr (us ! i)"
      using nth_elem_read [OF inv u(1), of "of_nat (Suc i)"] i u(2) by (simp del: of_nat_Suc)
    from constraint_by_path(1) [OF inv this u(4) [rule_format, OF i], of 2] show ?thesis by (simp add: nth_res_def)
  qed
  have l: "length (ch_ID ch) = 32" using own by (simp add: own_chain_def)
  obtain ca ct cl cc where p: "parseArray d 256 = Inr [ca, ct, cl, cc]" "reads_as E cc ''chain'' [L_hex (chain_data ch)]"
    by (rule chain_output_parts [OF assms(2,3) l]) (use own in \<open>auto simp: own_chain_def\<close>)
  have "tread t (PathToConsumedOutputs @ [0]) = Inr d" using nth_elem_read [OF inv cons, of 0] by simp
  note c0 = constraint_by_path [OF inv this p(1), of 3]
  show "\<exists>cc. tread t (consumed_path 0 3) = Inr cc \<and> constraint_at t PathToConsumedOutputs 0 3 cc
          \<and> reads_as E cc ''chain'' [L_hex (chain_data ch)]"
    using c0 p(2) by (intro exI [of _ cc]) (simp add: consumed_path_def PathToConsumedOutputs_def nth_res_def)
  obtain ca' ct' cl' cc' where q: "parseArray s 256 = Inr [ca', ct', cl', cc']"
    "reads_as E cc' ''chain'' [L_hex (chain_data (next_constraint co))]"
    by (rule chain_output_parts [OF assms(2,3) own_chainD(8) [OF assms(1) own] o'(1)])
  have "tread t (PathToProducedOutputs @ [0]) = Inr s" using nth_elem_read [OF inv o'(2), of 0] by simp
  note p0 = constraint_by_path [OF inv this q(1), of 3]
  show "\<exists>cc. tread t (produced_path 0 3) = Inr cc \<and> constraint_at t PathToProducedOutputs 0 3 cc
          \<and> reads_as E cc ''chain'' [L_hex (chain_data (next_constraint co))]"
    using p0 q(2) by (intro exI [of _ cc']) (simp add: produced_path_def PathToProducedOutputs_def nth_res_def)
qed

lemma consumed_block_path: "branch_path True @ [i, j] = consumed_path i j"
  by (simp add: branch_path_def consumed_path_def PathToConsumedOutputs_def)

lemma produced_block_path: "branch_path False @ [i, j] = produced_path i j"
  by (simp add: branch_path_def produced_path_def PathToProducedOutputs_def)

lemma consumed_amount_time:
  assumes "easyfl_laws E" "tread (tc_tree v) PathToTimestamp = Inr (put_u32 ts)"
  shows "holds (fl_amount E (ctx_at (tc_tree v) (branch_path True @ [i, 0])) (Inr x))"
    and "holds (fl_timestamp E (ctx_at (tc_tree v) (branch_path True @ [i, 1])) (Inr (put_u32 t))) \<longleftrightarrow> t < ts"
  unfolding consumed_block_path amount_enforced_parts(2) [OF assms(1)] timestamp_enforced_parts(2) [OF assms(1)]
  using assms(2) by (simp_all add: word_less_nat_alt)

text \<open>The chain input: signed, and continued by the chain constraint of the first produced output.\<close>

lemma chain_input_accepted:
  assumes "easyfl_laws E" "compile_laws E" "runs_library E" "init_constraints E = Inr R" "length a = 32"
    "chain_tree E (tc_tree v) a ts co ch ows d ins rest amount lock outs" "is_ok (InputID v 0)"
    "ow_time E (chain_ow co) < ts"
  shows "output_accepted E R v True 0 d"
proof -
  let ?t = "tc_tree v"
  have t: "tread ?t PathToTimestamp = Inr (put_u32 ts)" "signed_by E ?t a" "own_chain E a co ch d"
    "length d \<le> unat (ow_amount E (chain_ow co))"
    using assms(6) by (simp_all add: chain_tree_def)
  note own = own_chainD [OF assms(1) t(3)]
  have c: "chain_output E (ow_amount E (chain_ow co)) (ow_time E (chain_ow co)) a ch (wc_Output co) d" "length (ch_ID ch) = 32"
    using t(3) by (simp_all add: own_chain_def)
  note reads = chain_tree_reads [OF assms(1,2,5,6)]
  obtain cc where cc: "tread ?t (consumed_path 0 3) = Inr cc" "reads_as E cc ''chain'' [L_hex (chain_data ch)]"
    using reads(6) by blast
  obtain cn where cn: "constraint_at ?t PathToProducedOutputs 0 3 cn"
    "reads_as E cn ''chain'' [L_hex (chain_data (next_constraint co))]"
    using reads(7) by blast
  have "own_prefix E ?t (consumed_path 0 3) (PrefixOf E ''chain'')"
    using cc chain_code_data(2) [OF assms(1) cc(2)] by (simp add: own_prefix_def)
  moreover have "successor_of 0 3 (chain_data ch) (chain_data (next_constraint co))"
    using own c(2) by (auto simp: successor_of_def nth_append)
  ultimately have "chain_continues E ?t 0 3 (chain_data ch) 0 3"
    using cn(1) chain_code_data(1) [OF assms(1) cn(2)] unfolding chain_continues_def by blast
  then have "holds (fl_chain E (ctx_at ?t (consumed_path 0 3)) (Inr (chain_data ch)))"
    using reads(2) own(3) by (simp add: chain_consumed [OF assms(1)])
  moreover have "holds (fl_addressED25519 E (ctx_at ?t (consumed_path 0 2)) (Inr a))"
    by (rule address_signed [OF assms(1) t(2) reads(1)])
  ultimately show ?thesis
    using consumed_amount_time [OF assms(1) t(1), of 0] assms(7,8) reads(2)
    by (intro chain_output_accepted [OF assms(1-5) c(2,1) t(4)]) (simp_all add: consumed_block_path UnlockParams_def)
qed

text \<open>An input locked with the chain: unlocked by the transition of the chain.\<close>

lemma locked_input_accepted:
  assumes "easyfl_laws E" "compile_laws E" "runs_library E" "init_constraints E = Inr R" "length a = 32"
    "chain_tree E (tc_tree v) a ts co ch ows d ins rest amount lock outs" "i < length ows"
    "is_ok (InputID v (of_nat (Suc i)))"
  shows "output_accepted E R v True (Suc i) (ins ! i)"
proof -
  let ?t = "tc_tree v" and ?i = "of_nat (Suc i) :: byte"
  have t: "tread ?t PathToTimestamp = Inr (put_u32 ts)" "own_chain E a co ch d" "length ows \<le> 255"
    using assms(6) by (simp_all add: chain_tree_def)
  note own = own_chainD [OF assms(1) t(2)]
  have one: "basic_output E (ow_amount E (ows ! i)) (ow_time E (ows ! i)) (Lock_ChainLock (wc_ChainID co))
      (ow_Output (ows ! i)) (ins ! i)" "length (ins ! i) \<le> unat (ow_amount E (ows ! i))" "ow_time E (ows ! i) < ts"
    using assms(6,7) by (simp_all add: chain_tree_def)
  note reads = chain_tree_reads [OF assms(1,2,5,6)]
  obtain cc where cc: "constraint_at ?t PathToConsumedOutputs 0 3 cc" "reads_as E cc ''chain'' [L_hex (chain_data ch)]"
    using reads(6) by blast
  have "referenced_chain_id E ?t 0 3 (wc_ChainID co)"
    using cc(1) chain_code_data(1) [OF assms(1) cc(2)] own reads(5) unfolding referenced_chain_id_def
    by (intro exI [of _ cc] exI [of _ "chain_data ch"]) simp
  moreover have "unat ?i = Suc i" using assms(7) t(3) by (simp del: of_nat_Suc)
  then have "0 \<noteq> ?i" by (metis nat.distinct(1) unat_0)
  ultimately have lock: "holds (fl_chainLock E (ctx_at ?t (consumed_path ?i 2)) (Inr (wc_ChainID co)))"
    using reads(3) reads(4) [OF assms(7)] unfolding chainLock_consumed [OF assms(1)]
    by (intro conjI exI [of _ "[0, 3]"] exI [of _ "[0, 3, 0]"]) (simp_all del: of_nat_Suc)
  have simple: "simple_lock (Lock_ChainLock (wc_ChainID co))" using own(1) by (auto simp: simple_lock_def)
  show ?thesis
    using consumed_amount_time [OF assms(1) t(1), of ?i] one(3) lock assms(8)
    by (intro basic_output_accepted [OF assms(1-4) simple one(1,2)]) (simp_all add: consumed_block_path del: of_nat_Suc)
qed

text \<open>The produced outputs.\<close>

lemma produced_amount_time:
  assumes "easyfl_laws E" "tree_inv t" "tread t PathToTimestamp = Inr (put_u32 ts)"
    "elems_at t PathToProducedOutputs = Inr outs" "unat j < length outs" "length (outs ! unat j) \<le> unat n"
    "length (outs ! unat j) \<le> maxBlockSize"
  shows "holds (fl_amount E (ctx_at t (branch_path False @ [j, 0])) (Inr (put_u64 n)))"
    and "holds (fl_timestamp E (ctx_at t (branch_path False @ [j, 1])) (Inr (put_u32 ts)))"
proof -
  have "tread t (PathToProducedOutputs @ [j]) = Inr (outs ! unat j)"
    using nth_elem_read [OF assms(2,4), of j] assms(5) by simp
  then show "holds (fl_amount E (ctx_at t (branch_path False @ [j, 0])) (Inr (put_u64 n)))"
    unfolding produced_block_path amount_enforced_parts(1) [OF assms(1)] using assms(6,7) by (simp add: maxBlockSize_def)
  show "holds (fl_timestamp E (ctx_at t (branch_path False @ [j, 1])) (Inr (put_u32 ts)))"
    unfolding produced_block_path timestamp_enforced_parts(1) [OF assms(1)] using assms(3) by simp
qed

lemma successor_accepted:
  assumes "easyfl_laws E" "compile_laws E" "runs_library E" "init_constraints E = Inr R" "length a = 32"
    "chain_tree E (tc_tree v) a ts co ch ows d ins rest amount lock [s, m]"
  shows "output_accepted E R v False 0 s"
proof -
  let ?t = "tc_tree v"
  have t: "tree_inv ?t" "tread ?t PathToTimestamp = Inr (put_u32 ts)" "own_chain E a co ch d"
    "elems_at ?t PathToProducedOutputs = Inr [s, m]"
    using assms(6) by (simp_all add: chain_tree_def)
  obtain so where so: "chain_output E rest ts a (next_constraint co) so s" "length s \<le> unat rest"
    using assms(6) unfolding chain_tree_def by blast
  note own = own_chainD [OF assms(1) t(3)]
  note reads = chain_tree_reads [OF assms(1,2,5,6)]
  obtain cc where cc: "constraint_at ?t PathToConsumedOutputs 0 3 cc" "reads_as E cc ''chain'' [L_hex (chain_data ch)]"
    using reads(6) by blast
  obtain cn where cn: "tread ?t (produced_path 0 3) = Inr cn" "reads_as E cn ''chain'' [L_hex (chain_data (next_constraint co))]"
    using reads(7) by blast
  have id: "take 32 (wc_ChainID co @ [0, 3, 0]) = wc_ChainID co" using own(1) by simp
  have at: "(wc_ChainID co @ [0, 3, 0]) ! 32 = 0" "(wc_ChainID co @ [0, 3, 0]) ! 33 = 3" "(wc_ChainID co @ [0, 3, 0]) ! 34 = 0"
    using own(1) by (simp_all add: nth_append)
  have "chain_extends E ?t (PrefixOf E ''chain'') (wc_ChainID co @ [0, 3, 0])"
    unfolding chain_extends_def at id
    using cc(1) chain_code_data(1) [OF assms(1) cc(2)] own reads(3,5)
    by (intro conjI exI [of _ cc] exI [of _ "chain_data ch"] exI [of _ "[0, 3, 0]"]) simp_all
  moreover have "own_prefix E ?t (produced_path 0 3) (PrefixOf E ''chain'')"
    using cn chain_code_data(2) [OF assms(1) cn(2)] by (simp add: own_prefix_def)
  ultimately have chain: "holds (fl_chain E (ctx_at ?t (produced_path 0 3)) (Inr (chain_data (next_constraint co))))"
    unfolding chain_produced [OF assms(1)] own(7) id using own(1,2) by auto
  have "length s \<le> maxBlockSize"
    using chain_output_size [OF assms(2,5) own(8) so(1)] by (simp add: minChainAmount_def maxBlockSize_def)
  then show ?thesis
    using produced_amount_time [OF assms(1) t(1,2,4), of 0 rest] so(2) chain address_produced [OF assms(1,5), of ?t 0]
    by (intro chain_output_accepted [OF assms(1-5) own(8) so]) (simp_all add: produced_block_path)
qed

lemma target_accepted:
  assumes "easyfl_laws E" "compile_laws E" "runs_library E" "init_constraints E = Inr R" "length a = 32" "simple_lock lock"
    "chain_tree E (tc_tree v) a ts co ch ows d ins rest amount lock [s, m]"
  shows "output_accepted E R v False 1 m"
proof -
  let ?t = "tc_tree v"
  have t: "tree_inv ?t" "tread ?t PathToTimestamp = Inr (put_u32 ts)" "elems_at ?t PathToProducedOutputs = Inr [s, m]"
    using assms(7) by (simp_all add: chain_tree_def)
  obtain mo where mo: "basic_output E amount ts lock mo m" "length m \<le> unat amount"
    using assms(7) unfolding chain_tree_def by blast
  have "length m \<le> maxBlockSize" by (rule small_blocks [OF basic_output_size [OF assms(2,6) mo(1)]])
  then show ?thesis
    using produced_amount_time [OF assms(1) t, of 1 amount] mo(2) assms(6)
    by (intro basic_output_accepted [OF assms(1-4,6) mo])
      (auto simp: produced_block_path simple_lock_def intro: address_produced [OF assms(1)] chainLock_produced [OF assms(1)])
qed

lemma chain_time_needed:
  assumes "easyfl_laws E" "compile_laws E" "runs_library E" "length a = 32"
    "chain_tree E (tc_tree v) a ts co ch ows d ins rest amount lock outs" "Validate E R v = Inr records"
  shows "ow_time E (chain_ow co) < ts"
proof -
  let ?t = "tc_tree v"
  have t: "tread ?t PathToTimestamp = Inr (put_u32 ts)" "elems_at ?t PathToConsumedOutputs = Inr (d # ins)"
    "own_chain E a co ch d"
    using assms(5) by (simp_all add: chain_tree_def)
  have c: "chain_output E (ow_amount E (chain_ow co)) (ow_time E (chain_ow co)) a ch (wc_Output co) d" "length (ch_ID ch) = 32"
    using t(3) by (simp_all add: own_chain_def)
  obtain ca ct cl cc where b: "parseArray d 256 = Inr [ca, ct, cl, cc]" "Timestamp_Bytes E (ow_time E (chain_ow co)) = Inr ct"
    by (rule chain_output_parts [OF assms(2,4) c(2,1)])
  obtain bytes where code: "Timestamp_Bytes E (ow_time E (chain_ow co)) = Inr bytes" "bytes \<noteq> []" "hd bytes \<noteq> 0"
    "reads_as E bytes ''timestamp'' [L_u32 (ow_time E (chain_ow co))]"
    using Timestamp_compiles [OF assms(2), of "ow_time E (chain_ow co)"] by (auto simp: compiles_to_def)
  have ct: "bytes = ct" using code(1) b(2) by simp
  obtain arg where arg: "ParseBytecodeOneLevel E ct None = Inr (''timestamp'', PrefixOf E ''timestamp'', [arg])"
    "arg_is E (L_u32 (ow_time E (chain_ow co))) arg"
    using code(4) unfolding ct by (auto simp: reads_as_def list_all2_Cons1)
  obtain ins' where "elems_at ?t PathToConsumedOutputs = Inr ins'" "\<forall>i < length ins'. output_passes E v True i (ins' ! i)"
    using validation_passes [OF assms(6)] by blast
  then have "output_passes E v True 0 d" using t(2) by fastforce
  then have "block_passes E v (branch_path True @ [0]) 1 ct"
    using b(1) by (auto simp: output_passes_def)
  moreover have "''timestamp'' \<in> set constraint_symbols" by (simp add: constraint_symbols_def constraint_arity_def)
  ultimately have "holds (fl_timestamp E (ctx_at ?t (branch_path True @ [0, 1])) (Inr (put_u32 (ow_time E (chain_ow co)))))"
    using call_passes [OF assms(3) _ _ _ arg(1)] code(2,3) arg(2) inline_data [OF assms(3), of arg]
    unfolding ct by (fastforce simp: fl_call_def)
  then show ?thesis using consumed_amount_time(2) [OF assms(1) t(1)] by blast
qed

lemma chain_tree_valid:
  assumes "easyfl_laws E" "compile_laws E" "runs_library E" "init_constraints E = Inr R" "length a = 32" "simple_lock lock"
    "chain_tree E (tc_tree v) a ts co ch ows d ins rest amount lock [s, m]" "context_of v txb ids (d # ins)"
    "tread (tc_tree v) PathToConsumedOutputs = Inr cb" "tread (tc_tree v) PathToInputCommitment = Inr (Sum256 E cb)"
    "unat (ow_amount E (chain_ow co)) + ows_total E ows = unat rest + unat amount"
    "unat rest + unat amount < 2 ^ 64" "ow_time E (chain_ow co) < ts"
  shows "\<exists>records. Validate E R v = Inr records"
proof -
  let ?t = "tc_tree v"
  have t: "elems_at ?t PathToConsumedOutputs = Inr (d # ins)" "length ins = length ows"
    "elems_at ?t PathToProducedOutputs = Inr [s, m]" "own_chain E a co ch d"
    using assms(7) by (simp_all add: chain_tree_def)
  note own = own_chainD [OF assms(1) t(4)]
  obtain so mo where o': "chain_output E rest ts a (next_constraint co) so s" "basic_output E amount ts lock mo m"
    using assms(7) unfolding chain_tree_def by blast
  have ctx: "tree_inv ?t" "elems_at ?t PathToInputIDs = Inr ids" "length (d # ins) = length ids" "length ids \<le> 256"
    "\<forall>oid \<in> set ids. length oid = 33"
    using assms(8) by (simp_all add: context_of_def)
  have id: "is_ok (InputID v (of_nat i))" if "i < length (d # ins)" for i
  proof -
    have "unat (of_nat i :: byte) = i" using that ctx(3,4) by simp
    then show ?thesis
      using nth_elem_read [OF ctx(1,2), of "of_nat i"] that ctx(3,5) by (simp add: InputID_def is_ok_iff)
  qed
  have "output_accepted E R v True i ((d # ins) ! i)" if i: "i < length (d # ins)" for i
  proof (cases i)
    case 0
    then show ?thesis
      using chain_input_accepted [OF assms(1-5,7) _ assms(13)] id [of 0] by simp
  next
    case (Suc k)
    then show ?thesis
      using locked_input_accepted [OF assms(1-5,7), of k] id [OF i] i t(2) by (simp del: of_nat_Suc)
  qed
  moreover have "output_accepted E R v False j ([s, m] ! j)" if "j < length [s, m]" for j
    using that successor_accepted [OF assms(1-5,7)] target_accepted [OF assms(1-7)] by (auto simp: less_Suc_eq)
  moreover have "total_amount E (d # ins) = unat (ow_amount E (chain_ow co)) + ows_total E ows"
  proof -
    have simple: "simple_lock (Lock_ChainLock (wc_ChainID co))" using own(1) by (auto simp: simple_lock_def)
    have "map (amount_nat E) ins = map (\<lambda>ow. unat (ow_amount E ow)) ows"
      using basic_output_reads(4) [OF assms(1,2) simple] assms(7) t(2)
      by (intro nth_equalityI) (auto simp: chain_tree_def)
    moreover have "amount_nat E d = unat (ow_amount E (chain_ow co))"
      using chain_output_reads(4) [OF assms(1,2,5)] t(4) unfolding own_chain_def by blast
    ultimately show ?thesis by (simp add: total_amount_def ows_total_def)
  qed
  moreover have "total_amount E [s, m] = unat rest + unat amount"
    using chain_output_reads(4) [OF assms(1,2,5) own(8) o'(1)] basic_output_reads(4) [OF assms(1,2,6) o'(2)]
    by (simp add: total_amount_def)
  moreover have "validateInputCommitment E v = Inr ()"
    using assms(9,10) by (simp add: validateInputCommitment_def path_defs)
  ultimately show ?thesis
    unfolding validation_characterised using t(1,3) assms(11,12)
    by (intro exI [of _ "d # ins"] exI [of _ "[s, m]"]) simp
qed

end
