(* ===== verification/ChainPayments.thy ===== *)
theory ChainPayments
  imports ChainTransfer
begin

text \<open>
  Chain transfers through the ledger: what \<^verbatim>\<open>MakeChainTransferTransactionOutputs\<close> of \<^verbatim>\<open>txbuilder.go\<close> returns,
  when the ledger state takes it, and what the ledger holds afterwards.
\<close>

section \<open>Unlocking with the chain\<close>

lemma unlock_locked_ok:
  assumes "builder_ok txb" "length (tb_ConsumedOutputs txb) = Suc n" "\<forall>i < n. outp (unlock_block txb (Suc i)) []" "m \<le> n"
  shows "\<exists>txb' blocks. op_all (\<lambda>i. PutUnlockParams (of_nat (i + 1)) (of_nat ConstraintIndexLock) [0, p]) [0..<m] txb = (Inr (), txb')
    \<and> builder_ok txb' \<and> tb_ConsumedOutputs txb' = tb_ConsumedOutputs txb
    \<and> tb_Transaction txb' = (tb_Transaction txb)\<lparr>td_UnlockBlocks := blocks\<rparr> \<and> blocks ! 0 = unlock_block txb 0
    \<and> (\<forall>i < n. outp (blocks ! Suc i) (if i < m then [[], [], [0, p]] else []))"
  using assms(4)
proof (induction m)
  case 0
  then show ?case
    using assms by (intro exI [of _ txb] exI [of _ "td_UnlockBlocks (tb_Transaction txb)"])
      (simp add: ret_def unlock_block_def)
next
  case (Suc m)
  let ?op = "\<lambda>i. PutUnlockParams (of_nat (i + 1)) (of_nat ConstraintIndexLock) [0, p]"
  from Suc obtain t1 blocks where t1: "op_all ?op [0..<m] txb = (Inr (), t1)" "builder_ok t1"
    "tb_ConsumedOutputs t1 = tb_ConsumedOutputs txb" "tb_Transaction t1 = (tb_Transaction txb)\<lparr>td_UnlockBlocks := blocks\<rparr>"
    "blocks ! 0 = unlock_block txb 0" "\<forall>i < n. outp (blocks ! Suc i) (if i < m then [[], [], [0, p]] else [])"
    by auto
  have len: "length blocks = Suc n" "Suc n \<le> 256"
    using t1(2,3,4) assms(2) by (simp_all add: builder_ok_def)
  have i: "unat (of_nat (m + 1) :: byte) = Suc m" using Suc.prems len(2) by (simp del: of_nat_Suc)
  have "outp (unlock_block t1 (Suc m)) []"
    using t1(4) t1(6) [rule_format, of m] Suc.prems by (simp add: unlock_block_def)
  then obtain t2 b where t2: "?op m t1 = (Inr (), t2)" "builder_ok t2" "tb_ConsumedOutputs t2 = tb_ConsumedOutputs t1"
    "outp (unlock_block t2 (Suc m)) (put_grow 2 [0, p] [])"
    "tb_Transaction t2 = (tb_Transaction t1)\<lparr>td_UnlockBlocks := (td_UnlockBlocks (tb_Transaction t1))[Suc m := b]\<rparr>"
    using PutUnlockParams_ok [OF t1(2), of "of_nat (m + 1)" "[]" "of_nat ConstraintIndexLock" "[0, p]"] i Suc.prems t1(3) assms(2)
    by (auto simp: ConstraintIndexLock_def simp del: of_nat_Suc of_nat_add)
  have grow: "put_grow 2 [0, p] [] = [[], [], [0, p]]" by (simp add: put_grow_def numeral_2_eq_2)
  have "op_all ?op [0..<Suc m] txb = (Inr (), t2)"
    using t1(1) t2(1) unfolding upt_Suc_append [OF le0] op_all_append by (simp add: sbind_def ret_def)
  moreover have "outp (blocks[Suc m := b] ! Suc i) (if i < Suc m then [[], [], [0, p]] else [])" if "i < n" for i
    using that t1(4,6) t2(4,5) len grow Suc.prems by (cases "i = m") (auto simp: unlock_block_def less_Suc_eq)
  ultimately show ?case
    using t1(3-5) t2(2,3,5) by (intro exI [of _ t2] exI [of _ "blocks[Suc m := b]"]) simp
qed

lemma unlock_chain_ok:
  assumes "builder_ok txb" "length (tb_ConsumedOutputs txb) = Suc n" "\<forall>i \<le> n. outp (unlock_block txb i) []"
  shows "\<exists>txb' blocks. unlock_chain 3 n txb = (Inr (), txb')
    \<and> builder_ok txb' \<and> tb_ConsumedOutputs txb' = tb_ConsumedOutputs txb
    \<and> tb_Transaction txb' = (tb_Transaction txb)\<lparr>td_UnlockBlocks := blocks\<rparr>
    \<and> outp (blocks ! 0) [[], [], [255], [0, 3, 0]] \<and> (\<forall>i < n. outp (blocks ! Suc i) [[], [], [0, 3]])"
proof -
  have first: "outp (unlock_block txb (unat (0 :: byte))) []" using assms(3) by simp
  obtain t1 b1 where t1: "PutUnlockParams 0 (of_nat ConstraintIndexLock) [255] txb = (Inr (), t1)" "builder_ok t1"
    "tb_ConsumedOutputs t1 = tb_ConsumedOutputs txb" "outp (unlock_block t1 0) (put_grow 2 [255] [])"
    "tb_Transaction t1 = (tb_Transaction txb)\<lparr>td_UnlockBlocks := (td_UnlockBlocks (tb_Transaction txb))[0 := b1]\<rparr>"
    using PutUnlockParams_ok [OF assms(1) _ first, of "of_nat ConstraintIndexLock" "[255]"] assms(2)
    by (auto simp: ConstraintIndexLock_def)
  have second: "outp (unlock_block t1 (unat (0 :: byte))) [[], [], [255]]"
    using t1(4) by (simp add: put_grow_def numeral_2_eq_2)
  have grow: "put_grow 3 [0, 3, 0] [[], [], [255]] = [[], [], [255], [0, 3, 0]]"
    using put_grow_snoc [of "[[], [], [255]]" "[0, 3, 0]"] by (simp add: numeral_3_eq_3)
  obtain t2 b2 where t2: "PutUnlockParams 0 3 [0, 3, 0] t1 = (Inr (), t2)" "builder_ok t2"
    "tb_ConsumedOutputs t2 = tb_ConsumedOutputs t1" "outp (unlock_block t2 0) [[], [], [255], [0, 3, 0]]"
    "tb_Transaction t2 = (tb_Transaction t1)\<lparr>td_UnlockBlocks := (td_UnlockBlocks (tb_Transaction t1))[0 := b2]\<rparr>"
    using PutUnlockParams_ok [OF t1(2) _ second, of 3 "[0, 3, 0]"] assms(2) t1(3) grow
    by auto
  have rest: "\<forall>i < n. outp (unlock_block t2 (Suc i)) []"
    using assms(3) t1(5) t2(5) by (auto simp: unlock_block_def)
  have len: "length (tb_ConsumedOutputs t2) = Suc n" using assms(2) t1(3) t2(3) by simp
  obtain t3 blocks where t3: "op_all (\<lambda>i. PutUnlockParams (of_nat (i + 1)) (of_nat ConstraintIndexLock) [0, 3]) [0..<n] t2 = (Inr (), t3)"
    "builder_ok t3" "tb_ConsumedOutputs t3 = tb_ConsumedOutputs t2"
    "tb_Transaction t3 = (tb_Transaction t2)\<lparr>td_UnlockBlocks := blocks\<rparr>" "blocks ! 0 = unlock_block t2 0"
    "\<forall>i < n. outp (blocks ! Suc i) (if i < n then [[], [], [0, 3]] else [])"
    using unlock_locked_ok [OF t2(2) len rest le_refl, of 3] by blast
  have "unlock_chain 3 n txb = (Inr (), t3)"
    using t1(1) t2(1) t3(1)
    by (simp add: unlock_chain_def sbind_def PutSignatureUnlock_def NewChainLockUnlockParams_def)
  then show ?thesis
    using t1(3,5) t2(3-5) t3(2-6) by (intro exI [of _ t3] exI [of _ blocks]) simp
qed

section \<open>What the builder returns\<close>

text \<open>
  The conditions of a chain transfer. The time stamp of the chain output is not among them.
\<close>

definition chain_ready :: "easyfl \<Rightarrow> 'k signer \<Rightarrow> (OutputID \<Rightarrow> bytes option) \<Rightarrow> 'k TransferData \<Rightarrow> OutputWithChainID
    \<Rightarrow> ChainConstraint \<Rightarrow> bytes \<Rightarrow> Lock \<Rightarrow> AddressED25519 \<Rightarrow> bool" where
  "chain_ready E S getUTXO par co ch d lock a \<longleftrightarrow>
     tf_ChainOutput par = Some co \<and> \<not> tf_AddSender par \<and> tf_AddConstraints par = []
     \<and> tf_Lock par = Some lock \<and> simple_lock lock
     \<comment> \<open>the sender owns the chain, the other outputs are locked with it, and all of them are in the state\<close>
     \<and> a = Sum256 E (sg_Public S (tf_SenderPrivateKey par))
     \<and> own_chain E a co ch d \<and> length (wc_ID co) = OutputIDLength \<and> getUTXO (wc_ID co) = Some d
     \<and> (\<forall>ow \<in> set (tf_Outputs par). spendable E getUTXO (Lock_ChainLock (wc_ChainID co)) ow)
     \<and> distinct (wc_ID co # map ow_ID (tf_Outputs par)) \<and> length (tf_Outputs par) \<le> 255
     \<comment> \<open>there are enough tokens for both produced outputs, and the sums do not wrap around\<close>
     \<and> unat (ow_amount E (chain_ow co)) + ows_total E (tf_Outputs par) < 2 ^ 64
     \<and> minTransferAmount \<le> unat (tf_Amount par) \<and> minChainAmount \<le> unat (ow_amount E (chain_ow co))
     \<and> unat (tf_Amount par) + minChainAmount \<le> unat (ow_amount E (chain_ow co)) + ows_total E (tf_Outputs par)"

lemma ows_total_take: "ows_total E (take k ows) \<le> ows_total E ows"
proof -
  have "ows_total E ows = ows_total E (take k ows) + ows_total E (drop k ows)"
    unfolding ows_total_def by (metis append_take_drop_id map_append sum_list_append)
  then show ?thesis by simp
qed

lemma chain_inputs:
  assumes "easyfl_laws E" "compile_laws E" "chain_ready E S getUTXO par co ch d lock a"
  shows "\<exists>av ts used. outputsToConsumeSimple E now par (tf_Amount par) = Inr (av, ts, used)
    \<and> set used \<subseteq> set (tf_Outputs par) \<and> distinct (wc_ID co # map ow_ID used) \<and> length used \<le> 255
    \<and> (\<forall>ow \<in> set used. ow_time E ow < ts) \<and> unat av = ows_total E used
    \<and> unat (ow_amount E (chain_ow co)) + ows_total E used < 2 ^ 64
    \<and> unat (tf_Amount par) + minChainAmount \<le> unat (ow_amount E (chain_ow co)) + ows_total E used"
proof -
  have r: "own_chain E a co ch d" "\<forall>ow \<in> set (tf_Outputs par). spendable E getUTXO (Lock_ChainLock (wc_ChainID co)) ow"
    "distinct (wc_ID co # map ow_ID (tf_Outputs par))" "length (tf_Outputs par) \<le> 255"
    "unat (ow_amount E (chain_ow co)) + ows_total E (tf_Outputs par) < 2 ^ 64" "minChainAmount \<le> unat (ow_amount E (chain_ow co))"
    "unat (tf_Amount par) + minChainAmount \<le> unat (ow_amount E (chain_ow co)) + ows_total E (tf_Outputs par)"
    using assms(3) unfolding chain_ready_def by blast+
  have lk: "simple_lock (Lock_ChainLock (wc_ChainID co))"
    using own_chainD(1) [OF assms(1) r(1)] by (auto simp: simple_lock_def)
  obtain k ts av where k: "outputsToConsumeSimple E now par (tf_Amount par) = Inr (av, ts, take k (tf_Outputs par))"
    "k \<le> length (tf_Outputs par)" "\<forall>ow \<in> set (take k (tf_Outputs par)). ow_time E ow < ts"
    "unat av = ows_total E (take k (tf_Outputs par))" "k = length (tf_Outputs par) \<or> tf_Amount par \<le> av"
    using consume_simple_run [OF assms(1,2) lk r(2), of 0 0 "tf_Amount par"
        "if tf_Timestamp par > 0 then tf_Timestamp par else now" "[]"] r(4,5)
    by (auto simp: outputsToConsumeSimple_def)
  have "unat (tf_Amount par) + minChainAmount \<le> unat (ow_amount E (chain_ow co)) + ows_total E (take k (tf_Outputs par))"
    using k(4,5) r(6,7) by (auto simp: word_le_nat_alt)
  moreover have "unat (ow_amount E (chain_ow co)) + ows_total E (take k (tf_Outputs par)) < 2 ^ 64"
    using r(5) ows_total_take [of E k "tf_Outputs par"] by linarith
  moreover have "distinct (wc_ID co # map ow_ID (take k (tf_Outputs par)))"
    using r(3) by (auto simp flip: take_map dest: in_set_takeD)
  ultimately show ?thesis
    using k r(4) set_take_subset [of k "tf_Outputs par"]
    by (intro exI [of _ av] exI [of _ ts] exI [of _ "take k (tf_Outputs par)"]) simp
qed

definition chain_built :: "easyfl \<Rightarrow> AddressED25519 \<Rightarrow> OutputWithChainID \<Rightarrow> OutputWithID list \<Rightarrow> 32 word \<Rightarrow> 64 word \<Rightarrow> 64 word
    \<Rightarrow> Lock \<Rightarrow> bytes \<Rightarrow> bytes \<Rightarrow> TransactionBuilder \<Rightarrow> bool" where
  "chain_built E a co used ts rest amount lock s m txb \<longleftrightarrow>
     tb_ConsumedOutputs txb = wc_Output co # map ow_Output used
     \<and> td_InputIDs (tb_Transaction txb) = wc_ID co # map ow_ID used
     \<and> length (td_UnlockBlocks (tb_Transaction txb)) = Suc (length used)
     \<and> outp (td_UnlockBlocks (tb_Transaction txb) ! 0) [[], [], [255], [0, 3, 0]]
     \<and> (\<forall>i < length used. outp (td_UnlockBlocks (tb_Transaction txb) ! Suc i) [[], [], [0, 3]])
     \<and> td_Endorsements (tb_Transaction txb) = [] \<and> td_LocalLibraries (tb_Transaction txb) = []
     \<and> (\<exists>so mo. td_Outputs (tb_Transaction txb) = [so, mo] \<and> chain_output E rest ts a (next_constraint co) so s
          \<and> basic_output E amount ts lock mo m)"

lemma chain_transfer_built:
  assumes "easyfl_laws E" "compile_laws E" "chain_ready E S getUTXO par co ch d lock a" "length a = 32"
    "outputsToConsumeSimple E now par (tf_Amount par) = Inr (av, ts, used)" "length used \<le> 255"
    "unat av = ows_total E used" "unat (ow_amount E (chain_ow co)) + ows_total E used < 2 ^ 64"
    "unat (tf_Amount par) + minChainAmount \<le> unat (ow_amount E (chain_ow co)) + ows_total E used"
  shows "\<exists>s m txb rest. MakeChainTransferTransactionOutputs E (registry_of E std_entries) S now par = finish_tx E S par ts txb
    \<and> chain_built E a co used ts rest (tf_Amount par) lock s m txb
    \<and> unat rest + unat (tf_Amount par) = unat (ow_amount E (chain_ow co)) + ows_total E used"
proof -
  have r: "tf_ChainOutput par = Some co" "\<not> tf_AddSender par" "tf_AddConstraints par = []" "tf_Lock par = Some lock"
    "simple_lock lock" "own_chain E a co ch d" "minTransferAmount \<le> unat (tf_Amount par)"
    using assms(3) unfolding chain_ready_def by blast+
  have c: "chain_output E (ow_amount E (chain_ow co)) (ow_time E (chain_ow co)) a ch (wc_Output co) d" "length (ch_ID ch) = 32"
    "wc_PredecessorConstraintIndex co = 3"
    using r(6) by (simp_all add: own_chain_def)
  note cid = own_chainD(1) [OF assms(1) r(6)]
  have adj: "AdjustedAmount E par = Inr (tf_Amount par)"
    by (rule adjusted_amount [OF assms(2) r(4,5,3,7)])
  have amt: "Output_Amount E (wc_Output co) = Inr (ow_amount E (chain_ow co))"
    by (rule chain_output_reads(1) [OF assms(1,2,4) c(2,1)])
  let ?av = "av + ow_amount E (chain_ow co)"
  have av: "unat ?av = unat (ow_amount E (chain_ow co)) + ows_total E used"
    using assms(7,8) by (simp add: unat_word_ariths)
  have more: "\<not> ?av \<le> tf_Amount par"
    using av assms(9) by (simp add: word_le_nat_alt minChainAmount_def)
  let ?rest = "?av - tf_Amount par"
  have rest: "unat ?rest + unat (tf_Amount par) = unat (ow_amount E (chain_ow co)) + ows_total E used"
    using av more by (simp add: unat_sub word_le_nat_alt)
  obtain so s where so: "chain_successor E (registry_of E std_entries) co ?rest ts = Inr so"
    "chain_output E ?rest ts a (next_constraint co) so s"
    using chain_successor_ok [OF assms(1,2,4) c(2,1,3) cid] unfolding next_constraint_def by blast
  obtain mo m where mo: "main_output E par (tf_Amount par) ts = Inr mo" "basic_output E (tf_Amount par) ts lock mo m"
    using basic_output_exists [OF assms(2) r(5)] main_output_basic [OF r(4,2,3)] by metis
  obtain t0 where t0: "ConsumeOutput (wc_Output co) (wc_ID co) NewTransactionBuilder = (Inr 0, t0)" "builder_ok t0"
    "tb_ConsumedOutputs t0 = [wc_Output co]"
    "tb_Transaction t0 = (tb_Transaction NewTransactionBuilder)\<lparr>td_InputIDs := [wc_ID co], td_UnlockBlocks := [NewUnlockBlock]\<rparr>"
    using ConsumeOutput_ok [OF builder_ok_New, of "wc_Output co" "wc_ID co"] by (auto simp: NewTransactionBuilder_def)
  obtain t1 where t1: "consume_all used t0 = (Inr (), t1)" "builder_ok t1"
    "tb_ConsumedOutputs t1 = wc_Output co # map ow_Output used"
    "tb_Transaction t1 = (tb_Transaction NewTransactionBuilder)
        \<lparr>td_InputIDs := wc_ID co # map ow_ID used, td_UnlockBlocks := NewUnlockBlock # replicate (length used) NewUnlockBlock\<rparr>"
    using consume_all_ok [OF t0(2), of used] t0(3,4) assms(6) by auto
  have new: "td_Outputs (tb_Transaction NewTransactionBuilder) = []" "td_Endorsements (tb_Transaction NewTransactionBuilder) = []"
    "td_LocalLibraries (tb_Transaction NewTransactionBuilder) = []"
    by (simp_all add: NewTransactionBuilder_def)
  obtain t2 where t2: "ProduceOutput so t1 = (Inr 0, t2)" "builder_ok t2" "tb_ConsumedOutputs t2 = tb_ConsumedOutputs t1"
    "tb_Transaction t2 = (tb_Transaction t1)\<lparr>td_Outputs := [so]\<rparr>"
    using ProduceOutput_ok [OF t1(2), of so] t1(4) new(1) by (auto simp: tb_NumOutputs_def)
  obtain t3 where t3: "ProduceOutput mo t2 = (Inr 1, t3)" "builder_ok t3" "tb_ConsumedOutputs t3 = tb_ConsumedOutputs t1"
    "tb_Transaction t3 = (tb_Transaction t1)\<lparr>td_Outputs := [so, mo]\<rparr>"
    using ProduceOutput_ok [OF t2(2), of mo] t2(3,4) by (auto simp: tb_NumOutputs_def)
  have empty: "\<forall>i \<le> length used. outp (unlock_block t3 i) []"
    using t1(4) t3(4) outp_NewUnlockBlock by (auto simp: unlock_block_def nth_Cons split: nat.split)
  obtain t4 blocks where t4: "unlock_chain 3 (length used) t3 = (Inr (), t4)" "builder_ok t4"
    "tb_ConsumedOutputs t4 = wc_Output co # map ow_Output used" "tb_Transaction t4 = (tb_Transaction t3)\<lparr>td_UnlockBlocks := blocks\<rparr>"
    "outp (blocks ! 0) [[], [], [255], [0, 3, 0]]" "\<forall>i < length used. outp (blocks ! Suc i) [[], [], [0, 3]]"
    using unlock_chain_ok [OF t3(2) _ empty] t1(3) t3(3) by auto
  have "MakeChainTransferTransactionOutputs E (registry_of E std_entries) S now par = finish_tx E S par ts t4"
    using r(1) adj assms(5) amt more t0(1) t1(1) so(1) t2(1) mo(1) t3(1) t4(1) c(3)
    by (simp add: MakeChainTransferTransactionOutputs_def exec_def sbind_def Let_def)
  moreover have "chain_built E a co used ts ?rest (tf_Amount par) lock s m t4"
    using t1(4) t3(4) t4(2-6) so(2) mo(2) new by (auto simp: chain_built_def builder_ok_def)
  ultimately show ?thesis using rest by blast
qed

lemma chain_unlock_bytes:
  assumes "outp b xs" "length xs \<le> 4" "\<forall>x \<in> set xs. length x \<le> 3"
  shows "\<exists>u. array_bytes b = Inr u \<and> parseArray u 256 = Inr xs \<and> length u \<le> maxBlockSize"
  using array_bytes_ok [of b xs 3] assms by (fastforce simp: outp_def maxBlockSize_def)

lemma chain_finish:
  assumes "easyfl_laws E" "compile_laws E" "signer_laws E S" "chain_built E a co used ts rest amount lock s m txb"
    "length a = 32" "simple_lock lock" "own_chain E a co ch d" "length used \<le> 255" "length ins = length used"
    "\<forall>oid \<in> set (wc_ID co # map ow_ID used). length oid = 33"
    "\<forall>i < length used. basic_output E (ow_amount E (used ! i)) (ow_time E (used ! i)) (Lock_ChainLock (wc_ChainID co))
       (ow_Output (used ! i)) (ins ! i)"
  shows "\<exists>b ub idb ob cb eb lb u us. finish_tx E S par ts txb =
      Inr (b, [\<lparr>od_ID = NewOutputID (Sum256 E b) 0, od_OutputData = s\<rparr>, \<lparr>od_ID = NewOutputID (Sum256 E b) 1, od_OutputData = m\<rparr>])
    \<and> parseArray b 8 = Inr [ub, idb, ob, sg_Sign S (tf_SenderPrivateKey par) (idb @ ob @ Sum256 E cb)
        @ sg_Public S (tf_SenderPrivateKey par), put_u32 ts, Sum256 E cb, eb, lb]
    \<and> parseArray ub 256 = Inr (u # us) \<and> parseArray idb 256 = Inr (wc_ID co # map ow_ID used)
    \<and> parseArray ob 256 = Inr [s, m] \<and> array_bytes (pushed (d # ins)) = Inr cb
    \<and> (\<forall>x \<in> set (d # ins). length x \<le> maxBlockSize)
    \<and> length us = length used \<and> parseArray u 256 = Inr [[], [], [255], [0, 3, 0]]
    \<and> (\<forall>i < length used. parseArray (us ! i) 256 = Inr [[], [], [0, 3]])"
proof -
  let ?tx = "tb_Transaction txb"
  note own = own_chainD [OF assms(1,7)]
  have c: "chain_output E (ow_amount E (chain_ow co)) (ow_time E (chain_ow co)) a ch (wc_Output co) d" "length (ch_ID ch) = 32"
    using assms(7) by (simp_all add: own_chain_def)
  have lk: "simple_lock (Lock_ChainLock (wc_ChainID co))" using own(1) by (auto simp: simple_lock_def)
  have b: "length (td_UnlockBlocks ?tx) = Suc (length used)" "tb_ConsumedOutputs txb = wc_Output co # map ow_Output used"
    "td_InputIDs ?tx = wc_ID co # map ow_ID used" "td_Endorsements ?tx = []" "td_LocalLibraries ?tx = []"
    "outp (td_UnlockBlocks ?tx ! 0) [[], [], [255], [0, 3, 0]]"
    "\<forall>i < length used. outp (td_UnlockBlocks ?tx ! Suc i) [[], [], [0, 3]]"
    using assms(4) by (simp_all add: chain_built_def)
  obtain so mo where o': "td_Outputs ?tx = [so, mo]" "chain_output E rest ts a (next_constraint co) so s"
    "basic_output E amount ts lock mo m"
    using assms(4) unfolding chain_built_def by blast
  have bytes: "array_bytes (wc_Output co) = Inr d" "array_bytes so = Inr s" "array_bytes mo = Inr m"
    using c(1) o'(2) basic_output_bytes [OF o'(3)] by (auto simp: chain_output_def Output_Bytes_def array_bytes_def)
  obtain u where u: "array_bytes (td_UnlockBlocks ?tx ! 0) = Inr u" "parseArray u 256 = Inr [[], [], [255], [0, 3, 0]]"
    "length u \<le> maxBlockSize"
    using chain_unlock_bytes [OF b(6)] by auto
  have "\<forall>i < length used. \<exists>x. array_bytes (td_UnlockBlocks ?tx ! Suc i) = Inr x \<and> parseArray x 256 = Inr [[], [], [0, 3]]
      \<and> length x \<le> maxBlockSize"
    using b(7) chain_unlock_bytes by force
  then obtain f where f: "\<forall>i < length used. array_bytes (td_UnlockBlocks ?tx ! Suc i) = Inr (f i)
      \<and> parseArray (f i) 256 = Inr [[], [], [0, 3]] \<and> length (f i) \<le> maxBlockSize"
    by metis
  let ?us = "map f [0..<length used]"
  have consumed: "list_all2 (\<lambda>a d. array_bytes a = Inr d) (tb_ConsumedOutputs txb) (d # ins)"
    using assms(9,11) bytes(1) b(2) by (auto simp: list_all2_conv_all_nth nth_Cons intro: basic_output_bytes split: nat.split)
  have produced: "list_all2 (\<lambda>a d. array_bytes a = Inr d) (td_Outputs ?tx) [s, m]"
    using bytes(2,3) o'(1) by simp
  have unlocks: "list_all2 (\<lambda>a d. array_bytes a = Inr d) (td_UnlockBlocks ?tx) (u # ?us)"
    using u f b(1) by (auto simp: list_all2_conv_all_nth nth_Cons split: nat.split)
  have "length d \<le> maxBlockSize"
    using chain_output_size [OF assms(2,5) c(2,1)] by (simp add: minChainAmount_def maxBlockSize_def)
  moreover have "\<forall>x \<in> set ins. length x \<le> maxBlockSize"
    using assms(9,11) small_blocks [OF basic_output_size [OF assms(2) lk]] by (metis in_set_conv_nth)
  ultimately have small: "\<forall>x \<in> set (d # ins). length x \<le> maxBlockSize" by simp
  have out: "length s \<le> maxBlockSize" "length m \<le> maxBlockSize"
    using chain_output_size [OF assms(2,5) own(8) o'(2)] small_blocks [OF basic_output_size [OF assms(2,6) o'(3)]]
    by (simp_all add: minChainAmount_def maxBlockSize_def)
  have "length oid \<le> maxBlockSize" if "oid \<in> set (wc_ID co # map ow_ID used)" for oid
    using assms(10) [rule_format, OF that] by (simp add: maxBlockSize_def)
  then have all: "\<forall>x \<in> set (d # ins) \<union> set [s, m] \<union> set (u # ?us) \<union> set (td_InputIDs ?tx). length x \<le> maxBlockSize"
    using small out u(3) f b(3) by auto
  have two: "map (\<lambda>(i, d). \<lparr>od_ID = NewOutputID h (of_nat i), od_OutputData = d\<rparr>) (enumerate 0 [s, m])
      = [\<lparr>od_ID = NewOutputID h 0, od_OutputData = s\<rparr>, \<lparr>od_ID = NewOutputID h 1, od_OutputData = m\<rparr>]" for h
    by simp
  have lens: "length (d # ins) \<le> 256" "length [s, m] \<le> 256" "length (u # ?us) \<le> 256" "length (td_InputIDs ?tx) \<le> 256"
    using assms(8,9) b(3) by simp_all
  have unl: "length ?us = length used" "\<forall>i < length used. parseArray (?us ! i) 256 = Inr [[], [], [0, 3]]" using f by simp_all
  obtain bin ub idb ob cb eb lb where fin: "finish_tx E S par ts txb =
      Inr (bin, [\<lparr>od_ID = NewOutputID (Sum256 E bin) 0, od_OutputData = s\<rparr>, \<lparr>od_ID = NewOutputID (Sum256 E bin) 1, od_OutputData = m\<rparr>])"
    "parseArray bin 8 = Inr [ub, idb, ob, sg_Sign S (tf_SenderPrivateKey par) (idb @ ob @ Sum256 E cb)
        @ sg_Public S (tf_SenderPrivateKey par), put_u32 ts, Sum256 E cb, eb, lb]"
    "parseArray ub 256 = Inr (u # ?us)" "parseArray idb 256 = Inr (wc_ID co # map ow_ID used)"
    "parseArray ob 256 = Inr [s, m]" "array_bytes (pushed (d # ins)) = Inr cb"
    using finish_tx_ok [OF assms(1,3) consumed lens(1) produced lens(2) unlocks lens(3,4) b(4,5) all, of par ts]
    unfolding two b(3) by blast
  show ?thesis using fin small unl u(2) by blast
qed

section \<open>When the transaction is accepted\<close>

lemma chain_transfer_valid:
  assumes "easyfl_laws E" "compile_laws E" "runs_library E" "init_constraints E = Inr R" "signer_laws E S"
    "chain_ready E S getUTXO par co ch d lock a" "outputsToConsumeSimple E now par (tf_Amount par) = Inr (av, ts, used)"
  shows "\<exists>txb s m v rest so mo. MakeChainTransferTransactionOutputs E R S now par = Inr (txb,
        [\<lparr>od_ID = NewOutputID (Sum256 E txb) 0, od_OutputData = s\<rparr>, \<lparr>od_ID = NewOutputID (Sum256 E txb) 1, od_OutputData = m\<rparr>])
    \<and> TransactionContextFromTransferableBytes E getUTXO txb = Inr v
    \<and> ((\<exists>cmds. Validate E R v = Inr cmds) \<longleftrightarrow> ow_time E (chain_ow co) < ts)
    \<and> tx_inputs txb = wc_ID co # map ow_ID used \<and> elems_at (tc_tree v) PathToProducedOutputs = Inr [s, m]
    \<and> (\<exists>ins. context_of v txb (wc_ID co # map ow_ID used) ins)
    \<and> unat rest + unat (tf_Amount par) = unat (ow_amount E (chain_ow co)) + ows_total E used
    \<and> chain_output E rest ts a (next_constraint co) so s \<and> basic_output E (tf_Amount par) ts lock mo m"
proof -
  let ?k = "tf_SenderPrivateKey par"
  have R: "R = registry_of E std_entries" using init_constraints_std [OF assms(1,2)] assms(4) by simp
  have r: "a = Sum256 E (sg_Public S ?k)" "own_chain E a co ch d" "simple_lock lock" "length (wc_ID co) = OutputIDLength"
    "getUTXO (wc_ID co) = Some d" "\<forall>ow \<in> set (tf_Outputs par). spendable E getUTXO (Lock_ChainLock (wc_ChainID co)) ow"
    "minTransferAmount \<le> unat (tf_Amount par)" "minChainAmount \<le> unat (ow_amount E (chain_ow co))"
    using assms(6) unfolding chain_ready_def by blast+
  have la: "length a = 32" using assms(1) r(1) by (simp add: easyfl_laws_def crypto_laws_def)
  note own = own_chainD [OF assms(1) r(2)]
  have c: "chain_output E (ow_amount E (chain_ow co)) (ow_time E (chain_ow co)) a ch (wc_Output co) d" "length (ch_ID ch) = 32"
    using r(2) by (simp_all add: own_chain_def)
  have lk: "simple_lock (Lock_ChainLock (wc_ChainID co))" using own(1) by (auto simp: simple_lock_def)
  have in': "set used \<subseteq> set (tf_Outputs par)" "distinct (wc_ID co # map ow_ID used)" "length used \<le> 255"
    "\<forall>ow \<in> set used. ow_time E ow < ts" "unat av = ows_total E used"
    "unat (ow_amount E (chain_ow co)) + ows_total E used < 2 ^ 64"
    "unat (tf_Amount par) + minChainAmount \<le> unat (ow_amount E (chain_ow co)) + ows_total E used"
    using chain_inputs [OF assms(1,2,6), of now] assms(7) by simp_all
  obtain s m tb rest where run: "MakeChainTransferTransactionOutputs E R S now par = finish_tx E S par ts tb"
    and bt: "chain_built E a co used ts rest (tf_Amount par) lock s m tb"
    and rest: "unat rest + unat (tf_Amount par) = unat (ow_amount E (chain_ow co)) + ows_total E used"
    using chain_transfer_built [OF assms(1,2,6) la assms(7) in'(3,5-7)] unfolding R by blast
  obtain so mo where o': "chain_output E rest ts a (next_constraint co) so s" "basic_output E (tf_Amount par) ts lock mo m"
    using bt unfolding chain_built_def by blast
  define ins where "ins = map (\<lambda>ow. the (getUTXO (ow_ID ow))) used"
  have inp: "basic_output E (ow_amount E ow) (ow_time E ow) (Lock_ChainLock (wc_ChainID co)) (ow_Output ow) (the (getUTXO (ow_ID ow)))
      \<and> getUTXO (ow_ID ow) \<noteq> None \<and> length (the (getUTXO (ow_ID ow))) \<le> unat (ow_amount E ow) \<and> length (ow_ID ow) = 33"
    if "ow \<in> set used" for ow
  proof -
    have s: "spendable E getUTXO (Lock_ChainLock (wc_ChainID co)) ow" using r(6) in'(1) that by blast
    show ?thesis
      by (rule spendableE [OF assms(1,2) lk s]) (use s in \<open>simp add: spendable_def id_lengths\<close>)
  qed
  have ids: "map getUTXO (wc_ID co # map ow_ID used) = map Some (d # ins)" "length ins = length used"
    "\<forall>oid \<in> set (wc_ID co # map ow_ID used). length oid = 33"
    using inp r(4,5) by (auto simp: ins_def id_lengths)
  have each: "\<forall>i < length used. basic_output E (ow_amount E (used ! i)) (ow_time E (used ! i)) (Lock_ChainLock (wc_ChainID co))
       (ow_Output (used ! i)) (ins ! i)"
    using inp by (simp add: ins_def)
  obtain b ub idb ob cb eb lb u us where fin: "finish_tx E S par ts tb = Inr (b,
      [\<lparr>od_ID = NewOutputID (Sum256 E b) 0, od_OutputData = s\<rparr>, \<lparr>od_ID = NewOutputID (Sum256 E b) 1, od_OutputData = m\<rparr>])"
    "parseArray b 8 = Inr [ub, idb, ob, sg_Sign S ?k (idb @ ob @ Sum256 E cb) @ sg_Public S ?k, put_u32 ts, Sum256 E cb, eb, lb]"
    "parseArray ub 256 = Inr (u # us)" "parseArray idb 256 = Inr (wc_ID co # map ow_ID used)" "parseArray ob 256 = Inr [s, m]"
    "array_bytes (pushed (d # ins)) = Inr cb" "\<forall>x \<in> set (d # ins). length x \<le> maxBlockSize"
    "length us = length used" "parseArray u 256 = Inr [[], [], [255], [0, 3, 0]]"
    "\<forall>i < length used. parseArray (us ! i) 256 = Inr [[], [], [0, 3]]"
    using chain_finish [OF assms(1,2,5) bt la r(3,2) in'(3) ids(2,3) each, of par] by blast
  obtain v where v: "TransactionContextFromTransferableBytes E getUTXO b = Inr v"
    "context_of v b (wc_ID co # map ow_ID used) (d # ins)" "tread (tc_tree v) PathToConsumedOutputs = Inr cb"
    "\<And>i. tread (tc_tree v) [TransactionBranch, i] = nth_res [ub, idb, ob,
        sg_Sign S ?k (idb @ ob @ Sum256 E cb) @ sg_Public S ?k, put_u32 ts, Sum256 E cb, eb, lb] (unat i)"
    by (rule context_builds [OF fin(2) _ _ ids(1) in'(2) ids(3) fin(7)]) (use fin(4,6) in auto)
  let ?t = "tc_tree v"
  have ctx: "tree_inv ?t" "elems_at ?t PathToConsumedOutputs = Inr (d # ins)" "elems_at ?t PathToInputIDs = Inr (wc_ID co # map ow_ID used)"
    using v(2) by (simp_all add: context_of_def)
  note parts = v(4) [unfolded TransactionBranch_def] nth_res_parts path_defs
  have com: "tread ?t PathToInputCommitment = Inr (Sum256 E cb)" by (simp add: parts)
  have signed: "signed_by E ?t a"
    unfolding r(1) by (rule signed_by_parts [OF assms(5) _ _ com]) (simp_all add: parts)
  have time: "tread ?t PathToTimestamp = Inr (put_u32 ts)" by (simp add: parts)
  have unl: "elems_at ?t PathToUnlockParams = Inr (u # us)"
    using elems_by_bytes [OF ctx(1), of "[TransactionBranch]" TxUnlockParams ub "u # us"] fin(3) by (simp add: parts)
  have outs: "elems_at ?t PathToProducedOutputs = Inr [s, m]"
    using elems_by_bytes [OF ctx(1), of "[TransactionBranch]" TxOutputs ob "[s, m]"] fin(5) by (simp add: parts)
  have "length d \<le> unat (ow_amount E (chain_ow co))" "length s \<le> unat rest" "length m \<le> unat (tf_Amount par)"
    using chain_output_size [OF assms(2) la c(2,1)] chain_output_size [OF assms(2) la own(8) o'(1)]
      basic_output_size [OF assms(2) r(3) o'(2)] r(7,8) rest in'(7) by linarith+
  then have tree: "chain_tree E ?t a ts co ch used d ins rest (tf_Amount par) lock [s, m]"
    unfolding chain_tree_def using ctx time signed unl outs ids(2) in'(3,4) r(2) fin(8-10) o' each inp
    by (auto simp: ins_def)
  have "(\<exists>cmds. Validate E R v = Inr cmds) \<longleftrightarrow> ow_time E (chain_ow co) < ts"
    using chain_time_needed [OF assms(1-3) la tree]
      chain_tree_valid [OF assms(1-4) la r(3) tree v(2,3) com] rest in'(6) by auto
  moreover have "tx_inputs b = wc_ID co # map ow_ID used" using context_inputs [OF v(2)] by simp
  ultimately show ?thesis using run fin(1) v(1,2) outs rest o' by auto
qed

text \<open>
  C7 (chain_transfer_accepted_iff): a chain transfer by the owner of the chain, with enough tokens on the chain and in
  outputs locked with it, is always built: the successor of the chain output, with the same chain
  identity and the remaining tokens, and the output for the target. The ledger accepts the transaction
  exactly when the chain output is older than the time stamp that the builder chose. The builder looks only at the
  other inputs when it chooses, so a chain that was moved in the same second cannot be used. When the
  transaction is accepted, the ledger replaces the chain output and the consumed outputs by these two.
\<close>

theorem chain_transfer_accepted_iff:
  assumes "easyfl_laws E" "compile_laws E" "runs_library E" "init_constraints E = Inr R" "signer_laws E S"
    "trie_laws T" "store_reliable T" "Updatable_Readable T u = Inr rd" "chain_ready E S (GetUTXO T rd) par co ch d lock a"
  shows "\<exists>txb s m av ts used rest so mo. MakeChainTransferTransactionOutputs E R S now par = Inr (txb,
        [\<lparr>od_ID = NewOutputID (Sum256 E txb) 0, od_OutputData = s\<rparr>, \<lparr>od_ID = NewOutputID (Sum256 E txb) 1, od_OutputData = m\<rparr>])
    \<and> outputsToConsumeSimple E now par (tf_Amount par) = Inr (av, ts, used) \<and> set used \<subseteq> set (tf_Outputs par)
    \<and> unat rest + unat (tf_Amount par) = unat (ow_amount E (chain_ow co)) + ows_total E used
    \<and> chain_output E rest ts a (next_constraint co) so s \<and> basic_output E (tf_Amount par) ts lock mo m
    \<and> ((\<exists>cmds u'. Update T E R txb u = (Inr cmds, u')) \<longleftrightarrow> ow_time E (chain_ow co) < ts)
    \<and> (\<forall>cmds u'. Update T E R txb u = (Inr cmds, u') \<longrightarrow>
         utxos T u' = (utxos T u |` (- set (wc_ID co # map ow_ID used))) ++ produced (Sum256 E txb) [s, m])"
proof -
  obtain av ts used where in': "outputsToConsumeSimple E now par (tf_Amount par) = Inr (av, ts, used)"
    "set used \<subseteq> set (tf_Outputs par)"
    using chain_inputs [OF assms(1,2,9), of now] by blast
  obtain txb s m v rest so mo where tx: "MakeChainTransferTransactionOutputs E R S now par = Inr (txb,
        [\<lparr>od_ID = NewOutputID (Sum256 E txb) 0, od_OutputData = s\<rparr>, \<lparr>od_ID = NewOutputID (Sum256 E txb) 1, od_OutputData = m\<rparr>])"
    "TransactionContextFromTransferableBytes E (GetUTXO T rd) txb = Inr v"
    "(\<exists>cmds. Validate E R v = Inr cmds) \<longleftrightarrow> ow_time E (chain_ow co) < ts"
    "tx_inputs txb = wc_ID co # map ow_ID used" "elems_at (tc_tree v) PathToProducedOutputs = Inr [s, m]"
    "\<exists>ins. context_of v txb (wc_ID co # map ow_ID used) ins"
    "unat rest + unat (tf_Amount par) = unat (ow_amount E (chain_ow co)) + ows_total E used"
    "chain_output E rest ts a (next_constraint co) so s" "basic_output E (tf_Amount par) ts lock mo m"
    using chain_transfer_valid [OF assms(1-5,9) in'(1)] by blast
  obtain ins where ctx: "context_of v txb (wc_ID co # map ow_ID used) ins" using tx(6) by blast
  have iff: "(\<exists>cmds u'. Update T E R txb u = (Inr cmds, u')) \<longleftrightarrow> ow_time E (chain_ow co) < ts"
    unfolding tx(3) [symmetric]
  proof
    assume "\<exists>cmds u'. Update T E R txb u = (Inr cmds, u')"
    then show "\<exists>cmds. Validate E R v = Inr cmds"
      using assms(8) tx(2) by (metis Update_parts updateTrie_validates sum.inject(2))
  qed (use update_accepts [OF assms(6-8) tx(2)] in blast)
  have moves: "utxos T u' = (utxos T u |` (- set (wc_ID co # map ow_ID used))) ++ produced (Sum256 E txb) [s, m]"
    if up: "Update T E R txb u = (Inr cmds, u')" for cmds u'
  proof -
    obtain v' ins' outs' where new: "context_of v' txb (tx_inputs txb) ins'"
      "elems_at (tc_tree v') PathToProducedOutputs = Inr outs'"
      "utxos T u' = (utxos T u |` (- set (tx_inputs txb))) ++ produced (Sum256 E txb) outs'"
      by (rule Update_context [OF assms(6) up assms(1)])
    have "outs' = [s, m]" using context_outputs [OF new(1)] context_outputs [OF ctx] new(2) tx(5) by (metis sum.inject(2))
    then show ?thesis using new(3) tx(4) by simp
  qed
  show ?thesis using tx(1,7-9) in' iff moves by blast
qed

end
