(* ===== verification/PaymentWitnesses.thy ===== *)
theory PaymentWitnesses
  imports Demo Payments ChainPayments
begin

text \<open>
  The theorems about the shape of the ledger, readable accounts and payments, applied to the database
  of theory \<open>Demo\<close>, and a chain transfer in a ledger with a chain output and an output locked with it.
\<close>

lemma ledger_outputs_well_formed_witness:
  "utxos mem_trie (db_state demo_db0) GenesisOutputID = Some demo_out
   \<and> ledger_output ref_easyfl demo_registry GenesisOutputID demo_out"
proof -
  obtain root s where st: "InitLedgerState mem_trie ref_easyfl (tm_NewStore mem_trie) (ascii utxodbIdentity)
      supplyForTesting demo_address 1000 = Inr (root, s)" "NewUpdatable mem_trie s root = Inr (db_state demo_db0)"
    by (rule demo_start)
  have run: "ledger_run (ledger_step mem_trie ref_easyfl demo_registry) (db_state demo_db0) [] (db_state demo_db0)"
    by (rule ledger_run.run_start)
  have held: "utxos mem_trie (db_state demo_db0) GenesisOutputID = Some demo_out" using demo_books(2) by simp
  from ledger_outputs_well_formed [OF ref_laws ref_compiles demo_init mem_trie_laws demo_lengths st run held] held
  show ?thesis by simp
qed

lemma account_returns_iff_witness:
  "\<exists>acc. AddressED25519_Bytes ref_easyfl demo_address = Inr acc
    \<and> (\<forall>oid d. db_utxos demo_env demo_db0 oid = Some d \<longrightarrow> acc \<in> lock_accounts ref_easyfl demo_registry d
         \<longrightarrow> stamped ref_easyfl d)"
proof -
  obtain acc where acc: "AddressED25519_Bytes ref_easyfl demo_address = Inr acc" "length acc \<le> 255"
    using AddressED25519_compiles [OF ref_compiles, of demo_address] demo_lengths
    by (fastforce simp: compiles_to_def)
  have run: "ledger_run (db_step demo_env) demo_db0 [] demo_db0" by (rule ledger_run.run_start)
  show ?thesis
    using account_returns_iff [OF demo_env_laws demo_genesis run, of "Acc_AddressED25519 demo_address" acc] acc demo_account
    by (simp add: demo_env_parts)
qed

lemma demo_environment:
  "runs_library (su_easyfl demo_env)" "signer_laws (su_easyfl demo_env) (su_signer demo_env)"
  "store_reliable (su_trie demo_env)" "kv_reliable (su_kv demo_env)"
  using ref_runs demo_signer_laws mem_trie_reliable demo_kv_reliable by (simp_all add: demo_env_parts)

lemma tokens_transferred_witness:
  "\<exists>acc u'. TransferTokens demo_env 2000 demo_key (Lock_AddressED25519 (replicate 32 7)) 5000 demo_db0 = (Inr (), u')
    \<and> pays demo_env demo_db0 acc (Lock_AddressED25519 (replicate 32 7)) 5000 u'"
proof -
  have run: "ledger_run (db_step demo_env) demo_db0 [] demo_db0" by (rule ledger_run.run_start)
  obtain acc where acc: "can_pay demo_env demo_db0 (db_genesisAddress demo_db0) acc 5000"
    by (rule genesis_can_pay [OF demo_env_laws demo_genesis, of 5000]) (simp_all add: minTransferAmount_def supplyForTesting_def)
  have addr: "db_genesisAddress demo_db0 = Sum256 (su_easyfl demo_env) (sg_Public (su_signer demo_env) demo_key)"
    by (rule NewUTXODB_genesis [OF demo_genesis]) (simp add: demo_key_read)
  have "simple_lock (Lock_AddressED25519 (replicate 32 7))" by (simp add: simple_lock_def)
  from tokens_transferred [OF demo_env_laws demo_environment demo_genesis run _ _ acc [unfolded addr] this, of 2000]
  show ?thesis by auto
qed

lemma faucet_pays_witness:
  "\<exists>u u' acc. NewUTXODB demo_env 1000 = Inr u \<and> TokensFromFaucet demo_env 2000 (replicate 32 7) (Some 5000) u = (Inr (), u')
    \<and> pays demo_env u acc (Lock_AddressED25519 (replicate 32 7)) 5000 u'"
  using faucet_pays [OF demo_env_laws demo_environment, of 1000 "replicate 32 7" 5000 2000]
  by (auto simp: minTransferAmount_def supplyForTesting_def)

section \<open>A chain transfer\<close>

definition demo_cid :: bytes where
  "demo_cid = replicate 32 9"

definition demo_chain :: ChainConstraint where
  "demo_chain = NewChainConstraint demo_cid 0 3 0"

definition chain_transfer :: "OutputWithChainID \<Rightarrow> OutputWithID \<Rightarrow> bytes TransferData" where
  "chain_transfer co ow =
     WithChainOutput (Some co) (WithOutputs [ow] (WithTargetLock (Lock_AddressED25519 (replicate 32 7))
       (TransferWithAmount 5000 False (NewTransferData ref_easyfl demo_signer demo_key None 0))))"

lemma demo_chain_state:
  obtains co ow d rd u where "chain_ready ref_easyfl demo_signer (GetUTXO mem_trie rd) (chain_transfer co ow) co demo_chain d
      (Lock_AddressED25519 (replicate 32 7)) demo_address"
    "Updatable_Readable mem_trie u = Inr rd" "ow_time ref_easyfl (chain_ow co) = 1000"
    "\<And>now. outputsToConsumeSimple ref_easyfl now (chain_transfer co ow) 5000
       = Inr (3000, if 800 \<ge> now then 801 else now, [ow])"
proof -
  have cid: "length (ch_ID demo_chain) = 32" "demo_cid \<noteq> replicate 32 0" "length demo_cid = 32"
    by (simp_all add: demo_chain_def NewChainConstraint_def demo_cid_def)
  have lk: "simple_lock (Lock_ChainLock demo_cid)" using cid(3) by (auto simp: simple_lock_def)
  obtain co d where co: "chain_output ref_easyfl 4000 1000 demo_address demo_chain co d"
    using chain_output_exists [OF ref_compiles demo_lengths cid(1)] by blast
  obtain lo ld where lo: "basic_output ref_easyfl 3000 800 (Lock_ChainLock demo_cid) lo ld" "length ld \<le> minTransferAmount"
    using basic_output_exists [OF ref_compiles lk] by blast
  let ?id = "replicate 33 (1 :: byte)" and ?id' = "replicate 33 (2 :: byte)"
  let ?co = "\<lparr>wc_ID = ?id, wc_Output = co, wc_ChainID = demo_cid, wc_PredecessorConstraintIndex = 3\<rparr>"
  let ?ow = "\<lparr>ow_ID = ?id', ow_Output = lo\<rparr>"
  let ?rd = "\<lparr>rd_trie = [(?id, d), (?id', ld)]\<rparr>"
  let ?u = "\<lparr>up_store = [[(?id, d), (?id', ld)]], up_root = [(?id, d), (?id', ld)]\<rparr>"
  note cr = chain_output_reads [OF ref_laws ref_compiles demo_lengths cid(1) co]
  note lr = basic_output_reads(1,2) [OF ref_laws ref_compiles lk lo(1)]
  have ne: "d \<noteq> []" "ld \<noteq> []"
    using co lo(1) by (auto simp: chain_output_def basic_output_def parseArray_def)
  then have get: "GetUTXO mem_trie ?rd ?id = Some d" "GetUTXO mem_trie ?rd ?id' = Some ld"
    by (simp_all add: GetUTXO_def mem_trie_def assoc_get_def Let_def)
  have nums: "ow_amount ref_easyfl (chain_ow ?co) = 4000" "ow_time ref_easyfl (chain_ow ?co) = 1000"
    "ow_amount ref_easyfl ?ow = 3000"
    using cr(1,2) lr by (simp_all add: ow_amount_def ow_time_def chain_ow_def)
  have chain: "own_chain ref_easyfl demo_address ?co demo_chain d"
    using co nums cid by (simp add: own_chain_def) (simp add: demo_chain_def IsOrigin_def NewChainConstraint_def demo_cid_def)
  have "length ld \<le> unat (3000 :: 64 word)" using lo(2) by (simp add: minTransferAmount_def)
  moreover have "(800 :: 32 word) < - 1" by simp
  ultimately have spend: "spendable ref_easyfl (GetUTXO mem_trie ?rd) (Lock_ChainLock demo_cid) ?ow"
    unfolding spendable_def using get(2) lo(1)
    by (intro conjI exI [of _ 3000] exI [of _ 800] exI [of _ ld]) (simp_all add: id_lengths)
  have addr: "demo_address = Sum256 ref_easyfl (sg_Public demo_signer demo_key)"
    by (simp add: demo_address_def demo_signer_def)
  have "?id \<noteq> ?id'" by simp
  moreover have "simple_lock (Lock_AddressED25519 (replicate 32 7))" by (auto simp: simple_lock_def)
  moreover have "ows_total ref_easyfl [?ow] = 3000" by (simp add: ows_total_def nums(3))
  ultimately have "chain_ready ref_easyfl demo_signer (GetUTXO mem_trie ?rd) (chain_transfer ?co ?ow) ?co demo_chain d
      (Lock_AddressED25519 (replicate 32 7)) demo_address"
    using chain spend get(1) addr nums(1) unfolding chain_ready_def
    by (simp add: chain_transfer_def WithChainOutput_def WithOutputs_def WithTargetLock_def
        TransferWithAmount_def NewTransferData_def minTransferAmount_def minChainAmount_def id_lengths Let_def)
  moreover have "Updatable_Readable mem_trie ?u = Inr ?rd"
    by (simp add: Updatable_Readable_def mem_trie_def open_contents_def)
  moreover have "outputsToConsumeSimple ref_easyfl now (chain_transfer ?co ?ow) 5000
      = Inr (3000, if 800 \<ge> now then 801 else now, [?ow])" for now
    using lr by (simp add: outputsToConsumeSimple_def chain_transfer_def WithChainOutput_def WithOutputs_def WithTargetLock_def
        TransferWithAmount_def NewTransferData_def Let_def)
  ultimately show ?thesis using that nums(2) by blast
qed

lemma chain_transfer_accepted_iff_witness:
  "\<exists>par u txb txb' outs outs'. MakeChainTransferTransactionOutputs ref_easyfl demo_registry demo_signer 2000 par = Inr (txb, outs)
    \<and> (\<exists>cmds u'. Update mem_trie ref_easyfl demo_registry txb u = (Inr cmds, u'))
    \<and> MakeChainTransferTransactionOutputs ref_easyfl demo_registry demo_signer 1000 par = Inr (txb', outs')
    \<and> (\<nexists>cmds u'. Update mem_trie ref_easyfl demo_registry txb' u = (Inr cmds, u'))"
proof -
  obtain co ow d rd u where st: "chain_ready ref_easyfl demo_signer (GetUTXO mem_trie rd) (chain_transfer co ow) co demo_chain d
      (Lock_AddressED25519 (replicate 32 7)) demo_address"
    "Updatable_Readable mem_trie u = Inr rd" "ow_time ref_easyfl (chain_ow co) = 1000"
    "\<And>now. outputsToConsumeSimple ref_easyfl now (chain_transfer co ow) 5000
       = Inr (3000, if 800 \<ge> now then 801 else now, [ow])"
    by (rule demo_chain_state) blast
  have amt: "tf_Amount (chain_transfer co ow) = 5000"
    by (simp add: chain_transfer_def WithChainOutput_def WithOutputs_def WithTargetLock_def TransferWithAmount_def)
  note run = chain_transfer_accepted_iff [OF ref_laws ref_compiles ref_runs demo_init demo_signer_laws mem_trie_laws
      mem_trie_reliable st(2,1)]
  from run [of 2000] obtain txb outs where now: "MakeChainTransferTransactionOutputs ref_easyfl demo_registry demo_signer 2000
      (chain_transfer co ow) = Inr (txb, outs)" "\<exists>cmds u'. Update mem_trie ref_easyfl demo_registry txb u = (Inr cmds, u')"
    using st(3,4) amt by auto
  from run [of 1000] obtain txb' outs' where then': "MakeChainTransferTransactionOutputs ref_easyfl demo_registry demo_signer 1000
      (chain_transfer co ow) = Inr (txb', outs')" "\<nexists>cmds u'. Update mem_trie ref_easyfl demo_registry txb' u = (Inr cmds, u')"
    using st(3,4) amt by auto
  show ?thesis using now then' by blast
qed

end
