(* ===== verification/Tangle.thy ===== *)
theory Tangle
  imports Transaction
begin

text \<open>
  \<^verbatim>\<open>ledger/tangle/tangle.go\<close>: a map from transaction ids to vertices and read access to it. The package has
  no operation that adds a vertex; \<open>'s\<close> is \<^verbatim>\<open>ledger.StateStore\<close>, \<open>'r\<close> the root commitment.
\<close>

record 'r Vertex =
  vx_txBytes :: bytes
  vx_stateRoot :: 'r

record ('r, 's) InMemoryTangle =
  tg_vertices :: "TransactionID \<rightharpoonup> 'r Vertex"
  tg_state :: 's

definition NewInMemoryTangle :: "'s \<Rightarrow> ('r, 's) InMemoryTangle" where
  "NewInMemoryTangle state = \<lparr>tg_vertices = Map.empty, tg_state = state\<rparr>"

definition GetVertex :: "TransactionID \<Rightarrow> ('r, 's) InMemoryTangle \<Rightarrow> 'r Vertex option" where
  "GetVertex txid t = tg_vertices t txid"

definition HasVertex :: "TransactionID \<Rightarrow> ('r, 's) InMemoryTangle \<Rightarrow> bool" where
  "HasVertex txid t = (case tg_vertices t txid of None \<Rightarrow> False | Some _ \<Rightarrow> True)"

lemma HasVertex_iff: "HasVertex txid t \<longleftrightarrow> (\<exists>v. GetVertex txid t = Some v)"
  by (simp add: HasVertex_def GetVertex_def split: option.splits)

lemma NewInMemoryTangle_empty [simp]: "\<not> HasVertex txid (NewInMemoryTangle state)"
  by (simp add: HasVertex_def NewInMemoryTangle_def)

end
