(* ===== verification/Spec2Isabelle.thy ===== *)
theory Spec2Isabelle
  imports LedgerWitnesses ScriptWitnesses CodecWitnesses PrintWitnesses AuthorityWitnesses PaymentWitnesses Tangle
begin

text \<open>
  A model of easyutxo (the Go packages under \<^verbatim>\<open>src/\<close>), a ledger of unspent outputs whose outputs carry their
  own validity rules as scripts.

  \<^bold>\<open>The program.\<close> A transaction is a tree of nested byte arrays (package \<^verbatim>\<open>lazyslice\<close>). An output is an array of
  constraints, each of them bytecode of the embedded language EasyFL; positions 0, 1 and 2 hold the amount,
  the time stamp and the lock. To validate a transaction (\<^verbatim>\<open>ledger/state/validate.go\<close>) the program puts it
  in a tree together with the outputs it consumes and evaluates every constraint of every consumed and
  produced output against that tree. The ledger state (\<^verbatim>\<open>ledger/state/state.go\<close>) is a Merkle trie from output
  ids to outputs, and \<^verbatim>\<open>Update\<close> moves it by one transaction. An indexer (\<^verbatim>\<open>ledger/indexer\<close>) keeps the outputs by
  account and by chain from the commands that validation returns. \<^verbatim>\<open>ledger/utxodb\<close> puts the state, the indexer
  and a faucet together, and \<^verbatim>\<open>ledger/txbuilder\<close> makes and reads transactions.

  \<^bold>\<open>Conventions.\<close> Bytes are \<open>8 word\<close>, a byte slice is a list of them, and the unsigned integers of Go keep their
  widths. A Go \<^verbatim>\<open>error\<close> and a Go panic are the two kinds of the left values of \<open>'a res\<close>; \<^verbatim>\<open>common.CatchPanic\<close>
  turns the second into the first (\<open>catch_panic\<close>). A method that writes its receiver has type
  \<open>('a, 's) op\<close>, a function of the old state to a result and the new state. Definitions keep
  the Go names; a method \<^verbatim>\<open>m\<close> of type \<^verbatim>\<open>T\<close> is \<open>T_m\<close> where the bare name is taken. A reader of a lazily parsed
  object returns the object again, since reading fills its cache.

  \<^bold>\<open>Theories and sources.\<close>
  \<^item> \<open>Prelude\<close>: results, state-threading operations, big-endian integers, number printing.
  \<^item> \<open>LazyCodec\<close>, \<open>LazyArray\<close>, \<open>LazyTree\<close> (\<^verbatim>\<open>lazyslice/lazyslice.go\<close>): the wire format, the array with its
    parsed and serialised form, and the tree with its cache of subtrees. Which byte strings parse
    is characterised exactly. The locale \<open>growable_list\<close> states what the array promises, \<open>cached_reader\<close> what
    the tree promises; \<open>Loops\<close> has the \<^verbatim>\<open>ForEach\<close> loops.
  \<^item> \<open>EasyFL\<close>, \<open>Constraints\<close>, \<open>ConstraintCodec\<close>, \<open>Scripts\<close>, \<open>ScriptProps\<close> (\<^verbatim>\<open>ledger/constraints\<close>): the interface to
    the engine, the Go side of every constraint type, the registry and its initialisation, one definition
    per EasyFL formula of the sources, and what each formula enforces when a constraint at a position
    of the tree is evaluated. \<open>LocalLibrary\<close> has the local libraries of \<^verbatim>\<open>extensions.go\<close>.
  \<^item> \<open>Transaction\<close> (\<^verbatim>\<open>ledger/common.go\<close>, \<^verbatim>\<open>state/tx.go\<close>, \<^verbatim>\<open>state/txcontext.go\<close>), \<open>Validation\<close>
    (\<^verbatim>\<open>state/validate.go\<close>), \<open>Authority\<close>: ids, the transaction, its context, \<^verbatim>\<open>Validate\<close>, and who
    must have signed a transaction that passes.
  \<^item> \<open>Indexer\<close> (\<^verbatim>\<open>indexer/indexer.go\<close>), \<open>TokenLedger\<close>, \<open>LedgerState\<close> (\<^verbatim>\<open>state/state.go\<close>), \<open>IndexSync\<close>, \<open>UtxoDB\<close>
    (\<^verbatim>\<open>utxodb/utxodb.go\<close>): \<open>TokenLedger\<close> is the abstract specification, a state of outputs under ids
    that accepted transactions move. Its locales \<open>token_ledger\<close> and \<open>indexed_ledger\<close> hold what is proved
    about whole histories, by rule induction over \<open>ledger_run\<close>; \<open>LedgerState\<close> interprets the first on
    \<^verbatim>\<open>Updatable\<close>, \<open>UtxoDB\<close> the second on \<^verbatim>\<open>UTXODB\<close>.
  \<^item> \<open>Outputs\<close> (\<^verbatim>\<open>txbuilder/output.go\<close>), \<open>TxBuilder\<close> (\<^verbatim>\<open>txbuilder/txbuilder.go\<close>), \<open>TransferValid\<close>, \<open>Acceptance\<close>:
    outputs, the builder with its transfers, the proof that a simple transfer made by the builder passes
    \<^verbatim>\<open>Validate\<close>, and the proof that what passes is accepted by the ledger and the index.
  \<^item> \<open>WellFormed\<close>, \<open>Accounts\<close>, \<open>Payments\<close>: what each output of a ledger looks like (locale \<open>guarded_ledger\<close>,
    interpreted on the ledger state), when the queries of the database return, and that
    \<^verbatim>\<open>TransferTokens\<close> and \<^verbatim>\<open>TokensFromFaucet\<close> go through from the query of the account to the index.
  \<^item> \<open>ChainTransfer\<close>, \<open>ChainPayments\<close>: the other transfer of \<^verbatim>\<open>txbuilder.go\<close>, which draws on a chain and on outputs
    locked with it. It is always built, and accepted exactly when the chain output is older than the time
    stamp the builder chose.
  \<^item> \<open>Rendering\<close> (\<^verbatim>\<open>txbuilder/misc.go\<close>, \<^verbatim>\<open>constraints/general.go\<close> and the printers of the other files), \<open>Tangle\<close>
    (\<^verbatim>\<open>tangle/tangle.go\<close>).
  \<^item> \<open>RefEngine\<close>, \<open>Demo\<close> and the theories \<open>...Witnesses\<close>: concrete parameters for which all laws below hold, a
    database, a payment, a transaction with chains and their locks, and the theorems applied to them.

  \<^bold>\<open>What is shown.\<close> For the serialisation: encoding and parsing are inverse, the encoding is the shortest
  possible one, arrays refine bounded lists, and a tree answers as an uncached read of its bytes. For
  the constraints: which values read back from their bytecode (all but time locks, deadline locks that
  name a chain lock, and general scripts under a registered prefix), and that the formulas mean what the
  Go side and the comments say, with the exceptions listed below. For validation: it accepts exactly
  when every output is valid, the sums are equal and the transaction carries the hash of what it
  consumes (\<open>output_valid\<close> says what that is without the loops of the code); it conserves tokens
  without wrapping around; an address-locked output needs its owner's signature, and a chain-locked one
  the chain's. For the ledger: the supply is constant, no output is the input of two accepted
  transactions, an update adds and removes exactly what the bytes of the transaction list, a rejected
  transaction changes nothing (unless the store fails to commit), and with a reliable store a
  validated one is always accepted. For the database: the index by
  account is exactly the index of the outputs, the balance of an address is the sum of its outputs, and
  it can be read exactly as long as they have time stamps. For the builder: a funded simple transfer is
  built, validates and reaches the ledger and the index; a new database starts and its faucet pays; and
  a chain transfer is accepted under an exact condition on time.

  \<^bold>\<open>Parameters and their laws.\<close> Code outside the repository is an argument; what is used of it is a predicate
  that the theorems name as a hypothesis, and \<open>RefEngine\<close> and \<open>Demo\<close> show that all of them hold together.
  \<^item> The EasyFL engine (record \<open>easyfl\<close>): \<open>easyfl_laws\<close> is what the built-ins used in the sources
    compute; \<open>compile_laws\<close> that a call of a constraint with literal arguments compiles to bytecode that
    parses back to it; \<open>runs_library\<close> that evaluating such bytecode runs the formula of the source.
    BLAKE2b and the verification of ED25519 signatures belong to this record.
  \<^item> The trie and its store (\<open>trie_model\<close>, \<open>trie_laws\<close>), the indexer's store (\<open>kv_store\<close>, \<open>kv_laws\<close>);
    \<open>store_reliable\<close> and \<open>kv_reliable\<close> say that a commit does not fail.
  \<^item> ED25519 signing (\<open>signer_laws\<close>), \<^verbatim>\<open>sort.Slice\<close> (\<open>sort_laws\<close>), and the text functions of EasyFL
    (\<open>text_api\<close>, no laws). \<open>env_laws\<close> collects what the database needs.
  \<^item> Theorems about a history assume that the hash tells the accepted transactions apart
    (\<open>inj_on (Sum256 E) (set H)\<close>) and gives none of them the id of the genesis transaction.
  \<^item> The wall clock (\<^verbatim>\<open>time.Now\<close>) is an argument \<open>now\<close>.

  \<^bold>\<open>Loops and bounds.\<close> Loops over data in hand are structural recursion or a \<open>function\<close> with a measure
  (\<open>PutAtIdxGrow_loop\<close>). The loops that ask for their bound anew in each round, and those of
  \<^verbatim>\<open>misc.go\<close> that count with a byte, are \<open>partial_function (option)\<close>, where \<open>None\<close> is a run without end;
  \<open>tree_foreach_walks\<close> and \<open>context_printing_returns\<close> say when they return. The evaluator of \<open>RefEngine\<close> recurses
  on the length of the bytecode. No fuel is used. An array has at most 16383 elements; the
  inputs, outputs and constraints of a transaction are read with the limit 256, since an index is a byte.

  \<^bold>\<open>Where the code does not do what it means to.\<close> The theorems state what the code does; these cases are
  stated as theorems of their own:
  \<open>endorsement_check_inverted\<close> (\<^verbatim>\<open>tx.go\<close>), \<open>timelock_not_readable\<close> and \<open>deadline_chain_lock_not_readable\<close>
  (the registered parsers), \<open>deadline_lock_reversed\<close> (\<^verbatim>\<open>lock_deadline.go\<close>), \<open>chain_fork_accepted\<close> and
  \<open>forked_chain_validates\<close> (\<^verbatim>\<open>chain.go\<close>: two outputs may continue one chain), \<open>array_constraint_arguments_panic\<close>
  (\<^verbatim>\<open>validate.go\<close>), \<open>failed_commit_loses_ledger\<close> (\<^verbatim>\<open>state.go\<close>), \<open>root_is_never_updated\<close> (\<^verbatim>\<open>utxodb.go\<close>),
  \<open>account_returns_iff\<close> with \<open>unstamped_output_validates\<close> (\<^verbatim>\<open>validate.go\<close> and \<^verbatim>\<open>output.go\<close>: an output without a
  time stamp is accepted and makes the account of its lock unreadable),
  \<open>transition_signature_misplaced\<close> and \<open>chain_transfer_accepted_iff\<close> (\<^verbatim>\<open>txbuilder.go\<close>: the chain output's own time
  stamp is not looked at), \<open>push_past_limit\<close> (\<^verbatim>\<open>lazyslice.go\<close>),
  \<open>context_printing_returns\<close> (\<^verbatim>\<open>misc.go\<close>) and \<open>PathToString_valid_branches_wrong\<close> (\<^verbatim>\<open>validate.go\<close>).

  \<^bold>\<open>Not modelled.\<close> Traces and their options, which only print. The mutexes: calls come one
  after the other. The EasyFL engine, package unitrie and the cryptography, which are not in the
  repository. \<^verbatim>\<open>test/main.go\<close> and \<^verbatim>\<open>experiments/endiannness\<close>, programs of their own that print a greeting and
  encodings of numbers; the Go tests.
\<close>

end
